(* ===== verification/Prelude.thy ===== *)
theory Prelude
  imports Main "HOL-Library.Word" "HOL-Library.Monad_Syntax" "HOL-Library.Sublist"
begin

text \<open>
  Shared vocabulary of the development: the machine integers of the C sources, C strings as
  byte lists, the option monad in which \<open>None\<close> stands for an execution that has no
  defined continuation (an out-of-bounds access, a dereference of a word that is no pointer,
  \<open>exit\<close>), and generic lemmas on lists, options and words used by several components.
\<close>

section \<open>Types and rule collections\<close>

unbundle bit_operations_syntax

type_synonym byte = "8 word"
type_synonym u16 = "16 word"
type_synonym u32 = "32 word"
type_synonym u64 = "64 word"

text \<open>A C string is the list of the bytes before its terminating NUL.\<close>

type_synonym cstr = "byte list"

named_theorems mem_simps
  \<open>equations that evaluate reads and writes of the memory model\<close>
named_theorems alloc_simps
  \<open>what the allocators return and leave unchanged\<close>
named_theorems jit_simps
  \<open>unfolding of the code emitters\<close>

section \<open>String literals as bytes\<close>

definition bs :: "string \<Rightarrow> byte list" where
  "bs s = map (\<lambda>c. of_char c) s"

lemma bs_simps [simp]:
  "bs [] = []"
  "bs (c # s) = of_char c # bs s"
  by (simp_all add: bs_def)

lemma bs_append [simp]: "bs (s @ t) = bs s @ bs t"
  by (simp add: bs_def)

lemma length_bs [simp]: "length (bs s) = length s"
  by (simp add: bs_def)

section \<open>C strings inside byte blocks\<close>

text \<open>
  \<open>c_str b\<close> reads the string stored at the start of the block \<open>b\<close>: \<open>None\<close> when the block
  holds no NUL, since \<open>strlen\<close> would then run past its end.
\<close>

fun c_str :: "byte list \<Rightarrow> cstr option" where
  "c_str [] = None"
| "c_str (b # xs) = (if b = 0 then Some [] else map_option ((#) b) (c_str xs))"

definition c_strlen :: "byte list \<Rightarrow> nat option" where
  "c_strlen b = map_option length (c_str b)"

lemma c_str_append_nul [simp]: "0 \<notin> set s \<Longrightarrow> c_str (s @ 0 # xs) = Some s"
  by (induction s) auto

lemma c_str_SomeD:
  "c_str b = Some s \<Longrightarrow> 0 \<notin> set s \<and> length s < length b \<and> take (length s) b = s \<and> b ! length s = 0"
  by (induction b arbitrary: s) (auto split: if_splits)

lemma c_str_no_nul: "c_str b = Some s \<Longrightarrow> 0 \<notin> set s"
  by (simp add: c_str_SomeD)

lemma c_str_None_iff: "c_str b = None \<longleftrightarrow> 0 \<notin> set b"
  by (induction b) auto

section \<open>Lists\<close>

lemma nth_list_update_if: "i < length xs \<Longrightarrow> xs[j := v] ! i = (if i = j then v else xs ! i)"
  by (simp add: nth_list_update)

lemma drop_Cons_replicate [simp]: "drop n (x # replicate n x) = [x]"
proof -
  have "drop n (replicate (Suc n) x) = [x]" by (simp only: drop_replicate) simp
  then show ?thesis by simp
qed

lemma map_of_append_notin: "k \<notin> fst ` set xs \<Longrightarrow> map_of (xs @ ys) k = map_of ys k"
  by (induction xs) auto

lemma map_of_concat_other:
  assumes "i < length xss"
    and "\<And>j. j < length xss \<Longrightarrow> j \<noteq> i \<Longrightarrow> k \<notin> fst ` set (xss ! j)"
  shows "map_of (concat xss) k = map_of (xss ! i) k"
  using assms
proof (induction xss arbitrary: i)
  case Nil
  then show ?case by simp
next
  case (Cons xs xss)
  show ?case
  proof (cases i)
    case 0
    have "k \<notin> fst ` set ys" if "ys \<in> set xss" for ys
      using that Cons.prems(2) [of "Suc _"] 0 by (auto simp: in_set_conv_nth)
    then have "map_of (concat xss) k = None"
      by (auto simp: map_of_eq_None_iff)
    then show ?thesis
      using 0 by (simp add: map_add_def split: option.splits)
  next
    case (Suc j)
    have "k \<notin> fst ` set xs"
      using Cons.prems(2) [of 0] Suc by simp
    moreover have "map_of (concat xss) k = map_of (xss ! j) k"
    proof (rule Cons.IH)
      show "j < length xss" using Cons.prems(1) Suc by simp
      show "k \<notin> fst ` set (xss ! l)" if "l < length xss" "l \<noteq> j" for l
        using Cons.prems(2) [of "Suc l"] that Suc by simp
    qed
    ultimately show ?thesis
      using Suc by (simp add: map_of_append_notin flip: map_of_append)
  qed
qed

section \<open>Machine words\<close>

text \<open>
  Equality of two words of a fixed width is decided bit by bit: the quantifier over the bit
  positions unfolds to a conjunction that the bit rules evaluate.
\<close>

lemma all_less_numeral:
  "(\<forall>n < numeral k. P n) \<longleftrightarrow> P (pred_numeral k) \<and> (\<forall>n < pred_numeral k. P n)" for P :: "nat \<Rightarrow> bool"
  by (simp add: numeral_eq_Suc) (auto simp: less_Suc_eq)

lemma word8_eqI: "(\<forall>n < 8. bit (a :: 8 word) n = bit b n) \<Longrightarrow> a = b"
  by (rule bit_word_eqI) simp

lemma word32_eqI: "(\<forall>n < 32. bit (a :: 32 word) n = bit b n) \<Longrightarrow> a = b"
  by (rule bit_word_eqI) simp

lemma word64_eqI: "(\<forall>n < 64. bit (a :: 64 word) n = bit b n) \<Longrightarrow> a = b"
  by (rule bit_word_eqI) simp

lemma unat_less_take_bit: "unat w < 2 ^ k \<Longrightarrow> take_bit k w = w" for w :: "'a::len word"
  by (simp add: word_unat_eq_iff unsigned_take_bit_eq take_bit_nat_eq_self)

lemma unat_less_not_bit: "unat w < 2 ^ k \<Longrightarrow> k \<le> n \<Longrightarrow> \<not> bit w n" for w :: "'a::len word"
  using unat_less_take_bit [of w k] bit_take_bit_iff [of k w n] by auto

lemma sint_small: "unat w < 2 ^ (LENGTH('a) - 1) \<Longrightarrow> sint w = int (unat w)" for w :: "'a::len word"
proof -
  assume "unat w < 2 ^ (LENGTH('a) - 1)"
  then have 1: "uint w < 2 ^ (LENGTH('a) - 1)"
    unfolding unat_eq_nat_uint using nat_less_iff [OF unsigned_greater_eq [of w], of "2 ^ (LENGTH('a) - 1)"]
    by (simp only: nat_power_eq of_nat_power of_nat_numeral)
  have 2: "signed_take_bit (LENGTH('a) - 1) (uint w) = uint w"
    by (rule signed_take_bit_int_eq_self [OF _ 1])
      (meson unsigned_greater_eq neg_le_0_iff_le order_trans zero_le_numeral zero_le_power)
  show ?thesis using 2 by (simp only: sint_uint uint_nat One_nat_def)
qed

lemma unat_of_nat_u32 [simp]: "n < 2 ^ 32 \<Longrightarrow> unat (of_nat n :: u32) = n"
  by (simp add: unat_of_nat)

lemma unat_of_nat_u64 [simp]: "n < 2 ^ 64 \<Longrightarrow> unat (of_nat n :: u64) = n"
  by (simp add: unat_of_nat)

lemma scast_of_nat: "n < 2 ^ 31 \<Longrightarrow> scast (of_nat n :: u32) = (of_nat n :: u64)"
  using sint_small [of "of_nat n :: u32"] by (simp add: scast_eq)

lemma ucast_of_nat: "n < 2 ^ 32 \<Longrightarrow> ucast (of_nat n :: u32) = (of_nat n :: u64)"
  by (simp add: word_unat_eq_iff unsigned_ucast_eq take_bit_nat_eq_self)

lemma unat_ucast_up [simp]: "unat (ucast (w :: u32) :: u64) = unat w"
  using unsigned_less [of w, where 'a = nat]  by (simp add: unsigned_ucast_eq take_bit_nat_eq_self)

lemma unat_ucast_down: "unat w < 2 ^ 32 \<Longrightarrow> unat (ucast (w :: u64) :: u32) = unat w"
  by (simp add: unsigned_ucast_eq take_bit_nat_eq_self)

lemma unat_plus_small: "unat a + unat b < 2 ^ LENGTH('a) \<Longrightarrow> unat (a + b :: 'a::len word) = unat a + unat b"
  by (simp add: unat_word_ariths)

lemma unat_mod_less_length: "0 < n \<Longrightarrow> unat (w :: 'a::len word) mod n < n"
  by simp

end
