(* ===== verification/Memory.thy ===== *)
theory Memory
  imports Prelude
begin

text \<open>
  The data of \<^verbatim>\<open>src/sledge/minilisp.h\<close> and the memory the C code works on. A machine word
  is a value: an integer \<open>W w\<close> (NULL is \<open>W 0\<close>), a pointer \<open>P obj offset\<close> into an object,
  or \<open>F obj\<close>, the word that compiled functions push to tag a stack frame (the address of
  the object with \<open>STACK_FRAME_MARKER\<close> or-ed into it). The two unions of a \<open>Cell\<close> hold
  one word each, so that a member read through the other name sees the same word.

  Objects are the cells of the cell heap, the byte blocks and pointer arrays handed out by the
  host's \<open>malloc\<close> (which is taken to succeed: the code never checks it), streams,
  filesystems and entry points of compiled code. Every access is checked: reading through a
  word that is no valid pointer, past the end of a block or from an uninitialised array
  element gives \<open>None\<close>.
\<close>

section \<open>Tags and error codes\<close>

definition TAG_FREED :: u64 where "TAG_FREED = 0"
definition TAG_INT :: u64 where "TAG_INT = 1"
definition TAG_CONS :: u64 where "TAG_CONS = 2"
definition TAG_SYM :: u64 where "TAG_SYM = 3"
definition TAG_LAMBDA :: u64 where "TAG_LAMBDA = 4"
definition TAG_BUILTIN :: u64 where "TAG_BUILTIN = 5"
definition TAG_BIGNUM :: u64 where "TAG_BIGNUM = 6"
definition TAG_STR :: u64 where "TAG_STR = 7"
definition TAG_BYTES :: u64 where "TAG_BYTES = 8"
definition TAG_VEC :: u64 where "TAG_VEC = 9"
definition TAG_STRUCT_DEF :: u64 where "TAG_STRUCT_DEF = 10"
definition TAG_STRUCT :: u64 where "TAG_STRUCT = 11"
definition TAG_ERROR :: u64 where "TAG_ERROR = 512"
definition TAG_ANY :: u64 where "TAG_ANY = 2048"
definition TAG_VOID :: u64 where "TAG_VOID = 4096"
definition TAG_STREAM :: u64 where "TAG_STREAM = 8192"
definition TAG_FS :: u64 where "TAG_FS = 16384"
definition TAG_MARK :: u64 where "TAG_MARK = 65536"

lemmas tag_defs =
  TAG_FREED_def TAG_INT_def TAG_CONS_def TAG_SYM_def TAG_LAMBDA_def TAG_BUILTIN_def
  TAG_BIGNUM_def TAG_STR_def TAG_BYTES_def TAG_VEC_def TAG_STRUCT_DEF_def TAG_STRUCT_def
  TAG_ERROR_def TAG_ANY_def TAG_VOID_def TAG_STREAM_def TAG_FS_def

definition ERR_SYNTAX :: u32 where "ERR_SYNTAX = 0"
definition ERR_MAX_EVAL_DEPTH :: u32 where "ERR_MAX_EVAL_DEPTH = 1"
definition ERR_UNKNOWN_OP :: u32 where "ERR_UNKNOWN_OP = 2"
definition ERR_APPLY_NIL :: u32 where "ERR_APPLY_NIL = 3"
definition ERR_INVALID_PARAM_TYPE :: u32 where "ERR_INVALID_PARAM_TYPE = 4"
definition ERR_OUT_OF_BOUNDS :: u32 where "ERR_OUT_OF_BOUNDS = 5"
definition ERR_OUT_OF_MEMORY :: u32 where "ERR_OUT_OF_MEMORY = 666"

definition SYM_INIT_BUFFER_SIZE :: u32 where "SYM_INIT_BUFFER_SIZE = 32"
definition MAX_SYMBOL_SIZE :: nat where "MAX_SYMBOL_SIZE = 64"
definition MAX_CELLS :: nat where "MAX_CELLS = 100000"
definition STACK_FRAME_MARKER :: u64 where "STACK_FRAME_MARKER = 0xf000000000000001"

section \<open>Values, cells and the memory state\<close>

datatype obj = OCell nat | OBytes nat | OVec nat | OStream nat | OFs nat | OEnv nat | OCode nat

datatype val = W u64 | P obj nat | F obj

abbreviation NULL :: val where "NULL \<equiv> W 0"
abbreviation cellp :: "nat \<Rightarrow> val" where "cellp i \<equiv> P (OCell i) 0"
abbreviation bytesp :: "nat \<Rightarrow> val" where "bytesp b \<equiv> P (OBytes b) 0"
abbreviation vecp :: "nat \<Rightarrow> val" where "vecp v \<equiv> P (OVec v) 0"

record cell =
  c_ar :: val
  c_dr :: val
  c_tag :: u64

record filesystem =
  mount_point :: val
  open_fn :: val
  close_fn :: val
  read_fn :: val
  write_fn :: val
  delete_fn :: val
  mmap_fn :: val

record stream =
  s_id :: u32
  s_path :: val
  s_fs :: val

record env_entry =
  e_cell :: val
  e_name :: cstr

text \<open>
  The globals of \<^verbatim>\<open>alloc.c\<close> and \<^verbatim>\<open>stream.c\<close>, and the variable \<open>_file_cell\<close> of
  \<^verbatim>\<open>src/devices/posixfs.c\<close>. The lists \<open>blocks\<close>, \<open>vecs\<close>,
  \<open>streams\<close>, \<open>fss\<close> and \<open>envs\<close> are what \<open>malloc\<close> has handed out so far; an uninitialised array
  element is \<open>None\<close>.
\<close>

record mem =
  cell_heap :: "nat \<Rightarrow> cell"
  cells_used :: nat
  free_list :: "nat \<Rightarrow> val"
  free_list_avail :: nat
  free_list_consumed :: nat
  blocks :: "byte list list"
  vecs :: "val option list list"
  streams :: "stream list"
  fss :: "filesystem list"
  envs :: "env_entry list"
  fs_list :: val
  num_fs :: u32
  stream_id :: u32
  file_cell :: val

section \<open>Access\<close>

fun as_cell :: "val \<Rightarrow> nat option" where
  "as_cell (P (OCell i) off) = (if off = 0 \<and> i < MAX_CELLS then Some i else None)"
| "as_cell _ = None"

definition get_cell :: "mem \<Rightarrow> val \<Rightarrow> cell option" where
  "get_cell m p = map_option (cell_heap m) (as_cell p)"

definition upd_cell :: "val \<Rightarrow> (cell \<Rightarrow> cell) \<Rightarrow> mem \<Rightarrow> mem option" where
  "upd_cell p f m =
     map_option (\<lambda>i. m\<lparr>cell_heap := (cell_heap m)(i := f (cell_heap m i))\<rparr>) (as_cell p)"

fun as_word :: "val \<Rightarrow> u64 option" where
  "as_word (W w) = Some w"
| "as_word _ = None"

text \<open>The macros \<open>car\<close> and \<open>cdr\<close>: NULL at NULL, whatever the tag of the cell is.\<close>

definition car :: "mem \<Rightarrow> val \<Rightarrow> val option" where
  "car m x = (if x = NULL then Some NULL else map_option c_ar (get_cell m x))"

definition cdr :: "mem \<Rightarrow> val \<Rightarrow> val option" where
  "cdr m x = (if x = NULL then Some NULL else map_option c_dr (get_cell m x))"

text \<open>The bytes of a block from where a pointer points to its end.\<close>

fun block_at :: "mem \<Rightarrow> val \<Rightarrow> byte list option" where
  "block_at m (P (OBytes b) off) =
     (if b < length (blocks m) \<and> off \<le> length (blocks m ! b)
      then Some (drop off (blocks m ! b)) else None)"
| "block_at m _ = None"

definition read_cstr :: "mem \<Rightarrow> val \<Rightarrow> cstr option" where
  "read_cstr m p = Option.bind (block_at m p) c_str"

definition read_bytes :: "mem \<Rightarrow> val \<Rightarrow> nat \<Rightarrow> byte list option" where
  "read_bytes m p n =
     (if n = 0 then Some []
      else do { blk \<leftarrow> block_at m p; if n \<le> length blk then Some (take n blk) else None })"

definition overlay :: "nat \<Rightarrow> byte list \<Rightarrow> byte list \<Rightarrow> byte list" where
  "overlay off ds blk = take off blk @ ds @ drop (off + length ds) blk"

fun write_bytes :: "val \<Rightarrow> byte list \<Rightarrow> mem \<Rightarrow> mem option" where
  "write_bytes (P (OBytes b) off) ds m =
     (if b < length (blocks m) \<and> off + length ds \<le> length (blocks m ! b)
      then Some (m\<lparr>blocks := (blocks m)[b := overlay off ds (blocks m ! b)]\<rparr>) else None)"
| "write_bytes _ ds m = None"

fun ptr_add :: "val \<Rightarrow> nat \<Rightarrow> val" where
  "ptr_add (P x off) n = P x (off + n)"
| "ptr_add (W w) n = W (w + of_nat n)"
| "ptr_add (F x) n = F x"

fun as_vec :: "mem \<Rightarrow> val \<Rightarrow> val option list option" where
  "as_vec m (P (OVec v) off) = (if off = 0 \<and> v < length (vecs m) then Some (vecs m ! v) else None)"
| "as_vec m _ = None"

definition vec_get :: "mem \<Rightarrow> val \<Rightarrow> nat \<Rightarrow> val option" where
  "vec_get m p i = do { xs \<leftarrow> as_vec m p; if i < length xs then xs ! i else None }"

fun vec_set :: "val \<Rightarrow> nat \<Rightarrow> val \<Rightarrow> mem \<Rightarrow> mem option" where
  "vec_set (P (OVec v) off) i x m =
     (if off = 0 \<and> v < length (vecs m) \<and> i < length (vecs m ! v)
      then Some (m\<lparr>vecs := (vecs m)[v := (vecs m ! v)[i := Some x]]\<rparr>) else None)"
| "vec_set _ i x m = None"

fun as_stream :: "mem \<Rightarrow> val \<Rightarrow> stream option" where
  "as_stream m (P (OStream s) off) = (if off = 0 \<and> s < length (streams m) then Some (streams m ! s) else None)"
| "as_stream m _ = None"

fun as_fs :: "mem \<Rightarrow> val \<Rightarrow> filesystem option" where
  "as_fs m (P (OFs f) off) = (if off = 0 \<and> f < length (fss m) then Some (fss m ! f) else None)"
| "as_fs m _ = None"

fun as_env :: "mem \<Rightarrow> val \<Rightarrow> env_entry option" where
  "as_env m (P (OEnv e) off) = (if off = 0 \<and> e < length (envs m) then Some (envs m ! e) else None)"
| "as_env m _ = None"

section \<open>Evaluation of accesses\<close>

lemma get_cell_simps [mem_simps, simp]:
  "i < MAX_CELLS \<Longrightarrow> get_cell m (cellp i) = Some (cell_heap m i)"
  "get_cell m (W w) = None"
  by (simp_all add: get_cell_def)

lemma upd_cell_simps [mem_simps, simp]:
  "i < MAX_CELLS \<Longrightarrow> upd_cell (cellp i) f m = Some (m\<lparr>cell_heap := (cell_heap m)(i := f (cell_heap m i))\<rparr>)"
  by (simp add: upd_cell_def)

lemma cell_overwrite [mem_simps, simp]:
  "(c :: cell)\<lparr>c_tag := t, c_ar := a, c_dr := d\<rparr> = \<lparr>c_ar = a, c_dr = d, c_tag = t\<rparr>"
  by (cases c) simp

lemma as_cell_Some_iff: "as_cell p = Some i \<longleftrightarrow> p = cellp i \<and> i < MAX_CELLS"
  by (induction p rule: as_cell.induct) auto

lemma get_cell_Some_iff: "get_cell m p = Some c \<longleftrightarrow> (\<exists>i. p = cellp i \<and> i < MAX_CELLS \<and> c = cell_heap m i)"
  by (auto simp: get_cell_def as_cell_Some_iff)

lemma upd_cell_Some_iff:
  "upd_cell p f m = Some m' \<longleftrightarrow>
   (\<exists>i. p = cellp i \<and> i < MAX_CELLS \<and> m' = m\<lparr>cell_heap := (cell_heap m)(i := f (cell_heap m i))\<rparr>)"
  by (auto simp: upd_cell_def as_cell_Some_iff)

lemma length_overlay [simp]: "off + length ds \<le> length blk \<Longrightarrow> length (overlay off ds blk) = length blk"
  by (simp add: overlay_def)

lemma overlay_0 [simp]: "overlay 0 ds blk = ds @ drop (length ds) blk"
  by (simp add: overlay_def)

lemma nth_overlay:
  "off + length ds \<le> length blk \<Longrightarrow> i < length blk \<Longrightarrow>
   overlay off ds blk ! i = (if off \<le> i \<and> i < off + length ds then ds ! (i - off) else blk ! i)"
  by (auto simp: overlay_def nth_append)

lemma write_bytes_Some_iff:
  "write_bytes p ds m = Some m' \<longleftrightarrow>
   (\<exists>b off. p = P (OBytes b) off \<and> b < length (blocks m) \<and> off + length ds \<le> length (blocks m ! b)
      \<and> m' = m\<lparr>blocks := (blocks m)[b := overlay off ds (blocks m ! b)]\<rparr>)"
  by (cases "(p, ds, m)" rule: write_bytes.cases) auto

end
