(* ===== verification/Jit.thy ===== *)
theory Jit
  imports Memory
begin

text \<open>
  The interface between the compiler and the code generators: one constructor per \<open>jit_\<close> function that
  \<^verbatim>\<open>src/sledge/compiler_new.c\<close> calls. The compiler emits a list of these; each backend
  (\<^verbatim>\<open>jit_x64.c\<close>, \<^verbatim>\<open>jit_arm_raw.c\<close>, \<^verbatim>\<open>jit_x86.c\<close>) turns every one into
  text or machine code. Registers are the numbers of the enumeration \<open>jit_reg\<close>; addresses known at
  compile time are words of the memory model.
\<close>

text \<open>The C functions compiled code calls.\<close>

datatype hostfn =
  Host_alloc_int | Host_alloc_nil | Host_alloc_cons | Host_alloc_concat | Host_alloc_substr
  | Host_alloc_num_bytes | Host_alloc_num_string | Host_alloc_string_from_bytes
  | Host_alloc_struct_def | Host_alloc_struct | Host_insert_global_symbol
  | Host_lisp_write_to_cell | Host_read_string_cell | Host_platform_eval | Host_collect_garbage
  | Host_list_symbols | Host_lisp_print | Host_fs_mount | Host_fs_mmap | Host_fs_open
  | Host_stream_read | Host_stream_write | Host_debug_handler | Host_inline_mod

type_synonym label = "byte list"

datatype jit =
  JMovi nat val | JMovr nat nat | JMovneg nat nat | JMovne nat nat | JMoveq nat nat
  | JLea nat val | JLdr nat | JLdr_stack nat int | JStr_stack nat int | JInc_stack int | JDec_stack int
  | JLdrb nat | JLdrs nat | JLdrw nat | JStrb nat | JStrs nat | JStrw nat | JStra nat
  | JAddr nat nat | JAddi nat int | JAndr nat nat | JNotr nat | JOrr nat nat | JXorr nat nat
  | JShrr nat nat | JShlr nat nat | JSubr nat nat | JMulr nat nat | JDivr nat nat | JModr nat nat
  | JHost_call_enter | JHost_call_exit | JCall hostfn string | JCallr nat
  | JCmpi nat int | JCmpr nat nat | JJe label | JJne label | JJge label | JJneg label | JJmp label
  | JLabel label | JRet | JPush nat nat | JPop nat nat | JComment "byte list"

text \<open>Register numbers of \<open>enum jit_reg\<close> and \<open>enum arg_reg\<close> on x64; \<open>RSP\<close> is \<open>R12\<close> there.\<close>

definition R0 :: nat where "R0 = 0"
definition R1 :: nat where "R1 = 1"
definition R2 :: nat where "R2 = 2"
definition R3 :: nat where "R3 = 3"
definition R4 :: nat where "R4 = 4"
definition ARGR0 :: nat where "ARGR0 = 1"
definition ARGR1 :: nat where "ARGR1 = 2"
definition ARGR2 :: nat where "ARGR2 = 3"
definition RSP :: nat where "RSP = 12"

lemmas reg_defs = R0_def R1_def R2_def R3_def R4_def ARGR0_def ARGR1_def ARGR2_def RSP_def

end
