(* ===== verification/StrMap.thy ===== *)
theory StrMap
  imports Prelude
begin

text \<open>
  The string hash table \<^verbatim>\<open>src/sledge/strmap.c\<close> that holds the global environment.
  A bucket is the list of its pairs (\<open>Bucket.count\<close> is the length of that list), the map the
  list of its buckets (\<open>StrMap.count\<close> is the number of buckets). Pointers that the code
  compares with NULL are options. An operation returns \<open>None\<close> where the C code divides by
  the number of buckets of a map that has none; otherwise the value is what the C function
  returns together with the new map. The outcome of each \<open>malloc\<close> and \<open>realloc\<close> is an
  argument, so that the error paths are part of the model.
\<close>

section \<open>Data\<close>

record 'v pair =
  pkey :: "cstr option"
  pvalue :: "'v option"

record 'v strmap =
  buckets :: "'v pair list list"

section \<open>Operations\<close>

text \<open>\<open>char\<close> is signed on the hosted targets, so a byte is sign-extended before it is added.\<close>

fun hash_from :: "u64 \<Rightarrow> cstr \<Rightarrow> u64" where
  "hash_from h [] = h"
| "hash_from h (c # str) = hash_from ((push_bit 5 h + h) + scast c) str"

definition hash :: "cstr \<Rightarrow> u64" where
  "hash str = hash_from 5381 str"

definition sm_index :: "'v strmap \<Rightarrow> cstr \<Rightarrow> nat option" where
  "sm_index m key =
     (if length (buckets m) = 0 then None
      else Some (unat (hash key) mod length (buckets m)))"

text \<open>The position of the first pair of a bucket whose key matches.\<close>

fun get_pair :: "'v pair list \<Rightarrow> cstr \<Rightarrow> nat option" where
  "get_pair [] key = None"
| "get_pair (p # ps) key =
     (if pkey p \<noteq> None \<and> pvalue p \<noteq> None \<and> pkey p = Some key then Some 0
      else map_option Suc (get_pair ps key))"

definition sm_new :: "bool \<Rightarrow> bool \<Rightarrow> nat \<Rightarrow> 'v strmap option" where
  "sm_new map_ok buckets_ok capacity =
     (if \<not> map_ok then None
      else if \<not> buckets_ok then None
      else Some \<lparr>buckets = replicate capacity []\<rparr>)"

definition sm_get :: "'v strmap option \<Rightarrow> cstr option \<Rightarrow> 'v option option" where
  "sm_get smap key =
     (case smap of
        None \<Rightarrow> Some None
      | Some m \<Rightarrow>
        (case key of
           None \<Rightarrow> Some None
         | Some k \<Rightarrow>
           do {
             index \<leftarrow> sm_index m k;
             let bucket = buckets m ! index;
             Some (case get_pair bucket k of
                     None \<Rightarrow> None
                   | Some j \<Rightarrow> pvalue (bucket ! j))
           }))"

definition sm_exists :: "'v strmap option \<Rightarrow> cstr option \<Rightarrow> nat option" where
  "sm_exists smap key =
     (case smap of
        None \<Rightarrow> Some 0
      | Some m \<Rightarrow>
        (case key of
           None \<Rightarrow> Some 0
         | Some k \<Rightarrow>
           do {
             index \<leftarrow> sm_index m k;
             Some (case get_pair (buckets m ! index) k of None \<Rightarrow> 0 | Some _ \<Rightarrow> 1)
           }))"

definition sm_put ::
  "bool \<Rightarrow> bool \<Rightarrow> 'v strmap option \<Rightarrow> cstr option \<Rightarrow> 'v option \<Rightarrow> (nat \<times> 'v strmap option) option"
where
  "sm_put key_ok pairs_ok smap key value =
     (case smap of
        None \<Rightarrow> Some (0, None)
      | Some m \<Rightarrow>
        (case (key, value) of
           (Some k, Some v) \<Rightarrow>
             do {
               index \<leftarrow> sm_index m k;
               let bucket = buckets m ! index;
               (case get_pair bucket k of
                  Some j \<Rightarrow>
                    Some (1, Some (m\<lparr>buckets := (buckets m)[index := bucket[j := (bucket ! j)\<lparr>pvalue := Some v\<rparr>]]\<rparr>))
                | None \<Rightarrow>
                    if \<not> key_ok then Some (0, Some m)
                    else if \<not> pairs_ok then Some (0, Some m)
                    else Some (1, Some (m\<lparr>buckets := (buckets m)[index := bucket @ [\<lparr>pkey = Some k, pvalue = Some v\<rparr>]]\<rparr>)))
             }
         | _ \<Rightarrow> Some (0, Some m)))"

text \<open>The counting loops of \<open>sm_get_count\<close>; the counter is an \<open>unsigned int\<close>.\<close>

fun count_pairs :: "'v pair list \<Rightarrow> u32 \<Rightarrow> u32" where
  "count_pairs [] count = count"
| "count_pairs (p # ps) count = count_pairs ps (count + 1)"

fun count_buckets :: "'v pair list list \<Rightarrow> u32 \<Rightarrow> u32" where
  "count_buckets [] count = count"
| "count_buckets (b # rest) count = count_buckets rest (count_pairs b count)"

definition sm_get_count :: "'v strmap option \<Rightarrow> u32" where
  "sm_get_count smap = (case smap of None \<Rightarrow> 0 | Some m \<Rightarrow> count_buckets (buckets m) 0)"

text \<open>
  \<open>sm_enum\<close> runs a callback on every pair, in bucket order. The callback acts on a state of
  the caller (a static variable in the uses of the program) and may itself be stuck.
\<close>

fun enum_pairs :: "(cstr option \<Rightarrow> 'v option \<Rightarrow> 's \<Rightarrow> 's option) \<Rightarrow> 'v pair list \<Rightarrow> 's \<Rightarrow> 's option" where
  "enum_pairs f [] s = Some s"
| "enum_pairs f (p # ps) s = do { s' \<leftarrow> f (pkey p) (pvalue p) s; enum_pairs f ps s' }"

fun enum_buckets :: "(cstr option \<Rightarrow> 'v option \<Rightarrow> 's \<Rightarrow> 's option) \<Rightarrow> 'v pair list list \<Rightarrow> 's \<Rightarrow> 's option" where
  "enum_buckets f [] s = Some s"
| "enum_buckets f (b # rest) s = do { s' \<leftarrow> enum_pairs f b s; enum_buckets f rest s' }"

definition sm_enum ::
  "'v strmap option \<Rightarrow> (cstr option \<Rightarrow> 'v option \<Rightarrow> 's \<Rightarrow> 's option) option \<Rightarrow> 's \<Rightarrow> (nat \<times> 's) option"
where
  "sm_enum smap enum_func s =
     (case smap of
        None \<Rightarrow> Some (0, s)
      | Some m \<Rightarrow>
        (case enum_func of
           None \<Rightarrow> Some (0, s)
         | Some f \<Rightarrow> map_option (Pair 1) (enum_buckets f (buckets m) s)))"

text \<open>
  \<open>sm_delete\<close> hands every block of the table to \<open>free\<close>. A block is named by the pointer
  that owns it: the map, its array of buckets, the array of pairs of bucket \<open>i\<close>, the key of
  pair \<open>j\<close> of bucket \<open>i\<close>. The result is the sequence of the calls with a pointer that is not
  NULL (\<open>pairs\<close> is NULL in an empty bucket); the values are not freed.
\<close>

datatype sm_block = Map_block | Buckets_block | Pairs_block nat | Key_block nat nat

fun free_keys :: "nat \<Rightarrow> nat \<Rightarrow> 'v pair list \<Rightarrow> sm_block list" where
  "free_keys i j [] = []"
| "free_keys i j (p # ps) =
     (if pkey p = None then [] else [Key_block i j]) @ free_keys i (j + 1) ps"

fun free_buckets :: "nat \<Rightarrow> 'v pair list list \<Rightarrow> sm_block list" where
  "free_buckets i [] = []"
| "free_buckets i (b # rest) =
     free_keys i 0 b @ (if b = [] then [] else [Pairs_block i]) @ free_buckets (i + 1) rest"

definition sm_delete :: "'v strmap option \<Rightarrow> sm_block list" where
  "sm_delete smap =
     (case smap of
        None \<Rightarrow> []
      | Some m \<Rightarrow> free_buckets 0 (buckets m) @ [Buckets_block, Map_block])"

section \<open>Invariant and abstraction\<close>

definition pair_ok :: "'v pair \<Rightarrow> bool" where
  "pair_ok p \<longleftrightarrow> pkey p \<noteq> None \<and> pvalue p \<noteq> None"

definition sm_inv :: "'v strmap \<Rightarrow> bool" where
  "sm_inv m \<longleftrightarrow>
     buckets m \<noteq> [] \<and>
     (\<forall>i < length (buckets m). \<forall>p \<in> set (buckets m ! i).
        pair_ok p \<and> unat (hash (the (pkey p))) mod length (buckets m) = i) \<and>
     (\<forall>b \<in> set (buckets m). distinct (map pkey b))"

definition binding :: "'v pair \<Rightarrow> cstr \<times> 'v" where
  "binding p = (the (pkey p), the (pvalue p))"

definition sm_bindings :: "'v strmap \<Rightarrow> (cstr \<times> 'v) list" where
  "sm_bindings m = concat (map (map binding) (buckets m))"

text \<open>The finite map a hash table stands for; it does not mention the hash function.\<close>

definition sm_abs :: "'v strmap \<Rightarrow> cstr \<rightharpoonup> 'v" where
  "sm_abs m = map_of (sm_bindings m)"

section \<open>Lookup inside a bucket\<close>

lemma binding_simps [simp]:
  "fst (binding p) = the (pkey p)"
  "snd (binding p) = the (pvalue p)"
  "binding \<lparr>pkey = Some k, pvalue = Some v\<rparr> = (k, v)"
  by (simp_all add: binding_def)

lemma get_pair_less: "get_pair b k = Some j \<Longrightarrow> j < length b"
  by (induction b arbitrary: j) (auto split: if_splits)

lemma get_pair_key: "get_pair b k = Some j \<Longrightarrow> pkey (b ! j) = Some k"
  by (induction b arbitrary: j) (auto split: if_splits)

lemma get_pair_map_of:
  "(\<forall>p \<in> set b. pair_ok p) \<Longrightarrow>
   (case get_pair b k of None \<Rightarrow> None | Some j \<Rightarrow> pvalue (b ! j)) = map_of (map binding b) k"
proof (induction b)
  case (Cons p b)
  then show ?case
    by (auto simp: pair_ok_def binding_def split: option.splits)
qed simp

lemma get_pair_None_iff:
  "(\<forall>p \<in> set b. pair_ok p) \<Longrightarrow> get_pair b k = None \<longleftrightarrow> Some k \<notin> pkey ` set b"
  by (induction b) (auto simp: pair_ok_def)

lemma map_of_bucket_update:
  assumes "\<forall>p \<in> set b. pair_ok p" "distinct (map pkey b)" "get_pair b k = Some j"
  shows "map_of (map binding (b[j := (b ! j)\<lparr>pvalue := Some v\<rparr>])) = (map_of (map binding b))(k \<mapsto> v)"
  using assms
proof (induction b arbitrary: j)
  case (Cons p b)
  show ?case
  proof (cases "pkey p = Some k")
    case True
    with Cons.prems have "j = 0" by (auto simp: pair_ok_def)
    with True show ?thesis by (auto simp: binding_def fun_eq_iff)
  next
    case False
    with Cons.prems obtain j' where "j = Suc j'" "get_pair b k = Some j'" by auto
    with Cons.prems Cons.IH [of j'] False show ?thesis
      by (auto simp: binding_def pair_ok_def fun_upd_twist)
  qed
qed simp

lemma bucket_keys:
  "(\<forall>p \<in> set b. pair_ok p) \<Longrightarrow> fst ` set (map binding b) = {k. Some k \<in> pkey ` set b}"
  by (induction b) (auto simp: pair_ok_def)

section \<open>The invariant gives the representation\<close>

lemma sm_inv_bucket_pairs: "sm_inv m \<Longrightarrow> i < length (buckets m) \<Longrightarrow> \<forall>p \<in> set (buckets m ! i). pair_ok p"
  by (simp add: sm_inv_def)

lemma sm_inv_pair:
  "sm_inv m \<Longrightarrow> i < length (buckets m) \<Longrightarrow> p \<in> set (buckets m ! i) \<Longrightarrow>
   pair_ok p \<and> unat (hash (the (pkey p))) mod length (buckets m) = i"
  unfolding sm_inv_def by blast

lemma sm_inv_index: "sm_inv m \<Longrightarrow> \<exists>i. sm_index m k = Some i \<and> i < length (buckets m)"
  by (simp add: sm_inv_def sm_index_def)

lemma sm_abs_bucket:
  assumes inv: "sm_inv m" and idx: "sm_index m k = Some i"
  shows "sm_abs m k = map_of (map binding (buckets m ! i)) k"
proof -
  have i: "i = unat (hash k) mod length (buckets m)" "i < length (buckets m)"
    using idx by (auto simp: sm_index_def split: if_splits)
  have "k \<notin> fst ` set (map (map binding) (buckets m) ! j)"
    if "j < length (map (map binding) (buckets m))" "j \<noteq> i" for j
  proof -
    have "Some k \<notin> pkey ` set (buckets m ! j)"
    proof
      assume "Some k \<in> pkey ` set (buckets m ! j)"
      then obtain p where "p \<in> set (buckets m ! j)" "pkey p = Some k" by auto
      with sm_inv_pair [OF inv, of j p] that i show False by simp
    qed
    moreover have "\<forall>p \<in> set (buckets m ! j). pair_ok p"
      using inv that by (simp add: sm_inv_def)
    ultimately have "k \<notin> fst ` set (map binding (buckets m ! j))"
      using bucket_keys by blast
    with that show ?thesis by simp
  qed
  then have "map_of (concat (map (map binding) (buckets m))) k = map_of (map (map binding) (buckets m) ! i) k"
    using i by (intro map_of_concat_other) auto
  then show ?thesis
    using i by (simp add: sm_abs_def sm_bindings_def)
qed

lemma sm_inv_update_bucket:
  assumes "sm_inv m" "i < length (buckets m)"
    and "\<forall>p \<in> set b. pair_ok p \<and> unat (hash (the (pkey p))) mod length (buckets m) = i"
    and "distinct (map pkey b)"
  shows "sm_inv (m\<lparr>buckets := (buckets m)[i := b]\<rparr>)"
  using assms by (auto simp: sm_inv_def nth_list_update dest!: set_update_subset_insert [THEN subsetD])

lemma sm_abs_update_bucket:
  assumes inv: "sm_inv m" and idx: "sm_index m k = Some i"
    and inv': "sm_inv (m\<lparr>buckets := (buckets m)[i := b]\<rparr>)"
    and b: "map_of (map binding b) = (map_of (map binding (buckets m ! i)))(k \<mapsto> v)"
  shows "sm_abs (m\<lparr>buckets := (buckets m)[i := b]\<rparr>) = (sm_abs m)(k \<mapsto> v)"
proof
  fix k'
  obtain i' where i': "sm_index m k' = Some i'" "i' < length (buckets m)"
    using sm_inv_index [OF inv] by blast
  have "sm_index (m\<lparr>buckets := (buckets m)[i := b]\<rparr>) k' = Some i'"
    using i' by (simp add: sm_index_def split: if_splits)
  from sm_abs_bucket [OF inv' this]
  have "sm_abs (m\<lparr>buckets := (buckets m)[i := b]\<rparr>) k' = map_of (map binding ((buckets m)[i := b] ! i')) k'"
    by simp
  then show "sm_abs (m\<lparr>buckets := (buckets m)[i := b]\<rparr>) k' = ((sm_abs m)(k \<mapsto> v)) k'"
    using i' idx b sm_abs_bucket [OF inv i'(1)] by (cases "i' = i") auto
qed

section \<open>Operations refine a finite map\<close>

lemma sm_new_inv: "0 < n \<Longrightarrow> sm_new True True n = Some m \<Longrightarrow> sm_inv m \<and> sm_abs m = Map.empty"
proof -
  assume "0 < n" "sm_new True True n = Some m"
  then have m: "m = \<lparr>buckets = replicate n []\<rparr>" by (simp add: sm_new_def)
  have "concat (replicate n []) = ([] :: (cstr \<times> 'a) list)" by (induction n) auto
  with m \<open>0 < n\<close> show ?thesis
    by (simp add: sm_inv_def sm_abs_def sm_bindings_def)
qed

lemma sm_get_abs: "sm_inv m \<Longrightarrow> sm_get (Some m) (Some k) = Some (sm_abs m k)"
proof -
  assume inv: "sm_inv m"
  obtain i where i: "sm_index m k = Some i" "i < length (buckets m)"
    using sm_inv_index [OF inv] by blast
  then show ?thesis
    using sm_abs_bucket [OF inv i(1)] get_pair_map_of [OF sm_inv_bucket_pairs [OF inv i(2)]]
    by (simp add: sm_get_def)
qed

lemma sm_put_replace:
  fixes m :: "'v strmap" and v :: 'v
  assumes inv: "sm_inv m" and i: "sm_index m k = Some i" "i < length (buckets m)"
    and j: "get_pair (buckets m ! i) k = Some j"
  defines "b \<equiv> (buckets m ! i)[j := (buckets m ! i ! j)\<lparr>pvalue := Some v\<rparr>]"
  shows "sm_inv (m\<lparr>buckets := (buckets m)[i := b]\<rparr>)"
    and "sm_abs (m\<lparr>buckets := (buckets m)[i := b]\<rparr>) = (sm_abs m)(k \<mapsto> v)"
proof -
  have ok: "\<forall>p \<in> set (buckets m ! i). pair_ok p" and dist: "distinct (map pkey (buckets m ! i))"
    using inv i by (auto simp: sm_inv_def)
  have idx: "\<forall>p \<in> set (buckets m ! i). unat (hash (the (pkey p))) mod length (buckets m) = i"
    using inv i by (auto simp: sm_inv_def)
  have jlt: "j < length (buckets m ! i)" using j by (rule get_pair_less)
  have keys: "map pkey b = map pkey (buckets m ! i)"
    by (simp add: b_def map_update jlt list_update_same_conv)
  show inv': "sm_inv (m\<lparr>buckets := (buckets m)[i := b]\<rparr>)"
  proof (rule sm_inv_update_bucket [OF inv i(2)])
    show "\<forall>p \<in> set b. pair_ok p \<and> unat (hash (the (pkey p))) mod length (buckets m) = i"
      using ok idx jlt by (auto simp: b_def pair_ok_def dest!: set_update_subset_insert [THEN subsetD])
    show "distinct (map pkey b)" using keys dist by simp
  qed
  show "sm_abs (m\<lparr>buckets := (buckets m)[i := b]\<rparr>) = (sm_abs m)(k \<mapsto> v)"
    by (rule sm_abs_update_bucket [OF inv i(1) inv'])
      (simp add: b_def map_of_bucket_update [OF ok dist j])
qed

lemma sm_put_append:
  fixes m :: "'v strmap" and v :: 'v
  assumes inv: "sm_inv m" and i: "sm_index m k = Some i" "i < length (buckets m)"
    and j: "get_pair (buckets m ! i) k = None"
  defines "b \<equiv> buckets m ! i @ [\<lparr>pkey = Some k, pvalue = Some v\<rparr>]"
  shows "sm_inv (m\<lparr>buckets := (buckets m)[i := b]\<rparr>)"
    and "sm_abs (m\<lparr>buckets := (buckets m)[i := b]\<rparr>) = (sm_abs m)(k \<mapsto> v)"
proof -
  have ok: "\<forall>p \<in> set (buckets m ! i). pair_ok p" and dist: "distinct (map pkey (buckets m ! i))"
    using inv i by (auto simp: sm_inv_def)
  have new: "Some k \<notin> pkey ` set (buckets m ! i)"
    using j get_pair_None_iff [OF ok] by blast
  have k: "unat (hash k) mod length (buckets m) = i"
    using i by (auto simp: sm_index_def split: if_splits)
  show inv': "sm_inv (m\<lparr>buckets := (buckets m)[i := b]\<rparr>)"
  proof (rule sm_inv_update_bucket [OF inv i(2)])
    show "\<forall>p \<in> set b. pair_ok p \<and> unat (hash (the (pkey p))) mod length (buckets m) = i"
      using inv i k by (auto simp: b_def pair_ok_def sm_inv_def)
    show "distinct (map pkey b)" using dist new by (auto simp: b_def)
  qed
  have "k \<notin> fst ` set (map binding (buckets m ! i))"
    using new by (simp only: bucket_keys [OF ok] mem_Collect_eq not_False_eq_True)
  then have "map_of (map binding (buckets m ! i)) k = None"
    by (simp add: map_of_eq_None_iff)
  then have "map_of (map binding b) = (map_of (map binding (buckets m ! i)))(k \<mapsto> v)"
    by (auto simp: b_def map_add_def fun_eq_iff split: option.splits)
  then show "sm_abs (m\<lparr>buckets := (buckets m)[i := b]\<rparr>) = (sm_abs m)(k \<mapsto> v)"
    by (rule sm_abs_update_bucket [OF inv i(1) inv'])
qed

text \<open>An insertion that finds memory stores the value and returns 1.\<close>

lemma sm_put_ok:
  assumes inv: "sm_inv m"
  shows "\<exists>m'. sm_put True True (Some m) (Some k) (Some v) = Some (1, Some m')
              \<and> sm_inv m' \<and> sm_abs m' = (sm_abs m)(k \<mapsto> v)"
proof -
  obtain i where i: "sm_index m k = Some i" "i < length (buckets m)"
    using sm_inv_index [OF inv] by blast
  show ?thesis
    by (cases "get_pair (buckets m ! i) k")
      (use i sm_put_replace [OF inv i] sm_put_append [OF inv i] in \<open>simp_all add: sm_put_def Let_def\<close>)
qed

section \<open>Enumeration\<close>

lemma enum_pairs_collect:
  "enum_pairs (\<lambda>k v acc. Some (acc @ [(the k, the v)])) b acc = Some (acc @ map binding b)"
  by (induction b arbitrary: acc) (auto simp: binding_def)

lemma enum_buckets_collect:
  "enum_buckets (\<lambda>k v acc. Some (acc @ [(the k, the v)])) bss acc
     = Some (acc @ concat (map (map binding) bss))"
  by (induction bss arbitrary: acc) (auto simp: enum_pairs_collect)

lemma count_pairs_length: "count_pairs b n = n + of_nat (length b)"
  by (induction b arbitrary: n) (auto simp: algebra_simps)

lemma count_buckets_length: "count_buckets bss n = n + of_nat (length (concat bss))"
  by (induction bss arbitrary: n) (auto simp: count_pairs_length algebra_simps)

lemma distinct_bucket_keys:
  "(\<forall>p \<in> set b. pair_ok p) \<Longrightarrow> distinct (map pkey b) \<Longrightarrow> distinct (map fst (map binding b))"
  by (induction b) (auto simp: pair_ok_def image_iff)

lemma distinct_concat_nth:
  assumes "\<And>i. i < length xss \<Longrightarrow> distinct (xss ! i)"
    and "\<And>i j. i < length xss \<Longrightarrow> j < length xss \<Longrightarrow> i \<noteq> j \<Longrightarrow> set (xss ! i) \<inter> set (xss ! j) = {}"
  shows "distinct (concat xss)"
  using assms
proof (induction xss)
  case (Cons xs xss)
  have "distinct xs" using Cons.prems(1) [of 0] by simp
  moreover have "distinct (concat xss)"
  proof (rule Cons.IH)
    show "distinct (xss ! i)" if "i < length xss" for i
      using Cons.prems(1) [of "Suc i"] that by simp
    show "set (xss ! i) \<inter> set (xss ! j) = {}" if "i < length xss" "j < length xss" "i \<noteq> j" for i j
      using Cons.prems(2) [of "Suc i" "Suc j"] that by simp
  qed
  moreover have "set xs \<inter> set (concat xss) = {}"
  proof -
    have "set xs \<inter> set (xss ! j) = {}" if "j < length xss" for j
      using Cons.prems(2) [of 0 "Suc j"] that by simp
    then show ?thesis by (fastforce simp: in_set_conv_nth)
  qed
  ultimately show ?case by simp
qed simp

lemma sm_bindings_distinct:
  assumes inv: "sm_inv m"
  shows "distinct (map fst (sm_bindings m))"
proof -
  have "distinct (concat (map (map fst) (map (map binding) (buckets m))))"
  proof (rule distinct_concat_nth)
    show "distinct (map (map fst) (map (map binding) (buckets m)) ! i)"
      if "i < length (map (map fst) (map (map binding) (buckets m)))" for i
    proof -
      have "distinct (map pkey (buckets m ! i))" using inv that by (simp add: sm_inv_def)
      then show ?thesis
        using distinct_bucket_keys [OF sm_inv_bucket_pairs [OF inv]] that by simp
    qed
    show "set (map (map fst) (map (map binding) (buckets m)) ! i)
        \<inter> set (map (map fst) (map (map binding) (buckets m)) ! j) = {}"
      if "i < length (map (map fst) (map (map binding) (buckets m)))"
        "j < length (map (map fst) (map (map binding) (buckets m)))" "i \<noteq> j" for i j
      using that sm_inv_pair [OF inv, of i] sm_inv_pair [OF inv, of j] by auto metis
  qed
  then show ?thesis
    by (simp add: sm_bindings_def map_concat)
qed

section \<open>Deletion\<close>

text \<open>The blocks that \<open>sm_new\<close> and the calls of \<open>sm_put\<close> have allocated for a table.\<close>

definition sm_blocks :: "'v strmap \<Rightarrow> sm_block set" where
  "sm_blocks m =
     {Map_block, Buckets_block} \<union>
     {Pairs_block i |i. i < length (buckets m) \<and> buckets m ! i \<noteq> []} \<union>
     {Key_block i j |i j. i < length (buckets m) \<and> j < length (buckets m ! i)}"

lemma free_keys_blocks:
  "\<forall>p \<in> set ps. pair_ok p \<Longrightarrow> free_keys i j ps = map (Key_block i) [j..<j + length ps]"
proof (induction ps arbitrary: j)
  case (Cons p ps)
  have "free_keys i j (p # ps) = Key_block i j # map (Key_block i) [j + 1..<j + 1 + length ps]"
    using Cons by (simp add: pair_ok_def)
  also have "\<dots> = map (Key_block i) [j..<j + length (p # ps)]"
    by (simp add: upt_conv_Cons del: upt_Suc)
  finally show ?case .
qed simp

lemma set_free_buckets:
  assumes "\<forall>b \<in> set bss. \<forall>p \<in> set b. pair_ok p"
  shows "set (free_buckets i bss) =
     {Pairs_block (i + k) |k. k < length bss \<and> bss ! k \<noteq> []} \<union>
     {Key_block (i + k) j |k j. k < length bss \<and> j < length (bss ! k)}"
  using assms
proof (induction bss arbitrary: i)
  case (Cons b bss)
  have less: "k < Suc (length bss) \<longleftrightarrow> k = 0 \<or> (\<exists>k'. k = Suc k' \<and> k' < length bss)" for k
    by (auto simp: less_Suc_eq_0_disj)
  have ok: "\<forall>p \<in> set b. pair_ok p" "\<forall>b \<in> set bss. \<forall>p \<in> set b. pair_ok p"
    using Cons.prems by simp_all
  show ?case
    using Cons.IH [OF ok(2), of "i + 1"] by (auto simp: free_keys_blocks [OF ok(1)] less)
qed simp

lemma distinct_free_buckets:
  "\<forall>b \<in> set bss. \<forall>p \<in> set b. pair_ok p \<Longrightarrow> distinct (free_buckets i bss)"
proof (induction bss arbitrary: i)
  case (Cons b bss)
  have "distinct (map (Key_block i) [0..<length b])"
    by (simp add: distinct_map inj_on_def)
  then show ?case
    using Cons by (auto simp: free_keys_blocks set_free_buckets)
qed simp

text \<open>
  Deleting a table releases every block that belongs to it exactly once and nothing else: no
  leak and no double free. The map itself goes last.
\<close>

theorem sm_delete_frees_all:
  assumes "sm_inv m"
  shows "set (sm_delete (Some m)) = sm_blocks m"
    and "distinct (sm_delete (Some m))"
    and "last (sm_delete (Some m)) = Map_block"
proof -
  have ok: "\<forall>b \<in> set (buckets m). \<forall>p \<in> set b. pair_ok p"
    using assms by (metis in_set_conv_nth sm_inv_bucket_pairs)
  show "set (sm_delete (Some m)) = sm_blocks m"
    using set_free_buckets [OF ok, of 0] by (auto simp: sm_delete_def sm_blocks_def)
  show "distinct (sm_delete (Some m))"
    using distinct_free_buckets [OF ok] set_free_buckets [OF ok, of 0] by (auto simp: sm_delete_def)
  show "last (sm_delete (Some m)) = Map_block"
    by (simp add: sm_delete_def)
qed

section \<open>The contract of a symbol table\<close>

text \<open>
  What the compiler relies on: a total lookup, and an insertion that overwrites exactly one
  key. The lemmas of the locale are the ones its clients use.
\<close>

locale symbol_table =
  fixes lookup :: "'m \<Rightarrow> 'k \<Rightarrow> 'v option"
    and insert :: "'k \<Rightarrow> 'v \<Rightarrow> 'm \<Rightarrow> 'm"
    and invar :: "'m \<Rightarrow> bool"
  assumes invar_insert: "invar m \<Longrightarrow> invar (insert k v m)"
    and lookup_insert: "invar m \<Longrightarrow> lookup (insert k v m) = (lookup m)(k \<mapsto> v)"
begin

lemma insert_same: "invar m \<Longrightarrow> lookup (insert k v m) k = Some v"
  by (simp add: lookup_insert)

lemma insert_frame: "invar m \<Longrightarrow> k' \<noteq> k \<Longrightarrow> lookup (insert k v m) k' = lookup m k'"
  by (simp add: lookup_insert)

lemma insert_grows: "invar m \<Longrightarrow> dom (lookup m) \<subseteq> dom (lookup (insert k v m))"
  by (auto simp: lookup_insert)

lemma inserts_invar: "invar m \<Longrightarrow> invar (fold (\<lambda>(k, v). insert k v) kvs m)"
  by (induction kvs arbitrary: m) (auto simp: invar_insert)

lemma inserts_lookup:
  "invar m \<Longrightarrow> lookup (fold (\<lambda>(k, v). insert k v) kvs m) = lookup m ++ map_of (rev kvs)"
proof (induction kvs arbitrary: m)
  case (Cons kv kvs)
  then show ?case
    by (cases kv) (auto simp: invar_insert lookup_insert map_add_def fun_eq_iff split: option.splits)
qed simp

lemma inserts_distinct:
  assumes "invar m" "distinct (map fst kvs)" "(k, v) \<in> set kvs"
  shows "lookup (fold (\<lambda>(k, v). insert k v) kvs m) k = Some v"
proof -
  have "map_of (rev kvs) k = Some v"
    using assms(2,3) by (simp add: rev_map [symmetric])
  then show ?thesis
    using assms(1) by (simp add: inserts_lookup)
qed

end

text \<open>The insertion of the hash table as a function on maps, for a host that has memory.\<close>

definition sm_insert :: "cstr \<Rightarrow> 'v \<Rightarrow> 'v strmap \<Rightarrow> 'v strmap" where
  "sm_insert k v m =
     (case sm_put True True (Some m) (Some k) (Some v) of
        Some (_, Some m') \<Rightarrow> m'
      | _ \<Rightarrow> m)"

definition sm_lookup :: "'v strmap \<Rightarrow> cstr \<Rightarrow> 'v option" where
  "sm_lookup m k = (case sm_get (Some m) (Some k) of Some r \<Rightarrow> r | None \<Rightarrow> None)"

lemma sm_insert_spec: "sm_inv m \<Longrightarrow> sm_inv (sm_insert k v m) \<and> sm_abs (sm_insert k v m) = (sm_abs m)(k \<mapsto> v)"
  using sm_put_ok [of m k v] by (auto simp: sm_insert_def)

lemma sm_lookup_abs: "sm_inv m \<Longrightarrow> sm_lookup m = sm_abs m"
  by (simp add: fun_eq_iff sm_lookup_def sm_get_abs)

interpretation env: symbol_table sm_lookup sm_insert sm_inv
  by unfold_locales (simp_all add: sm_insert_spec sm_lookup_abs)

section \<open>Properties\<close>

text \<open>A sequence of insertions that must all succeed, as the clients of the table make them.\<close>

fun sm_puts :: "(cstr \<times> 'v) list \<Rightarrow> 'v strmap \<Rightarrow> 'v strmap option" where
  "sm_puts [] m = Some m"
| "sm_puts ((k, v) # kvs) m =
     (case sm_put True True (Some m) (Some k) (Some v) of
        Some (r, Some m') \<Rightarrow> if r = 1 then sm_puts kvs m' else None
      | _ \<Rightarrow> None)"

lemma sm_puts_inserts: "sm_inv m \<Longrightarrow> sm_puts kvs m = Some (fold (\<lambda>(k, v). sm_insert k v) kvs m)"
proof (induction kvs arbitrary: m)
  case (Cons kv kvs)
  obtain k v where kv: "kv = (k, v)" by (cases kv)
  obtain m' where "sm_put True True (Some m) (Some k) (Some v) = Some (1, Some m')" "sm_inv m'"
    using sm_put_ok [OF Cons.prems, of k v] by blast
  then show ?case using Cons.IH [of m'] by (simp add: kv sm_insert_def)
qed simp

lemma sm_exists_abs:
  assumes "sm_inv m"
  shows "sm_exists (Some m) (Some k) = Some (if sm_abs m k = None then 0 else 1)"
proof -
  obtain i where i: "sm_index m k = Some i" "i < length (buckets m)" using sm_inv_index [OF assms] by blast
  have "pvalue (buckets m ! i ! j) \<noteq> None" if "get_pair (buckets m ! i) k = Some j" for j
    using sm_inv_bucket_pairs [OF assms i(2)] get_pair_less [OF that] by (auto simp: pair_ok_def)
  then have "sm_abs m k = None \<longleftrightarrow> get_pair (buckets m ! i) k = None"
    using sm_get_abs [OF assms, of k] i(1) by (cases "get_pair (buckets m ! i) k") (auto simp: sm_get_def)
  then show ?thesis using i(1) by (cases "get_pair (buckets m ! i) k") (simp_all add: sm_exists_def)
qed

lemma sm_get_count_abs: "sm_inv m \<Longrightarrow> sm_get_count (Some m) = of_nat (card (dom (sm_abs m)))"
proof -
  assume "sm_inv m"
  then have "card (dom (sm_abs m)) = length (map fst (sm_bindings m))"
    using distinct_card [OF sm_bindings_distinct] by (simp add: sm_abs_def dom_map_of_conv_image_fst)
  then show ?thesis
    by (simp add: sm_get_count_def count_buckets_length sm_bindings_def length_concat comp_def)
qed

text \<open>
  C8: the hash table implements a finite map. Into a new table with at least one bucket, on a host that has memory, any sequence of
  insertions succeeds; afterwards a lookup finds, for every key, the value inserted last, and no other key, \<open>sm_exists\<close> answers
  accordingly, and \<open>sm_get_count\<close> is the number of distinct keys modulo \<open>2 ^ 32\<close>. The table is well formed, and one more insertion
  changes the map at its key only.
\<close>

theorem strmap_refines_map:
  fixes kvs :: "(cstr \<times> 'a) list"
  assumes "0 < n"
  shows "\<exists>m m'. sm_new True True n = Some m \<and> sm_puts kvs m = Some m' \<and> sm_inv m'
    \<and> (\<forall>k. sm_get (Some m') (Some k) = Some (map_of (rev kvs) k))
    \<and> (\<forall>k. sm_exists (Some m') (Some k) = Some (if k \<in> fst ` set kvs then 1 else 0))
    \<and> sm_get_count (Some m') = of_nat (card (fst ` set kvs))
    \<and> (\<forall>k v. \<exists>m''. sm_put True True (Some m') (Some k) (Some v) = Some (1, Some m'')
        \<and> (\<forall>j. sm_get (Some m'') (Some j) = (if j = k then Some (Some v) else sm_get (Some m') (Some j))))"
proof -
  obtain m :: "'a strmap" where m: "sm_new True True n = Some m" "sm_inv m" "sm_abs m = Map.empty"
    using sm_new_inv [OF assms] by (force simp: sm_new_def)
  define m' where "m' = fold (\<lambda>(k, v). sm_insert k v) kvs m"
  have i: "sm_inv m'" unfolding m'_def by (rule env.inserts_invar [OF m(2)])
  have "sm_lookup m' = sm_lookup m ++ map_of (rev kvs)" unfolding m'_def by (rule env.inserts_lookup [OF m(2)])
  then have abs: "sm_abs m' = map_of (rev kvs)" using m(2,3) i by (simp add: sm_lookup_abs)
  have "map_of (rev kvs) k = None \<longleftrightarrow> k \<notin> fst ` set kvs" for k by (simp add: map_of_eq_None_iff)
  moreover have "dom (map_of (rev kvs)) = fst ` set kvs" by (simp add: dom_map_of_conv_image_fst)
  moreover have "\<exists>m''. sm_put True True (Some m') (Some k) (Some v) = Some (1, Some m'')
      \<and> (\<forall>j. sm_get (Some m'') (Some j) = (if j = k then Some (Some v) else sm_get (Some m') (Some j)))" for k v
    using sm_put_ok [OF i, of k v] sm_get_abs i by fastforce
  ultimately show ?thesis
    using m(1) sm_puts_inserts [OF m(2), of kvs] i sm_get_abs [OF i] sm_exists_abs [OF i] sm_get_count_abs [OF i] abs
    by (intro exI [of _ m] exI [of _ m']) (simp add: m'_def [symmetric])
qed

theorem strmap_refines_map_witness:
  "\<exists>m m'. sm_new True True 2 = Some m \<and> sm_puts [(bs ''a'', 5 :: nat), (bs ''b'', 6), (bs ''a'', 7)] m = Some m'
     \<and> sm_get (Some m') (Some (bs ''a'')) = Some (Some 7) \<and> sm_get (Some m') (Some (bs ''c'')) = Some None \<and> sm_get_count (Some m') = 2"
proof -
  have "card {bs ''a'', bs ''b''} = 2" by (simp add: card_insert_if)
  moreover have "map_of (rev [(bs ''a'', 5 :: nat), (bs ''b'', 6), (bs ''a'', 7)]) (bs ''a'') = Some 7"
    "map_of (rev [(bs ''a'', 5 :: nat), (bs ''b'', 6), (bs ''a'', 7)]) (bs ''c'') = None"
    "fst ` set [(bs ''a'', 5 :: nat), (bs ''b'', 6), (bs ''a'', 7)] = {bs ''a'', bs ''b''}" by (simp_all add: insert_commute)
  ultimately show ?thesis
    using strmap_refines_map [of 2 "[(bs ''a'', 5 :: nat), (bs ''b'', 6), (bs ''a'', 7)]"] by (metis of_nat_numeral zero_less_numeral)
qed

text \<open>
  C19: enumerating a well-formed table runs the callback exactly once for every binding of the
  map it stands for (no key twice, none left out), and \<open>sm_get_count\<close> is the number of
  those keys, modulo the width of its \<open>unsigned int\<close> counter.
\<close>

theorem strmap_enum_complete:
  assumes "sm_inv m"
  shows "sm_enum (Some m) (Some (\<lambda>k v acc. Some (acc @ [(the k, the v)]))) [] = Some (1, sm_bindings m)
    \<and> distinct (map fst (sm_bindings m))
    \<and> (\<forall>k v. (k, v) \<in> set (sm_bindings m) \<longleftrightarrow> sm_abs m k = Some v)
    \<and> sm_get_count (Some m) = of_nat (card (dom (sm_abs m)))"
proof -
  have dist: "distinct (map fst (sm_bindings m))"
    using assms by (rule sm_bindings_distinct)
  with sm_get_count_abs [OF assms] show ?thesis
    by (simp add: sm_enum_def enum_buckets_collect sm_bindings_def sm_abs_def)
qed

theorem strmap_enum_complete_witness:
  "sm_enum (Some \<lparr>buckets = [[\<lparr>pkey = Some (bs ''a''), pvalue = Some (7 :: nat)\<rparr>]]\<rparr>)
     (Some (\<lambda>k v acc. Some (acc @ [(the k, the v)]))) [] = Some (1, [(bs ''a'', 7)])"
proof -
  have inv: "sm_inv \<lparr>buckets = [[\<lparr>pkey = Some (bs ''a''), pvalue = Some (7 :: nat)\<rparr>]]\<rparr>"
    by (simp add: sm_inv_def pair_ok_def)
  show ?thesis
    using strmap_enum_complete [OF inv] by (simp add: sm_bindings_def binding_def)
qed

text \<open>
  C20: when the host runs out of memory during an insertion of a new key, \<open>sm_put\<close> returns 0
  and the table is untouched; an insertion at a key that is present needs no memory.
\<close>

theorem strmap_put_out_of_memory:
  assumes "sm_inv m" and "\<not> (key_ok \<and> pairs_ok)"
  shows "sm_put key_ok pairs_ok (Some m) (Some k) (Some v) =
    (if sm_abs m k = None then Some (0, Some m) else sm_put True True (Some m) (Some k) (Some v))"
proof -
  obtain i where i: "sm_index m k = Some i" "i < length (buckets m)"
    using sm_inv_index [OF assms(1)] by blast
  have ok: "\<forall>p \<in> set (buckets m ! i). pair_ok p"
    using assms(1) i(2) by (rule sm_inv_bucket_pairs)
  have "sm_abs m k = None \<longleftrightarrow> get_pair (buckets m ! i) k = None"
    by (simp only: sm_abs_bucket [OF assms(1) i(1)] map_of_eq_None_iff bucket_keys [OF ok]
        get_pair_None_iff [OF ok] mem_Collect_eq)
  then show ?thesis
    using assms(2) i by (auto simp: sm_put_def Let_def split: option.splits)
qed

theorem strmap_put_out_of_memory_witness:
  "sm_put False True (Some \<lparr>buckets = [[]]\<rparr>) (Some (bs ''a'')) (Some (7 :: nat))
     = Some (0, Some \<lparr>buckets = [[]]\<rparr>)"
proof -
  have inv: "sm_inv \<lparr>buckets = [[] :: nat pair list]\<rparr>"
    by (simp add: sm_inv_def)
  show ?thesis
    using strmap_put_out_of_memory [OF inv, of False True "bs ''a''" 7]
    by (simp add: sm_abs_def sm_bindings_def)
qed

end
