(* ===== verification/Alloc.thy ===== *)
theory Alloc
  imports Memory StrMap
begin

text \<open>
  The cell and byte allocators of \<^verbatim>\<open>src/sledge/alloc.c\<close>, without the collector (theory
  \<^verbatim>\<open>GC\<close>). An allocator takes the memory and returns the word the C function returns with
  the new memory; \<open>None\<close> is the \<open>exit(1)\<close> of an exhausted cell heap or a stuck access. A
  recycled cell keeps its old contents until they are overwritten, as in the source, which
  writes only the fields each constructor names.
\<close>

section \<open>The allocator state\<close>

definition zero_cell :: cell where
  "zero_cell = \<lparr>c_ar = NULL, c_dr = NULL, c_tag = 0\<rparr>"

text \<open>The zero-initialised globals of a fresh process.\<close>

definition mem0 :: mem where
  "mem0 = \<lparr>cell_heap = (\<lambda>_. zero_cell), cells_used = 0, free_list = (\<lambda>_. NULL),
     free_list_avail = 0, free_list_consumed = 0, blocks = [], vecs = [], streams = [],
     fss = [], envs = [], fs_list = NULL, num_fs = 0, stream_id = 0, file_cell = NULL\<rparr>"

definition init_allocator :: "mem \<Rightarrow> mem" where
  "init_allocator m = m\<lparr>cells_used := 0, free_list_avail := 0, free_list_consumed := 0,
     cell_heap := (\<lambda>_. zero_cell)\<rparr>"

text \<open>With the cell heap used up the code prints a message and calls \<open>exit(1)\<close>: there is no result.\<close>

definition cell_alloc :: "mem \<Rightarrow> (val \<times> mem) option" where
  "cell_alloc m =
     (if free_list_avail m > free_list_consumed m
      then Some (free_list m (free_list_consumed m),
                 m\<lparr>free_list_consumed := free_list_consumed m + 1\<rparr>)
      else if cells_used m + 1 > MAX_CELLS then None
      else Some (cellp (cells_used m), m\<lparr>cells_used := cells_used m + 1\<rparr>))"

text \<open>
  The code does not check \<open>malloc\<close> before \<open>memset\<close>. A negative \<open>int\<close> becomes a huge \<open>size_t\<close> for which \<open>malloc\<close> returns NULL,
  and the access is not defined; for every other size the host is taken to have the memory.
\<close>

definition bytes_alloc :: "u32 \<Rightarrow> mem \<Rightarrow> (val \<times> mem) option" where
  "bytes_alloc num_bytes m =
     (if sint num_bytes < 0 then None
      else Some (bytesp (length (blocks m)),
                 m\<lparr>blocks := blocks m @ [replicate (unat num_bytes) 0]\<rparr>))"

definition memcpy :: "val \<Rightarrow> val \<Rightarrow> nat \<Rightarrow> mem \<Rightarrow> mem option" where
  "memcpy dst src n m = do { ds \<leftarrow> read_bytes m src n; write_bytes dst ds m }"

definition cell_realloc :: "val \<Rightarrow> u32 \<Rightarrow> u32 \<Rightarrow> mem \<Rightarrow> (val \<times> mem) option" where
  "cell_realloc old_addr old_size num_bytes m =
     do {
       (new, m) \<leftarrow> bytes_alloc (num_bytes + 1) m;
       m \<leftarrow> memcpy new old_addr (unat old_size) m;
       Some (new, m)
     }"

record mem_stats =
  st_byte_heap_used :: nat
  st_byte_heap_max :: nat
  st_cells_used :: nat
  st_cells_max :: nat

definition alloc_stats :: "mem \<Rightarrow> mem_stats" where
  "alloc_stats m = \<lparr>st_byte_heap_used = 0, st_byte_heap_max = 8 * 1024,
     st_cells_used = cells_used m, st_cells_max = MAX_CELLS\<rparr>"

section \<open>Constructors of cells\<close>

definition alloc_cons :: "val \<Rightarrow> val \<Rightarrow> mem \<Rightarrow> (val \<times> mem) option" where
  "alloc_cons a d m =
     do {
       (cons, m) \<leftarrow> cell_alloc m;
       m \<leftarrow> upd_cell cons (\<lambda>c. c\<lparr>c_tag := TAG_CONS, c_ar := a, c_dr := d\<rparr>) m;
       Some (cons, m)
     }"

definition alloc_nil :: "mem \<Rightarrow> (val \<times> mem) option" where
  "alloc_nil m = alloc_cons NULL NULL m"

text \<open>The loop of \<open>alloc_list\<close> counts down; \<open>i\<close> is one more than the index of the source.\<close>

fun alloc_list_from :: "val list \<Rightarrow> nat \<Rightarrow> val \<Rightarrow> mem \<Rightarrow> (val \<times> mem) option" where
  "alloc_list_from items 0 l m = Some (l, m)"
| "alloc_list_from items (Suc i) l m =
     (if i < length items
      then do { (l, m) \<leftarrow> alloc_cons (items ! i) l m; alloc_list_from items i l m }
      else None)"

definition alloc_list :: "val list \<Rightarrow> nat \<Rightarrow> mem \<Rightarrow> (val \<times> mem) option" where
  "alloc_list items num m = do { (l, m) \<leftarrow> alloc_nil m; alloc_list_from items num l m }"

definition alloc_sym :: "cstr option \<Rightarrow> mem \<Rightarrow> (val \<times> mem) option" where
  "alloc_sym str m =
     do {
       (sym, m) \<leftarrow> cell_alloc m;
       m \<leftarrow> upd_cell sym (\<lambda>c. c\<lparr>c_tag := TAG_SYM\<rparr>) m;
       (case str of
          Some s \<Rightarrow>
            do {
              let sz = (of_nat (length s) + 1 :: u32);
              m \<leftarrow> upd_cell sym (\<lambda>c. c\<lparr>c_dr := W (scast sz)\<rparr>) m;
              (a, m) \<leftarrow> bytes_alloc (sz + 1) m;
              m \<leftarrow> upd_cell sym (\<lambda>c. c\<lparr>c_ar := a\<rparr>) m;
              m \<leftarrow> write_bytes a (s @ [0]) m;
              Some (sym, m)
            }
        | None \<Rightarrow>
            do {
              m \<leftarrow> upd_cell sym (\<lambda>c. c\<lparr>c_ar := NULL, c_dr := W 0\<rparr>) m;
              Some (sym, m)
            })
     }"

definition alloc_int :: "u32 \<Rightarrow> mem \<Rightarrow> (val \<times> mem) option" where
  "alloc_int i m =
     do {
       (num, m) \<leftarrow> cell_alloc m;
       m \<leftarrow> upd_cell num (\<lambda>c. c\<lparr>c_tag := TAG_INT, c_ar := W (scast i)\<rparr>) m;
       Some (num, m)
     }"

definition alloc_num_bytes :: "u32 \<Rightarrow> mem \<Rightarrow> (val \<times> mem) option" where
  "alloc_num_bytes num_bytes m =
     do {
       (cell, m) \<leftarrow> cell_alloc m;
       (a, m) \<leftarrow> bytes_alloc (num_bytes + 1) m;
       m \<leftarrow> upd_cell cell (\<lambda>c. c\<lparr>c_ar := a, c_tag := TAG_BYTES, c_dr := W (ucast num_bytes)\<rparr>) m;
       Some (cell, m)
     }"

definition alloc_bytes :: "mem \<Rightarrow> (val \<times> mem) option" where
  "alloc_bytes m = alloc_num_bytes SYM_INIT_BUFFER_SIZE m"

definition alloc_num_string :: "u32 \<Rightarrow> mem \<Rightarrow> (val \<times> mem) option" where
  "alloc_num_string num_bytes m =
     do {
       (cell, m) \<leftarrow> cell_alloc m;
       (a, m) \<leftarrow> bytes_alloc (num_bytes + 1) m;
       m \<leftarrow> upd_cell cell (\<lambda>c. c\<lparr>c_ar := a, c_tag := TAG_STR, c_dr := W (ucast num_bytes)\<rparr>) m;
       Some (cell, m)
     }"

definition alloc_string :: "mem \<Rightarrow> (val \<times> mem) option" where
  "alloc_string m = alloc_num_string SYM_INIT_BUFFER_SIZE m"

definition alloc_string_copy :: "cstr \<Rightarrow> mem \<Rightarrow> (val \<times> mem) option" where
  "alloc_string_copy str m =
     do {
       (cell, m) \<leftarrow> cell_alloc m;
       (a, m) \<leftarrow> bytes_alloc (of_nat (length str) + 1) m;
       m \<leftarrow> upd_cell cell (\<lambda>c. c\<lparr>c_ar := a\<rparr>) m;
       m \<leftarrow> write_bytes a (str @ [0]) m;
       m \<leftarrow> upd_cell cell (\<lambda>c. c\<lparr>c_tag := TAG_STR, c_dr := W (of_nat (length str) + 1)\<rparr>) m;
       Some (cell, m)
     }"

text \<open>Whether a non-NULL cell holds bytes or a string, the test the string functions begin with.\<close>

definition is_bytes :: "cell \<Rightarrow> bool" where
  "is_bytes c \<longleftrightarrow> c_tag c = TAG_BYTES \<or> c_tag c = TAG_STR"

definition alloc_substr :: "val \<Rightarrow> u32 \<Rightarrow> u32 \<Rightarrow> mem \<Rightarrow> (val \<times> mem) option" where
  "alloc_substr str from len m =
     (if str = NULL then alloc_string_copy [] m
      else do {
        s \<leftarrow> get_cell m str;
        if \<not> is_bytes s then alloc_string_copy [] m
        else do {
          size \<leftarrow> as_word (c_dr s);
          let from = (if ucast from \<ge> size then ucast (size - 1) else from);
          let len = (if ucast (len + from) > size then ucast (size - ucast from) else len);
          (cell, m) \<leftarrow> cell_alloc m;
          (a, m) \<leftarrow> bytes_alloc (len + 1) m;
          m \<leftarrow> upd_cell cell (\<lambda>c. c\<lparr>c_ar := a, c_tag := TAG_STR, c_dr := W (ucast len)\<rparr>) m;
          m \<leftarrow> memcpy a (ptr_add (c_ar s) (unat from)) (unat len) m;
          Some (cell, m)
        }
      })"

definition alloc_string_from_bytes :: "val \<Rightarrow> mem \<Rightarrow> (val \<times> mem) option" where
  "alloc_string_from_bytes bytes m =
     (if bytes = NULL then alloc_string_copy [] m
      else do {
        b \<leftarrow> get_cell m bytes;
        if \<not> is_bytes b then alloc_string_copy [] m
        else do {
          size \<leftarrow> as_word (c_dr b);
          if size < 1 then alloc_string_copy [] m
          else do {
            (cell, m) \<leftarrow> cell_alloc m;
            (a, m) \<leftarrow> bytes_alloc (ucast (size + 1)) m;
            m \<leftarrow> upd_cell cell (\<lambda>c. c\<lparr>c_ar := a\<rparr>) m;
            m \<leftarrow> memcpy a (c_ar b) (unat size) m;
            m \<leftarrow> write_bytes (ptr_add a (unat size)) [0] m;
            m \<leftarrow> upd_cell cell (\<lambda>c. c\<lparr>c_tag := TAG_STR, c_dr := W (size + 1)\<rparr>) m;
            Some (cell, m)
          }
        }
      })"

text \<open>\<open>strncpy\<close> pads with zeros up to the given length.\<close>

definition strncpy_bytes :: "cstr \<Rightarrow> nat \<Rightarrow> byte list" where
  "strncpy_bytes s n = take n s @ replicate (n - length s) 0"

definition alloc_concat :: "val \<Rightarrow> val \<Rightarrow> mem \<Rightarrow> (val \<times> mem) option" where
  "alloc_concat str1 str2 m =
     (if str1 = NULL \<or> str2 = NULL then alloc_string_copy [] m
      else do {
        c1 \<leftarrow> get_cell m str1;
        c2 \<leftarrow> get_cell m str2;
        if \<not> is_bytes c1 then alloc_string_copy [] m
        else if \<not> is_bytes c2 then alloc_string_copy [] m
        else do {
          (cell, m) \<leftarrow> cell_alloc m;
          s1 \<leftarrow> read_cstr m (c_ar c1);
          s2 \<leftarrow> read_cstr m (c_ar c2);
          let size1 = (of_nat (length s1) :: u32);
          let size2 = (of_nat (length s2) :: u32);
          let newsize = size1 + size2 + 1;
          (a, m) \<leftarrow> bytes_alloc (newsize + 1) m;
          m \<leftarrow> upd_cell cell (\<lambda>c. c\<lparr>c_ar := a, c_dr := W (scast newsize)\<rparr>) m;
          m \<leftarrow> write_bytes a (strncpy_bytes s1 (unat size1)) m;
          m \<leftarrow> write_bytes (ptr_add a (unat size1))
                (strncpy_bytes s2 (unat (1 + scast newsize - scast size1 :: u64))) m;
          m \<leftarrow> write_bytes (ptr_add a (unat newsize)) [0] m;
          m \<leftarrow> upd_cell cell (\<lambda>c. c\<lparr>c_tag := TAG_STR, c_dr := W (scast newsize)\<rparr>) m;
          Some (cell, m)
        }
      })"

definition alloc_builtin :: "u32 \<Rightarrow> val \<Rightarrow> mem \<Rightarrow> (val \<times> mem) option" where
  "alloc_builtin b signature m =
     do {
       (num, m) \<leftarrow> cell_alloc m;
       m \<leftarrow> upd_cell num (\<lambda>c. c\<lparr>c_tag := TAG_BUILTIN, c_ar := W (ucast b), c_dr := signature\<rparr>) m;
       Some (num, m)
     }"

definition alloc_lambda :: "val \<Rightarrow> mem \<Rightarrow> (val \<times> mem) option" where
  "alloc_lambda args m =
     do {
       (l, m) \<leftarrow> cell_alloc m;
       m \<leftarrow> upd_cell l (\<lambda>c. c\<lparr>c_tag := TAG_LAMBDA, c_ar := args\<rparr>) m;
       Some (l, m)
     }"

text \<open>\<open>malloc\<close> leaves the elements of a vector uninitialised.\<close>

definition alloc_array :: "u64 \<Rightarrow> u32 \<Rightarrow> mem \<Rightarrow> (val \<times> mem) option" where
  "alloc_array tg sz m =
     do {
       (c, m) \<leftarrow> cell_alloc m;
       m \<leftarrow> upd_cell c (\<lambda>x. x\<lparr>c_tag := tg\<rparr>) m;
       if sint sz < 0 then None
       else do {
         let a = vecp (length (vecs m));
         let m = m\<lparr>vecs := vecs m @ [replicate (unat sz) None]\<rparr>;
         m \<leftarrow> upd_cell c (\<lambda>x. x\<lparr>c_ar := a, c_dr := W (scast sz)\<rparr>) m;
         Some (c, m)
       }
     }"

definition alloc_vector :: "u32 \<Rightarrow> mem \<Rightarrow> (val \<times> mem) option" where
  "alloc_vector sz m = alloc_array TAG_VEC sz m"

definition alloc_struct_def :: "u32 \<Rightarrow> mem \<Rightarrow> (val \<times> mem) option" where
  "alloc_struct_def sz m = alloc_array TAG_STRUCT_DEF sz m"

definition is_nil :: "mem \<Rightarrow> val \<Rightarrow> bool option" where
  "is_nil m c =
     (if c = NULL then Some True
      else map_option (\<lambda>x. c_ar x = NULL \<and> c_dr x = NULL) (get_cell m c))"

definition alloc_error :: "u32 \<Rightarrow> mem \<Rightarrow> (val \<times> mem) option" where
  "alloc_error code m =
     do {
       (c, m) \<leftarrow> cell_alloc m;
       m \<leftarrow> upd_cell c (\<lambda>x. x\<lparr>c_tag := TAG_ERROR, c_ar := W (ucast code), c_dr := NULL\<rparr>) m;
       Some (c, m)
     }"

text \<open>
  \<open>alloc_clone\<close> recurses along both fields of a cons and does not end on a cyclic structure:
  the first argument bounds the depth of the recursion.
\<close>

fun alloc_clone :: "nat \<Rightarrow> val \<Rightarrow> mem \<Rightarrow> (val \<times> mem) option" where
  "alloc_clone 0 orig m = None"
| "alloc_clone (Suc fuel) orig m =
     (if orig = NULL then Some (NULL, m)
      else do {
        (clone, m) \<leftarrow> cell_alloc m;
        x \<leftarrow> get_cell m orig;
        m \<leftarrow> upd_cell clone (\<lambda>c. c\<lparr>c_tag := c_tag x, c_ar := NULL, c_dr := c_dr x\<rparr>) m;
        (if c_tag x = TAG_SYM \<or> c_tag x = TAG_STR \<or> c_tag x = TAG_BYTES then
           do {
             size \<leftarrow> as_word (c_dr x);
             (a, m) \<leftarrow> bytes_alloc (ucast (size + 1)) m;
             m \<leftarrow> upd_cell clone (\<lambda>c. c\<lparr>c_ar := a\<rparr>) m;
             m \<leftarrow> memcpy a (c_ar x) (unat size) m;
             Some (clone, m)
           }
         else if c_tag x = TAG_CONS then
           do {
             m \<leftarrow> (if c_ar x \<noteq> NULL
                    then do {
                      (y, m) \<leftarrow> alloc_clone fuel (c_ar x) m;
                      upd_cell clone (\<lambda>c. c\<lparr>c_ar := y\<rparr>) m
                    }
                    else Some m);
             m \<leftarrow> (if c_dr x \<noteq> NULL
                    then do {
                      (y, m) \<leftarrow> alloc_clone fuel (c_dr x) m;
                      upd_cell clone (\<lambda>c. c\<lparr>c_dr := y\<rparr>) m
                    }
                    else Some m);
             Some (clone, m)
           }
         else
           do {
             m \<leftarrow> upd_cell clone (\<lambda>c. c\<lparr>c_ar := c_ar x, c_dr := c_dr x\<rparr>) m;
             Some (clone, m)
           })
      })"

text \<open>The loop of \<open>alloc_struct\<close> from field \<open>i\<close> on; \<open>n\<close> fields are left.\<close>

fun alloc_struct_fields :: "nat \<Rightarrow> val \<Rightarrow> val \<Rightarrow> nat \<Rightarrow> nat \<Rightarrow> mem \<Rightarrow> mem option" where
  "alloc_struct_fields fuel def_elements elements i 0 m = Some m"
| "alloc_struct_fields fuel def_elements elements i (Suc n) m =
     do {
       d \<leftarrow> vec_get m def_elements (i * 2 + 1 + 1);
       (x, m) \<leftarrow> alloc_clone fuel d m;
       m \<leftarrow> vec_set elements (i + 1) x m;
       alloc_struct_fields fuel def_elements elements (Suc i) n m
     }"

definition alloc_struct :: "nat \<Rightarrow> val \<Rightarrow> mem \<Rightarrow> (val \<times> mem) option" where
  "alloc_struct fuel struct_def m =
     do {
       d \<leftarrow> get_cell m struct_def;
       size \<leftarrow> as_word (c_dr d);
       let num_fields = (ucast (size div 2) :: u32);
       (result, m) \<leftarrow> alloc_vector (num_fields + 1) m;
       r \<leftarrow> get_cell m result;
       m \<leftarrow> vec_set (c_ar r) 0 struct_def m;
       m \<leftarrow> alloc_struct_fields fuel (c_ar d) (c_ar r) 0 (nat (sint num_fields)) m;
       m \<leftarrow> upd_cell result (\<lambda>c. c\<lparr>c_tag := TAG_STRUCT\<rparr>) m;
       Some (result, m)
     }"

section \<open>The symbols of an environment\<close>

text \<open>The callback of \<open>list_symbols\<close> on the pair of its static list and the memory.\<close>

definition list_symbols_iter :: "cstr option \<Rightarrow> val option \<Rightarrow> val \<times> mem \<Rightarrow> (val \<times> mem) option" where
  "list_symbols_iter key value st =
     (let (l, m) = st in
      do {
        v \<leftarrow> value;
        e \<leftarrow> as_env m v;
        (s, m) \<leftarrow> alloc_sym (Some (e_name e)) m;
        alloc_cons s l m
      })"

definition list_symbols :: "val strmap option \<Rightarrow> mem \<Rightarrow> (val \<times> mem) option" where
  "list_symbols global_env m =
     do {
       (l, m) \<leftarrow> alloc_nil m;
       (_, st) \<leftarrow> sm_enum global_env (Some list_symbols_iter) (l, m);
       Some st
     }"

section \<open>The allocator invariant\<close>

text \<open>Indices of the free list that are still to be served, and the cells they point to.\<close>

definition free_slots :: "mem \<Rightarrow> nat set" where
  "free_slots m = {free_list_consumed m..<free_list_avail m}"

definition free_ptrs :: "mem \<Rightarrow> val set" where
  "free_ptrs m = free_list m ` free_slots m"

definition live :: "mem \<Rightarrow> val set" where
  "live m = cellp ` {..<cells_used m} - free_ptrs m"

definition alloc_inv :: "mem \<Rightarrow> bool" where
  "alloc_inv m \<longleftrightarrow>
     cells_used m \<le> MAX_CELLS
     \<and> free_ptrs m \<subseteq> cellp ` {..<cells_used m}
     \<and> inj_on (free_list m) (free_slots m)"

definition cells_left :: "mem \<Rightarrow> nat" where
  "cells_left m = (free_list_avail m - free_list_consumed m) + (MAX_CELLS - cells_used m)"

lemma live_cases: "p \<in> live m \<Longrightarrow> alloc_inv m \<Longrightarrow> \<exists>i. p = cellp i \<and> i < cells_used m \<and> i < MAX_CELLS"
  by (auto simp: live_def alloc_inv_def)

lemma alloc_inv_mem0: "alloc_inv (init_allocator m) \<and> live (init_allocator m) = {} \<and> cells_left (init_allocator m) = MAX_CELLS"
  by (simp add: alloc_inv_def init_allocator_def live_def free_ptrs_def free_slots_def cells_left_def)

lemma alloc_inv_frame:
  "alloc_inv m \<Longrightarrow> cells_used m' = cells_used m \<Longrightarrow> free_list m' = free_list m \<Longrightarrow>
   free_list_avail m' = free_list_avail m \<Longrightarrow> free_list_consumed m' = free_list_consumed m \<Longrightarrow>
   alloc_inv m' \<and> live m' = live m \<and> cells_left m' = cells_left m"
  by (simp add: alloc_inv_def live_def free_ptrs_def free_slots_def cells_left_def)

lemma cell_alloc_recycled:
  assumes inv: "alloc_inv m" and av: "free_list_consumed m < free_list_avail m"
  defines "m' \<equiv> m\<lparr>free_list_consumed := free_list_consumed m + 1\<rparr>"
    and "p \<equiv> free_list m (free_list_consumed m)"
  shows "alloc_inv m'" "p \<notin> live m" "live m' = insert p (live m)"
proof -
  have slots: "free_slots m = insert (free_list_consumed m) (free_slots m')" "free_list_consumed m \<notin> free_slots m'"
    using av by (auto simp: free_slots_def m'_def)
  have fl: "free_list m' = free_list m" by (simp add: m'_def)
  have inj: "inj_on (free_list m) (insert (free_list_consumed m) (free_slots m'))"
    using inv slots by (simp add: alloc_inv_def)
  then have p: "p \<notin> free_ptrs m'"
    using slots fl by (auto simp: p_def free_ptrs_def)
  have ptrs: "free_ptrs m = insert p (free_ptrs m')"
    using slots fl by (simp add: free_ptrs_def p_def)
  show "alloc_inv m'"
    using inv inj ptrs fl by (auto simp: alloc_inv_def m'_def)
  show "p \<notin> live m" using ptrs by (simp add: live_def)
  have "p \<in> cellp ` {..<cells_used m}" using inv ptrs by (simp add: alloc_inv_def)
  then show "live m' = insert p (live m)"
    using ptrs p by (auto simp: live_def m'_def)
qed

lemma cell_alloc_fresh:
  assumes inv: "alloc_inv m" and av: "\<not> free_list_consumed m < free_list_avail m" and sp: "cells_used m < MAX_CELLS"
  defines "m' \<equiv> m\<lparr>cells_used := cells_used m + 1\<rparr>"
  shows "alloc_inv m'" "cellp (cells_used m) \<notin> live m" "live m' = insert (cellp (cells_used m)) (live m)"
proof -
  have none: "free_ptrs m = {}" "free_ptrs m' = {}"
    using av by (simp_all add: free_ptrs_def free_slots_def m'_def)
  show "alloc_inv m'"
    using inv none sp by (simp add: alloc_inv_def m'_def free_slots_def)
  show "cellp (cells_used m) \<notin> live m" by (auto simp: live_def)
  show "live m' = insert (cellp (cells_used m)) (live m)"
    using none by (simp add: live_def lessThan_Suc m'_def)
qed

text \<open>
  What \<open>cell_alloc\<close> promises: it succeeds exactly while cells are left, the cell was not in
  use, and nothing but the bookkeeping changes.
\<close>

lemma cell_alloc_spec:
  assumes "alloc_inv m" and "cell_alloc m = Some (p, m')"
  shows "alloc_inv m' \<and> p \<notin> live m \<and> live m' = insert p (live m)"
proof (cases "free_list_consumed m < free_list_avail m")
  case True
  with assms(2) show ?thesis
    using cell_alloc_recycled [OF assms(1) True] by (simp add: cell_alloc_def)
next
  case False
  with assms(2) have "cells_used m < MAX_CELLS" by (simp add: cell_alloc_def split: if_splits)
  with assms(2) False show ?thesis
    using cell_alloc_fresh [OF assms(1) False] by (simp add: cell_alloc_def)
qed

lemma cell_alloc_other:
  assumes "cell_alloc m = Some (p, m')"
  shows "cell_heap m' = cell_heap m \<and> blocks m' = blocks m \<and> vecs m' = vecs m \<and> streams m' = streams m
    \<and> fss m' = fss m \<and> envs m' = envs m \<and> fs_list m' = fs_list m \<and> num_fs m' = num_fs m
    \<and> stream_id m' = stream_id m \<and> file_cell m' = file_cell m"
  using assms by (auto simp: cell_alloc_def split: if_splits)

lemma cell_alloc_None_iff:
  "alloc_inv m \<Longrightarrow> cell_alloc m = None \<longleftrightarrow> cells_left m = 0"
  by (auto simp: cell_alloc_def cells_left_def alloc_inv_def)

lemma cell_alloc_left: "cell_alloc m = Some (p, m') \<Longrightarrow> cells_left m' = cells_left m - 1"
  by (auto simp: cell_alloc_def cells_left_def split: if_splits)

lemma get_cell_cong: "cell_heap m' = cell_heap m \<Longrightarrow> get_cell m' = get_cell m"
  by (intro ext) (simp add: get_cell_def)

section \<open>The contract of a store of cells\<close>

text \<open>
  The constructors rely on two operations only: an allocation that hands out a cell nobody
  uses, and an update of a cell in use that changes no other cell.
\<close>

locale cell_store =
  fixes alloc :: "'m \<Rightarrow> ('p \<times> 'm) option"
    and upd :: "'p \<Rightarrow> ('c \<Rightarrow> 'c) \<Rightarrow> 'm \<Rightarrow> 'm option"
    and get :: "'m \<Rightarrow> 'p \<Rightarrow> 'c option"
    and used :: "'m \<Rightarrow> 'p set"
    and inv :: "'m \<Rightarrow> bool"
  assumes alloc_used: "inv m \<Longrightarrow> alloc m = Some (p, m') \<Longrightarrow> inv m' \<and> p \<notin> used m \<and> used m' = insert p (used m)"
    and alloc_get: "alloc m = Some (p, m') \<Longrightarrow> get m' q = get m q"
    and upd_used: "inv m \<Longrightarrow> p \<in> used m \<Longrightarrow>
      \<exists>c m'. get m p = Some c \<and> upd p f m = Some m' \<and> inv m' \<and> used m' = used m \<and> get m' p = Some (f c)"
    and upd_get_other: "upd p f m = Some m' \<Longrightarrow> q \<noteq> p \<Longrightarrow> get m' q = get m q"
begin

lemma construct:
  assumes "inv m" "alloc m = Some (p, m1)"
  shows "\<exists>c m'. upd p f m1 = Some m' \<and> inv m' \<and> p \<notin> used m \<and> used m' = insert p (used m)
    \<and> get m' p = Some (f c) \<and> (\<forall>q \<in> used m. get m' q = get m q)"
proof -
  have p: "inv m1" "p \<notin> used m" "used m1 = insert p (used m)"
    using alloc_used [OF assms] by auto
  then obtain c m' where m': "upd p f m1 = Some m'" "inv m'" "used m' = used m1" "get m' p = Some (f c)"
    using upd_used [of m1 p f] by auto
  have "get m' q = get m q" if "q \<in> used m" for q
  proof -
    have "q \<noteq> p" using that p(2) by blast
    then show ?thesis
      using upd_get_other [OF m'(1)] alloc_get [OF assms(2)] by simp
  qed
  with m' p show ?thesis by auto
qed

lemma alloc_distinct:
  assumes "inv m" "alloc m = Some (p, m1)" "alloc m1 = Some (q, m2)"
  shows "p \<noteq> q"
  using alloc_used [OF assms(1,2)] alloc_used [of m1 q m2] assms(3) by auto

end

interpretation cs: cell_store cell_alloc upd_cell get_cell live alloc_inv
proof unfold_locales
  show "alloc_inv m \<Longrightarrow> cell_alloc m = Some (p, m') \<Longrightarrow> alloc_inv m' \<and> p \<notin> live m \<and> live m' = insert p (live m)"
    for m p m' by (rule cell_alloc_spec)
  show "cell_alloc m = Some (p, m') \<Longrightarrow> get_cell m' q = get_cell m q" for m p m' q
    using get_cell_cong [of m' m] cell_alloc_other [of m p m'] by simp
  show "\<exists>c m'. get_cell m p = Some c \<and> upd_cell p f m = Some m' \<and> alloc_inv m' \<and> live m' = live m
      \<and> get_cell m' p = Some (f c)" if inv: "alloc_inv m" and lv: "p \<in> live m" for m p f
  proof -
    obtain i where i: "p = cellp i" "i < MAX_CELLS" using live_cases [OF lv inv] by blast
    then show ?thesis
      using alloc_inv_frame [OF inv, of "m\<lparr>cell_heap := (cell_heap m)(i := f (cell_heap m i))\<rparr>"]
      by simp
  qed
  show "upd_cell p f m = Some m' \<Longrightarrow> q \<noteq> p \<Longrightarrow> get_cell m' q = get_cell m q" for p f m m' q
    by (auto simp: upd_cell_Some_iff get_cell_def as_cell_Some_iff map_option_case split: option.splits if_splits)
qed

section \<open>What the constructors do\<close>

text \<open>Everything but the cells and the allocator's own variables.\<close>

definition same_rest :: "mem \<Rightarrow> mem \<Rightarrow> bool" where
  "same_rest m m' \<longleftrightarrow> blocks m' = blocks m \<and> vecs m' = vecs m \<and> streams m' = streams m
     \<and> fss m' = fss m \<and> envs m' = envs m \<and> fs_list m' = fs_list m \<and> num_fs m' = num_fs m
     \<and> stream_id m' = stream_id m \<and> file_cell m' = file_cell m"

text \<open>The memory \<open>m'\<close> is \<open>m\<close> with one cell taken into use and filled.\<close>

definition fresh_cell :: "mem \<Rightarrow> val \<Rightarrow> cell \<Rightarrow> mem \<Rightarrow> bool" where
  "fresh_cell m p c m' \<longleftrightarrow>
     alloc_inv m' \<and> p \<notin> live m \<and> live m' = insert p (live m) \<and> get_cell m' p = Some c
     \<and> (\<forall>q \<in> live m. get_cell m' q = get_cell m q)
     \<and> cells_left m' = cells_left m - 1 \<and> same_rest m m'"

text \<open>The memory \<open>m'\<close> keeps every cell in use and every block of \<open>m\<close>.\<close>

definition mem_grows :: "mem \<Rightarrow> mem \<Rightarrow> bool" where
  "mem_grows m m' \<longleftrightarrow>
     live m \<subseteq> live m' \<and> (\<forall>q \<in> live m. get_cell m' q = get_cell m q)
     \<and> prefix (blocks m) (blocks m') \<and> prefix (vecs m) (vecs m')"

lemma mem_grows_refl [simp]: "mem_grows m m"
  by (simp add: mem_grows_def)

lemma mem_grows_trans: "mem_grows m1 m2 \<Longrightarrow> mem_grows m2 m3 \<Longrightarrow> mem_grows m1 m3"
  by (auto simp: mem_grows_def)

lemma fresh_cell_ext: "fresh_cell m p c m' \<Longrightarrow> mem_grows m m'"
  by (auto simp: fresh_cell_def mem_grows_def same_rest_def)

lemma cell_alloc_ok:
  assumes "alloc_inv m" "0 < cells_left m"
  shows "\<exists>p m1. cell_alloc m = Some (p, m1)"
proof -
  have "cell_alloc m \<noteq> None" using assms by (simp add: cell_alloc_None_iff)
  then show ?thesis by auto
qed

lemma upd_cell_other:
  "upd_cell p f m = Some m' \<Longrightarrow> same_rest m m' \<and> cells_left m' = cells_left m"
  by (auto simp: upd_cell_Some_iff same_rest_def cells_left_def)

lemma construct_cell:
  assumes "alloc_inv m" "0 < cells_left m"
  shows "\<exists>p m1 c m'. cell_alloc m = Some (p, m1) \<and> upd_cell p f m1 = Some m' \<and> fresh_cell m p (f c) m'"
proof -
  obtain p m1 where a: "cell_alloc m = Some (p, m1)" using cell_alloc_ok [OF assms] by blast
  obtain c m' where u: "upd_cell p f m1 = Some m'" "alloc_inv m'" "p \<notin> live m" "live m' = insert p (live m)"
    "get_cell m' p = Some (f c)" "\<forall>q \<in> live m. get_cell m' q = get_cell m q"
    using cs.construct [OF assms(1) a, of f] by blast
  have "same_rest m m'" "cells_left m' = cells_left m - 1"
    using upd_cell_other [OF u(1)] cell_alloc_other [OF a] cell_alloc_left [OF a]
    by (simp_all add: same_rest_def)
  with a u show ?thesis unfolding fresh_cell_def by blast
qed

lemma alloc_cons_ok [alloc_simps]:
  assumes "alloc_inv m" "0 < cells_left m"
  shows "\<exists>p m'. alloc_cons a d m = Some (p, m') \<and> fresh_cell m p \<lparr>c_ar = a, c_dr = d, c_tag = TAG_CONS\<rparr> m'"
proof -
  obtain p m1 c m' where 1: "cell_alloc m = Some (p, m1)"
    "upd_cell p (\<lambda>c. c\<lparr>c_tag := TAG_CONS, c_ar := a, c_dr := d\<rparr>) m1 = Some m'"
    "fresh_cell m p (c\<lparr>c_tag := TAG_CONS, c_ar := a, c_dr := d\<rparr>) m'"
    using construct_cell [OF assms] by blast
  then have "fresh_cell m p \<lparr>c_ar = a, c_dr = d, c_tag = TAG_CONS\<rparr> m'"
    by (cases c) simp
  with 1 show ?thesis by (simp add: alloc_cons_def)
qed

lemma alloc_nil_ok [alloc_simps]:
  assumes "alloc_inv m" "0 < cells_left m"
  shows "\<exists>p m'. alloc_nil m = Some (p, m') \<and> fresh_cell m p \<lparr>c_ar = NULL, c_dr = NULL, c_tag = TAG_CONS\<rparr> m'"
  using alloc_cons_ok [OF assms] by (simp add: alloc_nil_def)

lemma alloc_int_ok [alloc_simps]:
  assumes "alloc_inv m" "0 < cells_left m"
  shows "\<exists>p m' d. alloc_int i m = Some (p, m') \<and> fresh_cell m p \<lparr>c_ar = W (scast i), c_dr = d, c_tag = TAG_INT\<rparr> m'"
proof -
  obtain p m1 c m' where 1: "cell_alloc m = Some (p, m1)"
    "upd_cell p (\<lambda>c. c\<lparr>c_tag := TAG_INT, c_ar := W (scast i)\<rparr>) m1 = Some m'"
    "fresh_cell m p (c\<lparr>c_tag := TAG_INT, c_ar := W (scast i)\<rparr>) m'"
    using construct_cell [OF assms] by blast
  then have "fresh_cell m p \<lparr>c_ar = W (scast i), c_dr = c_dr c, c_tag = TAG_INT\<rparr> m'"
    by (cases c) simp
  with 1 show ?thesis by (auto simp: alloc_int_def)
qed

lemma alloc_error_ok [alloc_simps]:
  assumes "alloc_inv m" "0 < cells_left m"
  shows "\<exists>p m'. alloc_error code m = Some (p, m') \<and> fresh_cell m p \<lparr>c_ar = W (ucast code), c_dr = NULL, c_tag = TAG_ERROR\<rparr> m'"
proof -
  obtain p m1 c m' where 1: "cell_alloc m = Some (p, m1)"
    "upd_cell p (\<lambda>x. x\<lparr>c_tag := TAG_ERROR, c_ar := W (ucast code), c_dr := NULL\<rparr>) m1 = Some m'"
    "fresh_cell m p (c\<lparr>c_tag := TAG_ERROR, c_ar := W (ucast code), c_dr := NULL\<rparr>) m'"
    using construct_cell [OF assms] by blast
  then have "fresh_cell m p \<lparr>c_ar = W (ucast code), c_dr = NULL, c_tag = TAG_ERROR\<rparr> m'"
    by (cases c) simp
  with 1 show ?thesis by (simp add: alloc_error_def)
qed

section \<open>Lists\<close>

text \<open>\<open>list_at m p xs\<close>: the words \<open>xs\<close> are the elements of the nil-terminated list at \<open>p\<close>, all of
  whose cells are in use.\<close>

fun list_at :: "mem \<Rightarrow> val \<Rightarrow> val list \<Rightarrow> bool" where
  "list_at m p [] \<longleftrightarrow> p \<in> live m \<and> get_cell m p = Some \<lparr>c_ar = NULL, c_dr = NULL, c_tag = TAG_CONS\<rparr>"
| "list_at m p (x # xs) \<longleftrightarrow> (\<exists>q. p \<in> live m \<and> get_cell m p = Some \<lparr>c_ar = x, c_dr = q, c_tag = TAG_CONS\<rparr> \<and> list_at m q xs)"

lemma list_at_ext: "mem_grows m m' \<Longrightarrow> list_at m p xs \<Longrightarrow> list_at m' p xs"
proof (induction xs arbitrary: p)
  case Nil
  then show ?case by (auto simp: mem_grows_def)
next
  case (Cons x xs)
  then obtain q where "p \<in> live m" "get_cell m p = Some \<lparr>c_ar = x, c_dr = q, c_tag = TAG_CONS\<rparr>" "list_at m q xs"
    by auto
  moreover from this have "list_at m' q xs" using Cons by blast
  ultimately show ?case using Cons.prems(1) by (auto simp: mem_grows_def)
qed

lemma alloc_list_from_ok:
  assumes "alloc_inv m" "n \<le> cells_left m" "n \<le> length items" "list_at m l ys"
  shows "\<exists>p m'. alloc_list_from items n l m = Some (p, m') \<and> alloc_inv m' \<and> mem_grows m m'
    \<and> cells_left m' = cells_left m - n \<and> same_rest m m' \<and> list_at m' p (take n items @ ys)"
  using assms
proof (induction n arbitrary: m l ys)
  case 0
  then show ?case by (simp add: same_rest_def)
next
  case (Suc n)
  obtain c m1 where c: "alloc_cons (items ! n) l m = Some (c, m1)"
    "fresh_cell m c \<lparr>c_ar = items ! n, c_dr = l, c_tag = TAG_CONS\<rparr> m1"
    using alloc_cons_ok [OF Suc.prems(1)] Suc.prems(2) by fastforce
  have ext: "mem_grows m m1" using c(2) by (rule fresh_cell_ext)
  have "list_at m1 c (items ! n # ys)"
    using c(2) list_at_ext [OF ext Suc.prems(4)] by (auto simp: fresh_cell_def)
  moreover have "alloc_inv m1" "n \<le> cells_left m1" using c(2) Suc.prems(2) by (auto simp: fresh_cell_def)
  ultimately obtain p m' where "alloc_list_from items n c m1 = Some (p, m')" "alloc_inv m'" "mem_grows m1 m'"
    "cells_left m' = cells_left m1 - n" "same_rest m1 m'" "list_at m' p (take n items @ items ! n # ys)"
    using Suc.IH [of m1 c "items ! n # ys"] Suc.prems(3) by auto
  then show ?case
    using c ext Suc.prems(3) mem_grows_trans [OF ext]
    by (auto simp: fresh_cell_def same_rest_def take_Suc_conv_app_nth)
qed

lemma alloc_list_ok:
  assumes "alloc_inv m" "n < cells_left m" "n \<le> length items"
  shows "\<exists>p m'. alloc_list items n m = Some (p, m') \<and> alloc_inv m' \<and> mem_grows m m'
    \<and> cells_left m' = cells_left m - n - 1 \<and> same_rest m m' \<and> list_at m' p (take n items)"
proof -
  obtain l m1 where l: "alloc_nil m = Some (l, m1)" "fresh_cell m l \<lparr>c_ar = NULL, c_dr = NULL, c_tag = TAG_CONS\<rparr> m1"
    using alloc_nil_ok [OF assms(1)] assms(2) by fastforce
  then have "alloc_inv m1" "n \<le> cells_left m1" "list_at m1 l []"
    using assms(2) by (auto simp: fresh_cell_def)
  from alloc_list_from_ok [OF this(1,2) assms(3) this(3)] show ?thesis
    using l mem_grows_trans [OF fresh_cell_ext [OF l(2)]]
    by (auto simp: alloc_list_def fresh_cell_def same_rest_def)
qed

section \<open>Cells with a block of bytes\<close>

text \<open>One cell taken into use and filled, and one block of bytes handed out.\<close>

definition fresh_bytes :: "mem \<Rightarrow> val \<Rightarrow> cell \<Rightarrow> byte list \<Rightarrow> mem \<Rightarrow> bool" where
  "fresh_bytes m p c blk m' \<longleftrightarrow> fresh_cell m p c (m'\<lparr>blocks := blocks m\<rparr>) \<and> blocks m' = blocks m @ [blk]"

lemma blocks_irrelevant [simp]:
  "get_cell (m\<lparr>blocks := B\<rparr>) p = get_cell m p" "live (m\<lparr>blocks := B\<rparr>) = live m"
  "alloc_inv (m\<lparr>blocks := B\<rparr>) = alloc_inv m" "cells_left (m\<lparr>blocks := B\<rparr>) = cells_left m"
  by (simp_all add: get_cell_def live_def alloc_inv_def cells_left_def free_ptrs_def free_slots_def)

lemma fresh_bytes_ext: "fresh_bytes m p c blk m' \<Longrightarrow> mem_grows m m'"
  by (auto simp: fresh_bytes_def fresh_cell_def mem_grows_def same_rest_def)

lemma fresh_bytes_block:
  "fresh_bytes m p c blk m' \<Longrightarrow> block_at m' (bytesp (length (blocks m))) = Some blk"
  by (simp add: fresh_bytes_def)

text \<open>The cell \<open>i\<close> was taken in \<open>m\<close> by \<open>cell_alloc\<close>, which left \<open>m1\<close>.\<close>

definition taken :: "mem \<Rightarrow> nat \<Rightarrow> mem \<Rightarrow> bool" where
  "taken m i m1 \<longleftrightarrow> alloc_inv m \<and> 0 < cells_left m \<and> cell_alloc m = Some (cellp i, m1)"

lemma taken_exists: "alloc_inv m \<Longrightarrow> 0 < cells_left m \<Longrightarrow> \<exists>i m1. taken m i m1"
proof -
  assume m: "alloc_inv m" "0 < cells_left m"
  then obtain p m1 where a: "cell_alloc m = Some (p, m1)" using cell_alloc_ok by blast
  then have "alloc_inv m1" "p \<in> live m1" using cell_alloc_spec [OF m(1)] by auto
  then obtain i where "p = cellp i" using live_cases by blast
  with a m show ?thesis by (auto simp: taken_def)
qed

lemma taken_simps:
  assumes "taken m i m1"
  shows "cell_alloc m = Some (cellp i, m1)" "i < MAX_CELLS" "blocks m1 = blocks m" "vecs m1 = vecs m"
    "cell_heap m1 = cell_heap m"
proof -
  have a: "cell_alloc m = Some (cellp i, m1)" "alloc_inv m" using assms by (auto simp: taken_def)
  then have "alloc_inv m1" "cellp i \<in> live m1" using cell_alloc_spec by auto
  then show "i < MAX_CELLS" using live_cases by fastforce
  show "cell_alloc m = Some (cellp i, m1)" by (rule a)
  show "blocks m1 = blocks m" "vecs m1 = vecs m" "cell_heap m1 = cell_heap m"
    using cell_alloc_other [OF a(1)] by simp_all
qed

lemma taken_fresh_cell:
  assumes "taken m i m1"
  shows "fresh_cell m (cellp i) c (m1\<lparr>cell_heap := (cell_heap m)(i := c)\<rparr>)"
proof -
  obtain p2 m2 c2 m3 where "cell_alloc m = Some (p2, m2)" "upd_cell p2 (\<lambda>_. c) m2 = Some m3" "fresh_cell m p2 c m3"
    using construct_cell [of m "\<lambda>_. c"] assms by (auto simp: taken_def)
  with taken_simps [OF assms] show ?thesis by simp
qed

lemma taken_fresh_bytes:
  assumes "taken m i m1" and "cell_heap m' = (cell_heap m)(i := c)" and "blocks m' = blocks m @ [blk]"
    and "m1\<lparr>cell_heap := cell_heap m', blocks := blocks m'\<rparr> = m'"
  shows "fresh_bytes m (cellp i) c blk m'"
proof -
  have "m1\<lparr>cell_heap := cell_heap m'\<rparr> = m'\<lparr>blocks := blocks m\<rparr>"
    using arg_cong [OF assms(4), of "\<lambda>x. x\<lparr>blocks := blocks m\<rparr>"] taken_simps [OF assms(1)] by (cases m1) simp
  then show ?thesis using taken_fresh_cell [OF assms(1), of c] assms(2,3) by (simp add: fresh_bytes_def)
qed

lemma bytes_alloc_ok [alloc_simps]:
  "unat n < 2 ^ 31 \<Longrightarrow> bytes_alloc n m =
     Some (bytesp (length (blocks m)), m\<lparr>blocks := blocks m @ [replicate (unat n) 0]\<rparr>)"
  using sint_small [of n] by (simp add: bytes_alloc_def)

lemma unat_of_nat_Suc [simp]: "n + 1 < 2 ^ 31 \<Longrightarrow> unat (of_nat n + 1 :: u32) = n + 1"
  by (simp add: unat_word_ariths)

lemma alloc_string_copy_ok:
  assumes "alloc_inv m" "0 < cells_left m" "length s + 1 < 2 ^ 31"
  shows "\<exists>p m'. alloc_string_copy s m = Some (p, m') \<and>
    fresh_bytes m p \<lparr>c_ar = bytesp (length (blocks m)), c_dr = W (of_nat (length s) + 1), c_tag = TAG_STR\<rparr> (s @ [0]) m'"
proof -
  obtain i m1 where tk: "taken m i m1" using taken_exists [OF assms(1,2)] by blast
  note 1 = taken_simps [OF tk]
  show ?thesis
    using assms(3) 1 by (auto simp: alloc_string_copy_def bytes_alloc_ok intro!: taken_fresh_bytes [OF tk])
qed

text \<open>
  \<open>text_at m p tg w s\<close>: the cell in use at \<open>p\<close> has tag \<open>tg\<close> and size word \<open>w\<close>, its block has at
  least that many bytes and holds the C string \<open>s\<close>, whose NUL is at the latest at index \<open>w\<close>
  (the reader counts the characters only, \<open>alloc_string_copy\<close> counts the NUL too).
\<close>

definition text_at :: "mem \<Rightarrow> val \<Rightarrow> u64 \<Rightarrow> u64 \<Rightarrow> cstr \<Rightarrow> bool" where
  "text_at m p tg w s \<longleftrightarrow>
     (\<exists>a blk. p \<in> live m \<and> get_cell m p = Some \<lparr>c_ar = a, c_dr = W w, c_tag = tg\<rparr> \<and> block_at m a = Some blk
        \<and> c_str blk = Some s \<and> length s \<le> unat w \<and> unat w \<le> length blk \<and> unat w + 1 < 2 ^ 31)"

lemma block_at_ext: "mem_grows m m' \<Longrightarrow> block_at m a = Some blk \<Longrightarrow> block_at m' a = Some blk"
  by (cases "(m, a)" rule: block_at.cases)
    (auto simp: mem_grows_def nth_append elim!: prefixE split: if_splits)

lemma text_at_ext: "mem_grows m m' \<Longrightarrow> text_at m p tg w s \<Longrightarrow> text_at m' p tg w s"
  unfolding text_at_def using block_at_ext by (auto simp: mem_grows_def)

lemma block_at_blocks_cong: "blocks m' = blocks m \<Longrightarrow> block_at m' a = block_at m a"
  by (cases "(m, a)" rule: block_at.cases) auto

lemma fresh_bytes_text:
  assumes "fresh_bytes m p \<lparr>c_ar = bytesp (length (blocks m)), c_dr = W w, c_tag = tg\<rparr> blk m'"
    "c_str blk = Some s" "length s \<le> unat w" "unat w \<le> length blk" "unat w + 1 < 2 ^ 31"
  shows "text_at m' p tg w s"
  using assms fresh_bytes_block [OF assms(1)]
  unfolding text_at_def fresh_bytes_def fresh_cell_def by auto

lemma strncpy_bytes_pad: "length s \<le> n \<Longrightarrow> strncpy_bytes s n = s @ replicate (n - length s) 0"
  by (simp add: strncpy_bytes_def)

lemma read_cstr_text:
  "text_at m p tg w s \<Longrightarrow> \<exists>c. get_cell m p = Some c \<and> c_tag c = tg \<and> c_dr c = W w \<and> read_cstr m (c_ar c) = Some s
     \<and> 0 \<notin> set s \<and> p \<noteq> NULL"
  unfolding text_at_def read_cstr_def using c_str_no_nul by (auto simp: get_cell_def)

lemma read_cstr_blocks_cong: "blocks m' = blocks m \<Longrightarrow> read_cstr m' a = read_cstr m a"
  using block_at_blocks_cong [of m' m a] by (simp add: read_cstr_def)

lemma alloc_concat_ok:
  assumes "alloc_inv m" "0 < cells_left m" "text_at m p1 t1 w1 s1" "text_at m p2 t2 w2 s2"
    "t1 \<in> {TAG_BYTES, TAG_STR}" "t2 \<in> {TAG_BYTES, TAG_STR}" "length s1 + length s2 + 2 < 2 ^ 31"
  shows "\<exists>p m'. alloc_concat p1 p2 m = Some (p, m') \<and>
    fresh_bytes m p \<lparr>c_ar = bytesp (length (blocks m)), c_dr = W (of_nat (length s1 + length s2 + 1)), c_tag = TAG_STR\<rparr>
      (s1 @ s2 @ [0, 0]) m'"
proof -
  obtain c1 where c1: "get_cell m p1 = Some c1" "c_tag c1 = t1" "read_cstr m (c_ar c1) = Some s1" "p1 \<noteq> NULL"
    using read_cstr_text [OF assms(3)] by blast
  obtain c2 where c2: "get_cell m p2 = Some c2" "c_tag c2 = t2" "read_cstr m (c_ar c2) = Some s2" "p2 \<noteq> NULL"
    using read_cstr_text [OF assms(4)] by blast
  have b: "is_bytes c1" "is_bytes c2" using assms(5,6) c1 c2 by (auto simp: is_bytes_def)
  obtain i m1 where tk: "taken m i m1" using taken_exists [OF assms(1,2)] by blast
  note 1 = taken_simps [OF tk]
  have r: "read_cstr m1 (c_ar c1) = Some s1" "read_cstr m1 (c_ar c2) = Some s2"
    using read_cstr_blocks_cong [OF 1(3)] c1 c2 by auto
  define n where "n = length s1 + length s2"
  define z1 :: u32 where "z1 = of_nat (length s1)"
  define N :: u32 where "N = z1 + of_nat (length s2) + 1"
  have n: "n + 2 < 2 ^ 31" using assms(7) by (simp add: n_def)
  have N: "N = of_nat (n + 1)" by (simp add: N_def z1_def n_def)
  have u: "unat N = n + 1" "unat (N + 1) = n + 2" "unat z1 = length s1"
    using n by (simp_all add: N unat_word_ariths z1_def n_def)
  have sc: "scast N = (of_nat (n + 1) :: u64)"
    unfolding N using n by (intro scast_of_nat) simp
  have "scast z1 = (of_nat (length s1) :: u64)"
    unfolding z1_def using n by (intro scast_of_nat) (simp add: n_def)
  then have d: "1 + scast N - scast z1 = (of_nat (length s2 + 2) :: u64)"
    unfolding sc by (simp add: n_def)
  have u64: "unat (1 + scast N - scast z1 :: u64) = length s2 + 2"
    unfolding d using n by (intro unat_of_nat_u64) (simp add: n_def)
  show ?thesis
    unfolding alloc_concat_def
    apply (simp only: c1(1,4) c2(1,4) b 1(1) r Option.bind.bind_lunit prod.case if_False not_True_eq_False
      Let_def z1_def [symmetric] N_def [symmetric] simp_thms)
    using 1(1-5) n
    apply (simp add: bytes_alloc_ok u u64)
    by (auto simp: u u64 sc bytes_alloc_ok strncpy_bytes_pad overlay_def replicate_add n_def
      intro!: taken_fresh_bytes [OF tk])
qed

lemma substr_len:
  fixes start len :: u32 and size :: u64
  assumes "0 < unat size" "unat size + 1 < 2 ^ 31" "min (unat start) (unat size - 1) + unat len < 2 ^ 32"
  defines "f \<equiv> (if ucast start \<ge> size then ucast (size - 1) else start)"
  defines "l \<equiv> (if ucast (len + f) > size then ucast (size - ucast f) else len)"
  shows "unat f = min (unat start) (unat size - 1)" "unat l = min (unat len) (unat size - unat f)"
proof -
  have s1: "unat (size - 1) = unat size - 1" using assms(1) by (subst unat_sub) (auto simp: word_le_nat_alt)
  show f: "unat f = min (unat start) (unat size - 1)"
    using assms(1,2) s1 by (auto simp: f_def word_le_nat_alt unat_ucast_down)
  have "unat (len + f) = unat len + unat f"
    using f assms(3) by (intro unat_plus_small) simp
  moreover have "unat (size - ucast f) = unat size - unat f"
    using f assms(1) by (subst unat_sub) (auto simp: word_le_nat_alt)
  moreover have "unat (ucast (size - ucast f) :: u32) = unat (size - ucast f)"
    using assms(2) calculation(2) by (intro unat_ucast_down) simp
  moreover have "unat f \<le> unat size" using f by simp
  ultimately show "unat l = min (unat len) (unat size - unat f)"
    by (auto simp: l_def word_less_nat_alt min_def)
qed
lemma alloc_substr_ok:
  assumes "alloc_inv m" "0 < cells_left m" "get_cell m p = Some \<lparr>c_ar = P (OBytes b) off, c_dr = W sz, c_tag = tg\<rparr>"
    "tg \<in> {TAG_BYTES, TAG_STR}" "block_at m (P (OBytes b) off) = Some blk" "0 < unat sz" "unat sz \<le> length blk"
    "unat sz + 1 < 2 ^ 31" "min (unat start) (unat sz - 1) + unat len < 2 ^ 32"
  shows "\<exists>q m'. alloc_substr p start len m = Some (q, m') \<and>
    (let f = min (unat start) (unat sz - 1); l = min (unat len) (unat sz - f) in
     fresh_bytes m q \<lparr>c_ar = bytesp (length (blocks m)), c_dr = W (of_nat l), c_tag = TAG_STR\<rparr>
      (take l (drop f blk) @ [0]) m')"
proof -
  obtain i m1 where tk: "taken m i m1" using taken_exists [OF assms(1,2)] by blast
  note 1 = taken_simps [OF tk]
  define f where "f = (if ucast start \<ge> sz then ucast (sz - 1) else start)"
  define l where "l = (if ucast (len + f) > sz then ucast (sz - ucast f) else len)"
  have fl: "unat f = min (unat start) (unat sz - 1)" "unat l = min (unat len) (unat sz - unat f)"
    unfolding l_def f_def by (rule substr_len [OF assms(6,8,9)])+
  have "unat l \<le> unat sz - unat f" "unat f \<le> unat sz" unfolding fl(2) using fl(1) by simp_all
  then have l: "unat l + 1 < 2 ^ 31" "unat f + unat l \<le> unat sz" "ucast l = (of_nat (unat l) :: u64)"
    using assms(8) by auto
  then have l1: "unat (l + 1) = unat l + 1" by (subst unat_plus_small) auto
  have p: "p \<noteq> NULL" "is_bytes \<lparr>c_ar = P (OBytes b) off, c_dr = W sz, c_tag = tg\<rparr>"
    using assms(3,4) by (auto simp: is_bytes_def)
  have b: "b < length (blocks m)" "off \<le> length (blocks m ! b)" "blk = drop off (blocks m ! b)"
    using assms(5) by (auto split: if_splits)
  have "\<exists>q m'. alloc_substr p start len m = Some (q, m') \<and>
     fresh_bytes m q \<lparr>c_ar = bytesp (length (blocks m)), c_dr = W (of_nat (unat l)), c_tag = TAG_STR\<rparr>
      (take (unat l) (drop (unat f) blk) @ [0]) m'"
    unfolding alloc_substr_def
    apply (simp only: assms(3) p 1(1) as_word.simps Option.bind.bind_lunit prod.case if_False not_True_eq_False
      Let_def simp_thms f_def [symmetric] l_def [symmetric] cell.simps)
    using 1(1-5) l b assms(7)
    by (auto simp: bytes_alloc_ok l1 memcpy_def read_bytes_def nth_append add.commute [of off]
      intro!: taken_fresh_bytes [OF tk])
  then show ?thesis using fl by (simp add: Let_def)
qed

lemma alloc_sym_ok:
  assumes "alloc_inv m" "0 < cells_left m" "length s + 2 < 2 ^ 31"
  shows "\<exists>p m'. alloc_sym (Some s) m = Some (p, m') \<and>
    fresh_bytes m p \<lparr>c_ar = bytesp (length (blocks m)), c_dr = W (of_nat (length s + 1)), c_tag = TAG_SYM\<rparr> (s @ [0, 0]) m'"
proof -
  obtain i m1 where tk: "taken m i m1" using taken_exists [OF assms(1,2)] by blast
  note 1 = taken_simps [OF tk]
  define z :: u32 where "z = of_nat (length s) + 1"
  have z: "z = of_nat (length s + 1)" by (simp add: z_def)
  have u: "unat z = length s + 1" "unat (z + 1) = length s + 2" "scast z = (of_nat (length s + 1) :: u64)"
    unfolding z using assms(3) by (simp_all only: scast_of_nat) (simp_all add: unat_word_ariths)
  show ?thesis
    unfolding alloc_sym_def
    apply (simp only: 1(1) Option.bind.bind_lunit prod.case option.case Let_def z_def [symmetric] upd_cell_simps [OF 1(2)])
    using 1(3-5) assms(3) by (auto simp: u bytes_alloc_ok overlay_def intro!: taken_fresh_bytes [OF tk])
qed

section \<open>Symbolic expressions in the cell heap\<close>

text \<open>
  The data the reader builds and the compiler reads, as a tree: \<open>sexp_on D nb m p s\<close> says that the
  cells from \<open>p\<close> on represent \<open>s\<close>, that all of them belong to \<open>D\<close>, and that their texts lie in
  blocks numbered from \<open>nb\<close> on. The empty list is a cons cell with two NULL fields.
\<close>

datatype sexp = SNil | SInt u64 | SSym cstr | SStr cstr | SCons sexp sexp

definition text_on :: "val set \<Rightarrow> nat \<Rightarrow> mem \<Rightarrow> val \<Rightarrow> u64 \<Rightarrow> cstr \<Rightarrow> bool" where
  "text_on D nb m p tg s \<longleftrightarrow>
     p \<in> D \<and> (\<exists>w b off. get_cell m p = Some \<lparr>c_ar = P (OBytes b) off, c_dr = W w, c_tag = tg\<rparr> \<and> nb \<le> b \<and> text_at m p tg w s)"

fun sexp_on :: "val set \<Rightarrow> nat \<Rightarrow> mem \<Rightarrow> val \<Rightarrow> sexp \<Rightarrow> bool" where
  "sexp_on D nb m p SNil \<longleftrightarrow> p \<in> D \<and> get_cell m p = Some \<lparr>c_ar = NULL, c_dr = NULL, c_tag = TAG_CONS\<rparr>"
| "sexp_on D nb m p (SInt w) \<longleftrightarrow> p \<in> D \<and> (\<exists>d. get_cell m p = Some \<lparr>c_ar = W w, c_dr = d, c_tag = TAG_INT\<rparr>)"
| "sexp_on D nb m p (SSym s) \<longleftrightarrow> text_on D nb m p TAG_SYM s"
| "sexp_on D nb m p (SStr s) \<longleftrightarrow> text_on D nb m p TAG_STR s"
| "sexp_on D nb m p (SCons a d) \<longleftrightarrow>
     (\<exists>x y. p \<in> D \<and> get_cell m p = Some \<lparr>c_ar = x, c_dr = y, c_tag = TAG_CONS\<rparr> \<and> sexp_on D nb m x a \<and> sexp_on D nb m y d)"

abbreviation sexp_at :: "mem \<Rightarrow> val \<Rightarrow> sexp \<Rightarrow> bool" where
  "sexp_at m p s \<equiv> sexp_on (live m) 0 m p s"

fun ncells :: "sexp \<Rightarrow> nat" where
  "ncells (SCons a d) = ncells a + ncells d + 1"
| "ncells _ = 1"

fun sdepth :: "sexp \<Rightarrow> nat" where
  "sdepth (SCons a d) = Suc (max (sdepth a) (sdepth d))"
| "sdepth _ = 1"

lemma sexp_on_mem: "sexp_on D nb m p s \<Longrightarrow> p \<in> D \<and> p \<noteq> NULL"
  by (cases s) (auto simp: text_on_def get_cell_def)

lemma ncells_pos [simp]: "0 < ncells s"
  by (cases s) auto

lemma text_on_frame:
  assumes "text_on D nb m p tg s" "\<forall>q \<in> D. get_cell m' q = get_cell m q" "D \<subseteq> live m'" "prefix (blocks m) (blocks m')"
  shows "text_on D nb m' p tg s"
proof -
  have "block_at m' a = Some blk" if "block_at m a = Some blk" for a blk
    using that assms(4) by (cases "(m, a)" rule: block_at.cases) (auto simp: nth_append elim!: prefixE split: if_splits)
  with assms show ?thesis unfolding text_on_def text_at_def by fastforce
qed

lemma sexp_on_frame:
  assumes "sexp_on D nb m p s" "\<forall>q \<in> D. get_cell m' q = get_cell m q" "D \<subseteq> live m'" "prefix (blocks m) (blocks m')"
  shows "sexp_on D nb m' p s"
  using assms by (induction s arbitrary: p) (auto simp: text_on_frame)

lemma sexp_on_mono: "sexp_on D nb m p s \<Longrightarrow> D \<subseteq> E \<Longrightarrow> nb' \<le> nb \<Longrightarrow> sexp_on E nb' m p s"
proof (induction s arbitrary: p)
  case (SCons a d)
  then show ?case by simp blast
qed (auto simp: text_on_def)

lemma sexp_at_ext: "mem_grows m m' \<Longrightarrow> sexp_at m p s \<Longrightarrow> sexp_at m' p s"
  by (rule sexp_on_mono [OF sexp_on_frame]) (auto simp: mem_grows_def)

lemma upd_cell_keeps:
  assumes "alloc_inv m'" "p \<in> live m'"
  obtains c m'' where "get_cell m' p = Some c" "upd_cell p f m' = Some m''" "alloc_inv m''" "live m'' = live m'" "get_cell m'' p = Some (f c)"
    "blocks m'' = blocks m'" "vecs m'' = vecs m'" "cells_left m'' = cells_left m'" "\<forall>q. q \<noteq> p \<longrightarrow> get_cell m'' q = get_cell m' q"
proof -
  obtain c m'' where "get_cell m' p = Some c" "upd_cell p f m' = Some m''" "alloc_inv m''" "live m'' = live m'" "get_cell m'' p = Some (f c)"
    using cs.upd_used [OF assms] by blast
  moreover have "\<forall>q. q \<noteq> p \<longrightarrow> get_cell m'' q = get_cell m' q"
    using cs.upd_get_other [OF calculation(2)] by blast
  ultimately show ?thesis using that upd_cell_other [of p f m' m''] by (auto simp: same_rest_def)
qed

section \<open>Cloning\<close>

text \<open>The result of a clone of \<open>s\<close>: it is built of new cells and new blocks only.\<close>

definition cloned :: "mem \<Rightarrow> sexp \<Rightarrow> val \<Rightarrow> mem \<Rightarrow> bool" where
  "cloned m s q m' \<longleftrightarrow> alloc_inv m' \<and> mem_grows m m' \<and> cells_left m' = cells_left m - ncells s
     \<and> sexp_on (live m' - live m) (length (blocks m)) m' q s"

lemma clone_text_block:
  assumes "c_str blk = Some s" "length s \<le> w" "w \<le> length blk"
  shows "c_str (take w blk @ [0]) = Some s"
proof -
  have b: "take (length s) blk = s" "blk ! length s = 0" "0 \<notin> set s" "length s < length blk"
    using c_str_SomeD [OF assms(1)] by auto
  show ?thesis
  proof (cases "length s = w")
    case True
    with b show ?thesis by simp
  next
    case False
    then have "take w blk = s @ 0 # drop (Suc (length s)) (take w blk)"
      using b assms id_take_nth_drop [of "length s" "take w blk"] by (simp add: min_def)
    then have "take w blk @ [0] = s @ 0 # (drop (Suc (length s)) (take w blk) @ [0])" by simp
    then show ?thesis using c_str_append_nul [OF b(3)] by metis
  qed
qed

lemma alloc_clone_text:
  assumes "alloc_inv m" "0 < cells_left m" "p \<noteq> NULL" "get_cell m p = Some \<lparr>c_ar = P (OBytes b) off, c_dr = W w, c_tag = tg\<rparr>"
    "tg \<in> {TAG_SYM, TAG_STR, TAG_BYTES}" "block_at m (P (OBytes b) off) = Some blk" "unat w \<le> length blk" "unat w + 1 < 2 ^ 31"
  shows "\<exists>q m'. alloc_clone (Suc fuel) p m = Some (q, m') \<and>
    fresh_bytes m q \<lparr>c_ar = bytesp (length (blocks m)), c_dr = W w, c_tag = tg\<rparr> (take (unat w) blk @ [0]) m'"
proof -
  obtain i m1 where tk: "taken m i m1" using taken_exists [OF assms(1,2)] by blast
  note 1 = taken_simps [OF tk]
  have w: "unat (ucast (w + 1) :: u32) = unat w + 1"
    using assms(8) by (subst unat_ucast_down) (subst unat_plus_small, auto)+
  have b: "b < length (blocks m)" "off \<le> length (blocks m ! b)" "blk = drop off (blocks m ! b)"
    using assms(6) by (auto split: if_splits)
  have g: "get_cell m1 p = get_cell m p" using get_cell_cong [OF 1(5)] by simp
  show ?thesis
    using assms(3,5,7,8) 1 b
    by (auto simp: g assms(4) bytes_alloc_ok w memcpy_def read_bytes_def nth_append intro!: taken_fresh_bytes [OF tk])
qed

lemma alloc_clone_plain:
  assumes "alloc_inv m" "0 < cells_left m" "p \<noteq> NULL" "get_cell m p = Some c"
    "c_tag c \<notin> {TAG_SYM, TAG_STR, TAG_BYTES}" "c_tag c = TAG_CONS \<Longrightarrow> c_ar c = NULL \<and> c_dr c = NULL"
  shows "\<exists>q m'. alloc_clone (Suc fuel) p m = Some (q, m') \<and> fresh_cell m q c m'"
proof -
  obtain i m1 where tk: "taken m i m1" using taken_exists [OF assms(1,2)] by blast
  note 1 = taken_simps [OF tk]
  have g: "get_cell m1 p = get_cell m p" using get_cell_cong [OF 1(5)] by simp
  show ?thesis
    using assms(3,5,6) 1 taken_fresh_cell [OF tk, of c]
    by (cases c) (auto simp: g assms(4))
qed

lemma cloned_text:
  assumes "alloc_inv m" "0 < cells_left m" "text_on D nb m p tg s" "tg \<in> {TAG_SYM, TAG_STR}"
  shows "\<exists>q m'. alloc_clone (Suc fuel) p m = Some (q, m') \<and> alloc_inv m' \<and> mem_grows m m' \<and> cells_left m' = cells_left m - 1
     \<and> text_on (live m' - live m) (length (blocks m)) m' q tg s"
proof -
  obtain w b off blk where t: "get_cell m p = Some \<lparr>c_ar = P (OBytes b) off, c_dr = W w, c_tag = tg\<rparr>"
    "block_at m (P (OBytes b) off) = Some blk" "c_str blk = Some s" "length s \<le> unat w" "unat w \<le> length blk" "unat w + 1 < 2 ^ 31"
    using assms(3) unfolding text_on_def text_at_def by auto
  have p: "p \<noteq> NULL" "tg \<in> {TAG_SYM, TAG_STR, TAG_BYTES}" using t(1) assms(4) by auto
  obtain q m' where q: "alloc_clone (Suc fuel) p m = Some (q, m')"
    "fresh_bytes m q \<lparr>c_ar = bytesp (length (blocks m)), c_dr = W w, c_tag = tg\<rparr> (take (unat w) blk @ [0]) m'"
    using alloc_clone_text [OF assms(1,2) p(1) t(1) p(2) t(2,5,6)] by blast
  have "text_at m' q tg w s"
    using t by (intro fresh_bytes_text [OF q(2)] clone_text_block) auto
  then show ?thesis
    using q fresh_bytes_ext [OF q(2)] by (auto simp: text_on_def fresh_bytes_def fresh_cell_def)
qed

lemma cloned_plain:
  "fresh_cell m q c m' \<Longrightarrow> alloc_inv m' \<and> mem_grows m m' \<and> cells_left m' = cells_left m - 1 \<and> q \<in> live m' - live m \<and> get_cell m' q = Some c"
  using fresh_cell_ext by (auto simp: fresh_cell_def)

lemma alloc_clone_cons:
  assumes "alloc_inv m" "0 < cells_left m" "p \<noteq> NULL" "get_cell m p = Some \<lparr>c_ar = x, c_dr = y, c_tag = TAG_CONS\<rparr>" "x \<noteq> NULL" "y \<noteq> NULL"
  shows "\<exists>q m2. fresh_cell m q \<lparr>c_ar = NULL, c_dr = y, c_tag = TAG_CONS\<rparr> m2 \<and>
    alloc_clone (Suc fuel) p m = do {
      (a, m) \<leftarrow> alloc_clone fuel x m2; m \<leftarrow> upd_cell q (\<lambda>c. c\<lparr>c_ar := a\<rparr>) m;
      (d, m) \<leftarrow> alloc_clone fuel y m; m \<leftarrow> upd_cell q (\<lambda>c. c\<lparr>c_dr := d\<rparr>) m; Some (q, m) }"
proof -
  obtain i m1 where tk: "taken m i m1" using taken_exists [OF assms(1,2)] by blast
  note 1 = taken_simps [OF tk]
  have g: "get_cell m1 p = get_cell m p" using get_cell_cong [OF 1(5)] by simp
  have "alloc_clone (Suc fuel) p m = do {
      (a, m) \<leftarrow> alloc_clone fuel x (m1\<lparr>cell_heap := (cell_heap m)(i := \<lparr>c_ar = NULL, c_dr = y, c_tag = TAG_CONS\<rparr>)\<rparr>);
      m \<leftarrow> upd_cell (cellp i) (\<lambda>c. c\<lparr>c_ar := a\<rparr>) m;
      (d, m) \<leftarrow> alloc_clone fuel y m; m \<leftarrow> upd_cell (cellp i) (\<lambda>c. c\<lparr>c_dr := d\<rparr>) m; Some (cellp i, m) }"
    using assms(3,5,6) 1 by (simp add: g assms(4) tag_defs case_prod_unfold)
  with taken_fresh_cell [OF tk] show ?thesis by blast
qed

text \<open>A field of the cell \<open>q\<close> is set to a clone made in \<open>m2\<close>, where \<open>q\<close> was already in use.\<close>

lemma clone_into:
  assumes "cloned m2 a qa m3" "q \<in> live m2" "q \<notin> live m" "mem_grows m m2"
  obtains c m4 where "get_cell m2 q = Some c" "upd_cell q g m3 = Some m4" "get_cell m4 q = Some (g c)"
    "alloc_inv m4" "cells_left m4 = cells_left m2 - ncells a" "mem_grows m m4" "live m2 \<subseteq> live m4" "prefix (blocks m2) (blocks m4)"
    "\<forall>z \<in> live m2. z \<noteq> q \<longrightarrow> get_cell m4 z = get_cell m2 z" "sexp_on (live m4 - live m2) (length (blocks m2)) m4 qa a"
proof -
  have m3: "alloc_inv m3" "q \<in> live m3" "mem_grows m2 m3" "cells_left m3 = cells_left m2 - ncells a"
    "sexp_on (live m3 - live m2) (length (blocks m2)) m3 qa a"
    using assms(1,2) by (auto simp: cloned_def mem_grows_def)
  obtain c m4 where m4: "get_cell m3 q = Some c" "upd_cell q g m3 = Some m4" "alloc_inv m4" "live m4 = live m3" "get_cell m4 q = Some (g c)"
    "blocks m4 = blocks m3" "vecs m4 = vecs m3" "cells_left m4 = cells_left m3" "\<forall>z. z \<noteq> q \<longrightarrow> get_cell m4 z = get_cell m3 z"
    by (rule upd_cell_keeps [OF m3(1,2)])
  have "sexp_on (live m4 - live m2) (length (blocks m2)) m4 qa a"
    unfolding m4(4) by (rule sexp_on_frame [OF m3(5)]) (use m4 assms(2) in auto)
  moreover have "mem_grows m m4"
    using mem_grows_trans [OF assms(4) m3(3)] assms(3) m4 by (auto simp: mem_grows_def)
  ultimately show ?thesis
    using that m4 m3 assms(2) by (auto simp: mem_grows_def)
qed

lemma alloc_clone_ok:
  assumes "sexp_on D nb m p s" "D \<subseteq> live m" "alloc_inv m" "ncells s \<le> cells_left m" "sdepth s \<le> fuel"
  shows "\<exists>q m'. alloc_clone fuel p m = Some (q, m') \<and> cloned m s q m'"
  using assms
proof (induction s arbitrary: fuel m p)
  case SNil
  then obtain f where f: "fuel = Suc f" by (cases fuel) auto
  obtain q m' where "alloc_clone (Suc f) p m = Some (q, m')" "fresh_cell m q \<lparr>c_ar = NULL, c_dr = NULL, c_tag = TAG_CONS\<rparr> m'"
    using alloc_clone_plain [of m p] SNil sexp_on_mem [OF SNil(1)] by (fastforce simp: tag_defs)
  with cloned_plain [OF this(2)] show ?case by (auto simp: cloned_def f)
next
  case (SInt w)
  then obtain f d where f: "fuel = Suc f" "get_cell m p = Some \<lparr>c_ar = W w, c_dr = d, c_tag = TAG_INT\<rparr>" by (cases fuel) auto
  obtain q m' where "alloc_clone (Suc f) p m = Some (q, m')" "fresh_cell m q \<lparr>c_ar = W w, c_dr = d, c_tag = TAG_INT\<rparr> m'"
    using alloc_clone_plain [of m p _ f] SInt(3,4) f(2) sexp_on_mem [OF SInt(1)] by (fastforce simp: tag_defs)
  with cloned_plain [OF this(2)] show ?case by (auto simp: cloned_def f)
next
  case (SSym s)
  then obtain f where "fuel = Suc f" by (cases fuel) auto
  then show ?case using cloned_text [of m D nb p TAG_SYM s f] SSym by (auto simp: cloned_def)
next
  case (SStr s)
  then obtain f where "fuel = Suc f" by (cases fuel) auto
  then show ?case using cloned_text [of m D nb p TAG_STR s f] SStr by (auto simp: cloned_def)
next
  case (SCons a d)
  obtain f where f: "fuel = Suc f" "sdepth a \<le> f" "sdepth d \<le> f" using SCons.prems(5) by (cases fuel) auto
  obtain x y where xy: "p \<in> D" "get_cell m p = Some \<lparr>c_ar = x, c_dr = y, c_tag = TAG_CONS\<rparr>" "sexp_on D nb m x a" "sexp_on D nb m y d"
    using SCons.prems(1) by auto
  then have nn: "p \<noteq> NULL" "x \<noteq> NULL" "y \<noteq> NULL" using sexp_on_mem by auto
  obtain q m2 where q: "fresh_cell m q \<lparr>c_ar = NULL, c_dr = y, c_tag = TAG_CONS\<rparr> m2"
    "alloc_clone (Suc f) p m = do {
      (a, m) \<leftarrow> alloc_clone f x m2; m \<leftarrow> upd_cell q (\<lambda>c. c\<lparr>c_ar := a\<rparr>) m;
      (d, m) \<leftarrow> alloc_clone f y m; m \<leftarrow> upd_cell q (\<lambda>c. c\<lparr>c_dr := d\<rparr>) m; Some (q, m) }"
    using alloc_clone_cons [OF SCons.prems(3) _ nn(1) xy(2) nn(2,3)] SCons.prems(4) by fastforce
  note q2 = cloned_plain [OF q(1)]
  have keep: "sexp_on D nb m' z s" if "mem_grows m m'" "sexp_on D nb m z s" for m' z s
    by (rule sexp_on_frame [OF that(2)]) (use that(1) SCons.prems(2) in \<open>auto simp: mem_grows_def\<close>)
  have D: "D \<subseteq> live m'" if "mem_grows m m'" for m' using that SCons.prems(2) by (auto simp: mem_grows_def)
  have "ncells a \<le> cells_left m2" using q2 SCons.prems(4) by simp
  then obtain qa m3 where a: "alloc_clone f x m2 = Some (qa, m3)" "cloned m2 a qa m3"
    using SCons.IH(1) [OF keep [OF _ xy(3)] D _ _ f(2)] q2 by blast
  obtain c m4 where m4: "get_cell m2 q = Some c" "upd_cell q (\<lambda>c. c\<lparr>c_ar := qa\<rparr>) m3 = Some m4" "get_cell m4 q = Some (c\<lparr>c_ar := qa\<rparr>)"
    "alloc_inv m4" "cells_left m4 = cells_left m2 - ncells a" "mem_grows m m4" "live m2 \<subseteq> live m4" "prefix (blocks m2) (blocks m4)"
    "\<forall>z \<in> live m2. z \<noteq> q \<longrightarrow> get_cell m4 z = get_cell m2 z" "sexp_on (live m4 - live m2) (length (blocks m2)) m4 qa a"
    by (rule clone_into [OF a(2), of q m]) (use q2 in blast)+
  have "ncells d \<le> cells_left m4" using q2 m4(5) SCons.prems(4) by simp
  then obtain qd m5 where d: "alloc_clone f y m4 = Some (qd, m5)" "cloned m4 d qd m5"
    using SCons.IH(2) [OF keep [OF _ xy(4)] D _ _ f(3)] m4(4,6) by blast
  obtain c' m6 where m6: "get_cell m4 q = Some c'" "upd_cell q (\<lambda>c. c\<lparr>c_dr := qd\<rparr>) m5 = Some m6" "get_cell m6 q = Some (c'\<lparr>c_dr := qd\<rparr>)"
    "alloc_inv m6" "cells_left m6 = cells_left m4 - ncells d" "mem_grows m m6" "live m4 \<subseteq> live m6" "prefix (blocks m4) (blocks m6)"
    "\<forall>z \<in> live m4. z \<noteq> q \<longrightarrow> get_cell m6 z = get_cell m4 z" "sexp_on (live m6 - live m4) (length (blocks m4)) m6 qd d"
    by (rule clone_into [OF d(2), of q m]) (use q2 m4 in blast)+
  have "sexp_on (live m4 - live m2) (length (blocks m2)) m6 qa a"
    by (rule sexp_on_frame [OF m4(10)]) (use q2 m6(7-9) in auto)
  then have "sexp_on (live m6 - live m) (length (blocks m)) m6 qa a"
    by (rule sexp_on_mono) (use q2 m6(7) in \<open>auto simp: mem_grows_def dest: prefix_length_le\<close>)
  moreover have "sexp_on (live m6 - live m) (length (blocks m)) m6 qd d"
    by (rule sexp_on_mono [OF m6(10)]) (use m4(6) in \<open>auto simp: mem_grows_def dest: prefix_length_le\<close>)
  ultimately have "cloned m (SCons a d) q m6"
    using q2 m4 m6 by (auto simp: cloned_def)
  then show ?case using f q(2) a(1) d(1) m4(2) m6(2) by auto
qed

section \<open>Properties of the allocators\<close>

text \<open>
  C23. \<open>cell_alloc\<close> has no result (the code prints a message and ends the program with \<open>exit(1)\<close>) exactly when
  neither a recycled nor a fresh cell is left; otherwise it returns a cell that was not in use, takes exactly this
  cell into use, keeps the invariant and changes the contents of no cell.
\<close>

theorem cell_alloc_correct:
  assumes "alloc_inv m"
  shows "case cell_alloc m of
      None \<Rightarrow> cells_left m = 0
    | Some (p, m') \<Rightarrow> p \<notin> live m \<and> live m' = insert p (live m) \<and> alloc_inv m' \<and> cell_heap m' = cell_heap m
        \<and> cells_left m = Suc (cells_left m')"
proof (cases "cell_alloc m")
  case None
  with cell_alloc_None_iff [OF assms] show ?thesis by simp
next
  case (Some x)
  obtain p m' where x: "x = (p, m')" by (cases x)
  have "cells_left m \<noteq> 0" using cell_alloc_None_iff [OF assms] Some by auto
  then show ?thesis
    using Some x cell_alloc_spec [OF assms, of p m'] cell_alloc_other [of m p m'] cell_alloc_left [of m p m'] by simp
qed

theorem cell_alloc_correct_witness:
  "alloc_inv (init_allocator mem0) \<and>
   cell_alloc (init_allocator mem0) = Some (cellp 0, (init_allocator mem0)\<lparr>cells_used := 1\<rparr>) \<and>
   live ((init_allocator mem0)\<lparr>cells_used := 1\<rparr>) = insert (cellp 0) (live (init_allocator mem0))"
proof -
  have a: "cell_alloc (init_allocator mem0) = Some (cellp 0, (init_allocator mem0)\<lparr>cells_used := 1\<rparr>)"
    by (simp add: cell_alloc_def init_allocator_def mem0_def MAX_CELLS_def)
  have i: "alloc_inv (init_allocator mem0)" by (simp add: alloc_inv_mem0)
  show ?thesis using cell_alloc_correct [OF i] a i by simp
qed

text \<open>
  With enough cells left, \<open>alloc_list items num\<close> returns a nil-terminated list of the first
  \<open>num\<close> items in order, consumes \<open>num + 1\<close> cells and leaves every cell in use and every block
  as it was.
\<close>

theorem alloc_list_correct:
  assumes "alloc_inv m" "num < cells_left m" "num \<le> length items"
  shows "\<exists>l m'. alloc_list items num m = Some (l, m') \<and> list_at m' l (take num items) \<and> alloc_inv m'
    \<and> cells_left m' = cells_left m - num - 1 \<and> (\<forall>q \<in> live m. q \<in> live m' \<and> get_cell m' q = get_cell m q)
    \<and> blocks m' = blocks m"
  using alloc_list_ok [OF assms] by (fastforce simp: mem_grows_def same_rest_def)

theorem alloc_list_correct_witness:
  "\<exists>l m'. alloc_list [W 5, W 6] 2 (init_allocator mem0) = Some (l, m') \<and> list_at m' l [W 5, W 6]"
proof -
  have "alloc_inv (init_allocator mem0)" "2 < cells_left (init_allocator mem0)" "2 \<le> length [W 5, W 6]"
    by (simp_all add: alloc_inv_mem0 MAX_CELLS_def)
  from alloc_list_correct [OF this] show ?thesis by fastforce
qed

text \<open>
  C24. \<open>alloc_clone\<close> ends on every finite structure and makes a deep copy: the result represents the
  same expression, consists of cells and byte blocks that were not in use before, and the
  original and every other cell in use are unchanged.
\<close>

theorem alloc_clone_deep_copy:
  assumes "sexp_at m p s" "alloc_inv m" "ncells s \<le> cells_left m" "sdepth s \<le> fuel"
  shows "\<exists>q m'. alloc_clone fuel p m = Some (q, m') \<and> alloc_inv m'
    \<and> sexp_on (live m' - live m) (length (blocks m)) m' q s
    \<and> sexp_at m' p s \<and> (\<forall>c \<in> live m. get_cell m' c = get_cell m c) \<and> prefix (blocks m) (blocks m')"
proof -
  obtain q m' where q: "alloc_clone fuel p m = Some (q, m')" "cloned m s q m'"
    using alloc_clone_ok [OF assms(1) subset_refl assms(2-4)] by blast
  then have "mem_grows m m'" by (simp add: cloned_def)
  with q sexp_at_ext [OF this assms(1)] show ?thesis by (auto simp: cloned_def mem_grows_def)
qed

text \<open>The list with the one element \<open>"ab"\<close>, for the witnesses.\<close>

definition sample_mem :: mem where
  "sample_mem = mem0\<lparr>cell_heap := (\<lambda>_. zero_cell)(
       0 := \<lparr>c_ar = cellp 1, c_dr = cellp 2, c_tag = TAG_CONS\<rparr>,
       1 := \<lparr>c_ar = bytesp 0, c_dr = W 3, c_tag = TAG_STR\<rparr>,
       2 := \<lparr>c_ar = NULL, c_dr = NULL, c_tag = TAG_CONS\<rparr>),
     cells_used := 3, blocks := [[97, 98, 0]]\<rparr>"

lemma sample_mem_facts:
  "alloc_inv sample_mem" "cells_left sample_mem = 99997" "live sample_mem = {cellp 0, cellp 1, cellp 2}"
  "text_at sample_mem (cellp 1) TAG_STR 3 [97, 98]"
  "sexp_at sample_mem (cellp 0) (SCons (SStr [97, 98]) SNil)"
proof -
  show a: "alloc_inv sample_mem" "cells_left sample_mem = 99997"
    by (simp_all add: sample_mem_def mem0_def alloc_inv_def cells_left_def free_ptrs_def free_slots_def MAX_CELLS_def)
  show l: "live sample_mem = {cellp 0, cellp 1, cellp 2}"
    by (auto simp: sample_mem_def mem0_def live_def free_ptrs_def free_slots_def lessThan_nat_numeral lessThan_Suc)
  show t: "text_at sample_mem (cellp 1) TAG_STR 3 [97, 98]"
    unfolding text_at_def l by (simp add: sample_mem_def mem0_def get_cell_def MAX_CELLS_def)
  show "sexp_at sample_mem (cellp 0) (SCons (SStr [97, 98]) SNil)"
    using t unfolding l text_on_def sexp_on.simps
    by (simp add: sample_mem_def mem0_def get_cell_def MAX_CELLS_def)
qed

theorem alloc_clone_deep_copy_witness:
  "\<exists>q m'. alloc_clone 2 (cellp 0) sample_mem = Some (q, m')
     \<and> sexp_on (live m' - {cellp 0, cellp 1, cellp 2}) 1 m' q (SCons (SStr [97, 98]) SNil)"
proof -
  have "ncells (SCons (SStr [97, 98]) SNil) \<le> cells_left sample_mem" "sdepth (SCons (SStr [97, 98]) SNil) \<le> 2"
    "length (blocks sample_mem) = 1"
    by (simp_all add: sample_mem_facts(2)) (simp add: sample_mem_def)
  from alloc_clone_deep_copy [OF sample_mem_facts(5,1) this(1,2)] this(3) show ?thesis
    unfolding sample_mem_facts(3) by fastforce
qed

text \<open>
  C25. \<open>alloc_concat\<close> of two strings or byte cells allocates one cell and one block that holds the
  two C strings one after the other, NUL-terminated, and nothing else changes.
\<close>

theorem alloc_concat_correct:
  assumes "alloc_inv m" "0 < cells_left m" "text_at m p1 t1 w1 s1" "text_at m p2 t2 w2 s2"
    "t1 \<in> {TAG_BYTES, TAG_STR}" "t2 \<in> {TAG_BYTES, TAG_STR}" "length s1 + length s2 + 2 < 2 ^ 31"
  shows "\<exists>p m'. alloc_concat p1 p2 m = Some (p, m') \<and> text_at m' p TAG_STR (of_nat (length s1 + length s2 + 1)) (s1 @ s2)
    \<and> p \<notin> live m \<and> alloc_inv m' \<and> text_at m' p1 t1 w1 s1 \<and> text_at m' p2 t2 w2 s2"
proof -
  obtain p m' where p: "alloc_concat p1 p2 m = Some (p, m')"
    "fresh_bytes m p \<lparr>c_ar = bytesp (length (blocks m)), c_dr = W (of_nat (length s1 + length s2 + 1)), c_tag = TAG_STR\<rparr>
      (s1 @ s2 @ [0, 0]) m'"
    using alloc_concat_ok [OF assms] by blast
  have nul: "0 \<notin> set (s1 @ s2)" using read_cstr_text [OF assms(3)] read_cstr_text [OF assms(4)] by auto
  have u: "unat (of_nat (length s1 + length s2 + 1) :: u64) = length s1 + length s2 + 1"
    using assms(7) by (intro unat_of_nat_u64) simp
  have "c_str (s1 @ s2 @ [0, 0]) = Some (s1 @ s2)"
    using c_str_append_nul [OF nul, of "[0]"] by simp
  then have "text_at m' p TAG_STR (of_nat (length s1 + length s2 + 1)) (s1 @ s2)"
    by (rule fresh_bytes_text [OF p(2)]) (use u assms(7) in auto)
  then show ?thesis
    using p text_at_ext [OF fresh_bytes_ext [OF p(2)]] assms(3,4)
    by (auto simp: fresh_bytes_def fresh_cell_def)
qed

theorem alloc_concat_correct_witness:
  "\<exists>p m'. alloc_concat (cellp 1) (cellp 1) sample_mem = Some (p, m') \<and> text_at m' p TAG_STR 5 [97, 98, 97, 98]"
proof -
  have "0 < cells_left sample_mem" "TAG_STR \<in> {TAG_BYTES, TAG_STR}" "length [97, 98 :: byte] + length [97, 98 :: byte] + 2 < 2 ^ 31"
    by (simp_all add: sample_mem_facts(2))
  from alloc_concat_correct [OF sample_mem_facts(1) this(1) sample_mem_facts(4) sample_mem_facts(4) this(2,2,3)]
  show ?thesis by fastforce
qed

text \<open>
  C26. \<open>alloc_substr\<close> on a non-empty string or byte cell, for every start and length whose sum does
  not wrap around: the start is clipped to the last byte, the length to what is left, and the
  new string holds exactly these bytes and a NUL.
\<close>

theorem alloc_substr_correct:
  assumes "alloc_inv m" "0 < cells_left m" "get_cell m p = Some \<lparr>c_ar = P (OBytes b) off, c_dr = W sz, c_tag = tg\<rparr>"
    "tg \<in> {TAG_BYTES, TAG_STR}" "block_at m (P (OBytes b) off) = Some blk" "0 < unat sz" "unat sz \<le> length blk"
    "unat sz + 1 < 2 ^ 31" "unat start + unat len < 2 ^ 32"
  shows "\<exists>q m'. alloc_substr p start len m = Some (q, m') \<and>
    (let f = min (unat start) (unat sz - 1); l = min (unat len) (unat sz - f) in
     get_cell m' q = Some \<lparr>c_ar = bytesp (length (blocks m)), c_dr = W (of_nat l), c_tag = TAG_STR\<rparr>
     \<and> blocks m' = blocks m @ [take l (drop f blk) @ [0]] \<and> q \<notin> live m \<and> alloc_inv m')"
proof -
  have "min (unat start) (unat sz - 1) + unat len < 2 ^ 32" using assms(9) by simp
  from alloc_substr_ok [OF assms(1-8) this] show ?thesis by (auto simp: Let_def fresh_bytes_def fresh_cell_def)
qed

theorem alloc_substr_correct_witness:
  "\<exists>q m'. alloc_substr (cellp 1) 1 7 sample_mem = Some (q, m') \<and> blocks m' = [[97, 98, 0], [98, 0, 0]]"
proof -
  have "0 < cells_left sample_mem" "TAG_STR \<in> {TAG_BYTES, TAG_STR}"
    "get_cell sample_mem (cellp 1) = Some \<lparr>c_ar = P (OBytes 0) 0, c_dr = W 3, c_tag = TAG_STR\<rparr>"
    "block_at sample_mem (P (OBytes 0) 0) = Some [97, 98, 0]" "blocks sample_mem = [[97, 98, 0]]"
    by (simp_all add: sample_mem_facts(2)) (simp_all add: sample_mem_def mem0_def get_cell_def MAX_CELLS_def)
  from alloc_substr_correct [OF sample_mem_facts(1) this(1) this(3) this(2) this(4), of 1 7] this(5)
  show ?thesis by (simp add: Let_def) auto
qed

lemma sint_neg: "2 ^ 31 \<le> unat w \<Longrightarrow> sint w < 0" for w :: u32
proof (rule ccontr)
  assume a: "2 ^ 31 \<le> unat w" and "\<not> sint w < 0"
  then have "0 \<le> sint w" "sint w < 2 ^ 31" using sint_lt [of w] by simp_all
  moreover have "uint w = sint w mod 2 ^ 32" using uint_word_of_int [of "sint w", where 'a = 32] by (simp add: take_bit_eq_mod)
  ultimately have "uint w < 2 ^ 31" by simp
  then show False using a by (simp add: uint_nat del: of_nat_unat)
qed

lemma unat_next: "w \<noteq> - 1 \<Longrightarrow> unat (w + 1) = unat w + 1" for w :: u32
proof -
  assume "w \<noteq> - 1"
  then have "1 + w \<noteq> 0" by (simp add: add.commute eq_neg_iff_add_eq_0)
  from unatSuc [OF this] show ?thesis by (simp add: add.commute)
qed

lemma substr_wraps:
  fixes start len :: u32 and size :: u64
  assumes "0 < unat size" "unat size + 1 < 2 ^ 31" "2 ^ 32 \<le> min (unat start) (unat size - 1) + unat len"
  defines "f \<equiv> (if ucast start \<ge> size then ucast (size - 1) else start)"
  shows "\<not> ucast (len + f) > size" "len = - 1 \<or> sint (len + 1) < 0"
proof -
  have "unat (size - 1) = unat size - 1" using assms(1) by (subst unat_sub) (auto simp: word_le_nat_alt)
  then have f: "unat f = min (unat start) (unat size - 1)"
    using assms(1,2) by (auto simp: f_def word_le_nat_alt unat_ucast_down)
  have l: "unat len < 2 ^ 32" using unsigned_less [of len, where 'a = nat] by simp
  have "unat (len + f) = (unat len + unat f) mod 2 ^ 32" by (simp add: unat_word_ariths)
  also have "\<dots> = unat len + unat f - 2 ^ 32"
    using assms(2,3) l f by (subst mod_if) (auto simp: le_mod_geq)
  finally show "\<not> ucast (len + f) > size" using l f assms(1) by (simp add: word_less_nat_alt)
  show "len = - 1 \<or> sint (len + 1) < 0"
  proof (cases "len = - 1")
    case False
    then have "unat (len + 1) = unat len + 1" by (rule unat_next)
    then have "2 ^ 31 \<le> unat (len + 1)" using assms(2,3) by simp
    then show ?thesis by (simp add: sint_neg)
  qed simp
qed

text \<open>
  C27. The clipping of \<open>alloc_substr\<close> adds start and length in 32 bits. For a string in a block of memory and with a cell left, the call
  returns exactly when the sum of the clipped start and the length stays below \<open>2 ^ 32\<close>, however far beyond the end of the string it
  is: such lengths are cut. When the sum wraps around, as for every start but 0 and the length \<open>-1\<close>, the check lets the length pass, and the
  allocation of its bytes or the copy is not defined.
\<close>

theorem alloc_substr_returns_iff:
  assumes "alloc_inv m" "0 < cells_left m" "get_cell m p = Some \<lparr>c_ar = P (OBytes b) off, c_dr = W sz, c_tag = tg\<rparr>"
    "tg \<in> {TAG_BYTES, TAG_STR}" "block_at m (P (OBytes b) off) = Some blk" "0 < unat sz" "unat sz \<le> length blk" "unat sz + 1 < 2 ^ 31"
  shows "(\<exists>q m'. alloc_substr p start len m = Some (q, m')) \<longleftrightarrow> min (unat start) (unat sz - 1) + unat len < 2 ^ 32"
proof (cases "min (unat start) (unat sz - 1) + unat len < 2 ^ 32")
  case True
  then show ?thesis using alloc_substr_ok [OF assms True] by auto
next
  case False
  obtain i m1 where tk: "taken m i m1" using taken_exists [OF assms(1,2)] by blast
  note 1 = taken_simps [OF tk]
  define f where "f = (if ucast start \<ge> sz then ucast (sz - 1) else start)"
  have w: "\<not> ucast (len + f) > sz" "len = - 1 \<or> sint (len + 1) < 0"
    using substr_wraps [OF assms(6,8), of start len] False by (simp_all add: f_def)
  have p: "p \<noteq> NULL" "is_bytes \<lparr>c_ar = P (OBytes b) off, c_dr = W sz, c_tag = tg\<rparr>"
    using assms(3,4) by (auto simp: is_bytes_def)
  have "unat (- 1 :: u32) = 4294967295" by (simp add: unsigned_minus_1_eq_mask mask_eq_exp_minus_1)
  then have "alloc_substr p start len m = None"
    unfolding alloc_substr_def
    apply (simp only: assms(3) p 1(1) as_word.simps Option.bind.bind_lunit prod.case if_False not_True_eq_False
      Let_def simp_thms f_def [symmetric] w(1) cell.simps)
    using w(2) 1(1-5)
    by (auto simp: bytes_alloc_def memcpy_def read_bytes_def bind_eq_None_conv split: if_splits)
  then show ?thesis using False by simp
qed

theorem alloc_substr_returns_iff_witness:
  "(\<exists>q m'. alloc_substr (cellp 1) 0 (- 1) sample_mem = Some (q, m')) \<and> alloc_substr (cellp 1) 1 (- 1) sample_mem = None"
proof -
  have f: "0 < cells_left sample_mem" "get_cell sample_mem (cellp 1) = Some \<lparr>c_ar = P (OBytes 0) 0, c_dr = W 3, c_tag = TAG_STR\<rparr>"
    "TAG_STR \<in> {TAG_BYTES, TAG_STR}" "block_at sample_mem (P (OBytes 0) 0) = Some [97, 98, 0]"
    by (simp_all add: sample_mem_facts(2)) (simp_all add: sample_mem_def mem0_def get_cell_def MAX_CELLS_def)
  have "unat (- 1 :: u32) = 4294967295" by (simp add: unsigned_minus_1_eq_mask mask_eq_exp_minus_1)
  then show ?thesis
    using alloc_substr_returns_iff [OF sample_mem_facts(1) f, of 0 "- 1"] alloc_substr_returns_iff [OF sample_mem_facts(1) f, of 1 "- 1"]
    by (cases "alloc_substr (cellp 1) 1 (- 1) sample_mem") auto
qed

lemma alloc_num_bytes_ok:
  assumes "alloc_inv m" "0 < cells_left m" "unat (k + 1) < 2 ^ 31"
  shows "\<exists>p m'. alloc_num_bytes k m = Some (p, m') \<and>
      fresh_bytes m p \<lparr>c_ar = bytesp (length (blocks m)), c_dr = W (ucast k), c_tag = TAG_BYTES\<rparr> (replicate (unat (k + 1)) 0) m'"
    "\<exists>p m'. alloc_num_string k m = Some (p, m') \<and>
      fresh_bytes m p \<lparr>c_ar = bytesp (length (blocks m)), c_dr = W (ucast k), c_tag = TAG_STR\<rparr> (replicate (unat (k + 1)) 0) m'"
proof -
  obtain i m1 where tk: "taken m i m1" using taken_exists [OF assms(1,2)] by blast
  note 1 = taken_simps [OF tk]
  show "\<exists>p m'. alloc_num_bytes k m = Some (p, m') \<and>
      fresh_bytes m p \<lparr>c_ar = bytesp (length (blocks m)), c_dr = W (ucast k), c_tag = TAG_BYTES\<rparr> (replicate (unat (k + 1)) 0) m'"
    using assms(3) 1 by (auto simp: alloc_num_bytes_def bytes_alloc_ok intro!: taken_fresh_bytes [OF tk])
  show "\<exists>p m'. alloc_num_string k m = Some (p, m') \<and>
      fresh_bytes m p \<lparr>c_ar = bytesp (length (blocks m)), c_dr = W (ucast k), c_tag = TAG_STR\<rparr> (replicate (unat (k + 1)) 0) m'"
    using assms(3) 1 by (auto simp: alloc_num_string_def bytes_alloc_ok intro!: taken_fresh_bytes [OF tk])
qed

end
