(* ===== verification/Reader.thy ===== *)
theory Reader
  imports Alloc
begin

text \<open>
  The incremental reader of \<^verbatim>\<open>src/sledge/reader.c\<close>: a state machine that consumes one
  character at a time and builds cells. The array \<open>stack_root\<close> of 32 cells that \<open>read_string\<close>
  lends to the state machine holds 96 pointers; a push beyond it is stuck. The counters
  \<open>sym_len\<close> and \<open>level\<close> count characters of the input and are natural numbers (an input has
  fewer than \<open>2 ^ 32\<close> characters).
\<close>

section \<open>Reader states\<close>

datatype pst =
  PST_ATOM | PST_NUM | PST_SYM | PST_STR | PST_NUM_NEG | PST_BYTES | PST_COMMENT
  | PST_ERR_UNEXP_CLOSING_BRACE | PST_ERR_UNEXP_JUNK_IN_NUMBER | PST_ERR_UNEXP_JUNK_IN_BYTES

datatype vst = VST_DEFAULT | VST_HEX

text \<open>The test \<open>rs.state>=10\<close>.\<close>

fun is_error :: "pst \<Rightarrow> bool" where
  "is_error PST_ERR_UNEXP_CLOSING_BRACE = True"
| "is_error PST_ERR_UNEXP_JUNK_IN_NUMBER = True"
| "is_error PST_ERR_UNEXP_JUNK_IN_BYTES = True"
| "is_error _ = False"

record reader =
  rs_state :: pst
  rs_cell :: val
  rs_sym_len :: nat
  rs_valuestate :: vst
  rs_stack :: "val option list"
  rs_sp :: nat
  rs_level :: nat

definition stack_slots :: nat where "stack_slots = 96"

text \<open>\<open>*rs->stack = cell\<close> and \<open>*rs->stack\<close>.\<close>

definition stack_put :: "val \<Rightarrow> reader \<Rightarrow> reader option" where
  "stack_put x rs =
     (if rs_sp rs < length (rs_stack rs) then Some (rs\<lparr>rs_stack := (rs_stack rs)[rs_sp rs := Some x]\<rparr>) else None)"

definition stack_top :: "reader \<Rightarrow> val option" where
  "stack_top rs = (if rs_sp rs < length (rs_stack rs) then rs_stack rs ! rs_sp rs else None)"

section \<open>Character classes\<close>

definition is_white :: "byte \<Rightarrow> bool" where
  "is_white c \<longleftrightarrow> c = 32 \<or> c = 13 \<or> c = 10"

definition is_digit :: "byte \<Rightarrow> bool" where
  "is_digit c \<longleftrightarrow> 48 \<le> c \<and> c \<le> 57"

definition is_hex_lower :: "byte \<Rightarrow> bool" where
  "is_hex_lower c \<longleftrightarrow> 97 \<le> c \<and> c \<le> 102"

definition is_hex_upper :: "byte \<Rightarrow> bool" where
  "is_hex_upper c \<longleftrightarrow> 65 \<le> c \<and> c \<le> 70"

section \<open>Steps\<close>

definition reader_next_list_cell :: "val \<Rightarrow> reader \<Rightarrow> mem \<Rightarrow> (val \<times> reader \<times> mem) option" where
  "reader_next_list_cell cell rs m =
     do {
       (n, m) \<leftarrow> alloc_nil m;
       m \<leftarrow> upd_cell cell (\<lambda>c. c\<lparr>c_dr := n\<rparr>) m;
       Some (n, rs\<lparr>rs_state := PST_ATOM\<rparr>, m)
     }"

definition reader_end_list :: "val \<Rightarrow> reader \<Rightarrow> mem \<Rightarrow> (val \<times> reader \<times> mem) option" where
  "reader_end_list cell rs m =
     (if rs_level rs < 1 then Some (cell, rs\<lparr>rs_state := PST_ERR_UNEXP_CLOSING_BRACE\<rparr>, m)
      else do {
        let rs = rs\<lparr>rs_level := rs_level rs - 1, rs_sp := rs_sp rs - 1\<rparr>;
        x \<leftarrow> get_cell m cell;
        m \<leftarrow> (if c_ar x \<noteq> NULL
               then do { (n, m) \<leftarrow> alloc_nil m; upd_cell cell (\<lambda>c. c\<lparr>c_dr := n\<rparr>) m }
               else Some m);
        cell \<leftarrow> stack_top rs;
        (cell, rs, m) \<leftarrow> reader_next_list_cell cell rs m;
        Some (cell, rs\<lparr>rs_state := PST_ATOM\<rparr>, m)
      })"

text \<open>The branch of \<open>read_char\<close> in the state \<open>PST_ATOM\<close>.\<close>

definition read_atom :: "byte \<Rightarrow> val \<Rightarrow> reader \<Rightarrow> mem \<Rightarrow> (val \<times> reader \<times> mem) option" where
  "read_atom c cell rs m =
     (if is_white c then Some (cell, rs, m)
      else if c = 59 then Some (cell, rs\<lparr>rs_state := PST_COMMENT\<rparr>, m)
      else if is_digit c then
        do {
          let rs = rs\<lparr>rs_state := PST_NUM, rs_valuestate := VST_DEFAULT\<rparr>;
          (n, m) \<leftarrow> alloc_int 0 m;
          m \<leftarrow> upd_cell n (\<lambda>x. x\<lparr>c_ar := W (ucast (c - 48))\<rparr>) m;
          m \<leftarrow> upd_cell cell (\<lambda>x. x\<lparr>c_ar := n\<rparr>) m;
          Some (cell, rs, m)
        }
      else if c = 40 then
        do {
          (n, m) \<leftarrow> alloc_nil m;
          m \<leftarrow> upd_cell cell (\<lambda>x. x\<lparr>c_ar := n\<rparr>) m;
          rs \<leftarrow> stack_put cell rs;
          Some (n, rs\<lparr>rs_sp := rs_sp rs + 1, rs_level := rs_level rs + 1, rs_state := PST_ATOM\<rparr>, m)
        }
      else if c = 41 then reader_end_list cell rs m
      else if c = 91 then
        do {
          let rs = rs\<lparr>rs_state := PST_BYTES, rs_sym_len := 0\<rparr>;
          (n, m) \<leftarrow> alloc_bytes m;
          m \<leftarrow> upd_cell cell (\<lambda>x. x\<lparr>c_ar := n\<rparr>) m;
          Some (cell, rs, m)
        }
      else if c = 34 then
        do {
          let rs = rs\<lparr>rs_state := PST_STR, rs_sym_len := 0\<rparr>;
          (n, m) \<leftarrow> alloc_string m;
          m \<leftarrow> upd_cell cell (\<lambda>x. x\<lparr>c_ar := n\<rparr>) m;
          Some (cell, rs, m)
        }
      else
        do {
          let rs = rs\<lparr>rs_state := PST_SYM, rs_sym_len := 1\<rparr>;
          (n, m) \<leftarrow> alloc_num_bytes SYM_INIT_BUFFER_SIZE m;
          m \<leftarrow> upd_cell n (\<lambda>x. x\<lparr>c_tag := TAG_SYM\<rparr>) m;
          x \<leftarrow> get_cell m n;
          m \<leftarrow> write_bytes (c_ar x) (replicate (unat SYM_INIT_BUFFER_SIZE) 0) m;
          m \<leftarrow> write_bytes (c_ar x) [c] m;
          m \<leftarrow> upd_cell n (\<lambda>x. x\<lparr>c_dr := W (ucast SYM_INIT_BUFFER_SIZE)\<rparr>) m;
          m \<leftarrow> upd_cell cell (\<lambda>x. x\<lparr>c_ar := n\<rparr>) m;
          Some (cell, rs, m)
        })"

text \<open>The branch for \<open>PST_NUM\<close> and \<open>PST_NUM_NEG\<close>.\<close>

definition read_num :: "byte \<Rightarrow> val \<Rightarrow> reader \<Rightarrow> mem \<Rightarrow> (val \<times> reader \<times> mem) option" where
  "read_num c cell rs m =
     (if is_digit c \<or> (rs_valuestate rs = VST_HEX \<and> is_hex_lower c) then
        do {
          x \<leftarrow> get_cell m cell;
          v \<leftarrow> get_cell m (c_ar x);
          value \<leftarrow> as_word (c_ar v);
          let mul = (if rs_valuestate rs = VST_HEX then 16 else 10);
          let d = (if 97 \<le> c then 10 + ucast (c - 97) else ucast (c - 48));
          m \<leftarrow> upd_cell (c_ar x) (\<lambda>y. y\<lparr>c_ar := W (if rs_state rs = PST_NUM_NEG then value * mul - d else value * mul + d)\<rparr>) m;
          Some (cell, rs, m)
        }
      else if is_white c then reader_next_list_cell cell rs m
      else if c = 41 then reader_end_list cell rs m
      else if c = 120 then Some (cell, rs\<lparr>rs_valuestate := VST_HEX\<rparr>, m)
      else Some (cell, rs\<lparr>rs_state := PST_ERR_UNEXP_JUNK_IN_NUMBER\<rparr>, m))"

text \<open>Doubling of a buffer, as written twice in \<open>read_char\<close>.\<close>

definition grow_buffer :: "val \<Rightarrow> mem \<Rightarrow> mem option" where
  "grow_buffer vcell m =
     do {
       v \<leftarrow> get_cell m vcell;
       size \<leftarrow> as_word (c_dr v);
       (a, m) \<leftarrow> cell_realloc (c_ar v) (ucast size) (ucast (2 * size)) m;
       m \<leftarrow> upd_cell vcell (\<lambda>x. x\<lparr>c_ar := a\<rparr>) m;
       m \<leftarrow> write_bytes (ptr_add a (unat size)) (replicate (unat size) 0) m;
       upd_cell vcell (\<lambda>x. x\<lparr>c_dr := W (2 * size)\<rparr>) m
     }"

text \<open>The block of \<open>read_char\<close> under \<open>if (append)\<close>.\<close>

definition append_char :: "byte \<Rightarrow> val \<Rightarrow> reader \<Rightarrow> mem \<Rightarrow> (val \<times> reader \<times> mem) option" where
  "append_char c cell rs m =
     do {
       x \<leftarrow> get_cell m cell;
       v \<leftarrow> get_cell m (c_ar x);
       size \<leftarrow> as_word (c_dr v);
       let idx = rs_sym_len rs;
       let rs = rs\<lparr>rs_sym_len := idx + 1\<rparr>;
       m \<leftarrow> (if of_nat (rs_sym_len rs) \<ge> size - 1 then grow_buffer (c_ar x) m else Some m);
       v \<leftarrow> get_cell m (c_ar x);
       m \<leftarrow> write_bytes (ptr_add (c_ar v) idx) [c] m;
       Some (cell, rs, m)
     }"

text \<open>The branch for \<open>PST_SYM\<close> and \<open>PST_STR\<close>.\<close>

definition read_sym_or_str :: "byte \<Rightarrow> val \<Rightarrow> reader \<Rightarrow> mem \<Rightarrow> (val \<times> reader \<times> mem) option" where
  "read_sym_or_str c cell rs m =
     (if rs_state rs = PST_STR then
        (if c = 34
         then do {
           x \<leftarrow> get_cell m cell;
           m \<leftarrow> upd_cell (c_ar x) (\<lambda>y. y\<lparr>c_dr := W (of_nat (rs_sym_len rs))\<rparr>) m;
           reader_next_list_cell cell rs m
         }
         else append_char c cell rs m)
      else if c = 41 then reader_end_list cell rs m
      else if is_white c then reader_next_list_cell cell rs m
      else if is_digit c then
        do {
          x \<leftarrow> get_cell m cell;
          v \<leftarrow> get_cell m (c_ar x);
          first \<leftarrow> read_bytes m (c_ar v) 1;
          if first = [45]
          then do {
            let rs = rs\<lparr>rs_state := PST_NUM_NEG\<rparr>;
            m \<leftarrow> upd_cell (c_ar x) (\<lambda>y. y\<lparr>c_tag := TAG_INT, c_ar := W (- ucast (c - 48))\<rparr>) m;
            Some (cell, rs, m)
          }
          else append_char c cell rs m
        }
      else append_char c cell rs m)"

definition hex_value :: "byte \<Rightarrow> byte" where
  "hex_value c =
     (let n = (if 97 \<le> c then c - 39 else c);
          n = (if 65 \<le> n then n - 7 else n)
      in n - 48)"

text \<open>The branch for \<open>PST_BYTES\<close>.\<close>

definition read_hex_bytes :: "byte \<Rightarrow> val \<Rightarrow> reader \<Rightarrow> mem \<Rightarrow> (val \<times> reader \<times> mem) option" where
  "read_hex_bytes c cell rs m =
     (if c = 93 then
        do {
          x \<leftarrow> get_cell m cell;
          m \<leftarrow> upd_cell (c_ar x) (\<lambda>y. y\<lparr>c_dr := W (of_nat (rs_sym_len rs div 2))\<rparr>) m;
          reader_next_list_cell cell rs m
        }
      else if is_digit c \<or> is_hex_lower c \<or> is_hex_upper c then
        do {
          let n = hex_value c;
          x \<leftarrow> get_cell m cell;
          v \<leftarrow> get_cell m (c_ar x);
          size \<leftarrow> as_word (c_dr v);
          let idx = rs_sym_len rs;
          let rs = rs\<lparr>rs_sym_len := idx + 1\<rparr>;
          m \<leftarrow> (if of_nat (rs_sym_len rs) \<ge> size div 2 - 1 then grow_buffer (c_ar x) m else Some m);
          v \<leftarrow> get_cell m (c_ar x);
          m \<leftarrow> (if idx mod 2 = 0 then write_bytes (ptr_add (c_ar v) (idx div 2)) [push_bit 4 n] m
                 else do {
                   old \<leftarrow> read_bytes m (ptr_add (c_ar v) (idx div 2)) 1;
                   write_bytes (ptr_add (c_ar v) (idx div 2)) [hd old OR n] m
                 });
          Some (cell, rs, m)
        }
      else if is_white c then Some (cell, rs, m)
      else Some (cell, rs\<lparr>rs_state := PST_ERR_UNEXP_JUNK_IN_BYTES\<rparr>, m))"

definition read_char :: "byte \<Rightarrow> reader \<Rightarrow> mem \<Rightarrow> (reader \<times> mem) option" where
  "read_char c rs m =
     do {
       (cell, rs, m) \<leftarrow>
         (if rs_cell rs = NULL
          then do {
            (cell, m) \<leftarrow> alloc_nil m;
            (n, m) \<leftarrow> alloc_nil m;
            m \<leftarrow> upd_cell cell (\<lambda>x. x\<lparr>c_dr := n\<rparr>) m;
            rs \<leftarrow> stack_put cell rs;
            Some (cell, rs, m)
          }
          else Some (rs_cell rs, rs, m));
       (cell, rs, m) \<leftarrow>
         (case rs_state rs of
            PST_ATOM \<Rightarrow> read_atom c cell rs m
          | PST_COMMENT \<Rightarrow>
              Some (cell, if c = 10 \<or> c = 0 then rs\<lparr>rs_state := PST_ATOM\<rparr> else rs, m)
          | PST_NUM \<Rightarrow> read_num c cell rs m
          | PST_NUM_NEG \<Rightarrow> read_num c cell rs m
          | PST_SYM \<Rightarrow> read_sym_or_str c cell rs m
          | PST_STR \<Rightarrow> read_sym_or_str c cell rs m
          | PST_BYTES \<Rightarrow> read_hex_bytes c cell rs m
          | _ \<Rightarrow> Some (cell, rs, m));
       Some (rs\<lparr>rs_cell := cell\<rparr>, m)
     }"

section \<open>Reading a string\<close>

text \<open>The loop of \<open>read_string\<close>: it stops at the first error.\<close>

fun read_chars :: "byte list \<Rightarrow> reader \<Rightarrow> mem \<Rightarrow> (reader \<times> mem) option" where
  "read_chars [] rs m = Some (rs, m)"
| "read_chars (c # cs) rs m =
     do {
       (rs, m) \<leftarrow> read_char c rs m;
       if is_error (rs_state rs) then Some (rs, m) else read_chars cs rs m
     }"

text \<open>
  The local \<open>rs\<close> of \<open>read_string\<close>. Its field \<open>valuestate\<close> is not initialised: \<open>vs0\<close> is whatever
  value it happens to have.
\<close>

definition reader_init :: "vst \<Rightarrow> reader" where
  "reader_init vs0 = \<lparr>rs_state = PST_ATOM, rs_cell = NULL, rs_sym_len = 0, rs_valuestate = vs0,
     rs_stack = replicate stack_slots None, rs_sp = 0, rs_level = 0\<rparr>"

definition read_string :: "vst \<Rightarrow> cstr \<Rightarrow> mem \<Rightarrow> (val \<times> mem) option" where
  "read_string vs0 input m =
     do {
       (rs, m) \<leftarrow> read_chars input (reader_init vs0) m;
       if is_error (rs_state rs) then alloc_error ERR_SYNTAX m
       else if rs_level rs \<noteq> 0 then alloc_error ERR_SYNTAX m
       else do {
         root \<leftarrow> stack_top rs;
         if root \<noteq> NULL then do { c \<leftarrow> car m root; Some (c, m) } else alloc_error ERR_SYNTAX m
       }
     }"

definition read_string_cell :: "vst \<Rightarrow> val \<Rightarrow> mem \<Rightarrow> (val \<times> mem) option" where
  "read_string_cell vs0 input m =
     (if input = NULL then alloc_nil m
      else do {
        x \<leftarrow> get_cell m input;
        size \<leftarrow> as_word (c_dr x);
        if size = 0 then alloc_nil m
        else do {
          m \<leftarrow> write_bytes (ptr_add (c_ar x) (unat size)) [0] m;
          s \<leftarrow> read_cstr m (c_ar x);
          read_string vs0 s m
        }
      })"

end
