(* ===== verification/Writer.thy ===== *)
theory Writer
  imports Reader
begin

text \<open>
  The printer of \<^verbatim>\<open>src/sledge/writer.c\<close>. \<open>write_cell fuel m cell cap in_list bufsize\<close> is the C string
  found in a buffer of \<open>cap\<close> bytes after \<open>write_(cell, buffer, in_list, bufsize)\<close>; a write beyond
  the buffer, or a \<open>%s\<close> of a word that is no string, gives \<open>None\<close>. \<open>bufsize\<close> is an \<open>int\<close>; passed to
  \<open>snprintf\<close> it becomes a \<open>size_t\<close>, so that a negative value is a huge bound. The fuel bounds the depth
  of the recursion, which a cyclic structure would not end.
\<close>

section \<open>Formatting\<close>

definition digit_char :: "nat \<Rightarrow> byte" where
  "digit_char d = 48 + of_nat d"

fun show_nat :: "nat \<Rightarrow> byte list" where
  "show_nat n = (if n < 10 then [digit_char n] else show_nat (n div 10) @ [digit_char (n mod 10)])"

declare show_nat.simps [simp del]

definition show_int :: "int \<Rightarrow> byte list" where
  "show_int i = (if i < 0 then bs ''-'' @ show_nat (nat (- i)) else show_nat (nat i))"

definition hex_char :: "byte \<Rightarrow> byte" where
  "hex_char d = (if d < 10 then 48 + d else 87 + d)"

text \<open>The format \<open>%02x\<close> of a byte.\<close>

definition hex_byte :: "byte \<Rightarrow> byte list" where
  "hex_byte b = [hex_char (b div 16), hex_char (b mod 16)]"

definition size_of_int :: "int \<Rightarrow> nat" where
  "size_of_int n = nat (n mod 2 ^ 64)"

text \<open>\<open>snprintf(buffer, n, ...)\<close> of the text \<open>s\<close> into a buffer that starts with NUL.\<close>

definition snprintf :: "nat \<Rightarrow> int \<Rightarrow> byte list \<Rightarrow> byte list option" where
  "snprintf cap n s =
     (let k = size_of_int n in
      if k = 0 then Some []
      else if length (take (k - 1) s) < cap then Some (take (k - 1) s) else None)"

definition TMP_BUF_SIZE :: nat where "TMP_BUF_SIZE = 512"

definition tag_to_str :: "u64 \<Rightarrow> string" where
  "tag_to_str tg =
     (if tg = TAG_FREED then ''freed'' else if tg = TAG_INT then ''int'' else if tg = TAG_CONS then ''cons''
      else if tg = TAG_SYM then ''symbol'' else if tg = TAG_LAMBDA then ''lambda'' else if tg = TAG_BUILTIN then ''builtin''
      else if tg = TAG_BIGNUM then ''bignum'' else if tg = TAG_STR then ''string'' else if tg = TAG_BYTES then ''bytes''
      else if tg = TAG_VEC then ''vector'' else if tg = TAG_ERROR then ''error'' else if tg = TAG_ANY then ''any''
      else if tg = TAG_VOID then ''void'' else if tg = TAG_STREAM then ''stream'' else if tg = TAG_STRUCT then ''struct''
      else ''unknown'')"

definition error_text :: "u64 \<Rightarrow> byte list" where
  "error_text v =
     (if v = ucast ERR_SYNTAX then bs ''<e0:syntax error.>''
      else if v = ucast ERR_MAX_EVAL_DEPTH then bs ''<e1:deepest level of evaluation reached.>''
      else if v = ucast ERR_UNKNOWN_OP then bs ''<e2:unknown operation.>''
      else if v = ucast ERR_APPLY_NIL then bs ''<e3:cannot apply nil.>''
      else if v = ucast ERR_INVALID_PARAM_TYPE then bs ''<e4:invalid or no parameter given.>''
      else if v = ucast ERR_OUT_OF_BOUNDS then bs ''<e5:out of bounds.>''
      else bs ''<e'' @ show_int (sint v) @ bs '':unknown>'')"

section \<open>The cases of the printer\<close>

text \<open>Strings: the bound is \<open>min(bufsize-1,cell->dr.size+3)\<close>, compared as unsigned words.\<close>

definition write_str :: "mem \<Rightarrow> cell \<Rightarrow> nat \<Rightarrow> int \<Rightarrow> byte list option" where
  "write_str m c cap bufsize =
     do {
       size \<leftarrow> as_word (c_dr c);
       s \<leftarrow> read_cstr m (c_ar c);
       let a = (word_of_int (bufsize - 1) :: u64);
       let b = size + 3;
       snprintf cap (uint (if a < b then a else b)) (bs [CHR 0x22] @ s @ bs [CHR 0x22])
     }"

definition write_hex :: "mem \<Rightarrow> cell \<Rightarrow> nat \<Rightarrow> int \<Rightarrow> byte list option" where
  "write_hex m c cap bufsize =
     do {
       size \<leftarrow> as_word (c_dr c);
       let a = size * 2 + 3;
       let b = (word_of_int bufsize :: u64);
       let strsize = sint (ucast (if a < b then a else b) :: u32);
       let max_bytes = (strsize - 3) div 2;
       if bufsize > 5
       then if max_bytes < 0 then None else do {
         ds \<leftarrow> read_bytes m (c_ar c) (nat max_bytes);
         let out = bs ''['' @ concat (map hex_byte ds) @ bs '']'';
         if length out < cap then Some out else None
       }
       else Some []
     }"

text \<open>The argument list of a lambda, written to \<open>tmp_args\<close>; \<open>ai\<close> is what \<open>snprintf\<close> has returned so
  far, \<open>out\<close> what the array holds.\<close>

fun write_args :: "nat \<Rightarrow> mem \<Rightarrow> val \<Rightarrow> nat \<Rightarrow> byte list \<Rightarrow> byte list option" where
  "write_args 0 m args ai out = None"
| "write_args (Suc fuel) m args ai out =
     (if args = NULL then Some out
      else do {
        arg \<leftarrow> car m args;
        name \<leftarrow> car m arg;
        if name = NULL then Some out
        else do {
          n \<leftarrow> get_cell m name;
          text \<leftarrow> (if c_tag n = TAG_CONS
                  then do {
                    a \<leftarrow> car m name;
                    ac \<leftarrow> get_cell m a;
                    s1 \<leftarrow> read_cstr m (c_ar ac);
                    r \<leftarrow> cdr m name;
                    b \<leftarrow> car m r;
                    bc \<leftarrow> get_cell m b;
                    s2 \<leftarrow> read_cstr m (c_ar bc);
                    Some ((if ai \<noteq> 0 then bs '' ('' else bs ''('') @ s1 @ bs '' '' @ s2 @ bs '')'')
                  }
                  else do {
                    s \<leftarrow> read_cstr m (c_ar n);
                    Some ((if ai \<noteq> 0 then bs '' '' else []) @ s)
                  });
          out \<leftarrow> (if ai = TMP_BUF_SIZE then Some out
                 else if TMP_BUF_SIZE < ai then None
                 else Some (take ai out @ take (TMP_BUF_SIZE - ai - 1) text));
          rest \<leftarrow> cdr m args;
          write_args fuel m rest (ai + length text) out
        }
      })"

text \<open>The loop over the elements of a vector or struct; \<open>out\<close> is what the buffer holds up to \<open>pos\<close>, and
  \<open>wr\<close> writes one element into the rest of the buffer.\<close>

function write_elems ::
  "(val \<Rightarrow> nat \<Rightarrow> int \<Rightarrow> byte list option) \<Rightarrow> mem \<Rightarrow> val \<Rightarrow> nat \<Rightarrow> int \<Rightarrow> int \<Rightarrow> int \<Rightarrow> byte list \<Rightarrow> byte list option"
where
  "write_elems wr m vec cap bufsize elements i out =
     (let pos = length out in
      if i < elements \<and> int pos < bufsize - 1
      then do {
        x \<leftarrow> vec_get m vec (nat i);
        if pos \<le> cap then do {
          s \<leftarrow> wr x (cap - pos) (bufsize - int pos);
          if pos + length s < cap
          then write_elems wr m vec cap bufsize elements (i + 1) (out @ s @ bs '' '')
          else None
        }
        else None
      }
      else if pos + 1 < cap then Some (out @ bs '')'') else None)"
  by pat_completeness auto

termination
  by (relation "measure (\<lambda>(wr, m, vec, cap, bufsize, elements, i, out). nat (elements - i))") auto

definition write_vec ::
  "(val \<Rightarrow> nat \<Rightarrow> int \<Rightarrow> byte list option) \<Rightarrow> mem \<Rightarrow> cell \<Rightarrow> nat \<Rightarrow> int \<Rightarrow> byte list option"
where
  "write_vec wr m c cap bufsize =
     do {
       size \<leftarrow> as_word (c_dr c);
       let elements = sint (ucast size :: u32);
       if bufsize > 12
       then do {
         (out, i) \<leftarrow>
           (if c_tag c = TAG_VEC then Some (bs ''(vec '', 0)
            else if c_tag c = TAG_STRUCT_DEF then Some (bs ''(struct '', 0)
            else if c_ar c = NULL then Some (bs ''('', 0)
            else do {
              d \<leftarrow> vec_get m (c_ar c) 0;
              if d = NULL then Some (bs ''('', 0)
              else do {
                def \<leftarrow> get_cell m d;
                name \<leftarrow> vec_get m (c_ar def) 0;
                nc \<leftarrow> get_cell m name;
                s \<leftarrow> read_cstr m (c_ar nc);
                Some (bs ''('' @ s @ bs '' '', 1)
              }
            });
         if length out < cap then write_elems wr m (c_ar c) cap bufsize elements i out else None
       }
       else Some []
     }"

definition write_stream :: "mem \<Rightarrow> cell \<Rightarrow> byte list option" where
  "write_stream m c =
     (if c_ar c = NULL then Some (bs ''<stream:null>'')
      else do {
        s \<leftarrow> as_stream m (c_ar c);
        p \<leftarrow> get_cell m (s_path s);
        s1 \<leftarrow> read_cstr m (c_ar p);
        fs \<leftarrow> as_fs m (s_fs s);
        mp \<leftarrow> get_cell m (mount_point fs);
        s2 \<leftarrow> read_cstr m (c_ar mp);
        Some (bs ''<stream:'' @ show_int (sint (s_id s)) @ bs '':'' @ s1 @ bs '':'' @ s2 @ bs ''>'')
      })"

text \<open>A cons cell with at least one field set; \<open>wr\<close> writes into a temporary of 512 bytes.\<close>

definition write_cons :: "(val \<Rightarrow> bool \<Rightarrow> byte list option) \<Rightarrow> mem \<Rightarrow> cell \<Rightarrow> bool \<Rightarrow> byte list option" where
  "write_cons wr m c in_list =
     do {
       tmpl \<leftarrow> wr (c_ar c) False;
       proper \<leftarrow> (if c_dr c = NULL then Some False else map_option (\<lambda>d. c_tag d = TAG_CONS) (get_cell m (c_dr c)));
       if proper
       then do {
         tmpr \<leftarrow> wr (c_dr c) True;
         Some (if in_list then (if tmpr \<noteq> [] then tmpl @ bs '' '' @ tmpr else tmpl)
               else bs ''('' @ tmpl @ bs '' '' @ tmpr @ bs '')'')
       }
       else do {
         tmpr \<leftarrow> wr (c_dr c) False;
         Some (bs ''('' @ tmpl @ bs '' . '' @ tmpr @ bs '')'')
       }
     }"

fun write_cell :: "nat \<Rightarrow> mem \<Rightarrow> val \<Rightarrow> nat \<Rightarrow> bool \<Rightarrow> int \<Rightarrow> byte list option" where
  "write_cell 0 m cell cap in_list bufsize = None"
| "write_cell (Suc fuel) m cell cap in_list bufsize =
     (let bufsize = bufsize - 1 in
      if cap = 0 then None
      else if cell = NULL then snprintf cap bufsize (bs ''null'')
      else do {
        c \<leftarrow> get_cell m cell;
        if c_tag c = TAG_INT then do { v \<leftarrow> as_word (c_ar c); snprintf cap bufsize (show_int (sint v)) }
        else if c_tag c = TAG_CONS then
          (if c_ar c = NULL \<and> c_dr c = NULL
           then (if in_list then Some [] else snprintf cap bufsize (bs ''nil''))
           else do {
             out \<leftarrow> write_cons (\<lambda>x b. write_cell fuel m x TMP_BUF_SIZE b (int TMP_BUF_SIZE)) m c in_list;
             snprintf cap bufsize out
           })
        else if c_tag c = TAG_SYM \<or> c_tag c = TAG_BIGNUM then
          do { s \<leftarrow> read_cstr m (c_ar c); snprintf cap bufsize s }
        else if c_tag c = TAG_STR then write_str m c cap bufsize
        else if c_tag c = TAG_LAMBDA then
          do {
            args \<leftarrow> car m (c_ar c);
            tmp_args \<leftarrow> write_args fuel m args 0 [];
            body \<leftarrow> cdr m (c_ar c);
            tmp_body \<leftarrow> write_cell fuel m body (2 * TMP_BUF_SIZE) False (int TMP_BUF_SIZE);
            snprintf cap bufsize (bs ''(fn '' @ tmp_args @ bs '' '' @ tmp_body @ bs '')'')
          }
        else if c_tag c = TAG_BUILTIN then
          do { v \<leftarrow> as_word (c_ar c); snprintf cap bufsize (bs ''(op '' @ show_int (sint v) @ bs '')'') }
        else if c_tag c = TAG_ERROR then do { v \<leftarrow> as_word (c_ar c); snprintf cap bufsize (error_text v) }
        else if c_tag c = TAG_BYTES then write_hex m c cap bufsize
        else if c_tag c = TAG_VEC \<or> c_tag c = TAG_STRUCT \<or> c_tag c = TAG_STRUCT_DEF then
          write_vec (\<lambda>x cap' n. write_cell fuel m x cap' False n) m c cap bufsize
        else if c_tag c = TAG_STREAM then do { out \<leftarrow> write_stream m c; snprintf cap bufsize out }
        else snprintf cap bufsize (bs ''<tag:'' @ show_int (sint (c_tag c)) @ bs ''>'')
      })"

definition lisp_write :: "nat \<Rightarrow> mem \<Rightarrow> val \<Rightarrow> nat \<Rightarrow> int \<Rightarrow> byte list option" where
  "lisp_write fuel m cell cap bufsize = write_cell fuel m cell cap False bufsize"

text \<open>Printing into the block of a string or byte cell, whose capacity is what the block has from there on.\<close>

definition lisp_write_to_cell :: "nat \<Rightarrow> val \<Rightarrow> val \<Rightarrow> mem \<Rightarrow> (val \<times> mem) option" where
  "lisp_write_to_cell fuel cell buffer_cell m =
     do {
       b \<leftarrow> get_cell m buffer_cell;
       if is_bytes b
       then do {
         size \<leftarrow> as_word (c_dr b);
         blk \<leftarrow> block_at m (c_ar b);
         out \<leftarrow> lisp_write fuel m cell (length blk) (sint (ucast size :: u32));
         m \<leftarrow> write_bytes (c_ar b) (out @ [0]) m;
         Some (buffer_cell, m)
       }
       else Some (buffer_cell, m)
     }"

section \<open>What is printed for the data the reader builds\<close>

text \<open>The text of a structure, inside of a list or not.\<close>

fun print_sexp :: "bool \<Rightarrow> sexp \<Rightarrow> byte list" where
  "print_sexp in_list SNil = (if in_list then [] else bs ''nil'')"
| "print_sexp in_list (SInt w) = show_int (sint w)"
| "print_sexp in_list (SSym s) = s"
| "print_sexp in_list (SStr s) = bs [CHR 0x22] @ s @ bs [CHR 0x22]"
| "print_sexp in_list (SCons a d) =
     (let l = print_sexp False a; r = print_sexp True d in
      case d of
        SNil \<Rightarrow> if in_list then l else bs ''('' @ l @ bs '' '' @ bs '')''
      | SCons x y \<Rightarrow> if in_list then (if r \<noteq> [] then l @ bs '' '' @ r else l) else bs ''('' @ l @ bs '' '' @ r @ bs '')''
      | _ \<Rightarrow> bs ''('' @ l @ bs '' . '' @ print_sexp False d @ bs '')'')"

text \<open>The buffer holds the text, cut off where the buffer ends.\<close>

definition printed :: "bool \<Rightarrow> sexp \<Rightarrow> nat \<Rightarrow> byte list \<Rightarrow> bool" where
  "printed in_list s n t \<longleftrightarrow> length t \<le> n - 2
     \<and> (length (print_sexp in_list s) + 3 \<le> min n TMP_BUF_SIZE \<longrightarrow> t = print_sexp in_list s)"

lemma size_of_int_nat [simp]: "n < 2 ^ 64 \<Longrightarrow> size_of_int (int n) = n"
  by (simp add: size_of_int_def)

lemma snprintf_nat: "n < 2 ^ 31 \<Longrightarrow> n < cap \<Longrightarrow> snprintf cap (int n) s = Some (take (n - 1) s)"
  by (auto simp: snprintf_def Let_def)

lemma snprintf_fits:
  "2 \<le> n \<Longrightarrow> n < 2 ^ 31 \<Longrightarrow> n \<le> cap \<Longrightarrow> snprintf cap (int n - 1) s = Some (take (n - 2) s)"
  using snprintf_nat [of "n - 1" cap s] by (simp add: of_nat_diff numeral_2_eq_2)

lemma write_str_fits:
  assumes "2 \<le> n" "n < 2 ^ 31" "n \<le> cap" "text_at m p TAG_STR w s" "get_cell m p = Some c"
  shows "\<exists>t. write_str m c cap (int n - 1) = Some t \<and> printed b (SStr s) n t"
proof -
  have c: "as_word (c_dr c) = Some w" "read_cstr m (c_ar c) = Some s" "length s \<le> unat w" "unat w + 1 < 2 ^ 31"
    using assms(4,5) by (auto simp: text_at_def read_cstr_def)
  define k where "k = (if (of_nat (n - 2) :: u64) < w + 3 then of_nat (n - 2) else w + 3)"
  have "unat (w + 3) = unat w + 3" using c(4) by (simp add: unat_plus_small)
  then have k: "unat k = min (n - 2) (unat w + 3)"
    using assms(2) by (auto simp: k_def word_less_nat_alt)
  have "uint k = int (unat k)" by simp
  then have "snprintf cap (uint k) (34 # s @ [34]) = Some (take (unat k - 1) (34 # s @ [34]))"
    using assms k by (simp only:) (intro snprintf_nat, auto)
  moreover have "write_str m c cap (int n - 1) = snprintf cap (uint k) (34 # s @ [34])"
    using assms(1) c by (simp add: write_str_def Let_def k_def of_nat_diff)
  moreover have "printed b (SStr s) n (take (unat k - 1) (34 # s @ [34]))"
    using c(3) assms(1) by (auto simp: printed_def k)
  ultimately show ?thesis by simp
qed
lemma tag_eqs [simp]:
  "TAG_CONS \<noteq> TAG_INT" "TAG_SYM \<noteq> TAG_INT" "TAG_SYM \<noteq> TAG_CONS" "TAG_STR \<noteq> TAG_INT" "TAG_STR \<noteq> TAG_CONS"
  "TAG_STR \<noteq> TAG_SYM" "TAG_STR \<noteq> TAG_BIGNUM" "TAG_INT \<noteq> TAG_CONS"
  by (simp_all add: TAG_CONS_def TAG_INT_def TAG_SYM_def TAG_STR_def TAG_BIGNUM_def)

lemma sexp_tag:
  assumes "sexp_on D nb m p s"
  obtains c where "get_cell m p = Some c" "p \<noteq> NULL" "c_tag c = TAG_CONS \<longleftrightarrow> s = SNil \<or> (\<exists>x y. s = SCons x y)"
  using assms sexp_on_mem [OF assms] by (cases s) (auto simp: text_on_def)

lemma write_cons_prints:
  assumes "sexp_on D nb m y d" "get_cell m y = Some cd" "c_tag cd = TAG_CONS \<longleftrightarrow> d = SNil \<or> (\<exists>x y. d = SCons x y)" "y \<noteq> NULL"
    and wr: "\<And>b'. \<exists>t. wr x b' = Some t \<and> printed b' a TMP_BUF_SIZE t"
      "\<And>b'. \<exists>t. wr y b' = Some t \<and> printed b' d TMP_BUF_SIZE t"
  shows "\<exists>out. write_cons wr m \<lparr>c_ar = x, c_dr = y, c_tag = TAG_CONS\<rparr> b = Some out
    \<and> (length (print_sexp b (SCons a d)) + 3 \<le> TMP_BUF_SIZE \<longrightarrow> out = print_sexp b (SCons a d))"
proof -
  obtain l where l: "wr x False = Some l" "printed False a TMP_BUF_SIZE l" using wr(1) by blast
  obtain r0 where r0: "wr y False = Some r0" "printed False d TMP_BUF_SIZE r0" using wr(2) by blast
  obtain r1 where r1: "wr y True = Some r1" "printed True d TMP_BUF_SIZE r1" using wr(2) by blast
  show ?thesis
    using assms(2-4) l r0 r1
    by (cases d) (auto simp: write_cons_def printed_def Let_def TMP_BUF_SIZE_def split: if_splits)
qed
lemma write_cell_prints:
  "sexp_on D nb m p s \<Longrightarrow> sdepth s \<le> fuel \<Longrightarrow> 2 \<le> n \<Longrightarrow> n < 2 ^ 31 \<Longrightarrow> n \<le> cap \<Longrightarrow>
   \<exists>t. write_cell fuel m p cap b (int n) = Some t \<and> printed b s n t"
proof (induction s arbitrary: p fuel n cap b)
  case (SStr s)
  then obtain c w where c: "get_cell m p = Some c" "p \<noteq> NULL" "c_tag c = TAG_STR" "text_at m p TAG_STR w s"
    using sexp_on_mem [OF SStr.prems(1)] by (auto simp: text_on_def)
  obtain f where "fuel = Suc f" using SStr.prems(2) by (cases fuel) auto
  then show ?case using c SStr.prems write_str_fits [OF _ _ _ c(4,1), of n cap b] by simp
next
  case (SCons a d)
  then obtain x y where c: "get_cell m p = Some \<lparr>c_ar = x, c_dr = y, c_tag = TAG_CONS\<rparr>" "p \<noteq> NULL"
    "sexp_on D nb m x a" "sexp_on D nb m y d"
    using sexp_on_mem [OF SCons.prems(1)] by auto
  obtain f where f: "fuel = Suc f" "sdepth a \<le> f" "sdepth d \<le> f" using SCons.prems(2) by (cases fuel) auto
  obtain cd where cd: "get_cell m y = Some cd" "y \<noteq> NULL" "c_tag cd = TAG_CONS \<longleftrightarrow> d = SNil \<or> (\<exists>x y. d = SCons x y)"
    using sexp_tag [OF c(4)] .
  have T: "2 \<le> TMP_BUF_SIZE" "TMP_BUF_SIZE < 2 ^ 31" by (simp_all add: TMP_BUF_SIZE_def)
  obtain out where "write_cons (\<lambda>x b. write_cell f m x TMP_BUF_SIZE b (int TMP_BUF_SIZE)) m \<lparr>c_ar = x, c_dr = y, c_tag = TAG_CONS\<rparr> b = Some out"
    "length (print_sexp b (SCons a d)) + 3 \<le> TMP_BUF_SIZE \<longrightarrow> out = print_sexp b (SCons a d)"
    using write_cons_prints [OF c(4) cd(1,3,2) SCons.IH(1) [OF c(3) f(2) T order_refl] SCons.IH(2) [OF c(4) f(3) T order_refl], of b]
    by blast
  then show ?case
    using c(1,2) cd(2) f(1) SCons.prems(3-) snprintf_fits [of n cap out]
    by (auto simp: printed_def simp del: print_sexp.simps)
next
  case SNil
  then show ?case using sexp_on_mem [OF SNil.prems(1)] by (cases fuel) (auto simp: printed_def snprintf_fits)
next
  case (SInt w)
  then show ?case using sexp_on_mem [OF SInt.prems(1)] by (cases fuel) (auto simp: printed_def snprintf_fits)
next
  case (SSym s)
  then show ?case using sexp_on_mem [OF SSym.prems(1)]
    by (cases fuel) (auto simp: printed_def snprintf_fits text_on_def text_at_def read_cstr_def)
qed

text \<open>
  C32. For every finite structure of integers, symbols, strings and lists, and every buffer of at least two bytes,
  \<open>lisp_write\<close> returns, stays inside of the buffer, and leaves the full text of the structure there unless
  the text is too long for the buffer or for the 512-byte temporaries of the recursion.
\<close>

theorem lisp_write_prints:
  assumes "sexp_at m p s" "sdepth s \<le> fuel" "2 \<le> n" "n < 2 ^ 31" "n \<le> cap"
  shows "\<exists>t. lisp_write fuel m p cap (int n) = Some t \<and> length t \<le> n - 2
    \<and> (length (print_sexp False s) + 3 \<le> min n TMP_BUF_SIZE \<longrightarrow> t = print_sexp False s)"
  using write_cell_prints [OF assms, of False] by (simp add: lisp_write_def printed_def)

theorem lisp_write_prints_witness:
  "lisp_write 2 sample_mem (cellp 0) 16 16 = Some (bs [CHR ''('', CHR 0x22] @ [97, 98] @ bs [CHR 0x22, CHR '' '', CHR '')''])"
proof -
  have "sdepth (SCons (SStr [97, 98]) SNil) \<le> 2" by simp
  from lisp_write_prints [OF sample_mem_facts(5) this, of 16 16] show ?thesis
    by (auto simp: TMP_BUF_SIZE_def)
qed

text \<open>
  C33. In a buffer of size 1 the bound of a string is computed as \<open>min(bufsize-1,cell->dr.size+3)\<close> with
  \<open>bufsize\<close> already down to 0; the comparison is unsigned, so the string is written in full, beyond the buffer.
\<close>

theorem lisp_write_string_overflows:
  assumes "text_at m p TAG_STR w s" "cap \<le> length s + 2"
  shows "lisp_write (Suc fuel) m p cap 1 = None"
proof -
  obtain c where c: "get_cell m p = Some c" "c_tag c = TAG_STR" "as_word (c_dr c) = Some w" "read_cstr m (c_ar c) = Some s" "p \<noteq> NULL"
    using read_cstr_text [OF assms(1)] by auto
  have w: "length s \<le> unat w" "unat w + 1 < 2 ^ 31" using assms(1) by (auto simp: text_at_def)
  then have "unat (w + 3) = unat w + 3" by (simp add: unat_plus_small)
  then have "uint (w + 3) = int (unat w + 3)" "\<not> - 1 < w + 3"
    by (metis int_nat_eq unsigned_greater_eq unat_eq_nat_uint) simp
  then have "write_str m c cap 0 = snprintf cap (int (unat w + 3)) (34 # s @ [34])"
    using c by (simp add: write_str_def Let_def)
  also have "\<dots> = None" using w assms(2) by (simp add: snprintf_def Let_def size_of_int_nat del: of_nat_add)
  finally show ?thesis using c by (simp add: lisp_write_def)
qed

theorem lisp_write_string_overflows_witness:
  "lisp_write 1 sample_mem (cellp 1) 2 1 = None"
  using lisp_write_string_overflows [OF sample_mem_facts(4), of 2 0] by simp

end
