(* ===== verification/Jit_X64.thy ===== *)
theory Jit_X64
  imports Jit Writer
begin

text \<open>
  The assembly text that \<^verbatim>\<open>src/sledge/jit_x64.c\<close> writes for each operation, character by character.
  \<open>None\<close> is an index outside the array \<open>regnames\<close>. What the source prints with \<open>%p\<close> or takes as an
  address is the number a host-dependent layout \<open>addr\<close> (for words) or \<open>fn\<close> (for C functions) gives.
\<close>

section \<open>Formatting\<close>

definition regnames :: "string list" where
  "regnames = [''%rax'', ''%rdi'', ''%rsi'', ''%rdx'', ''%r12'', ''%r13'', ''%r14'', ''%r15'',
     ''%r8'', ''%r9'', ''%r10'', ''%r11'', ''%rsp'']"

definition reg :: "nat \<Rightarrow> byte list option" where
  "reg r = (if r < length regnames then Some (bs (regnames ! r)) else None)"

definition txt_x64 :: "string \<Rightarrow> byte list option" where
  "txt_x64 s = Some (bs s)"

text \<open>One line of assembly.\<close>

definition asm :: "byte list option list \<Rightarrow> byte list option" where
  "asm parts = map_option (\<lambda>ps. concat ps @ [10]) (those parts)"

definition dec_u64 :: "u64 \<Rightarrow> byte list option" where
  "dec_u64 w = Some (show_nat (unat w))"

definition dec_int :: "int \<Rightarrow> byte list option" where
  "dec_int i = Some (show_int i)"

fun show_hex :: "nat \<Rightarrow> byte list" where
  "show_hex n = (if n < 16 then [hex_char (of_nat n)] else show_hex (n div 16) @ [hex_char (of_nat (n mod 16))])"

declare show_hex.simps [simp del]

text \<open>\<open>%p\<close> as glibc prints it.\<close>

definition ptr_p :: "u64 \<Rightarrow> byte list option" where
  "ptr_p w = Some (if w = 0 then bs ''(nil)'' else bs ''0x'' @ show_hex (unat w))"

definition seq :: "byte list option list \<Rightarrow> byte list option" where
  "seq ls = map_option concat (those ls)"

section \<open>Operations\<close>

definition jit_movi_x64 :: "nat \<Rightarrow> u64 \<Rightarrow> byte list option" where
  "jit_movi_x64 r imm = asm [txt_x64 ''movq $'', dec_u64 imm, txt_x64 '', '', reg r]"

definition jit_movr_x64 :: "nat \<Rightarrow> nat \<Rightarrow> byte list option" where
  "jit_movr_x64 dreg sreg = (if dreg = sreg then Some [] else asm [txt_x64 ''movq '', reg sreg, txt_x64 '', '', reg dreg])"

definition jit_movneg_x64 :: "nat \<Rightarrow> nat \<Rightarrow> byte list option" where
  "jit_movneg_x64 dreg sreg = (if dreg = sreg then Some [] else asm [txt_x64 ''cmovs '', reg sreg, txt_x64 '', '', reg dreg])"

definition jit_movne_x64 :: "nat \<Rightarrow> nat \<Rightarrow> byte list option" where
  "jit_movne_x64 dreg sreg = (if dreg = sreg then Some [] else asm [txt_x64 ''cmovne '', reg sreg, txt_x64 '', '', reg dreg])"

definition jit_moveq_x64 :: "nat \<Rightarrow> nat \<Rightarrow> byte list option" where
  "jit_moveq_x64 dreg sreg = (if dreg = sreg then Some [] else asm [txt_x64 ''cmoveq '', reg sreg, txt_x64 '', '', reg dreg])"

definition jit_lea_x64 :: "nat \<Rightarrow> u64 \<Rightarrow> byte list option" where
  "jit_lea_x64 r a = asm [txt_x64 ''movq $'', ptr_p a, txt_x64 '', '', reg r]"

definition jit_ldr_x64 :: "nat \<Rightarrow> byte list option" where
  "jit_ldr_x64 r = asm [txt_x64 ''movq ('', reg r, txt_x64 ''), '', reg r]"

definition jit_ldr_stack_x64 :: "nat \<Rightarrow> int \<Rightarrow> byte list option" where
  "jit_ldr_stack_x64 dreg offset = asm [txt_x64 ''movq '', dec_int offset, txt_x64 ''(%rsp), '', reg dreg]"

definition jit_str_stack_x64 :: "nat \<Rightarrow> int \<Rightarrow> byte list option" where
  "jit_str_stack_x64 sreg offset = asm [txt_x64 ''movq '', reg sreg, txt_x64 '', '', dec_int offset, txt_x64 ''(%rsp)'']"

definition jit_inc_stack_x64 :: "int \<Rightarrow> byte list option" where
  "jit_inc_stack_x64 offset = (if offset = 0 then Some [] else asm [txt_x64 ''addq $'', dec_int offset, txt_x64 '', %rsp''])"

definition jit_dec_stack_x64 :: "int \<Rightarrow> byte list option" where
  "jit_dec_stack_x64 offset = (if offset = 0 then Some [] else asm [txt_x64 ''subq $'', dec_int offset, txt_x64 '', %rsp''])"

definition jit_ldrb_x64 :: "nat \<Rightarrow> byte list option" where
  "jit_ldrb_x64 r = seq [asm [txt_x64 ''movb ('', reg r, txt_x64 ''), %dl''], asm [txt_x64 ''andq $0xff, %rdx''],
     if r \<noteq> 3 then asm [txt_x64 ''movq %rdx, '', reg r] else Some []]"

definition jit_ldrs_x64 :: "nat \<Rightarrow> byte list option" where
  "jit_ldrs_x64 r = seq [asm [txt_x64 ''movw ('', reg r, txt_x64 ''), %dx''], asm [txt_x64 ''andq $0xffff, %rdx''],
     if r \<noteq> 3 then asm [txt_x64 ''movq %rdx, '', reg r] else Some []]"

definition jit_ldrw_x64 :: "nat \<Rightarrow> byte list option" where
  "jit_ldrw_x64 r = seq [asm [txt_x64 ''movl ('', reg r, txt_x64 ''), %edx''],
     if r \<noteq> 3 then asm [txt_x64 ''movq %rdx, '', reg r] else Some []]"

definition jit_strb_x64 :: "nat \<Rightarrow> byte list option" where
  "jit_strb_x64 r = asm [txt_x64 ''movb %dl, ('', reg r, txt_x64 '')'']"

definition jit_strs_x64 :: "nat \<Rightarrow> byte list option" where
  "jit_strs_x64 r = asm [txt_x64 ''movw %dx, ('', reg r, txt_x64 '')'']"

definition jit_strw_x64 :: "nat \<Rightarrow> byte list option" where
  "jit_strw_x64 r = asm [txt_x64 ''movl %edx, ('', reg r, txt_x64 '')'']"

definition jit_stra_x64 :: "nat \<Rightarrow> byte list option" where
  "jit_stra_x64 r = asm [txt_x64 ''movq %rdx, ('', reg r, txt_x64 '')'']"

text \<open>The two-operand instructions \<open>op %s, %s\<close>, source first.\<close>

definition op2 :: "string \<Rightarrow> nat \<Rightarrow> nat \<Rightarrow> byte list option" where
  "op2 opc dreg sreg = asm [txt_x64 opc, txt_x64 '' '', reg sreg, txt_x64 '', '', reg dreg]"

definition jit_addr_x64 :: "nat \<Rightarrow> nat \<Rightarrow> byte list option" where
  "jit_addr_x64 dreg sreg = op2 ''addq'' dreg sreg"

definition jit_addi_x64 :: "nat \<Rightarrow> int \<Rightarrow> byte list option" where
  "jit_addi_x64 dreg imm = asm [txt_x64 ''addq $'', dec_int imm, txt_x64 '', '', reg dreg]"

definition jit_andr_x64 :: "nat \<Rightarrow> nat \<Rightarrow> byte list option" where
  "jit_andr_x64 dreg sreg = op2 ''andq'' dreg sreg"

definition jit_notr_x64 :: "nat \<Rightarrow> byte list option" where
  "jit_notr_x64 dreg = asm [txt_x64 ''notq '', reg dreg]"

definition jit_orr_x64 :: "nat \<Rightarrow> nat \<Rightarrow> byte list option" where
  "jit_orr_x64 dreg sreg = op2 ''orq'' dreg sreg"

definition jit_xorr_x64 :: "nat \<Rightarrow> nat \<Rightarrow> byte list option" where
  "jit_xorr_x64 dreg sreg = op2 ''xorq'' dreg sreg"

definition jit_shrr_x64 :: "nat \<Rightarrow> nat \<Rightarrow> byte list option" where
  "jit_shrr_x64 dreg sreg = seq [asm [txt_x64 ''movq '', reg sreg, txt_x64 '', %rcx''], asm [txt_x64 ''shr %cl, '', reg dreg]]"

definition jit_shlr_x64 :: "nat \<Rightarrow> nat \<Rightarrow> byte list option" where
  "jit_shlr_x64 dreg sreg = seq [asm [txt_x64 ''movq '', reg sreg, txt_x64 '', %rcx''], asm [txt_x64 ''shl %cl, '', reg dreg]]"

definition jit_subr_x64 :: "nat \<Rightarrow> nat \<Rightarrow> byte list option" where
  "jit_subr_x64 dreg sreg = op2 ''subq'' dreg sreg"

definition jit_mulr_x64 :: "nat \<Rightarrow> nat \<Rightarrow> byte list option" where
  "jit_mulr_x64 dreg sreg = op2 ''imulq'' dreg sreg"

definition jit_divr_x64 :: "nat \<Rightarrow> nat \<Rightarrow> byte list option" where
  "jit_divr_x64 dreg sreg = seq [asm [txt_x64 ''movq '', reg dreg, txt_x64 '', %rax''], asm [txt_x64 ''cqto''],
     asm [txt_x64 ''idivq '', reg sreg], asm [txt_x64 ''movq %rax, '', reg dreg]]"

definition jit_host_call_enter_x64 :: "byte list option" where
  "jit_host_call_enter_x64 = seq [asm [txt_x64 ''movq %rsp, %rax''], asm [txt_x64 ''push %rax''],
     asm [txt_x64 ''andq $0xfffffffffffffff0, %rsp''], asm [txt_x64 ''mov %rax,(%rsp)'']]"

definition jit_host_call_exit_x64 :: "byte list option" where
  "jit_host_call_exit_x64 = asm [txt_x64 ''pop %rsp'']"

definition jit_call_x64 :: "u64 \<Rightarrow> string \<Rightarrow> byte list option" where
  "jit_call_x64 func note = seq [asm [txt_x64 ''mov $'', ptr_p func, txt_x64 '', %rax''], asm [txt_x64 ''callq *%rax # '', txt_x64 note]]"

definition jit_callr_x64 :: "nat \<Rightarrow> byte list option" where
  "jit_callr_x64 r = asm [txt_x64 ''callq *'', reg r]"

text \<open>The remainder of C, and its truncation to \<open>int32_t\<close>.\<close>

definition inline_mod :: "u64 \<Rightarrow> u64 \<Rightarrow> u32 option" where
  "inline_mod a b = (if b = 0 \<or> (b = - 1 \<and> a = push_bit 63 1) then None
     else Some (word_of_int (sgn (sint a) * (\<bar>sint a\<bar> mod \<bar>sint b\<bar>))))"

definition jit_modr_x64 :: "u64 \<Rightarrow> nat \<Rightarrow> nat \<Rightarrow> byte list option" where
  "jit_modr_x64 mod_addr dreg sreg = seq [jit_movr_x64 ARGR0 dreg, jit_movr_x64 ARGR1 sreg, jit_call_x64 mod_addr ''mod'',
     if dreg \<noteq> 0 then jit_movr_x64 dreg 0 else Some []]"

definition jit_cmpi_x64 :: "nat \<Rightarrow> int \<Rightarrow> byte list option" where
  "jit_cmpi_x64 sreg imm = asm [txt_x64 ''cmp $'', dec_int imm, txt_x64 '', '', reg sreg]"

definition jit_cmpr_x64 :: "nat \<Rightarrow> nat \<Rightarrow> byte list option" where
  "jit_cmpr_x64 sreg dreg = asm [txt_x64 ''cmp '', reg dreg, txt_x64 '', '', reg sreg]"

definition jump :: "string \<Rightarrow> label \<Rightarrow> byte list option" where
  "jump opc l = asm [txt_x64 opc, txt_x64 '' '', Some l]"

definition jit_je_x64 :: "label \<Rightarrow> byte list option" where "jit_je_x64 l = jump ''je'' l"
definition jit_jne_x64 :: "label \<Rightarrow> byte list option" where "jit_jne_x64 l = jump ''jne'' l"
definition jit_jge_x64 :: "label \<Rightarrow> byte list option" where "jit_jge_x64 l = jump ''jge'' l"
definition jit_jneg_x64 :: "label \<Rightarrow> byte list option" where "jit_jneg_x64 l = jump ''js'' l"
definition jit_jmp_x64 :: "label \<Rightarrow> byte list option" where "jit_jmp_x64 l = jump ''jmp'' l"

definition jit_label_x64 :: "label \<Rightarrow> byte list option" where
  "jit_label_x64 l = asm [Some l, txt_x64 '':'']"

definition jit_ret_x64 :: "byte list option" where "jit_ret_x64 = asm [txt_x64 ''ret'']"

definition jit_push_x64 :: "nat \<Rightarrow> nat \<Rightarrow> byte list option" where
  "jit_push_x64 r1 r2 = seq (map (\<lambda>i. asm [txt_x64 ''push '', reg i]) [r1..<Suc r2])"

definition jit_pop_x64 :: "nat \<Rightarrow> nat \<Rightarrow> byte list option" where
  "jit_pop_x64 r1 r2 = seq (map (\<lambda>i. asm [txt_x64 ''pop '', reg i]) (rev [r1..<Suc r2]))"

definition jit_comment_x64 :: "byte list \<Rightarrow> byte list option" where
  "jit_comment_x64 c = asm [txt_x64 ''# '', Some c]"

section \<open>A whole listing\<close>

definition emit_x64 :: "(val \<Rightarrow> u64) \<Rightarrow> (hostfn \<Rightarrow> u64) \<Rightarrow> jit \<Rightarrow> byte list option" where
  "emit_x64 addr fn j = (case j of
     JMovi r v \<Rightarrow> jit_movi_x64 r (addr v) | JMovr d s \<Rightarrow> jit_movr_x64 d s | JMovneg d s \<Rightarrow> jit_movneg_x64 d s
   | JMovne d s \<Rightarrow> jit_movne_x64 d s | JMoveq d s \<Rightarrow> jit_moveq_x64 d s | JLea r v \<Rightarrow> jit_lea_x64 r (addr v)
   | JLdr r \<Rightarrow> jit_ldr_x64 r | JLdr_stack r i \<Rightarrow> jit_ldr_stack_x64 r i | JStr_stack r i \<Rightarrow> jit_str_stack_x64 r i
   | JInc_stack i \<Rightarrow> jit_inc_stack_x64 i | JDec_stack i \<Rightarrow> jit_dec_stack_x64 i
   | JLdrb r \<Rightarrow> jit_ldrb_x64 r | JLdrs r \<Rightarrow> jit_ldrs_x64 r | JLdrw r \<Rightarrow> jit_ldrw_x64 r
   | JStrb r \<Rightarrow> jit_strb_x64 r | JStrs r \<Rightarrow> jit_strs_x64 r | JStrw r \<Rightarrow> jit_strw_x64 r | JStra r \<Rightarrow> jit_stra_x64 r
   | JAddr d s \<Rightarrow> jit_addr_x64 d s | JAddi d i \<Rightarrow> jit_addi_x64 d i | JAndr d s \<Rightarrow> jit_andr_x64 d s | JNotr d \<Rightarrow> jit_notr_x64 d
   | JOrr d s \<Rightarrow> jit_orr_x64 d s | JXorr d s \<Rightarrow> jit_xorr_x64 d s | JShrr d s \<Rightarrow> jit_shrr_x64 d s | JShlr d s \<Rightarrow> jit_shlr_x64 d s
   | JSubr d s \<Rightarrow> jit_subr_x64 d s | JMulr d s \<Rightarrow> jit_mulr_x64 d s | JDivr d s \<Rightarrow> jit_divr_x64 d s
   | JModr d s \<Rightarrow> jit_modr_x64 (fn Host_inline_mod) d s
   | JHost_call_enter \<Rightarrow> jit_host_call_enter_x64 | JHost_call_exit \<Rightarrow> jit_host_call_exit_x64
   | JCall f note \<Rightarrow> jit_call_x64 (fn f) note | JCallr r \<Rightarrow> jit_callr_x64 r
   | JCmpi r i \<Rightarrow> jit_cmpi_x64 r i | JCmpr s d \<Rightarrow> jit_cmpr_x64 s d
   | JJe l \<Rightarrow> jit_je_x64 l | JJne l \<Rightarrow> jit_jne_x64 l | JJge l \<Rightarrow> jit_jge_x64 l | JJneg l \<Rightarrow> jit_jneg_x64 l | JJmp l \<Rightarrow> jit_jmp_x64 l
   | JLabel l \<Rightarrow> jit_label_x64 l | JRet \<Rightarrow> jit_ret_x64 | JPush a b \<Rightarrow> jit_push_x64 a b | JPop a b \<Rightarrow> jit_pop_x64 a b
   | JComment c \<Rightarrow> jit_comment_x64 c)"

definition listing_x64 :: "(val \<Rightarrow> u64) \<Rightarrow> (hostfn \<Rightarrow> u64) \<Rightarrow> jit list \<Rightarrow> byte list option" where
  "listing_x64 addr fn js = seq (map (emit_x64 addr fn) js)"

end
