(* ===== verification/Frames.thy ===== *)
theory Frames
  imports Jit Writer
begin

text \<open>
  The parts of \<^verbatim>\<open>src/sledge/compiler_new.c\<close> and \<^verbatim>\<open>compiler_new.h\<close> below the expression
  compiler: the global environment, argument descriptors and frames, loading of arguments, the saving of
  frame registers and the estimate of the number of local variables. The state of a compilation is the
  memory, the environment table, the code emitted so far, the label counter and the frame that
  \<open>compile_expr\<close> was given. The target is x64 (\<open>PTRSZ\<close> 8, \<open>ARG_SPILLOVER\<close> 3, \<open>LBDREG\<close> R4);
  \<open>debug_mode\<close> is the constant 0 of the source, so its branches are not taken.
\<close>

section \<open>State\<close>

datatype argt = ARGT_CONST | ARGT_ENV | ARGT_LAMBDA | ARGT_REG | ARGT_REG_INT | ARGT_STACK | ARGT_STACK_INT

text \<open>A field that has not been written yet is \<open>None\<close>; reading it is stuck, copying it is not.\<close>

record arg =
  a_type :: "argt option"
  a_cell :: "val option"
  a_env :: "val option"
  a_slot :: "int option"
  a_name :: "val option"
  a_type_name :: "val option"

definition arg0 :: arg where
  "arg0 = \<lparr>a_type = None, a_cell = None, a_env = None, a_slot = None, a_name = None, a_type_name = None\<rparr>"

record frame =
  f_args :: "arg list option"
  f_sp :: int
  f_locals :: int
  f_stack_end :: val

text \<open>The prototype cells that \<open>init_compiler\<close> allocates.\<close>

record prototypes =
  prototype_nil :: val
  prototype_type_error :: val
  consed_type_error :: val
  prototype_any :: val
  prototype_void :: val
  prototype_symbol :: val
  prototype_int :: val
  prototype_struct :: val
  prototype_struct_def :: val
  prototype_stream :: val
  prototype_string :: val
  prototype_lambda :: val
  prototype_cons :: val

record comp =
  c_mem :: mem
  c_env :: "val strmap"
  c_code :: "jit list"
  c_labels :: nat
  c_frame :: frame
  c_protos :: prototypes

definition MAXARGS :: nat where "MAXARGS = 8"
definition MAXFRAME :: nat where "MAXFRAME = 64"
definition PTRSZ :: int where "PTRSZ = 8"
definition ARG_SPILLOVER :: nat where "ARG_SPILLOVER = 3"
definition LBDREG :: nat where "LBDREG = R4"

definition emit :: "jit list \<Rightarrow> comp \<Rightarrow> comp" where
  "emit js s = s\<lparr>c_code := c_code s @ js\<rparr>"

definition add_sp :: "int \<Rightarrow> comp \<Rightarrow> comp" where
  "add_sp n s = s\<lparr>c_frame := (c_frame s)\<lparr>f_sp := f_sp (c_frame s) + n\<rparr>\<rparr>"

text \<open>Running an allocator inside a compilation.\<close>

definition with_mem :: "(mem \<Rightarrow> ('a \<times> mem) option) \<Rightarrow> comp \<Rightarrow> ('a \<times> comp) option" where
  "with_mem f s = map_option (\<lambda>(x, m). (x, s\<lparr>c_mem := m\<rparr>)) (f (c_mem s))"

definition tag_of :: "comp \<Rightarrow> val \<Rightarrow> u64 option" where
  "tag_of s p = map_option c_tag (get_cell (c_mem s) p)"

section \<open>The global environment\<close>

text \<open>The entry of a symbol, or NULL.\<close>

definition lookup_global_symbol :: "val strmap \<Rightarrow> cstr \<Rightarrow> val option" where
  "lookup_global_symbol env name = map_option (\<lambda>r. case r of None \<Rightarrow> NULL | Some e \<Rightarrow> e) (sm_get (Some env) (Some name))"

fun set_env_cell :: "val \<Rightarrow> val \<Rightarrow> mem \<Rightarrow> mem option" where
  "set_env_cell (P (OEnv e) off) cell m =
     (if off = 0 \<and> e < length (envs m) then Some (m\<lparr>envs := (envs m)[e := (envs m ! e)\<lparr>e_cell := cell\<rparr>]\<rparr>) else None)"
| "set_env_cell _ cell m = None"

text \<open>
  \<open>insert_symbol\<close> with what it prints, and without: its callers pass on the cell, the environment and the memory, and the standard
  output is followed only in the loop and the driver of the x64 target.
\<close>

definition insert_symbol_out :: "val \<Rightarrow> val \<Rightarrow> val strmap \<Rightarrow> mem \<Rightarrow> (byte list \<times> val \<times> val strmap \<times> mem) option" where
  "insert_symbol_out symbol cell env m =
     do {
       sym \<leftarrow> get_cell m symbol;
       name \<leftarrow> read_cstr m (c_ar sym);
       found \<leftarrow> sm_get (Some env) (Some name);
       (case found of
          Some e \<Rightarrow> do { m \<leftarrow> set_env_cell e cell m; Some ([], cell, env, m) }
        | None \<Rightarrow>
            if length name \<ge> MAX_SYMBOL_SIZE
            then do {
              (n, m) \<leftarrow> alloc_nil m;
              Some (bs ''[insert_symbol] max symbol size exceeded by '' @ show_nat (length name - MAX_SYMBOL_SIZE + 1) @ [10], n, env, m)
            }
            else do {
              let e = P (OEnv (length (envs m))) 0;
              let m = m\<lparr>envs := envs m @ [\<lparr>e_cell = cell, e_name = name\<rparr>]\<rparr>;
              (_, env') \<leftarrow> sm_put True True (Some env) (Some name) (Some e);
              env \<leftarrow> env';
              Some ([], cell, env, m)
            })
     }"

definition insert_symbol :: "val \<Rightarrow> val \<Rightarrow> val strmap \<Rightarrow> mem \<Rightarrow> (val \<times> val strmap \<times> mem) option" where
  "insert_symbol symbol cell env m = map_option snd (insert_symbol_out symbol cell env m)"

definition insert_global_symbol :: "val \<Rightarrow> val \<Rightarrow> comp \<Rightarrow> (val \<times> comp) option" where
  "insert_global_symbol symbol cell s =
     do {
       (r, env, m) \<leftarrow> insert_symbol symbol cell (c_env s) (c_mem s);
       Some (r, s\<lparr>c_env := env, c_mem := m\<rparr>)
     }"

section \<open>Loading arguments\<close>

definition load_int :: "nat \<Rightarrow> arg \<Rightarrow> comp \<Rightarrow> comp option" where
  "load_int dreg arg s =
     do {
       t \<leftarrow> a_type arg;
       (case t of
          ARGT_CONST \<Rightarrow>
            do { cell \<leftarrow> a_cell arg; c \<leftarrow> get_cell (c_mem s) cell; Some (emit [JMovi dreg (c_ar c)] s) }
        | ARGT_ENV \<Rightarrow> do { e \<leftarrow> a_env arg; Some (emit [JLea dreg e, JLdr dreg, JLdr dreg] s) }
        | ARGT_REG \<Rightarrow> do { slot \<leftarrow> a_slot arg; Some (emit [JMovr dreg (nat slot), JLdr dreg] s) }
        | ARGT_REG_INT \<Rightarrow>
            do { slot \<leftarrow> a_slot arg; Some (if int dreg \<noteq> slot then emit [JMovr dreg (nat slot)] s else s) }
        | ARGT_STACK \<Rightarrow>
            do { slot \<leftarrow> a_slot arg; Some (emit [JLdr_stack dreg (PTRSZ * (f_sp (c_frame s) - slot)), JLdr dreg] s) }
        | ARGT_STACK_INT \<Rightarrow>
            do { slot \<leftarrow> a_slot arg; Some (emit [JLdr_stack dreg (PTRSZ * (f_sp (c_frame s) - slot))] s) }
        | ARGT_LAMBDA \<Rightarrow> Some (emit [JMovi dreg (W 0xdeadbeef)] s))
     }"

definition load_cell :: "nat \<Rightarrow> arg \<Rightarrow> comp \<Rightarrow> comp option" where
  "load_cell dreg arg s =
     do {
       t \<leftarrow> a_type arg;
       (case t of
          ARGT_CONST \<Rightarrow> do { cell \<leftarrow> a_cell arg; Some (emit [JMovi dreg cell] s) }
        | ARGT_ENV \<Rightarrow> do { e \<leftarrow> a_env arg; Some (emit [JLea dreg e, JLdr dreg] s) }
        | ARGT_REG \<Rightarrow> do { slot \<leftarrow> a_slot arg; Some (emit [JMovr dreg (nat slot)] s) }
        | ARGT_REG_INT \<Rightarrow> Some (emit [JCall Host_alloc_int ''alloc_int'', JMovr dreg R0] s)
        | ARGT_STACK \<Rightarrow>
            do { slot \<leftarrow> a_slot arg; Some (emit [JLdr_stack dreg (PTRSZ * (f_sp (c_frame s) - slot))] s) }
        | ARGT_STACK_INT \<Rightarrow>
            do {
              slot \<leftarrow> a_slot arg;
              let adjust = (if dreg \<noteq> ARGR0 then 1 else 0) + (if dreg \<noteq> R0 then 1 else 0);
              Some (emit ((if dreg \<noteq> ARGR0 then [JPush ARGR0 ARGR0] else []) @ (if dreg \<noteq> R0 then [JPush R0 R0] else [])
                @ [JLdr_stack ARGR0 (PTRSZ * (f_sp (c_frame s) - slot + adjust)), JCall Host_alloc_int ''alloc_int'', JMovr dreg R0]
                @ (if dreg \<noteq> R0 then [JPop R0 R0] else []) @ (if dreg \<noteq> ARGR0 then [JPop ARGR0 ARGR0] else [])) s)
            }
        | ARGT_LAMBDA \<Rightarrow> Some (emit [JMovi dreg (W 0xdeadcafe)] s))
     }"

section \<open>Frames\<close>

text \<open>The search of \<open>get_sym_frame_idx\<close> from entry \<open>i\<close> on; the name is NULL for an unused entry.\<close>

fun frame_idx_from :: "mem \<Rightarrow> val \<Rightarrow> bool \<Rightarrow> arg list \<Rightarrow> nat \<Rightarrow> int option" where
  "frame_idx_from m argname ignore_regs [] i = Some (- 1)"
| "frame_idx_from m argname ignore_regs (a # as) i =
     do {
       name \<leftarrow> a_name a;
       if name = NULL then frame_idx_from m argname ignore_regs as (Suc i)
       else do {
         t \<leftarrow> a_type a;
         if t = ARGT_REG \<and> ignore_regs then frame_idx_from m argname ignore_regs as (Suc i)
         else do {
           s1 \<leftarrow> read_cstr m argname;
           s2 \<leftarrow> read_cstr m name;
           if s1 = s2 then Some (int i) else frame_idx_from m argname ignore_regs as (Suc i)
         }
       }
     }"

definition get_sym_frame_idx :: "mem \<Rightarrow> val \<Rightarrow> arg list option \<Rightarrow> bool \<Rightarrow> int option" where
  "get_sym_frame_idx m argname fn_frame ignore_regs =
     (case fn_frame of None \<Rightarrow> Some (- 1) | Some as \<Rightarrow> frame_idx_from m argname ignore_regs as 0)"

text \<open>How many entries of the frame live in registers.\<close>

fun count_regs :: "arg list \<Rightarrow> nat option" where
  "count_regs [] = Some 0"
| "count_regs (a # as) = do { t \<leftarrow> a_type a; n \<leftarrow> count_regs as; Some (if t = ARGT_REG then Suc n else n) }"

definition push_frame_regs :: "comp \<Rightarrow> (nat \<times> comp) option" where
  "push_frame_regs s =
     (case f_args (c_frame s) of
        None \<Rightarrow> Some (0, s)
      | Some as \<Rightarrow>
          do {
            pushreg \<leftarrow> count_regs as;
            Some (pushreg, if pushreg \<noteq> 0 then emit [JPush LBDREG (LBDREG + pushreg - 1)] s else s)
          })"

definition pop_frame_regs :: "comp \<Rightarrow> (nat \<times> comp) option" where
  "pop_frame_regs s =
     (case f_args (c_frame s) of
        None \<Rightarrow> Some (0, s)
      | Some as \<Rightarrow>
          do {
            pushreg \<leftarrow> count_regs as;
            Some (pushreg, if pushreg \<noteq> 0 then emit [JPop LBDREG (LBDREG + pushreg - 1)] s else s)
          })"

section \<open>Estimating the locals of a function\<close>

text \<open>Numbers of the enumeration \<open>builtin_t\<close>, in its order.\<close>

definition builtin_names :: "string list" where
  "builtin_names = [''ADD'', ''SUB'', ''MUL'', ''DIV'', ''MOD'', ''BITAND'', ''BITNOT'', ''BITOR'', ''BITXOR'', ''SHL'', ''SHR'',
     ''LT'', ''GT'', ''EQ'', ''WHILE'', ''DEF'', ''IF'', ''FN'', ''CAR'', ''CDR'', ''CONS'', ''LIST'', ''ALLOC'', ''ALLOC_STR'',
     ''NEW'', ''BYTES_TO_STR'', ''STR_TO_BYTES'', ''CONCAT'', ''SUBSTR'', ''GET8'', ''GET16'', ''GET32'', ''PUT8'', ''PUT16'',
     ''PUT32'', ''SGET'', ''SPUT'', ''SIZE'', ''UGET'', ''UPUT'', ''USIZE'', ''TYPE'', ''LET'', ''QUOTE'', ''STRUCT'', ''MAP'', ''DO'',
     ''EVAL'', ''READ'', ''WRITE'', ''PRINT'', ''MOUNT'', ''MMAP'', ''OPEN'', ''CLOSE'', ''RECV'', ''SEND'', ''GC'', ''SYMBOLS'',
     ''DEBUG'', ''LOAD'', ''SAVE'', ''SIN'', ''COS'', ''SQRT'']"

fun index_of :: "'a \<Rightarrow> 'a list \<Rightarrow> nat" where
  "index_of x [] = 0"
| "index_of x (y # ys) = (if x = y then 0 else Suc (index_of x ys))"

definition BUILTIN :: "string \<Rightarrow> u32" where
  "BUILTIN name = of_nat (index_of name builtin_names + 1)"

text \<open>Whether one of the known locals has the same name.\<close>

fun known_local :: "mem \<Rightarrow> val list \<Rightarrow> val \<Rightarrow> bool option" where
  "known_local m [] name = Some False"
| "known_local m (x # xs) name =
     do { s1 \<leftarrow> read_cstr m x; s2 \<leftarrow> read_cstr m name; if s1 = s2 then Some True else known_local m xs name }"

text \<open>
  \<open>analyze_fn\<close>, with the first \<open>num_lets\<close> entries of \<open>analyze_buffer\<close> as its state; the buffer has
  \<open>MAXFRAME\<close> entries, and writing beyond is stuck. The fuel bounds the depth of the expression.
\<close>

fun analyze_fn :: "nat \<Rightarrow> mem \<Rightarrow> val strmap \<Rightarrow> val \<Rightarrow> val \<Rightarrow> val list \<Rightarrow> val list option" where
  "analyze_fn 0 m env expr parent lets = None"
| "analyze_fn (Suc fuel) m env expr parent lets =
     do {
       x \<leftarrow> get_cell m expr;
       if c_tag x = TAG_SYM then
         do {
           name \<leftarrow> read_cstr m (c_ar x);
           op_env \<leftarrow> lookup_global_symbol env name;
           if op_env = NULL then Some lets
           else do {
             e \<leftarrow> as_env m op_env;
             op \<leftarrow> get_cell m (e_cell e);
             if c_tag op = TAG_BUILTIN \<and> c_ar op = W (ucast (BUILTIN ''LET''))
             then do {
               r \<leftarrow> cdr m parent;
               sym \<leftarrow> car m r;
               if sym = NULL then Some lets
               else do {
                 sc \<leftarrow> get_cell m sym;
                 existing \<leftarrow> known_local m lets (c_ar sc);
                 if existing then Some lets
                 else if length lets < MAXFRAME then Some (lets @ [c_ar sc]) else None
               }
             }
             else Some lets
           }
         }
       else if c_tag x = TAG_CONS then
         do {
           lets \<leftarrow> (if c_ar x \<noteq> NULL then analyze_fn fuel m env (c_ar x) expr lets else Some lets);
           (if c_dr x \<noteq> NULL then analyze_fn fuel m env (c_dr x) expr lets else Some lets)
         }
       else Some lets
     }"

definition compatible_type :: "u64 \<Rightarrow> u64 \<Rightarrow> bool" where
  "compatible_type given required \<longleftrightarrow>
     given = required \<or> (given \<in> {TAG_STR, TAG_BYTES} \<and> required \<in> {TAG_STR, TAG_BYTES})"

definition clean_return :: "nat \<Rightarrow> val \<Rightarrow> comp \<Rightarrow> val \<times> comp" where
  "clean_return args_pushed compiled_type s =
     (compiled_type,
      if args_pushed \<noteq> 0 then add_sp (- int args_pushed) (emit [JInc_stack (int args_pushed * PTRSZ)] s) else s)"

end
