(* ===== verification/X64.thy ===== *)
theory X64
  imports Jit_X64 Frames
begin

unbundle bit_operations_syntax

text \<open>
  The x64 instructions that \<^verbatim>\<open>src/sledge/jit_x64.c\<close> prints, as a datatype with a printer and a
  semantics. \<open>insns_x64\<close> gives the instructions of every operation; printing them is what the code generator
  writes, and a machine executes them. The machine has the registers of \<open>regnames\<close> (\<open>%rsp\<close>
  apart, and \<open>%rcx\<close> as register 13), a stack of 64-bit words that grows downwards (word \<open>i\<close> is at the
  address \<open>8 * i\<close>), the zero and sign flags (\<open>None\<close> where an instruction leaves them undefined), and the
  memory of cells. What is outside of that model (an access through a word that is no pointer, a trap) is stuck.
\<close>

section \<open>Instructions\<close>

datatype alu = Add | And | Or | Xor | Sub | Imul

datatype cond = Equal | Not_equal | Not_less | Sign

datatype insn =
  Mov_imm val nat | Mov_addr val nat | Mov_reg nat nat | Cmov cond nat nat | Load nat nat
  | Load_stack int nat | Store_stack nat int | Add_rsp int | Sub_rsp int
  | Movb_load nat | Movw_load nat | Movl_load nat | And_rdx nat | Mov_rdx nat
  | Movb_store nat | Movw_store nat | Movl_store nat | Movq_store nat
  | Alu alu nat nat | Add_imm int nat | Not nat | Mov_rcx nat | Shr_cl nat | Shl_cl nat
  | Mov_to_rax nat | Cqto | Idiv nat | Mov_from_rax nat
  | Push nat | Pop nat | Mov_rsp_rax | Push_rax | Align_rsp | Store_rax_top | Pop_rsp
  | Mov_host hostfn | Call_host hostfn string | Call_reg nat | Cmp_imm int nat | Cmp_reg nat nat
  | Jump label | Jump_if cond label | Label label | Ret | Comment "byte list"

definition RCX :: nat where "RCX = 13"

fun alu_name :: "alu \<Rightarrow> string" where
  "alu_name Add = ''addq''"
| "alu_name And = ''andq''"
| "alu_name Or = ''orq''"
| "alu_name Xor = ''xorq''"
| "alu_name Sub = ''subq''"
| "alu_name Imul = ''imulq''"

fun cmov_name :: "cond \<Rightarrow> string" where
  "cmov_name Equal = ''cmoveq''"
| "cmov_name Not_equal = ''cmovne''"
| "cmov_name Not_less = ''cmovge''"
| "cmov_name Sign = ''cmovs''"

fun jump_name :: "cond \<Rightarrow> string" where
  "jump_name Equal = ''je''"
| "jump_name Not_equal = ''jne''"
| "jump_name Not_less = ''jge''"
| "jump_name Sign = ''js''"

text \<open>The line of assembly of an instruction.\<close>

fun show_insn :: "(val \<Rightarrow> u64) \<Rightarrow> (hostfn \<Rightarrow> u64) \<Rightarrow> insn \<Rightarrow> byte list option" where
  "show_insn addr fn (Mov_imm v r) = asm [txt_x64 ''movq $'', dec_u64 (addr v), txt_x64 '', '', reg r]"
| "show_insn addr fn (Mov_addr v r) = asm [txt_x64 ''movq $'', ptr_p (addr v), txt_x64 '', '', reg r]"
| "show_insn addr fn (Mov_reg s d) = asm [txt_x64 ''movq '', reg s, txt_x64 '', '', reg d]"
| "show_insn addr fn (Cmov c s d) = asm [txt_x64 (cmov_name c @ '' ''), reg s, txt_x64 '', '', reg d]"
| "show_insn addr fn (Load s d) = asm [txt_x64 ''movq ('', reg s, txt_x64 ''), '', reg d]"
| "show_insn addr fn (Load_stack i r) = asm [txt_x64 ''movq '', dec_int i, txt_x64 ''(%rsp), '', reg r]"
| "show_insn addr fn (Store_stack r i) = asm [txt_x64 ''movq '', reg r, txt_x64 '', '', dec_int i, txt_x64 ''(%rsp)'']"
| "show_insn addr fn (Add_rsp i) = asm [txt_x64 ''addq $'', dec_int i, txt_x64 '', %rsp'']"
| "show_insn addr fn (Sub_rsp i) = asm [txt_x64 ''subq $'', dec_int i, txt_x64 '', %rsp'']"
| "show_insn addr fn (Movb_load r) = asm [txt_x64 ''movb ('', reg r, txt_x64 ''), %dl'']"
| "show_insn addr fn (Movw_load r) = asm [txt_x64 ''movw ('', reg r, txt_x64 ''), %dx'']"
| "show_insn addr fn (Movl_load r) = asm [txt_x64 ''movl ('', reg r, txt_x64 ''), %edx'']"
| "show_insn addr fn (And_rdx n) = asm [txt_x64 (if n = 8 then ''andq $0xff, %rdx'' else ''andq $0xffff, %rdx'')]"
| "show_insn addr fn (Mov_rdx r) = asm [txt_x64 ''movq %rdx, '', reg r]"
| "show_insn addr fn (Movb_store r) = asm [txt_x64 ''movb %dl, ('', reg r, txt_x64 '')'']"
| "show_insn addr fn (Movw_store r) = asm [txt_x64 ''movw %dx, ('', reg r, txt_x64 '')'']"
| "show_insn addr fn (Movl_store r) = asm [txt_x64 ''movl %edx, ('', reg r, txt_x64 '')'']"
| "show_insn addr fn (Movq_store r) = asm [txt_x64 ''movq %rdx, ('', reg r, txt_x64 '')'']"
| "show_insn addr fn (Alu a s d) = asm [txt_x64 (alu_name a), txt_x64 '' '', reg s, txt_x64 '', '', reg d]"
| "show_insn addr fn (Add_imm i r) = asm [txt_x64 ''addq $'', dec_int i, txt_x64 '', '', reg r]"
| "show_insn addr fn (Not r) = asm [txt_x64 ''notq '', reg r]"
| "show_insn addr fn (Mov_rcx r) = asm [txt_x64 ''movq '', reg r, txt_x64 '', %rcx'']"
| "show_insn addr fn (Shr_cl r) = asm [txt_x64 ''shr %cl, '', reg r]"
| "show_insn addr fn (Shl_cl r) = asm [txt_x64 ''shl %cl, '', reg r]"
| "show_insn addr fn (Mov_to_rax r) = asm [txt_x64 ''movq '', reg r, txt_x64 '', %rax'']"
| "show_insn addr fn Cqto = asm [txt_x64 ''cqto'']"
| "show_insn addr fn (Idiv r) = asm [txt_x64 ''idivq '', reg r]"
| "show_insn addr fn (Mov_from_rax r) = asm [txt_x64 ''movq %rax, '', reg r]"
| "show_insn addr fn (Push r) = asm [txt_x64 ''push '', reg r]"
| "show_insn addr fn (Pop r) = asm [txt_x64 ''pop '', reg r]"
| "show_insn addr fn Mov_rsp_rax = asm [txt_x64 ''movq %rsp, %rax'']"
| "show_insn addr fn Push_rax = asm [txt_x64 ''push %rax'']"
| "show_insn addr fn Align_rsp = asm [txt_x64 ''andq $0xfffffffffffffff0, %rsp'']"
| "show_insn addr fn Store_rax_top = asm [txt_x64 ''mov %rax,(%rsp)'']"
| "show_insn addr fn Pop_rsp = asm [txt_x64 ''pop %rsp'']"
| "show_insn addr fn (Mov_host f) = asm [txt_x64 ''mov $'', ptr_p (fn f), txt_x64 '', %rax'']"
| "show_insn addr fn (Call_host f note) = asm [txt_x64 ''callq *%rax # '', txt_x64 note]"
| "show_insn addr fn (Call_reg r) = asm [txt_x64 ''callq *'', reg r]"
| "show_insn addr fn (Cmp_imm i r) = asm [txt_x64 ''cmp $'', dec_int i, txt_x64 '', '', reg r]"
| "show_insn addr fn (Cmp_reg s d) = asm [txt_x64 ''cmp '', reg s, txt_x64 '', '', reg d]"
| "show_insn addr fn (Jump l) = asm [txt_x64 ''jmp'', txt_x64 '' '', Some l]"
| "show_insn addr fn (Jump_if c l) = asm [txt_x64 (jump_name c), txt_x64 '' '', Some l]"
| "show_insn addr fn (Label l) = asm [Some l, txt_x64 '':'']"
| "show_insn addr fn Ret = asm [txt_x64 ''ret'']"
| "show_insn addr fn (Comment c) = asm [txt_x64 ''# '', Some c]"

section \<open>Selection of instructions\<close>

definition movr :: "nat \<Rightarrow> nat \<Rightarrow> insn list" where
  "movr d s = (if d = s then [] else [Mov_reg s d])"

definition cmovr :: "cond \<Rightarrow> nat \<Rightarrow> nat \<Rightarrow> insn list" where
  "cmovr c d s = (if d = s then [] else [Cmov c s d])"

fun insns_x64 :: "jit \<Rightarrow> insn list" where
  "insns_x64 (JMovi r v) = [Mov_imm v r]"
| "insns_x64 (JMovr d s) = movr d s"
| "insns_x64 (JMovneg d s) = cmovr Sign d s"
| "insns_x64 (JMovne d s) = cmovr Not_equal d s"
| "insns_x64 (JMoveq d s) = cmovr Equal d s"
| "insns_x64 (JLea r v) = [Mov_addr v r]"
| "insns_x64 (JLdr r) = [Load r r]"
| "insns_x64 (JLdr_stack r i) = [Load_stack i r]"
| "insns_x64 (JStr_stack r i) = [Store_stack r i]"
| "insns_x64 (JInc_stack i) = (if i = 0 then [] else [Add_rsp i])"
| "insns_x64 (JDec_stack i) = (if i = 0 then [] else [Sub_rsp i])"
| "insns_x64 (JLdrb r) = [Movb_load r, And_rdx 8] @ (if r \<noteq> 3 then [Mov_rdx r] else [])"
| "insns_x64 (JLdrs r) = [Movw_load r, And_rdx 16] @ (if r \<noteq> 3 then [Mov_rdx r] else [])"
| "insns_x64 (JLdrw r) = [Movl_load r] @ (if r \<noteq> 3 then [Mov_rdx r] else [])"
| "insns_x64 (JStrb r) = [Movb_store r]"
| "insns_x64 (JStrs r) = [Movw_store r]"
| "insns_x64 (JStrw r) = [Movl_store r]"
| "insns_x64 (JStra r) = [Movq_store r]"
| "insns_x64 (JAddr d s) = [Alu Add s d]"
| "insns_x64 (JAddi d i) = [Add_imm i d]"
| "insns_x64 (JAndr d s) = [Alu And s d]"
| "insns_x64 (JNotr d) = [Not d]"
| "insns_x64 (JOrr d s) = [Alu Or s d]"
| "insns_x64 (JXorr d s) = [Alu Xor s d]"
| "insns_x64 (JShrr d s) = [Mov_rcx s, Shr_cl d]"
| "insns_x64 (JShlr d s) = [Mov_rcx s, Shl_cl d]"
| "insns_x64 (JSubr d s) = [Alu Sub s d]"
| "insns_x64 (JMulr d s) = [Alu Imul s d]"
| "insns_x64 (JDivr d s) = [Mov_to_rax d, Cqto, Idiv s, Mov_from_rax d]"
| "insns_x64 (JModr d s) =
     movr ARGR0 d @ movr ARGR1 s @ [Mov_host Host_inline_mod, Call_host Host_inline_mod ''mod'']
     @ (if d \<noteq> 0 then movr d 0 else [])"
| "insns_x64 JHost_call_enter = [Mov_rsp_rax, Push_rax, Align_rsp, Store_rax_top]"
| "insns_x64 JHost_call_exit = [Pop_rsp]"
| "insns_x64 (JCall f note) = [Mov_host f, Call_host f note]"
| "insns_x64 (JCallr r) = [Call_reg r]"
| "insns_x64 (JCmpi r i) = [Cmp_imm i r]"
| "insns_x64 (JCmpr s d) = [Cmp_reg d s]"
| "insns_x64 (JJe l) = [Jump_if Equal l]"
| "insns_x64 (JJne l) = [Jump_if Not_equal l]"
| "insns_x64 (JJge l) = [Jump_if Not_less l]"
| "insns_x64 (JJneg l) = [Jump_if Sign l]"
| "insns_x64 (JJmp l) = [Jump l]"
| "insns_x64 (JLabel l) = [Label l]"
| "insns_x64 JRet = [Ret]"
| "insns_x64 (JPush a b) = map Push [a..<Suc b]"
| "insns_x64 (JPop a b) = map Pop (rev [a..<Suc b])"
| "insns_x64 (JComment c) = [Comment c]"

section \<open>The text of the instructions\<close>

lemma seq_Nil [simp]: "seq [] = Some []"
  by (simp add: seq_def)

lemma seq_Cons: "seq (x # xs) = do { a \<leftarrow> x; b \<leftarrow> seq xs; Some (a @ b) }"
  by (cases x; cases "those xs") (simp_all add: seq_def)

lemma seq_append: "seq (xs @ ys) = do { a \<leftarrow> seq xs; b \<leftarrow> seq ys; Some (a @ b) }"
  by (induction xs) (auto simp: seq_Cons Option.bind_assoc intro!: Option.bind_cong)

lemma seq_single [simp]: "seq [x] = x"
  by (cases x) (simp_all add: seq_Cons)

lemma seq_nested: "seq (seq xs # ys) = seq (xs @ ys)"
  by (simp add: seq_Cons seq_append)

lemma seq_skip: "seq (Some [] # ys) = seq ys"
  by (simp add: seq_Cons)

lemma seq_concat: "seq (map (\<lambda>x. seq (f x)) xs) = seq (concat (map f xs))"
  by (induction xs) (simp_all add: seq_Cons seq_append)

lemmas jit_x64_defs =
  jit_movi_x64_def jit_movr_x64_def jit_movneg_x64_def jit_movne_x64_def jit_moveq_x64_def jit_lea_x64_def jit_ldr_x64_def
  jit_ldr_stack_x64_def jit_str_stack_x64_def jit_inc_stack_x64_def jit_dec_stack_x64_def jit_ldrb_x64_def jit_ldrs_x64_def
  jit_ldrw_x64_def jit_strb_x64_def jit_strs_x64_def jit_strw_x64_def jit_stra_x64_def jit_addr_x64_def jit_addi_x64_def
  jit_andr_x64_def jit_notr_x64_def jit_orr_x64_def jit_xorr_x64_def jit_shrr_x64_def jit_shlr_x64_def jit_subr_x64_def
  jit_mulr_x64_def jit_divr_x64_def jit_host_call_enter_x64_def jit_host_call_exit_x64_def jit_call_x64_def jit_callr_x64_def
  jit_modr_x64_def jit_cmpi_x64_def jit_cmpr_x64_def jit_je_x64_def jit_jne_x64_def jit_jge_x64_def jit_jneg_x64_def
  jit_jmp_x64_def jit_label_x64_def jit_ret_x64_def jit_push_x64_def jit_pop_x64_def jit_comment_x64_def op2_def jump_def

lemma emit_x64_insns: "emit_x64 addr fn j = seq (map (show_insn addr fn) (insns_x64 j))"
  by (cases j)
    (simp_all add: emit_x64_def jit_x64_defs movr_def cmovr_def seq_Cons seq_append Option.bind_assoc rev_map comp_def reg_defs
      del: seq_single)


section \<open>The machine\<close>

record mach =
  regs :: "nat \<Rightarrow> val"
  rsp :: nat
  stk :: "nat \<Rightarrow> val"
  zf :: "bool option"
  sf :: "bool option"
  lt :: "bool option"
  m_mem :: mem
  m_env :: "val strmap"

text \<open>
  What a called C function leaves behind: arbitrary words in the caller-saved registers and below the
  stack pointer, and in the upper half of \<open>%rax\<close> when it returns a 32-bit integer. \<open>h_ext\<close> stands for
  the functions whose effect is not part of this model.
\<close>

record host =
  h_junk :: "mach \<Rightarrow> nat \<Rightarrow> val"
  h_below :: "mach \<Rightarrow> nat \<Rightarrow> val"
  h_high :: "mach \<Rightarrow> u32"
  h_ext :: "hostfn \<Rightarrow> mach \<Rightarrow> (val \<times> mem \<times> val strmap) option"

definition get_reg :: "mach \<Rightarrow> nat \<Rightarrow> val" where
  "get_reg st r = (if r = RSP then W (of_nat (8 * rsp st)) else regs st r)"

definition set_reg :: "nat \<Rightarrow> val \<Rightarrow> mach \<Rightarrow> mach option" where
  "set_reg r v st = (if r = RSP then None else Some (st\<lparr>regs := (regs st)(r := v)\<rparr>))"

text \<open>The word at an address of the heap: fields of cells and environment entries, array elements.\<close>

fun load8 :: "mem \<Rightarrow> val \<Rightarrow> val option" where
  "load8 m (P (OCell i) off) =
     (if MAX_CELLS \<le> i then None
      else if off = 0 then Some (c_ar (cell_heap m i))
      else if off = 8 then Some (c_dr (cell_heap m i))
      else if off = 16 then Some (W (c_tag (cell_heap m i)))
      else None)"
| "load8 m (P (OEnv e) off) = (if off = 0 \<and> e < length (envs m) then Some (e_cell (envs m ! e)) else None)"
| "load8 m (P (OVec v) off) = (if off mod 8 = 0 then vec_get m (vecp v) (off div 8) else None)"
| "load8 m _ = None"

fun store8 :: "val \<Rightarrow> val \<Rightarrow> mem \<Rightarrow> mem option" where
  "store8 (P (OVec v) off) x m = (if off mod 8 = 0 then vec_set (vecp v) (off div 8) x m else None)"
| "store8 _ x m = None"

text \<open>Little-endian loads and stores of a few bytes.\<close>

fun bytes_word :: "byte list \<Rightarrow> u64" where
  "bytes_word [] = 0"
| "bytes_word (b # ds) = ucast b OR push_bit 8 (bytes_word ds)"

fun word_bytes :: "nat \<Rightarrow> u64 \<Rightarrow> byte list" where
  "word_bytes 0 w = []"
| "word_bytes (Suc n) w = ucast w # word_bytes n (drop_bit 8 w)"

definition load_bytes :: "nat \<Rightarrow> mem \<Rightarrow> val \<Rightarrow> u64 option" where
  "load_bytes n m p = map_option bytes_word (read_bytes m p n)"

definition store_bytes :: "nat \<Rightarrow> val \<Rightarrow> u64 \<Rightarrow> mem \<Rightarrow> mem option" where
  "store_bytes n p w m = write_bytes p (word_bytes n w) m"

text \<open>Arithmetic: on words, and the addition of an offset to a pointer.\<close>

definition ptr_offset :: "obj \<Rightarrow> nat \<Rightarrow> int \<Rightarrow> val option" where
  "ptr_offset x off i = (if 0 \<le> int off + i then Some (P x (nat (int off + i))) else None)"

fun alu_val :: "alu \<Rightarrow> val \<Rightarrow> val \<Rightarrow> val option" where
  "alu_val Add (W a) (W b) = Some (W (a + b))"
| "alu_val Add (P x off) (W b) = ptr_offset x off (sint b)"
| "alu_val And (W a) (W b) = Some (W (a AND b))"
| "alu_val Or (W a) (W b) = Some (W (a OR b))"
| "alu_val Xor (W a) (W b) = Some (W (a XOR b))"
| "alu_val Sub (W a) (W b) = Some (W (a - b))"
| "alu_val Imul (W a) (W b) = Some (W (a * b))"
| "alu_val _ _ _ = None"

text \<open>Whether two words are equal, where the model knows: an object is at no small address.\<close>

fun same_word :: "val \<Rightarrow> val \<Rightarrow> bool option" where
  "same_word (W a) (W b) = Some (a = b)"
| "same_word (P x i) (P y j) = (if x = y then Some (i = j) else None)"
| "same_word (P x i) (W b) = (if b = 0 then Some False else None)"
| "same_word _ _ = None"

definition negative :: "u64 \<Rightarrow> bool" where
  "negative w \<longleftrightarrow> sint w < 0"

definition sign_of :: "val \<Rightarrow> bool option" where
  "sign_of v = map_option negative (as_word v)"

definition less_word :: "val \<Rightarrow> val \<Rightarrow> bool option" where
  "less_word x y = do { a \<leftarrow> as_word x; b \<leftarrow> as_word y; Some (sint a < sint b) }"

definition set_flags :: "val \<Rightarrow> mach \<Rightarrow> mach" where
  "set_flags v st = st\<lparr>zf := same_word v (W 0), sf := sign_of v, lt := None\<rparr>"

definition compare :: "val \<Rightarrow> val \<Rightarrow> mach \<Rightarrow> mach" where
  "compare x y st =
     st\<lparr>zf := same_word x y, sf := Option.bind (alu_val Sub x y) sign_of, lt := less_word x y\<rparr>"

fun holds :: "cond \<Rightarrow> mach \<Rightarrow> bool option" where
  "holds Equal st = zf st"
| "holds Not_equal st = map_option HOL.Not (zf st)"
| "holds Not_less st = map_option HOL.Not (lt st)"
| "holds Sign st = sf st"

definition push_word :: "val \<Rightarrow> mach \<Rightarrow> mach option" where
  "push_word v st = (if rsp st = 0 then None else Some (st\<lparr>rsp := rsp st - 1, stk := (stk st)(rsp st - 1 := v)\<rparr>))"

text \<open>The stack word at an offset in bytes from \<open>%rsp\<close>.\<close>

definition stack_slot :: "mach \<Rightarrow> int \<Rightarrow> nat option" where
  "stack_slot st i = (if i mod 8 = 0 \<and> 0 \<le> int (rsp st) + i div 8 then Some (nat (int (rsp st) + i div 8)) else None)"

text \<open>Signed division of C and x64; a zero divisor and an overflow trap.\<close>

definition div_word :: "u64 \<Rightarrow> u64 \<Rightarrow> u64 option" where
  "div_word a b = (if b = 0 \<or> (b = - 1 \<and> a = push_bit 63 1) then None
     else Some (word_of_int (sgn (sint a) * sgn (sint b) * (\<bar>sint a\<bar> div \<bar>sint b\<bar>))))"

definition rem_word :: "u64 \<Rightarrow> u64 \<Rightarrow> u64" where
  "rem_word a b = word_of_int (sgn (sint a) * (\<bar>sint a\<bar> mod \<bar>sint b\<bar>))"

section \<open>Calls of C functions\<close>

definition int_arg :: "mach \<Rightarrow> nat \<Rightarrow> u32 option" where
  "int_arg st r = map_option ucast (as_word (regs st r))"

definition host_result :: "host \<Rightarrow> hostfn \<Rightarrow> mach \<Rightarrow> (val \<times> mem \<times> val strmap) option" where
  "host_result h f st =
     (let m = m_mem st; env = m_env st; a0 = regs st ARGR0; a1 = regs st ARGR1;
          keep = map_option (\<lambda>(v, m). (v, m, env)) in
      case f of
        Host_alloc_int \<Rightarrow> do { i \<leftarrow> int_arg st ARGR0; keep (alloc_int i m) }
      | Host_alloc_nil \<Rightarrow> keep (alloc_nil m)
      | Host_alloc_cons \<Rightarrow> keep (alloc_cons a0 a1 m)
      | Host_alloc_concat \<Rightarrow> keep (alloc_concat a0 a1 m)
      | Host_alloc_substr \<Rightarrow> do { i \<leftarrow> int_arg st ARGR1; n \<leftarrow> int_arg st ARGR2; keep (alloc_substr a0 i n m) }
      | Host_alloc_num_bytes \<Rightarrow> do { i \<leftarrow> int_arg st ARGR0; keep (alloc_num_bytes i m) }
      | Host_alloc_num_string \<Rightarrow> do { i \<leftarrow> int_arg st ARGR0; keep (alloc_num_string i m) }
      | Host_alloc_string_from_bytes \<Rightarrow> keep (alloc_string_from_bytes a0 m)
      | Host_alloc_struct_def \<Rightarrow> do { i \<leftarrow> int_arg st ARGR0; keep (alloc_struct_def i m) }
      | Host_insert_global_symbol \<Rightarrow> map_option (\<lambda>(v, env, m). (v, m, env)) (insert_symbol a0 a1 env m)
      | Host_inline_mod \<Rightarrow>
          do { a \<leftarrow> as_word a0; b \<leftarrow> as_word a1; r \<leftarrow> inline_mod a b;
               Some (W (push_bit 32 (ucast (h_high h st)) OR ucast r), m, env) }
      | _ \<Rightarrow> h_ext h f st)"

text \<open>\<open>%r12\<close> to \<open>%r15\<close> (registers 4 to 7) survive a call.\<close>

definition callee_saved :: "nat \<Rightarrow> bool" where
  "callee_saved r \<longleftrightarrow> 4 \<le> r \<and> r \<le> 7"

definition call_host :: "host \<Rightarrow> hostfn \<Rightarrow> mach \<Rightarrow> mach option" where
  "call_host h f st =
     do {
       (v, m, env) \<leftarrow> host_result h f st;
       Some (st\<lparr>regs := (\<lambda>r. if r = 0 then v else if callee_saved r then regs st r else h_junk h st r),
                stk := (\<lambda>i. if i < rsp st then h_below h st i else stk st i),
                zf := None, sf := None, lt := None, m_mem := m, m_env := env\<rparr>)
     }"


section \<open>Execution\<close>

text \<open>Instructions that do not transfer control.\<close>

fun exec_insn :: "host \<Rightarrow> insn \<Rightarrow> mach \<Rightarrow> mach option" where
  "exec_insn h (Mov_imm v r) st = set_reg r v st"
| "exec_insn h (Mov_addr v r) st = set_reg r v st"
| "exec_insn h (Mov_reg s d) st = set_reg d (get_reg st s) st"
| "exec_insn h (Cmov c s d) st = do { b \<leftarrow> holds c st; if b then set_reg d (get_reg st s) st else Some st }"
| "exec_insn h (Load s d) st = do { v \<leftarrow> load8 (m_mem st) (regs st s); set_reg d v st }"
| "exec_insn h (Load_stack i r) st = do { k \<leftarrow> stack_slot st i; set_reg r (stk st k) st }"
| "exec_insn h (Store_stack r i) st = do { k \<leftarrow> stack_slot st i; Some (st\<lparr>stk := (stk st)(k := get_reg st r)\<rparr>) }"
| "exec_insn h (Add_rsp i) st = do { k \<leftarrow> stack_slot st i; Some (set_flags (W (of_nat (8 * k))) (st\<lparr>rsp := k\<rparr>)) }"
| "exec_insn h (Sub_rsp i) st = do { k \<leftarrow> stack_slot st (- i); Some (set_flags (W (of_nat (8 * k))) (st\<lparr>rsp := k\<rparr>)) }"
| "exec_insn h (Movb_load r) st =
     do { d \<leftarrow> as_word (regs st 3); b \<leftarrow> load_bytes 1 (m_mem st) (regs st r); set_reg 3 (W ((d AND NOT 0xff) OR b)) st }"
| "exec_insn h (Movw_load r) st =
     do { d \<leftarrow> as_word (regs st 3); b \<leftarrow> load_bytes 2 (m_mem st) (regs st r); set_reg 3 (W ((d AND NOT 0xffff) OR b)) st }"
| "exec_insn h (Movl_load r) st = do { b \<leftarrow> load_bytes 4 (m_mem st) (regs st r); set_reg 3 (W b) st }"
| "exec_insn h (And_rdx n) st =
     do {
       d \<leftarrow> as_word (regs st 3);
       let v = W (d AND (if n = 8 then 0xff else 0xffff));
       map_option (set_flags v) (set_reg 3 v st)
     }"
| "exec_insn h (Mov_rdx r) st = set_reg r (regs st 3) st"
| "exec_insn h (Movb_store r) st =
     do { d \<leftarrow> as_word (regs st 3); m \<leftarrow> store_bytes 1 (regs st r) d (m_mem st); Some (st\<lparr>m_mem := m\<rparr>) }"
| "exec_insn h (Movw_store r) st =
     do { d \<leftarrow> as_word (regs st 3); m \<leftarrow> store_bytes 2 (regs st r) d (m_mem st); Some (st\<lparr>m_mem := m\<rparr>) }"
| "exec_insn h (Movl_store r) st =
     do { d \<leftarrow> as_word (regs st 3); m \<leftarrow> store_bytes 4 (regs st r) d (m_mem st); Some (st\<lparr>m_mem := m\<rparr>) }"
| "exec_insn h (Movq_store r) st = do { m \<leftarrow> store8 (regs st r) (regs st 3) (m_mem st); Some (st\<lparr>m_mem := m\<rparr>) }"
| "exec_insn h (Alu a s d) st =
     do {
       v \<leftarrow> alu_val a (regs st d) (regs st s);
       st \<leftarrow> set_reg d v st;
       Some (if a = Imul then st\<lparr>zf := None, sf := None, lt := None\<rparr> else set_flags v st)
     }"
| "exec_insn h (Add_imm i r) st =
     do { v \<leftarrow> alu_val Add (regs st r) (W (word_of_int i)); map_option (set_flags v) (set_reg r v st) }"
| "exec_insn h (Not r) st = do { a \<leftarrow> as_word (regs st r); set_reg r (W (NOT a)) st }"
| "exec_insn h (Mov_rcx r) st = set_reg RCX (regs st r) st"
| "exec_insn h (Shr_cl r) st =
     do {
       a \<leftarrow> as_word (regs st r);
       c \<leftarrow> as_word (regs st RCX);
       map_option (\<lambda>st. st\<lparr>zf := None, sf := None, lt := None\<rparr>) (set_reg r (W (drop_bit (unat c mod 64) a)) st)
     }"
| "exec_insn h (Shl_cl r) st =
     do {
       a \<leftarrow> as_word (regs st r);
       c \<leftarrow> as_word (regs st RCX);
       map_option (\<lambda>st. st\<lparr>zf := None, sf := None, lt := None\<rparr>) (set_reg r (W (push_bit (unat c mod 64) a)) st)
     }"
| "exec_insn h (Mov_to_rax r) st = set_reg 0 (regs st r) st"
| "exec_insn h Cqto st = do { a \<leftarrow> as_word (regs st 0); set_reg 3 (W (if negative a then - 1 else 0)) st }"
| "exec_insn h (Idiv r) st =
     do {
       a \<leftarrow> as_word (regs st 0);
       d \<leftarrow> as_word (regs st 3);
       b \<leftarrow> as_word (regs st r);
       if d = (if negative a then - 1 else 0) then do {
         q \<leftarrow> div_word a b;
         Some (st\<lparr>regs := (regs st)(0 := W q, 3 := W (rem_word a b)), zf := None, sf := None, lt := None\<rparr>)
       } else None
     }"
| "exec_insn h (Mov_from_rax r) st = set_reg r (regs st 0) st"
| "exec_insn h (Push r) st = push_word (get_reg st r) st"
| "exec_insn h (Pop r) st = do { st' \<leftarrow> set_reg r (stk st (rsp st)) st; Some (st'\<lparr>rsp := rsp st + 1\<rparr>) }"
| "exec_insn h Mov_rsp_rax st = set_reg 0 (W (of_nat (8 * rsp st))) st"
| "exec_insn h Push_rax st = push_word (regs st 0) st"
| "exec_insn h Align_rsp st = Some (st\<lparr>rsp := rsp st - rsp st mod 2, zf := None, sf := None, lt := None\<rparr>)"
| "exec_insn h Store_rax_top st = Some (st\<lparr>stk := (stk st)(rsp st := regs st 0)\<rparr>)"
| "exec_insn h Pop_rsp st =
     do { a \<leftarrow> as_word (stk st (rsp st)); if unat a mod 8 = 0 then Some (st\<lparr>rsp := unat a div 8\<rparr>) else None }"
| "exec_insn h (Mov_host f) st = set_reg 0 (h_junk h st 0) st"
| "exec_insn h (Call_host f note) st = call_host h f st"
| "exec_insn h (Cmp_imm i r) st = Some (compare (regs st r) (W (word_of_int i)) st)"
| "exec_insn h (Cmp_reg s d) st = Some (compare (regs st d) (regs st s) st)"
| "exec_insn h (Label l) st = Some st"
| "exec_insn h (Comment c) st = Some st"
| "exec_insn h _ st = None"

text \<open>A whole program: \<open>HOST_RETURN\<close> is the return address of the C code that entered it.\<close>

definition HOST_RETURN :: val where
  "HOST_RETURN = F (OCode 0)"

fun label_at :: "insn list \<Rightarrow> label \<Rightarrow> nat option" where
  "label_at [] l = None"
| "label_at (i # is) l = (if i = Label l then Some 0 else map_option Suc (label_at is l))"

datatype outcome = Running nat mach | Finished mach

definition step :: "host \<Rightarrow> insn list \<Rightarrow> nat \<Rightarrow> mach \<Rightarrow> outcome option" where
  "step h code pc st =
     (if length code \<le> pc then None
      else case code ! pc of
        Jump l \<Rightarrow> map_option (\<lambda>k. Running k st) (label_at code l)
      | Jump_if c l \<Rightarrow>
          do { b \<leftarrow> holds c st; if b then map_option (\<lambda>k. Running k st) (label_at code l) else Some (Running (pc + 1) st) }
      | Call_reg r \<Rightarrow>
          (case regs st r of
             P (OCode k) off \<Rightarrow> if off = 0 then map_option (Running k) (push_word (P (OCode (pc + 1)) 0) st) else None
           | _ \<Rightarrow> None)
      | Ret \<Rightarrow>
          (case stk st (rsp st) of
             P (OCode k) off \<Rightarrow> if off = 0 then Some (Running k (st\<lparr>rsp := rsp st + 1\<rparr>)) else None
           | v \<Rightarrow> if v = HOST_RETURN then Some (Finished (st\<lparr>rsp := rsp st + 1\<rparr>)) else None)
      | i \<Rightarrow> map_option (Running (pc + 1)) (exec_insn h i st))"

fun run :: "nat \<Rightarrow> host \<Rightarrow> insn list \<Rightarrow> nat \<Rightarrow> mach \<Rightarrow> mach option" where
  "run 0 h code pc st = None"
| "run (Suc n) h code pc st =
     do { r \<leftarrow> step h code pc st; (case r of Finished st \<Rightarrow> Some st | Running pc st \<Rightarrow> run n h code pc st) }"

text \<open>The instructions of a list of operations.\<close>

definition insns :: "jit list \<Rightarrow> insn list" where
  "insns js = concat (map insns_x64 js)"

text \<open>
  C15. The text the code generator prints for a whole program is the listing of the instructions that the machine model executes:
  every \<open>jit_\<close> function of \<open>jit_x64.c\<close> prints exactly the instructions of its entry in \<open>insns_x64\<close>, in order, and it prints nothing else.
\<close>

theorem listing_is_program:
  "seq (map (emit_x64 addr fn) js) = seq (map (show_insn addr fn) (insns js))"
proof -
  have "seq (map (emit_x64 addr fn) js) = seq (map (\<lambda>j. seq (map (show_insn addr fn) (insns_x64 j))) js)"
    by (simp only: emit_x64_insns [abs_def])
  also have "\<dots> = seq (concat (map (\<lambda>j. map (show_insn addr fn) (insns_x64 j)) js))" by (rule seq_concat)
  finally show ?thesis by (simp add: insns_def map_concat comp_def)
qed

end
