(* ===== verification/Compiler.thy ===== *)
theory Compiler
  imports Frames
begin

text \<open>
  \<open>compile_expr\<close> of \<^verbatim>\<open>src/sledge/compiler_new.c\<close>. Each case of its switch is a definition; the
  recursive calls go through the parameter \<open>rec\<close> (expression, return type, state), and \<open>compile_expr\<close> ties
  the knot with fuel for the nesting depth. The result is the prototype cell the C function returns
  (NULL for a compilation error) with the new state; \<open>None\<close> is a stuck execution. \<open>pfmt\<close> is how
  the host prints a pointer in a label.
\<close>

type_synonym compiler = "val \<Rightarrow> val \<Rightarrow> comp \<Rightarrow> (val \<times> comp) option"

text \<open>A result together with what the rest of the case does.\<close>

definition failed :: "comp \<Rightarrow> (val \<times> comp) option" where
  "failed s = Some (NULL, s)"

section \<open>Preparing the arguments\<close>

text \<open>The first component is \<open>None\<close> when the loop returns 0.\<close>

type_synonym prepared = "(arg list \<times> nat \<times> nat) option"

text \<open>The type of the second argument of \<open>let\<close>: raw integers for integers and known integer locals.\<close>

definition let_signature :: "arg list \<Rightarrow> u64 \<Rightarrow> comp \<Rightarrow> (u64 \<times> val) option" where
  "let_signature argdefs given_tag s =
     do {
       c0 \<leftarrow> a_cell (argdefs ! 0);
       sym \<leftarrow> get_cell (c_mem s) c0;
       fidx \<leftarrow> get_sym_frame_idx (c_mem s) (c_ar sym) (f_args (c_frame s)) True;
       hint \<leftarrow> (if 0 \<le> fidx
               then do { as \<leftarrow> f_args (c_frame s); t \<leftarrow> a_type (as ! nat fidx); Some (t = ARGT_STACK_INT) }
               else Some False);
       Some (if given_tag = TAG_INT \<or> hint then (TAG_INT, prototype_int (c_protos s)) else (TAG_ANY, prototype_any (c_protos s)))
     }"

text \<open>The name of the struct a nested expression returned.\<close>

definition struct_type_name :: "mem \<Rightarrow> val \<Rightarrow> val option" where
  "struct_type_name m cons_type =
     do {
       t \<leftarrow> get_cell m cons_type;
       f0 \<leftarrow> vec_get m (c_ar t) 0;
       d \<leftarrow> get_cell m f0;
       n \<leftarrow> vec_get m (c_ar d) 0;
       nc \<leftarrow> get_cell m n;
       Some (c_ar nc)
     }"

text \<open>One argument that is present; \<open>None\<close> in the first component is the \<open>return 0\<close> of the source.\<close>

definition prepare_arg ::
  "compiler \<Rightarrow> bool \<Rightarrow> nat \<Rightarrow> val \<Rightarrow> val \<Rightarrow> val \<Rightarrow> arg list \<Rightarrow> nat \<Rightarrow> comp \<Rightarrow> ((arg list \<times> nat) option \<times> comp) option"
where
  "prepare_arg rec is_let argi arg signature_args signature_arg argdefs args_pushed s =
     do {
       a \<leftarrow> get_cell (c_mem s) arg;
       let given_tag = c_tag a;
       sig_tag \<leftarrow> (if signature_arg \<noteq> NULL then tag_of s signature_arg else Some 0);
       (sig_tag, signature_arg) \<leftarrow>
         (if is_let \<and> argi = 1 then let_signature argdefs given_tag s else Some (sig_tag, signature_arg));
       let old = argdefs ! argi;
       if signature_args = NULL then
         Some (Some (argdefs[argi := old\<lparr>a_cell := Some arg, a_type := Some ARGT_STACK\<rparr>], args_pushed), s)
       else if sig_tag = TAG_LAMBDA then
         Some (Some (argdefs[argi := old\<lparr>a_cell := Some arg, a_type := Some ARGT_LAMBDA\<rparr>], args_pushed), s)
       else if c_tag a = TAG_CONS then
         do {
           (cons_type, s) \<leftarrow> rec arg signature_arg s;
           if cons_type = NULL then Some (None, s)
           else do {
             given_tag \<leftarrow> tag_of s cons_type;
             let s = add_sp 1 s;
             let d = old\<lparr>a_cell := Some NULL, a_slot := Some (f_sp (c_frame s)),
                         a_type := Some (if given_tag = TAG_INT then ARGT_STACK_INT else ARGT_STACK)\<rparr>;
             d \<leftarrow> (if given_tag = TAG_STRUCT
                    then do { n \<leftarrow> struct_type_name (c_mem s) cons_type; Some (d\<lparr>a_type_name := Some n\<rparr>) }
                    else Some d);
             Some (Some (argdefs[argi := d], args_pushed + 1), emit [JPush R0 R0] s)
           }
         }
       else if given_tag = TAG_SYM \<and> sig_tag \<noteq> TAG_SYM then
         do {
           idx \<leftarrow> get_sym_frame_idx (c_mem s) (c_ar a) (f_args (c_frame s)) False;
           if 0 \<le> idx
           then do { as \<leftarrow> f_args (c_frame s); Some (Some (argdefs[argi := as ! nat idx], args_pushed), s) }
           else do {
             name \<leftarrow> read_cstr (c_mem s) (c_ar a);
             e \<leftarrow> lookup_global_symbol (c_env s) name;
             if e = NULL then Some (None, s)
             else Some (Some (argdefs[argi := old\<lparr>a_env := Some e, a_type := Some ARGT_ENV\<rparr>], args_pushed), s)
           }
         }
       else if compatible_type given_tag sig_tag \<or> sig_tag = TAG_ANY then
         Some (Some (argdefs[argi := old\<lparr>a_cell := Some arg, a_slot := Some (int argi - 1), a_type := Some ARGT_CONST\<rparr>], args_pushed), s)
       else Some (None, s)
     }"

text \<open>
  The do-while loop over arguments and signature; the first argument counts the rounds left. The name of a
  named argument is printed with \<open>%s\<close>; \<open>prototype_cons\<close> counts as one, with NULL for its name, which the C
  library of the host prints as text.
\<close>

fun prepare_args ::
  "nat \<Rightarrow> compiler \<Rightarrow> bool \<Rightarrow> nat \<Rightarrow> val \<Rightarrow> val \<Rightarrow> arg list \<Rightarrow> nat \<Rightarrow> comp \<Rightarrow> (prepared \<times> comp) option"
where
  "prepare_args 0 rec is_let argi args signature_args argdefs args_pushed s = Some (Some (argdefs, argi, args_pushed), s)"
| "prepare_args (Suc k) rec is_let argi args signature_args argdefs args_pushed s =
     do {
       arg \<leftarrow> car (c_mem s) args;
       signature_arg \<leftarrow> car (c_mem s) signature_args;
       signature_arg \<leftarrow>
         (if signature_arg = NULL then Some NULL
          else do {
            x \<leftarrow> get_cell (c_mem s) signature_arg;
            if c_tag x = TAG_CONS
            then do { n \<leftarrow> car (c_mem s) signature_arg; nc \<leftarrow> get_cell (c_mem s) n;
                   _ \<leftarrow> (if c_ar nc = NULL then Some [] else read_cstr (c_mem s) (c_ar nc)); cdr (c_mem s) signature_arg }
            else Some signature_arg
          });
       (r, s) \<leftarrow>
         (if arg \<noteq> NULL \<and> (signature_args = NULL \<or> signature_arg \<noteq> NULL)
          then prepare_arg rec is_let argi arg signature_args signature_arg argdefs args_pushed s
          else if arg = NULL \<and> signature_arg \<noteq> NULL then Some (None, s)
          else if arg \<noteq> NULL \<and> signature_arg = NULL then Some (None, s)
          else Some (Some (argdefs, args_pushed), s));
       (case r of
          None \<Rightarrow> Some (None, s)
        | Some (argdefs, args_pushed) \<Rightarrow>
            if argi + 1 < MAXARGS
            then do {
              args \<leftarrow> cdr (c_mem s) args;
              if args = NULL then Some (Some (argdefs, argi + 1, args_pushed), s)
              else if signature_args = NULL then prepare_args k rec is_let (argi + 1) args NULL argdefs args_pushed s
              else do {
                signature_args \<leftarrow> cdr (c_mem s) signature_args;
                if signature_args = NULL then Some (Some (argdefs, argi + 1, args_pushed), s)
                else prepare_args k rec is_let (argi + 1) args signature_args argdefs args_pushed s
              }
            }
            else Some (Some (argdefs, argi + 1, args_pushed), s))
     }"

section \<open>Integer operations\<close>

text \<open>The end of every case that computes an integer in \<open>ARGR0\<close>: boxed when the context wants any
  cell, else left in \<open>R0\<close>.\<close>

definition return_int :: "val \<Rightarrow> comp \<Rightarrow> (val \<times> comp) option" where
  "return_int return_type s =
     do {
       t \<leftarrow> tag_of s return_type;
       Some (if t = TAG_ANY then (prototype_any (c_protos s), emit [JCall Host_alloc_int ''alloc_int''] s)
             else (prototype_int (c_protos s), emit [JMovr R0 ARGR0] s))
     }"

definition compile_int_op :: "jit \<Rightarrow> arg list \<Rightarrow> val \<Rightarrow> comp \<Rightarrow> (val \<times> comp) option" where
  "compile_int_op instr argdefs return_type s =
     do {
       s \<leftarrow> load_int ARGR0 (argdefs ! 0) s;
       s \<leftarrow> load_int R2 (argdefs ! 1) s;
       return_int return_type (emit [instr] s)
     }"

definition compile_bitand :: "arg list \<Rightarrow> val \<Rightarrow> comp \<Rightarrow> (val \<times> comp) option" where
  "compile_bitand = compile_int_op (JAndr ARGR0 R2)"

definition compile_bitnot :: "arg list \<Rightarrow> val \<Rightarrow> comp \<Rightarrow> (val \<times> comp) option" where
  "compile_bitnot argdefs return_type s =
     do { s \<leftarrow> load_int ARGR0 (argdefs ! 0) s; return_int return_type (emit [JNotr ARGR0] s) }"

definition compile_bitor :: "arg list \<Rightarrow> val \<Rightarrow> comp \<Rightarrow> (val \<times> comp) option" where
  "compile_bitor = compile_int_op (JOrr ARGR0 R2)"

definition compile_bitxor :: "arg list \<Rightarrow> val \<Rightarrow> comp \<Rightarrow> (val \<times> comp) option" where
  "compile_bitxor = compile_int_op (JXorr ARGR0 R2)"

definition compile_shl :: "arg list \<Rightarrow> val \<Rightarrow> comp \<Rightarrow> (val \<times> comp) option" where
  "compile_shl = compile_int_op (JShlr ARGR0 R2)"

definition compile_shr :: "arg list \<Rightarrow> val \<Rightarrow> comp \<Rightarrow> (val \<times> comp) option" where
  "compile_shr = compile_int_op (JShrr ARGR0 R2)"

definition compile_add :: "arg list \<Rightarrow> val \<Rightarrow> comp \<Rightarrow> (val \<times> comp) option" where
  "compile_add = compile_int_op (JAddr ARGR0 R2)"

definition compile_sub :: "arg list \<Rightarrow> val \<Rightarrow> comp \<Rightarrow> (val \<times> comp) option" where
  "compile_sub = compile_int_op (JSubr ARGR0 R2)"

definition compile_mul :: "arg list \<Rightarrow> val \<Rightarrow> comp \<Rightarrow> (val \<times> comp) option" where
  "compile_mul = compile_int_op (JMulr ARGR0 R2)"

definition compile_div :: "arg list \<Rightarrow> val \<Rightarrow> comp \<Rightarrow> (val \<times> comp) option" where
  "compile_div = compile_int_op (JDivr ARGR0 R2)"

definition compile_mod :: "arg list \<Rightarrow> val \<Rightarrow> comp \<Rightarrow> (val \<times> comp) option" where
  "compile_mod = compile_int_op (JModr ARGR0 R2)"

definition compile_gt :: "arg list \<Rightarrow> val \<Rightarrow> comp \<Rightarrow> (val \<times> comp) option" where
  "compile_gt argdefs return_type s =
     do {
       s \<leftarrow> load_int ARGR0 (argdefs ! 0) s;
       s \<leftarrow> load_int R2 (argdefs ! 1) s;
       return_int return_type (emit [JMovi R3 (W 0), JSubr ARGR0 R2, JMovneg ARGR0 R3] s)
     }"

definition compile_lt :: "arg list \<Rightarrow> val \<Rightarrow> comp \<Rightarrow> (val \<times> comp) option" where
  "compile_lt argdefs return_type s =
     do {
       s \<leftarrow> load_int R2 (argdefs ! 0) s;
       s \<leftarrow> load_int ARGR0 (argdefs ! 1) s;
       return_int return_type (emit [JMovi R3 (W 0), JSubr ARGR0 R2, JMovneg ARGR0 R3] s)
     }"

definition compile_eq :: "arg list \<Rightarrow> val \<Rightarrow> comp \<Rightarrow> (val \<times> comp) option" where
  "compile_eq argdefs return_type s =
     do {
       s \<leftarrow> load_int R1 (argdefs ! 0) s;
       s \<leftarrow> load_int R2 (argdefs ! 1) s;
       let s = emit [JMovi R0 (W 0), JMovi R3 (W 1), JCmpr R1 R2, JMoveq R0 R3] s;
       t \<leftarrow> tag_of s return_type;
       Some (if t = TAG_ANY then (prototype_any (c_protos s), emit [JMovr ARGR0 R0, JCall Host_alloc_int ''alloc_int''] s)
             else (prototype_int (c_protos s), s))
     }"

section \<open>Definitions and variables\<close>

definition compile_def :: "arg list \<Rightarrow> comp \<Rightarrow> (val \<times> comp) option" where
  "compile_def argdefs s =
     do {
       sym \<leftarrow> a_cell (argdefs ! 0);
       s \<leftarrow> load_cell ARGR1 (argdefs ! 1) (emit [JLea ARGR0 sym] s);
       (_, s) \<leftarrow> push_frame_regs s;
       (_, s) \<leftarrow> pop_frame_regs (emit [JCall Host_insert_global_symbol ''insert_global_symbol''] s);
       Some (prototype_any (c_protos s), s)
     }"

text \<open>Whether the second argument of a new \<open>let\<close> is a raw integer.\<close>

definition let_is_int :: "arg \<Rightarrow> comp \<Rightarrow> bool option" where
  "let_is_int a s =
     do {
       t \<leftarrow> a_type a;
       if t = ARGT_REG_INT \<or> t = ARGT_STACK_INT then Some True
       else if t = ARGT_CONST then do { c \<leftarrow> a_cell a; tg \<leftarrow> tag_of s c; Some (tg = TAG_INT) }
       else Some False
     }"

text \<open>The frame entry of the variable: the existing one, or a new one at \<open>MAXARGS + locals\<close>.
  The result is the index, and whether the variable is an integer and in a register.\<close>

definition let_entry :: "arg list \<Rightarrow> arg list \<Rightarrow> comp \<Rightarrow> (nat \<times> bool \<times> bool \<times> comp) option" where
  "let_entry fn_frame argdefs s =
     do {
       c0 \<leftarrow> a_cell (argdefs ! 0);
       sym \<leftarrow> get_cell (c_mem s) c0;
       fidx \<leftarrow> get_sym_frame_idx (c_mem s) (c_ar sym) (Some fn_frame) False;
       if 0 \<le> fidx
       then do {
         t \<leftarrow> a_type (fn_frame ! nat fidx);
         Some (nat fidx, t = ARGT_REG_INT \<or> t = ARGT_STACK_INT, t = ARGT_REG_INT \<or> t = ARGT_REG, s)
       }
       else do {
         is_int \<leftarrow> let_is_int (argdefs ! 1) s;
         let locals = f_locals (c_frame s);
         let offset = nat (int MAXARGS + locals);
         if offset < length fn_frame
         then do {
           name \<leftarrow> read_cstr (c_mem s) (c_ar sym);
           let e = (fn_frame ! offset)\<lparr>a_name := Some (c_ar sym), a_type_name := a_type_name (argdefs ! 1), a_cell := Some NULL,
                      a_type := Some (if is_int then ARGT_STACK_INT else ARGT_STACK), a_slot := Some (- locals)\<rparr>;
           let text = bs ''++ frame entry '' @ name @ bs '', new stack-local idx '' @ show_int (- locals) @ bs '', is_int ''
                        @ show_int (if is_int then 1 else 0) @ [10];
           let s = emit [JComment (take 254 text)] s;
           Some (offset, is_int, False,
                 s\<lparr>c_frame := (c_frame s)\<lparr>f_args := Some (fn_frame[offset := e]), f_locals := locals + 1\<rparr>\<rparr>)
         }
         else None
       }
     }"

definition compile_let :: "arg list \<Rightarrow> val \<Rightarrow> comp \<Rightarrow> (val \<times> comp) option" where
  "compile_let argdefs return_type s =
     (case f_args (c_frame s) of
        None \<Rightarrow> failed s
      | Some fn_frame \<Rightarrow>
          do {
            (offset, is_int, is_reg, s) \<leftarrow> let_entry fn_frame argdefs s;
            (compiled_type, s) \<leftarrow>
              (if is_int
               then map_option (Pair (prototype_int (c_protos s))) (load_int R0 (argdefs ! 1) (emit [JComment (bs ''(let) load int'')] s))
               else map_option (Pair (prototype_any (c_protos s))) (load_cell R0 (argdefs ! 1) (emit [JComment (bs ''(let) load cell'')] s)));
            as \<leftarrow> f_args (c_frame s);
            slot \<leftarrow> a_slot (as ! offset);
            s \<leftarrow> (if is_reg
                   then do {
                     n \<leftarrow> a_name (as ! offset);
                     name \<leftarrow> read_cstr (c_mem s) n;
                     let text = bs ''(let) store '' @ name @ bs '' to reg '' @ show_int slot;
                     Some (emit [JComment (take 254 text), JMovr (nat slot) R0] s)
                   }
                   else Some (emit [JComment (bs ''(let) store to stack''), JStr_stack R0 (PTRSZ * (f_sp (c_frame s) - slot))] s));
            ct \<leftarrow> tag_of s compiled_type;
            rt \<leftarrow> tag_of s return_type;
            if ct = TAG_INT \<and> rt = TAG_ANY
            then Some (prototype_any (c_protos s), emit [JComment (bs ''(let) box int''), JMovr ARGR0 R0, JCall Host_alloc_int ''alloc_int''] s)
            else Some (compiled_type, s)
          })"

section \<open>Functions\<close>

text \<open>The entries of a new frame before the parameters are filled in.\<close>

definition empty_entry :: arg where
  "empty_entry = arg0\<lparr>a_type := Some ARGT_CONST, a_slot := Some (- 1), a_name := Some NULL\<rparr>"

text \<open>The name, type name and prototype of a parameter declaration; \<open>None\<close> inside is an error message.\<close>

definition fn_param :: "val \<Rightarrow> comp \<Rightarrow> (val \<times> val \<times> val) option option" where
  "fn_param decl s =
     do {
       d \<leftarrow> get_cell (c_mem s) decl;
       if c_tag d = TAG_SYM then Some (Some (c_ar d, NULL, prototype_any (c_protos s)))
       else if c_tag d = TAG_CONS then
         do {
           r \<leftarrow> cdr (c_mem s) decl;
           type_cell \<leftarrow> car (c_mem s) r;
           if type_cell = NULL then Some None
           else do {
             t \<leftarrow> get_cell (c_mem s) type_cell;
             if c_tag t \<noteq> TAG_SYM then Some None
             else do {
               n \<leftarrow> car (c_mem s) decl;
               nc \<leftarrow> get_cell (c_mem s) n;
               tname \<leftarrow> read_cstr (c_mem s) (c_ar t);
               type_env \<leftarrow> lookup_global_symbol (c_env s) tname;
               if type_env = NULL then Some None
               else do {
                 e \<leftarrow> as_env (c_mem s) type_env;
                 if e_cell e = NULL then Some None
                 else do {
                   sd \<leftarrow> get_cell (c_mem s) (e_cell e);
                   if c_tag sd \<noteq> TAG_STRUCT_DEF then Some None
                   else Some (Some (c_ar nc, c_ar t, e_cell e))
                 }
               }
             }
           }
         }
       else Some None
     }"

text \<open>The loop over the parameters, from the last to the first: \<open>j\<close> is one more than the index.\<close>

fun fn_params :: "nat \<Rightarrow> arg list \<Rightarrow> nat \<Rightarrow> arg list \<Rightarrow> val \<Rightarrow> comp \<Rightarrow> ((arg list \<times> val) option \<times> comp) option" where
  "fn_params 0 argdefs num_lets new_frame fn_args s = Some (Some (new_frame, fn_args), s)"
| "fn_params (Suc j) argdefs num_lets new_frame fn_args s =
     do {
       decl \<leftarrow> a_cell (argdefs ! j);
       p \<leftarrow> fn_param decl s;
       (case p of
          None \<Rightarrow> Some (None, s)
        | Some (name, type_name, proto) \<Rightarrow>
            do {
              let e = (new_frame ! j)\<lparr>a_name := Some name, a_type_name := Some type_name,
                         a_type := Some (if j \<ge> ARG_SPILLOVER then ARGT_STACK else ARGT_REG),
                         a_slot := Some (if j \<ge> ARG_SPILLOVER then - int num_lets - (int j - int ARG_SPILLOVER) - 2
                                         else int (j + LBDREG))\<rparr>;
              str \<leftarrow> (if name = NULL then Some None else map_option Some (read_cstr (c_mem s) name));
              (sym, s) \<leftarrow> with_mem (alloc_sym str) s;
              (a, s) \<leftarrow> with_mem (alloc_cons sym proto) s;
              (l, s) \<leftarrow> with_mem (alloc_cons a fn_args) s;
              fn_params j argdefs num_lets (new_frame[j := e]) l s
            })
     }"

text \<open>The word pushed at the entry of a function: its address with the frame marker or-ed in.\<close>

fun frame_tag :: "val \<Rightarrow> val" where
  "frame_tag (P x off) = F x"
| "frame_tag (W w) = W (w OR STACK_FRAME_MARKER)"
| "frame_tag (F x) = F x"

definition compile_fn :: "nat \<Rightarrow> (val \<Rightarrow> byte list) \<Rightarrow> compiler \<Rightarrow> arg list \<Rightarrow> nat \<Rightarrow> comp \<Rightarrow> (val \<times> comp) option" where
  "compile_fn fuel pfmt rec argdefs argi s =
     (if argi < 2 then failed s
      else do {
        fn_body \<leftarrow> a_cell (argdefs ! (argi - 2));
        lets \<leftarrow> analyze_fn fuel (c_mem s) (c_env s) fn_body NULL [];
        let num_lets = length lets;
        (fn_args, s) \<leftarrow> with_mem alloc_nil s;
        (r, s) \<leftarrow> fn_params (argi - 2) argdefs num_lets (replicate MAXFRAME empty_entry) fn_args s;
        (case r of
           None \<Rightarrow> failed s
         | Some (new_frame, fn_args) \<Rightarrow>
             do {
               (ab, s) \<leftarrow> with_mem (alloc_cons fn_args fn_body) s;
               (lambda, s) \<leftarrow> with_mem (alloc_lambda ab) s;
               m \<leftarrow> upd_cell lambda (\<lambda>c. c\<lparr>c_dr := NULL\<rparr>) (c_mem s);
               let s = s\<lparr>c_mem := m\<rparr>;
               let label_fn = bs ''L0_'' @ pfmt lambda;
               let label_fe = bs ''L1_'' @ pfmt lambda;
               let s = emit [JJmp label_fe, JLabel label_fn, JMovi R2 (frame_tag lambda), JPush R2 R2,
                             JDec_stack (int num_lets * PTRSZ)] s;
               let outer = c_frame s;
               (t, s) \<leftarrow> rec fn_body (prototype_any (c_protos s))
                 (s\<lparr>c_frame := \<lparr>f_args = Some new_frame, f_sp = 0, f_locals = 0, f_stack_end = f_stack_end outer\<rparr>\<rparr>);
               let s = s\<lparr>c_frame := outer\<rparr>;
               if t = NULL then failed s
               else Some (prototype_any (c_protos s),
                          emit [JInc_stack (int num_lets * PTRSZ), JInc_stack PTRSZ, JRet, JLabel label_fe, JLea R0 lambda] s)
             })
      })"

section \<open>Control flow\<close>

definition fresh_label :: "comp \<Rightarrow> nat \<times> comp" where
  "fresh_label s = (c_labels s + 1, s\<lparr>c_labels := c_labels s + 1\<rparr>)"

definition label_no :: "string \<Rightarrow> nat \<Rightarrow> label" where
  "label_no name n = bs name @ show_nat n"

definition compile_if :: "compiler \<Rightarrow> arg list \<Rightarrow> val \<Rightarrow> comp \<Rightarrow> (val \<times> comp) option" where
  "compile_if rec argdefs return_type s =
     do {
       let (n, s) = fresh_label s;
       let label_skip = label_no ''Lelse_'' n;
       s \<leftarrow> load_int R0 (argdefs ! 0) s;
       let s = emit [JCmpi R0 0, JJe label_skip] s;
       then_cell \<leftarrow> a_cell (argdefs ! 1);
       (then_type, s) \<leftarrow> rec then_cell return_type s;
       if then_type = NULL then failed s
       else do {
         else_cell \<leftarrow> a_cell (argdefs ! 2);
         (else_type, ok, s) \<leftarrow>
           (if else_cell \<noteq> NULL
            then do {
              let (n, s) = fresh_label s;
              let label_end = label_no ''Lendif_'' n;
              (else_type, s) \<leftarrow> rec else_cell return_type (emit [JJmp label_end, JLabel label_skip] s);
              if else_type = NULL then Some (NULL, False, s) else Some (else_type, True, emit [JLabel label_end] s)
            }
            else Some (NULL, True, emit [JLabel label_skip] s));
         if \<not> ok then failed s
         else do {
           rt \<leftarrow> tag_of s return_type;
           if rt = TAG_VOID \<or> else_type = NULL then Some (prototype_any (c_protos s), s)
           else do {
             t1 \<leftarrow> tag_of s then_type;
             t2 \<leftarrow> tag_of s else_type;
             if t1 \<noteq> t2 then failed s else Some (prototype_any (c_protos s), s)
           }
         }
       }
     }"

definition compile_while :: "compiler \<Rightarrow> arg list \<Rightarrow> val \<Rightarrow> comp \<Rightarrow> (val \<times> comp) option" where
  "compile_while rec argdefs return_type s =
     do {
       let (n, s) = fresh_label s;
       let label_loop = label_no ''Lloop_'' n;
       let label_skip = label_no ''Lskip_'' n;
       let label_skip2 = label_no ''Lskip2_'' n;
       cond \<leftarrow> a_cell (argdefs ! 0);
       (ct, s) \<leftarrow> rec cond (prototype_int (c_protos s)) (emit [JLabel label_loop] s);
       if ct = NULL then failed s
       else do {
         tg \<leftarrow> tag_of s ct;
         let s = (if tg \<noteq> TAG_INT then emit [JLdr R0] s else s);
         let s = emit [JCmpi R0 0, JJe label_skip] s;
         body \<leftarrow> a_cell (argdefs ! 1);
         (ct, s) \<leftarrow> rec body return_type s;
         if ct = NULL then failed s
         else do {
           let s = emit [JJmp label_loop, JLabel label_skip] s;
           rt \<leftarrow> tag_of s return_type;
           Some (ct, if rt = TAG_ANY then emit [JCmpi R0 0, JJne label_skip2, JCall Host_alloc_int ''alloc_int'', JLabel label_skip2] s else s)
         }
       }
     }"

text \<open>The loop of \<open>do\<close>; the fuel bounds the length of the list.\<close>

fun compile_do_from :: "nat \<Rightarrow> compiler \<Rightarrow> val \<Rightarrow> val \<Rightarrow> comp \<Rightarrow> (val \<times> comp) option" where
  "compile_do_from 0 rec args return_type s = None"
| "compile_do_from (Suc fuel) rec args return_type s =
     do {
       arg \<leftarrow> car (c_mem s) args;
       if arg = NULL then Some (prototype_any (c_protos s), s)
       else do {
         rest \<leftarrow> cdr (c_mem s) args;
         more \<leftarrow> car (c_mem s) rest;
         (t, s) \<leftarrow> rec arg (if more \<noteq> NULL then prototype_void (c_protos s) else return_type) s;
         if t = NULL then failed s
         else do { rest \<leftarrow> cdr (c_mem s) args; compile_do_from fuel rec rest return_type s }
       }
     }"

definition compile_do :: "nat \<Rightarrow> compiler \<Rightarrow> val \<Rightarrow> val \<Rightarrow> comp \<Rightarrow> (val \<times> comp) option" where
  "compile_do fuel rec orig_args return_type s =
     do {
       arg \<leftarrow> car (c_mem s) orig_args;
       if arg = NULL then failed s else compile_do_from fuel rec orig_args return_type s
     }"

section \<open>Lists and structs\<close>

text \<open>The elements of \<open>list\<close> are pushed in order; the result is how many there are.\<close>

fun compile_list_elems :: "nat \<Rightarrow> compiler \<Rightarrow> val \<Rightarrow> nat \<Rightarrow> comp \<Rightarrow> (nat option \<times> comp) option" where
  "compile_list_elems 0 rec args n s = None"
| "compile_list_elems (Suc fuel) rec args n s =
     do {
       arg \<leftarrow> car (c_mem s) args;
       if arg = NULL then Some (Some n, s)
       else do {
         (t, s) \<leftarrow> rec arg (prototype_any (c_protos s)) s;
         if t = NULL then Some (None, s)
         else do {
           let s = add_sp 1 (emit [JPush R0 R0] s);
           rest \<leftarrow> cdr (c_mem s) args;
           compile_list_elems fuel rec rest (n + 1) s
         }
       }
     }"

definition compile_list :: "nat \<Rightarrow> compiler \<Rightarrow> val \<Rightarrow> comp \<Rightarrow> (val \<times> comp) option" where
  "compile_list fuel rec orig_args s =
     do {
       (r, s) \<leftarrow> compile_list_elems fuel rec orig_args 0 s;
       (case r of
          None \<Rightarrow> failed s
        | Some n \<Rightarrow>
            do {
              let s = emit [JCall Host_alloc_nil ''list:alloc_nil'', JMovr ARGR1 R0] s;
              let s = emit (concat (replicate n [JPop ARGR0 ARGR0, JCall Host_alloc_cons ''list:alloc_cons'', JMovr ARGR1 R0])) s;
              Some (prototype_any (c_protos s), add_sp (- int n) s)
            })
     }"

text \<open>The key and default of every field of \<open>struct\<close> are pushed; the result counts both.\<close>

fun compile_struct_fields :: "nat \<Rightarrow> compiler \<Rightarrow> val \<Rightarrow> nat \<Rightarrow> comp \<Rightarrow> (nat option \<times> comp) option" where
  "compile_struct_fields 0 rec args n s = None"
| "compile_struct_fields (Suc fuel) rec args n s =
     do {
       key \<leftarrow> car (c_mem s) args;
       if key = NULL then Some (Some n, s)
       else do {
         kt \<leftarrow> tag_of s key;
         if kt \<noteq> TAG_SYM then Some (None, s)
         else do {
           let s = emit [JLea R0 key, JPush R0 R0] s;
           args \<leftarrow> cdr (c_mem s) args;
           arg \<leftarrow> car (c_mem s) args;
           if arg = NULL then Some (None, s)
           else do {
             args \<leftarrow> cdr (c_mem s) args;
             (t, s) \<leftarrow> rec arg (prototype_any (c_protos s)) s;
             if t = NULL then Some (None, s)
             else compile_struct_fields fuel rec args (n + 2) (add_sp 2 (emit [JPush R0 R0] s))
           }
         }
       }
     }"

definition compile_struct :: "nat \<Rightarrow> compiler \<Rightarrow> val \<Rightarrow> comp \<Rightarrow> (val \<times> comp) option" where
  "compile_struct fuel rec orig_args s =
     do {
       args \<leftarrow> cdr (c_mem s) orig_args;
       name_sym \<leftarrow> car (c_mem s) orig_args;
       (r, s) \<leftarrow> compile_struct_fields fuel rec args 0 (emit [JLea R0 name_sym, JPush R0 R0] s);
       (case r of
          None \<Rightarrow> failed s
        | Some n \<Rightarrow>
            do {
              let n = n + 1;
              let s = emit [JMovi ARGR0 (W (of_nat n)), JCall Host_alloc_struct_def ''struct:alloc_struct_def'', JMovr R1 R0, JLdr R1,
                            JAddi R1 (int n * PTRSZ)] s;
              let s = emit (concat (replicate n [JAddi R1 (- PTRSZ), JPop R3 R3, JStra R1])) s;
              let s = add_sp (- int n) s;
              let s = emit [JPush R0 R0, JMovr ARGR1 R0, JLea ARGR0 name_sym] s;
              (_, s) \<leftarrow> push_frame_regs s;
              (_, s) \<leftarrow> pop_frame_regs (emit [JCall Host_insert_global_symbol ''insert_global_symbol''] s);
              Some (prototype_any (c_protos s), emit [JPop R0 R0] s)
            })
     }"

definition compile_new :: "nat \<Rightarrow> val \<Rightarrow> arg list \<Rightarrow> comp \<Rightarrow> (val \<times> comp) option" where
  "compile_new fuel orig_op argdefs s =
     do {
       arg \<leftarrow> (if orig_op \<noteq> NULL then Some orig_op
               else do { env \<leftarrow> a_env (argdefs ! 0); e \<leftarrow> as_env (c_mem s) env; Some (e_cell e) });
       t \<leftarrow> tag_of s arg;
       if t \<noteq> TAG_STRUCT_DEF then failed s
       else do {
         let s = emit [JLea ARGR0 arg, JCall Host_alloc_struct ''new:alloc_struct''] s;
         with_mem (alloc_struct fuel arg) s
       }
     }"

text \<open>\<open>car\<close> of a word that points to a cell or to the elements of a struct: the first word there.\<close>

definition car_any :: "mem \<Rightarrow> val \<Rightarrow> val option" where
  "car_any m x = (case as_vec m x of Some _ \<Rightarrow> vec_get m x 0 | None \<Rightarrow> car m x)"

text \<open>The struct definition an access refers to; \<open>None\<close> inside is an untyped value. (\<open>sput\<close> reports a
  type that is not found, \<open>sget\<close> would dereference NULL.)\<close>

definition access_struct_def :: "bool \<Rightarrow> arg \<Rightarrow> comp \<Rightarrow> val option option" where
  "access_struct_def is_sput a s =
     do {
       t \<leftarrow> a_type a;
       if t = ARGT_ENV
       then do {
         env \<leftarrow> a_env a;
         e \<leftarrow> as_env (c_mem s) env;
         x \<leftarrow> car (c_mem s) (e_cell e);
         sd \<leftarrow> car_any (c_mem s) x;
         Some (Some sd)
       }
       else do {
         tn \<leftarrow> a_type_name a;
         if tn = NULL then Some None
         else do {
           name \<leftarrow> read_cstr (c_mem s) tn;
           type_env \<leftarrow> lookup_global_symbol (c_env s) name;
           if type_env = NULL \<and> is_sput then Some None
           else do { e \<leftarrow> as_env (c_mem s) type_env; Some (Some (e_cell e)) }
         }
       }
     }"

text \<open>The index of a field in a struct definition, searched from field \<open>i\<close> on; \<open>n\<close> fields are left.\<close>

fun find_field :: "mem \<Rightarrow> cstr \<Rightarrow> val \<Rightarrow> nat \<Rightarrow> nat \<Rightarrow> nat option option" where
  "find_field m name elements i 0 = Some None"
| "find_field m name elements i (Suc n) =
     do {
       k \<leftarrow> vec_get m elements (1 + i * 2);
       kc \<leftarrow> get_cell m k;
       s \<leftarrow> read_cstr m (c_ar kc);
       if name = s then Some (Some i) else find_field m name elements (Suc i) n
     }"

text \<open>The definition cell and field index of an access, or \<open>None\<close> for an error; the second component tells
  whether the error is the missing field, which loads 0 first.\<close>

definition access_field :: "bool \<Rightarrow> arg list \<Rightarrow> comp \<Rightarrow> ((cell \<times> nat) option \<times> bool) option" where
  "access_field is_sput argdefs s =
     do {
       lc \<leftarrow> a_cell (argdefs ! 1);
       l \<leftarrow> get_cell (c_mem s) lc;
       sd \<leftarrow> access_struct_def is_sput (argdefs ! 0) s;
       (case sd of
          None \<Rightarrow> Some (None, False)
        | Some p \<Rightarrow>
            do {
              d \<leftarrow> get_cell (c_mem s) p;
              if c_tag d \<noteq> TAG_STRUCT_DEF then Some (None, False)
              else do {
                size \<leftarrow> as_word (c_dr d);
                let num_fields = nat (sint (ucast (size div 2) :: u32));
                name \<leftarrow> read_cstr (c_mem s) (c_ar l);
                r \<leftarrow> find_field (c_mem s) name (c_ar d) 0 num_fields;
                Some (map_option (Pair d) r, True)
              }
            })
     }"

definition compile_sget :: "arg list \<Rightarrow> comp \<Rightarrow> (val \<times> comp) option" where
  "compile_sget argdefs s =
     do {
       (r, missing) \<leftarrow> access_field False argdefs s;
       (case r of
          None \<Rightarrow> failed (if missing then emit [JMovi R0 (W 0)] s else s)
        | Some (d, i) \<Rightarrow>
            do {
              s \<leftarrow> load_cell R0 (argdefs ! 0) s;
              let s = emit [JLdr R0, JAddi R0 (int (i + 1) * PTRSZ), JLdr R0] s;
              ct \<leftarrow> vec_get (c_mem s) (c_ar d) (1 + i * 2 + 1);
              t \<leftarrow> tag_of s ct;
              Some (if t \<noteq> TAG_STRUCT then prototype_any (c_protos s) else ct, s)
            })
     }"

definition compile_sput :: "arg list \<Rightarrow> comp \<Rightarrow> (val \<times> comp) option" where
  "compile_sput argdefs s =
     do {
       (r, missing) \<leftarrow> access_field True argdefs s;
       (case r of
          None \<Rightarrow> failed (if missing then emit [JMovi R0 (W 0)] s else s)
        | Some (d, i) \<Rightarrow>
            do {
              s \<leftarrow> load_cell R2 (argdefs ! 0) s;
              let s = emit [JMovr R0 R2, JLdr R2, JAddi R2 (int (i + 1) * PTRSZ)] s;
              s \<leftarrow> load_cell R3 (argdefs ! 2) s;
              Some (prototype_any (c_protos s), emit [JStra R2] s)
            })
     }"

section \<open>The remaining builtins\<close>

definition compile_quote :: "val \<Rightarrow> comp \<Rightarrow> (val \<times> comp) option" where
  "compile_quote orig_args s =
     do {
       arg \<leftarrow> car (c_mem s) orig_args;
       if arg = NULL then failed s else Some (prototype_any (c_protos s), emit [JLea R0 arg] s)
     }"

definition compile_car :: "arg list \<Rightarrow> comp \<Rightarrow> (val \<times> comp) option" where
  "compile_car argdefs s =
     do {
       s \<leftarrow> load_cell R0 (argdefs ! 0) s;
       Some (prototype_any (c_protos s),
         emit [JMovr R1 R0, JAddi R1 (2 * PTRSZ), JLdr R1, JLea R2 (consed_type_error (c_protos s)), JCmpi R1 (uint TAG_CONS), JMovne R0 R2,
               JLdr R0, JLea R2 (prototype_nil (c_protos s)), JCmpi R0 0, JMoveq R0 R2] s)
     }"

definition compile_cdr :: "arg list \<Rightarrow> comp \<Rightarrow> (val \<times> comp) option" where
  "compile_cdr argdefs s =
     do {
       s \<leftarrow> load_cell R0 (argdefs ! 0) s;
       Some (prototype_any (c_protos s),
         emit [JAddi R0 PTRSZ, JMovr R1 R0, JAddi R1 PTRSZ, JLdr R1, JLea R2 (consed_type_error (c_protos s)), JCmpi R1 (uint TAG_CONS),
               JMovne R0 R2, JLdr R0, JLea R2 (prototype_nil (c_protos s)), JCmpi R0 0, JMoveq R0 R2] s)
     }"

text \<open>Cases that load one or two cells and call a C function.\<close>

definition compile_call1 :: "jit list \<Rightarrow> arg list \<Rightarrow> comp \<Rightarrow> (val \<times> comp) option" where
  "compile_call1 call argdefs s =
     do { s \<leftarrow> load_cell ARGR0 (argdefs ! 0) s; Some (prototype_any (c_protos s), emit call s) }"

definition compile_call2 :: "jit list \<Rightarrow> arg list \<Rightarrow> comp \<Rightarrow> (val \<times> comp) option" where
  "compile_call2 call argdefs s =
     do {
       s \<leftarrow> load_cell ARGR0 (argdefs ! 0) s;
       s \<leftarrow> load_cell ARGR1 (argdefs ! 1) s;
       Some (prototype_any (c_protos s), emit call s)
     }"

text \<open>A call of a C function on an aligned stack.\<close>

definition host_call :: "hostfn \<Rightarrow> string \<Rightarrow> jit list" where
  "host_call f note = [JHost_call_enter, JCall f note, JHost_call_exit]"

definition compile_cons :: "arg list \<Rightarrow> comp \<Rightarrow> (val \<times> comp) option" where
  "compile_cons = compile_call2 [JCall Host_alloc_cons ''alloc_cons'']"

definition compile_concat :: "arg list \<Rightarrow> comp \<Rightarrow> (val \<times> comp) option" where
  "compile_concat = compile_call2 [JCall Host_alloc_concat ''alloc_concat'']"

definition compile_substr :: "arg list \<Rightarrow> comp \<Rightarrow> (val \<times> comp) option" where
  "compile_substr argdefs s =
     do {
       s \<leftarrow> load_cell ARGR0 (argdefs ! 0) s;
       s \<leftarrow> load_int ARGR1 (argdefs ! 1) s;
       s \<leftarrow> load_int ARGR2 (argdefs ! 2) s;
       Some (prototype_any (c_protos s), emit [JCall Host_alloc_substr ''alloc_substr''] s)
     }"

text \<open>\<open>get8\<close> and \<open>get16\<close> differ in the load only.\<close>

definition compile_get :: "jit \<Rightarrow> arg list \<Rightarrow> val \<Rightarrow> comp \<Rightarrow> (val \<times> comp) option" where
  "compile_get load argdefs return_type s =
     do {
       let (n, s) = fresh_label s;
       let label_skip = label_no ''Lskip_'' n;
       let label_ok = label_no ''Lok_'' n;
       s \<leftarrow> load_cell R1 (argdefs ! 0) s;
       s \<leftarrow> load_int R2 (argdefs ! 1) s;
       return_int return_type
         (emit [JMovr R0 R1, JAddi R1 (2 * PTRSZ), JLdr R1, JCmpi R1 (uint TAG_BYTES), JJe label_ok, JCmpi R1 (uint TAG_STR), JJe label_ok,
                JMovi R3 (W 0), JJmp label_skip, JLabel label_ok, JMovr R1 R0, JMovr R1 R0, JLdr R1, JAddr R1 R2, JMovi R3 (W 0), load,
                JLabel label_skip, JMovr ARGR0 R3] s)
     }"

definition compile_get8 :: "arg list \<Rightarrow> val \<Rightarrow> comp \<Rightarrow> (val \<times> comp) option" where
  "compile_get8 = compile_get (JLdrb R1)"

definition compile_get16 :: "arg list \<Rightarrow> val \<Rightarrow> comp \<Rightarrow> (val \<times> comp) option" where
  "compile_get16 = compile_get (JLdrs R1)"

text \<open>\<open>put8\<close> and \<open>put16\<close> differ in the store only.\<close>

definition compile_put :: "jit \<Rightarrow> arg list \<Rightarrow> comp \<Rightarrow> (val \<times> comp) option" where
  "compile_put store argdefs s =
     do {
       let (n, s) = fresh_label s;
       s \<leftarrow> load_cell R0 (argdefs ! 0) s;
       s \<leftarrow> load_int R2 (argdefs ! 1) s;
       s \<leftarrow> load_int R3 (argdefs ! 2) s;
       Some (prototype_any (c_protos s), emit [JMovr R1 R0, JLdr R1, JAddr R1 R2, store, JLabel (label_no ''Lskip_'' n)] s)
     }"

definition compile_put8 :: "arg list \<Rightarrow> comp \<Rightarrow> (val \<times> comp) option" where
  "compile_put8 = compile_put (JStrb R1)"

definition compile_put16 :: "arg list \<Rightarrow> comp \<Rightarrow> (val \<times> comp) option" where
  "compile_put16 = compile_put (JStrs R1)"

definition compile_get32 :: "arg list \<Rightarrow> comp \<Rightarrow> (val \<times> comp) option" where
  "compile_get32 argdefs s =
     do {
       s \<leftarrow> load_int R2 (argdefs ! 1) s;
       s \<leftarrow> load_cell R3 (argdefs ! 0) s;
       Some (prototype_any (c_protos s),
         emit [JLdr R3, JMovi R1 (W 2), JShlr R2 R1, JAddr R3 R2, JLdrw R3, JMovr ARGR0 R3, JCall Host_alloc_int ''alloc_int''] s)
     }"

definition compile_put32 :: "arg list \<Rightarrow> comp \<Rightarrow> (val \<times> comp) option" where
  "compile_put32 argdefs s =
     do {
       let (n, s) = fresh_label s;
       s \<leftarrow> load_cell R1 (argdefs ! 0) s;
       s \<leftarrow> load_int R2 (argdefs ! 1) s;
       s \<leftarrow> load_int R3 (argdefs ! 2) s;
       Some (prototype_any (c_protos s),
         emit [JMovr R1 R0, JLdr R1, JAddr R1 R2, JStrw R1, JLabel (label_no ''Lskip_'' n), JMovr R0 R1, JCall Host_alloc_int ''debug''] s)
     }"

definition compile_alloc :: "hostfn \<Rightarrow> string \<Rightarrow> arg list \<Rightarrow> comp \<Rightarrow> (val \<times> comp) option" where
  "compile_alloc f note argdefs s =
     do { s \<leftarrow> load_int ARGR0 (argdefs ! 0) s; Some (prototype_any (c_protos s), emit [JCall f note] s) }"

definition compile_size :: "arg list \<Rightarrow> val \<Rightarrow> comp \<Rightarrow> (val \<times> comp) option" where
  "compile_size argdefs return_type s =
     do {
       s \<leftarrow> load_cell ARGR0 (argdefs ! 0) s;
       let s = emit [JAddi ARGR0 PTRSZ, JLdr ARGR0] s;
       t \<leftarrow> tag_of s return_type;
       Some (if t = TAG_ANY then (prototype_any (c_protos s), emit [JCall Host_alloc_int ''alloc_int''] s)
             else if t = TAG_INT then (prototype_int (c_protos s), emit [JMovr R0 ARGR0] s)
             else (prototype_any (c_protos s), s))
     }"

text \<open>\<open>genv\<close> is the address of the environment table.\<close>

definition compile_gc :: "val \<Rightarrow> comp \<Rightarrow> (val \<times> comp) option" where
  "compile_gc genv s =
     do {
       (_, s) \<leftarrow> push_frame_regs s;
       let s = emit [JLea ARGR0 genv, JMovi ARGR1 (f_stack_end (c_frame s)), JMovr ARGR2 RSP, JCall Host_collect_garbage ''collect_garbage''] s;
       (_, s) \<leftarrow> pop_frame_regs s;
       Some (prototype_any (c_protos s), s)
     }"

definition compile_symbols :: "val \<Rightarrow> comp \<Rightarrow> (val \<times> comp) option" where
  "compile_symbols genv s =
     Some (prototype_any (c_protos s), emit [JLea ARGR0 genv, JCall Host_list_symbols ''list_symbols''] s)"

text \<open>Cases that save the frame registers around an aligned call: \<open>print\<close>, \<open>open\<close>, \<open>recv\<close> and \<open>send\<close>.\<close>

definition compile_saved_call :: "nat \<Rightarrow> hostfn \<Rightarrow> string \<Rightarrow> arg list \<Rightarrow> comp \<Rightarrow> (val \<times> comp) option" where
  "compile_saved_call n f note argdefs s =
     do {
       s \<leftarrow> load_cell ARGR0 (argdefs ! 0) s;
       s \<leftarrow> (if n = 2 then load_cell ARGR1 (argdefs ! 1) s else Some s);
       (_, s) \<leftarrow> push_frame_regs s;
       (_, s) \<leftarrow> pop_frame_regs (emit (host_call f note) s);
       Some (prototype_any (c_protos s), s)
     }"

section \<open>Calls of compiled functions\<close>

text \<open>The loop that passes the arguments, from the last to the first: \<open>j\<close> is one more than the index.\<close>

fun pass_args :: "nat \<Rightarrow> arg list \<Rightarrow> nat \<Rightarrow> nat \<Rightarrow> comp \<Rightarrow> (nat \<times> comp) option" where
  "pass_args 0 argdefs pushed spo_adjust s = Some (spo_adjust, s)"
| "pass_args (Suc j) argdefs pushed spo_adjust s =
     (if j \<ge> ARG_SPILLOVER
      then do {
        s \<leftarrow> load_cell R0 (argdefs ! j) s;
        pass_args j argdefs pushed (spo_adjust + 1) (add_sp 1 (emit [JPush R0 R0] s))
      }
      else do {
        t \<leftarrow> a_type (argdefs ! j);
        s \<leftarrow> (if t = ARGT_REG
               then do {
                 slot \<leftarrow> a_slot (argdefs ! j);
                 let offset = int (pushed + spo_adjust) - (slot - int LBDREG) - 1;
                 Some (emit [JLdr_stack (LBDREG + j) (offset * PTRSZ)] s)
               }
               else load_cell (LBDREG + j) (argdefs ! j) s);
        pass_args j argdefs pushed spo_adjust s
      })"

definition compile_lambda_call :: "val \<Rightarrow> arg list \<Rightarrow> nat \<Rightarrow> comp \<Rightarrow> (val \<times> comp) option" where
  "compile_lambda_call op_env argdefs argi s =
     do {
       (pushed, s) \<leftarrow> push_frame_regs s;
       (spo_adjust, s) \<leftarrow> pass_args (argi - 1) argdefs pushed 0 (add_sp (int pushed) s);
       let s = emit [JLea R0 op_env, JLdr R0, JAddi R0 PTRSZ, JLdr R0, JCallr R0] s;
       let s = (if spo_adjust \<noteq> 0 then add_sp (- int spo_adjust) (emit [JInc_stack (int spo_adjust * PTRSZ)] s) else s);
       (_, s) \<leftarrow> pop_frame_regs s;
       Some (prototype_any (c_protos s), add_sp (- int pushed) s)
     }"

section \<open>The expression compiler\<close>

text \<open>The operator of a form: its environment entry, its cell, the signature of the arguments and, for a
  struct definition in operator position, that definition; \<open>None\<close> inside is an error.\<close>

definition resolve_op :: "val \<Rightarrow> comp \<Rightarrow> (val \<times> cell \<times> val \<times> val) option option" where
  "resolve_op opsym s =
     (if opsym = NULL then Some None
      else do {
        oc \<leftarrow> get_cell (c_mem s) opsym;
        if c_tag oc \<noteq> TAG_SYM then Some None
        else do {
          op_name \<leftarrow> read_cstr (c_mem s) (c_ar oc);
          op_env \<leftarrow> lookup_global_symbol (c_env s) op_name;
          if op_env = NULL then Some None
          else do {
            e \<leftarrow> as_env (c_mem s) op_env;
            if e_cell e = NULL then Some None
            else do {
              op \<leftarrow> get_cell (c_mem s) (e_cell e);
              if c_tag op = TAG_BUILTIN then Some (Some (op_env, op, c_dr op, NULL))
              else if c_tag op = TAG_LAMBDA then
                do { sig \<leftarrow> car (c_mem s) (c_ar op); Some (Some (op_env, op, sig, NULL)) }
              else if c_tag op = TAG_STRUCT_DEF then
                do {
                  new_env \<leftarrow> lookup_global_symbol (c_env s) (bs ''new'');
                  ne \<leftarrow> as_env (c_mem s) new_env;
                  new_op \<leftarrow> get_cell (c_mem s) (e_cell ne);
                  Some (Some (new_env, new_op, NULL, e_cell e))
                }
              else Some None
            }
          }
        }
      })"

text \<open>The switch over the builtins. A builtin without a case emits nothing.\<close>

definition compile_builtin ::
  "nat \<Rightarrow> (val \<Rightarrow> byte list) \<Rightarrow> val \<Rightarrow> compiler \<Rightarrow> val \<Rightarrow> arg list \<Rightarrow> nat \<Rightarrow> val \<Rightarrow> val \<Rightarrow> val \<Rightarrow> comp \<Rightarrow> (val \<times> comp) option"
where
  "compile_builtin fuel pfmt genv rec op argdefs argi orig_args orig_op return_type s =
     (let is = (\<lambda>name. op = W (ucast (BUILTIN name))) in
      if is ''BITAND'' then compile_bitand argdefs return_type s
      else if is ''BITNOT'' then compile_bitnot argdefs return_type s
      else if is ''BITOR'' then compile_bitor argdefs return_type s
      else if is ''BITXOR'' then compile_bitxor argdefs return_type s
      else if is ''SHL'' then compile_shl argdefs return_type s
      else if is ''SHR'' then compile_shr argdefs return_type s
      else if is ''ADD'' then compile_add argdefs return_type s
      else if is ''SUB'' then compile_sub argdefs return_type s
      else if is ''MUL'' then compile_mul argdefs return_type s
      else if is ''DIV'' then compile_div argdefs return_type s
      else if is ''MOD'' then compile_mod argdefs return_type s
      else if is ''GT'' then compile_gt argdefs return_type s
      else if is ''LT'' then compile_lt argdefs return_type s
      else if is ''EQ'' then compile_eq argdefs return_type s
      else if is ''DEF'' then compile_def argdefs s
      else if is ''LET'' then compile_let argdefs return_type s
      else if is ''FN'' then compile_fn fuel pfmt rec argdefs argi s
      else if is ''IF'' then compile_if rec argdefs return_type s
      else if is ''WHILE'' then compile_while rec argdefs return_type s
      else if is ''DO'' then compile_do fuel rec orig_args return_type s
      else if is ''LIST'' then compile_list fuel rec orig_args s
      else if is ''STRUCT'' then compile_struct fuel rec orig_args s
      else if is ''NEW'' then compile_new fuel orig_op argdefs s
      else if is ''SGET'' then compile_sget argdefs s
      else if is ''SPUT'' then compile_sput argdefs s
      else if is ''QUOTE'' then compile_quote orig_args s
      else if is ''CAR'' then compile_car argdefs s
      else if is ''CDR'' then compile_cdr argdefs s
      else if is ''CONS'' then compile_cons argdefs s
      else if is ''CONCAT'' then compile_concat argdefs s
      else if is ''SUBSTR'' then compile_substr argdefs s
      else if is ''GET8'' then compile_get8 argdefs return_type s
      else if is ''GET16'' then compile_get16 argdefs return_type s
      else if is ''PUT8'' then compile_put8 argdefs s
      else if is ''PUT16'' then compile_put16 argdefs s
      else if is ''GET32'' then compile_get32 argdefs s
      else if is ''PUT32'' then compile_put32 argdefs s
      else if is ''ALLOC'' then compile_alloc Host_alloc_num_bytes ''alloc_bytes'' argdefs s
      else if is ''ALLOC_STR'' then compile_alloc Host_alloc_num_string ''alloc_string'' argdefs s
      else if is ''BYTES_TO_STR'' then compile_call1 [JCall Host_alloc_string_from_bytes ''alloc_string_to_bytes''] argdefs s
      else if is ''WRITE'' then compile_call2 (host_call Host_lisp_write_to_cell ''lisp_write_to_cell'') argdefs s
      else if is ''READ'' then compile_call1 (host_call Host_read_string_cell ''read_string_cell'') argdefs s
      else if is ''EVAL'' then compile_call1 (host_call Host_platform_eval ''platform_eval'') argdefs s
      else if is ''SIZE'' then compile_size argdefs return_type s
      else if is ''GC'' then compile_gc genv s
      else if is ''SYMBOLS'' then compile_symbols genv s
      else if is ''PRINT'' then compile_saved_call 1 Host_lisp_print ''lisp_print'' argdefs s
      else if is ''MOUNT'' then compile_call2 (host_call Host_fs_mount ''fs_mount'') argdefs s
      else if is ''MMAP'' then compile_call1 (host_call Host_fs_mmap ''fs_mmap'') argdefs s
      else if is ''OPEN'' then compile_saved_call 1 Host_fs_open ''fs_open'' argdefs s
      else if is ''RECV'' then compile_saved_call 1 Host_stream_read ''stream_read'' argdefs s
      else if is ''SEND'' then compile_saved_call 2 Host_stream_write ''stream_write'' argdefs s
      else Some (prototype_any (c_protos s), s))"

text \<open>A form: resolve the operator, prepare the arguments, emit the case.\<close>

definition compile_form :: "nat \<Rightarrow> (val \<Rightarrow> byte list) \<Rightarrow> val \<Rightarrow> compiler \<Rightarrow> compiler" where
  "compile_form fuel pfmt genv rec expr return_type s =
     do {
       opsym \<leftarrow> car (c_mem s) expr;
       args \<leftarrow> cdr (c_mem s) expr;
       r \<leftarrow> resolve_op opsym s;
       (case r of
          None \<Rightarrow> failed s
        | Some (op_env, op, signature_args, orig_op) \<Rightarrow>
            do {
              let is_let = (orig_op = NULL \<and> c_tag op = TAG_BUILTIN \<and> c_ar op = W (ucast (BUILTIN ''LET'')));
              text \<leftarrow> lisp_write fuel (c_mem s) expr 256 255;
              (p, s) \<leftarrow> prepare_args MAXARGS rec is_let 0 args signature_args (replicate MAXARGS arg0) 0 (emit [JComment text] s);
              (case p of
                 None \<Rightarrow> failed s
               | Some (argdefs, argi, args_pushed) \<Rightarrow>
                   do {
                     (t, s) \<leftarrow>
                       (if c_tag op = TAG_BUILTIN
                        then compile_builtin fuel pfmt genv rec (c_ar op) argdefs argi args orig_op return_type s
                        else compile_lambda_call op_env argdefs argi s);
                     if t = NULL then failed s else Some (clean_return args_pushed t s)
                   })
            })
     }"

fun compile_expr :: "nat \<Rightarrow> (val \<Rightarrow> byte list) \<Rightarrow> val \<Rightarrow> compiler" where
  "compile_expr 0 pfmt genv expr return_type s = None"
| "compile_expr (Suc fuel) pfmt genv expr return_type s =
     (if expr = NULL then failed s
      else do {
        x \<leftarrow> get_cell (c_mem s) expr;
        if c_tag x = TAG_SYM then
          do {
            idx \<leftarrow> get_sym_frame_idx (c_mem s) (c_ar x) (f_args (c_frame s)) False;
            if 0 \<le> idx
            then do {
              as \<leftarrow> f_args (c_frame s);
              s \<leftarrow> load_cell R0 (as ! nat idx) s;
              Some (prototype_any (c_protos s), s)
            }
            else do {
              name \<leftarrow> read_cstr (c_mem s) (c_ar x);
              env \<leftarrow> lookup_global_symbol (c_env s) name;
              if env \<noteq> NULL
              then do { e \<leftarrow> as_env (c_mem s) env; Some (e_cell e, emit [JMovi R0 env, JLdr R0] s) }
              else failed (emit [JMovi R0 (W 0)] s)
            }
          }
        else if c_tag x \<noteq> TAG_CONS then Some (prototype_any (c_protos s), emit [JMovi R0 expr] s)
        else compile_form fuel pfmt genv (compile_expr fuel pfmt genv) expr return_type s
      })"

section \<open>Initialisation\<close>

text \<open>A prototype: an integer cell with another tag.\<close>

definition proto_cell :: "u64 \<Rightarrow> mem \<Rightarrow> (val \<times> mem) option" where
  "proto_cell tg m = do { (p, m) \<leftarrow> alloc_int 0 m; m \<leftarrow> upd_cell p (\<lambda>c. c\<lparr>c_tag := tg\<rparr>) m; Some (p, m) }"

definition make_prototypes :: "mem \<Rightarrow> (prototypes \<times> mem) option" where
  "make_prototypes m =
     do {
       (p_nil, m) \<leftarrow> alloc_nil m;
       (p_err, m) \<leftarrow> alloc_error ERR_INVALID_PARAM_TYPE m;
       (p_cerr, m) \<leftarrow> alloc_cons p_err p_nil m;
       (p_any, m) \<leftarrow> proto_cell TAG_ANY m;
       (p_void, m) \<leftarrow> proto_cell TAG_VOID m;
       (p_sym, m) \<leftarrow> alloc_sym (Some (bs ''symbol'')) m;
       (p_int, m) \<leftarrow> alloc_int 0 m;
       (p_struct, m) \<leftarrow> proto_cell TAG_STRUCT m;
       (p_sdef, m) \<leftarrow> proto_cell TAG_STRUCT_DEF m;
       (p_stream, m) \<leftarrow> proto_cell TAG_STREAM m;
       (p_str, m) \<leftarrow> alloc_string_copy (bs ''string'') m;
       (p_lambda, m) \<leftarrow> proto_cell TAG_LAMBDA m;
       (n1, m) \<leftarrow> alloc_nil m;
       (n2, m) \<leftarrow> alloc_nil m;
       (p_cons, m) \<leftarrow> alloc_cons n1 n2 m;
       Some (\<lparr>prototype_nil = p_nil, prototype_type_error = p_err, consed_type_error = p_cerr, prototype_any = p_any,
              prototype_void = p_void, prototype_symbol = p_sym, prototype_int = p_int, prototype_struct = p_struct,
              prototype_struct_def = p_sdef, prototype_stream = p_stream, prototype_string = p_str, prototype_lambda = p_lambda,
              prototype_cons = p_cons\<rparr>, m)
     }"

text \<open>One line \<open>insert_symbol(alloc_sym(name), alloc_builtin(b, alloc_list(signature, n)), &global_env)\<close>, or
  with the signature NULL.\<close>

definition insert_builtin :: "string \<times> string \<times> val list option \<Rightarrow> val strmap \<times> mem \<Rightarrow> (val strmap \<times> mem) option" where
  "insert_builtin d st =
     (let (name, b, signature) = d; (env, m) = st in
      do {
        (sym, m) \<leftarrow> alloc_sym (Some (bs name)) m;
        (sig, m) \<leftarrow> (case signature of None \<Rightarrow> Some (NULL, m) | Some ps \<Rightarrow> alloc_list ps (length ps) m);
        (cell, m) \<leftarrow> alloc_builtin (BUILTIN b) sig m;
        (_, env, m) \<leftarrow> insert_symbol sym cell env m;
        Some (env, m)
      })"

fun insert_builtins :: "(string \<times> string \<times> val list option) list \<Rightarrow> val strmap \<times> mem \<Rightarrow> (val strmap \<times> mem) option" where
  "insert_builtins [] st = Some st"
| "insert_builtins (d # ds) st = do { st \<leftarrow> insert_builtin d st; insert_builtins ds st }"

text \<open>The table of builtins in the order of \<open>init_compiler\<close>: symbol, number, signature.\<close>

definition builtin_table :: "prototypes \<Rightarrow> (string \<times> string \<times> val list option) list" where
  "builtin_table p =
     (let sy = prototype_symbol p; an = prototype_any p; it = prototype_int p; st = prototype_struct p; la = prototype_lambda p;
          str = prototype_string p; co = prototype_cons p; sm = prototype_stream p in
      [(''def'', ''DEF'', Some [sy, an]), (''let'', ''LET'', Some [sy, an]), (''new'', ''NEW'', Some [prototype_struct_def p]),
       (''sget'', ''SGET'', Some [st, sy]), (''sput'', ''SPUT'', Some [st, sy, an]),
       (''+'', ''ADD'', Some [it, it]), (''-'', ''SUB'', Some [it, it]), (''*'', ''MUL'', Some [it, it]), (''/'', ''DIV'', Some [it, it]),
       (''%'', ''MOD'', Some [it, it]), (''bitand'', ''BITAND'', Some [it, it]), (''bitor'', ''BITOR'', Some [it, it]),
       (''bitnot'', ''BITNOT'', Some [it]), (''bitxor'', ''BITXOR'', Some [it, it]), (''shl'', ''SHL'', Some [it, it]),
       (''shr'', ''SHR'', Some [it, it]), (''lt'', ''LT'', Some [it, it]), (''gt'', ''GT'', Some [it, it]), (''eq'', ''EQ'', Some [it, it]),
       (''if'', ''IF'', Some [it, la, la]), (''fn'', ''FN'', None), (''while'', ''WHILE'', None), (''do'', ''DO'', None),
       (''print'', ''PRINT'', Some [an]), (''car'', ''CAR'', Some [co]), (''cdr'', ''CDR'', Some [co]), (''cons'', ''CONS'', Some [an, an]),
       (''list'', ''LIST'', None), (''quote'', ''QUOTE'', None), (''struct'', ''STRUCT'', None), (''concat'', ''CONCAT'', Some [str, str]),
       (''substr'', ''SUBSTR'', Some [str, it, it]), (''put8'', ''PUT8'', Some [str, it, it]), (''get8'', ''GET8'', Some [str, it]),
       (''put16'', ''PUT16'', Some [str, it, it]), (''get16'', ''GET16'', Some [str, it]), (''get32'', ''GET32'', Some [str, it]),
       (''put32'', ''PUT32'', Some [str, it, it]), (''size'', ''SIZE'', Some [str]), (''alloc'', ''ALLOC'', Some [it]),
       (''alloc-str'', ''ALLOC_STR'', Some [it]), (''bytes->str'', ''BYTES_TO_STR'', Some [an]), (''write'', ''WRITE'', Some [an, str]),
       (''eval'', ''EVAL'', Some [an]), (''read'', ''READ'', Some [str]), (''mount'', ''MOUNT'', Some [str, co]),
       (''open'', ''OPEN'', Some [str]), (''mmap'', ''MMAP'', Some [str]), (''recv'', ''RECV'', Some [sm]), (''send'', ''SEND'', Some [sm, an]),
       (''gc'', ''GC'', None), (''symbols'', ''SYMBOLS'', None), (''debug'', ''DEBUG'', None)])"

text \<open>\<open>init_compiler\<close>; the table has 1000 buckets.\<close>

definition init_compiler :: "mem \<Rightarrow> (prototypes \<times> val strmap \<times> mem) option" where
  "init_compiler m =
     do {
       env \<leftarrow> sm_new True True 1000;
       let m = init_allocator m;
       (p, m) \<leftarrow> make_prototypes m;
       (s1, m) \<leftarrow> alloc_sym (Some (bs ''nil'')) m;
       (_, env, m) \<leftarrow> insert_symbol s1 (prototype_nil p) env m;
       (s2, m) \<leftarrow> alloc_sym (Some (bs ''type_error'')) m;
       (_, env, m) \<leftarrow> insert_symbol s2 (consed_type_error p) env m;
       (env, m) \<leftarrow> insert_builtins (builtin_table p) (env, m);
       Some (p, env, m)
     }"

text \<open>The empty frame of \<open>compile_for_platform\<close>, where the code of one top-level expression begins.\<close>

definition initial_state :: "val \<Rightarrow> prototypes \<Rightarrow> val strmap \<Rightarrow> mem \<Rightarrow> comp" where
  "initial_state stack_end p env m =
     \<lparr>c_mem = m, c_env = env, c_code = [], c_labels = 0,
      c_frame = \<lparr>f_args = None, f_sp = 0, f_locals = 0, f_stack_end = stack_end\<rparr>, c_protos = p\<rparr>"


end
