(* ===== verification/Arith.thy ===== *)
theory Arith
  imports X64 Compiler
begin

text \<open>
  Correctness of \<open>compile_expr\<close> (\<^verbatim>\<open>src/sledge/compiler_new.c\<close>) together with the code
  generator of \<^verbatim>\<open>src/sledge/jit_x64.c\<close> for integer expressions: numbers, variables (in registers, on
  the stack, boxed or raw, or in the global environment) and nested applications of the integer operators.
  \<open>eval\<close> is the documented meaning of an expression, \<open>code_value\<close> what its code computes, which differs for the comparisons
  \<open>gt\<close> and \<open>lt\<close>; \<open>arith_yields\<close> says that the compiler succeeds and that the emitted instructions compute that value, keep the stack, the memory and the registers a caller relies on,
  and leave the value where the context wants it. \<open>%\<close> is left out: \<open>inline_mod\<close> returns an \<open>int32_t\<close> whose
  upper half in the register is unspecified.
\<close>

section \<open>Straight-line code\<close>

text \<open>Code without labels and jumps.\<close>

fun straight :: "host \<Rightarrow> insn \<Rightarrow> mach \<Rightarrow> mach option" where
  "straight h (Label l) st = None"
| "straight h i st = exec_insn h i st"

fun exec :: "host \<Rightarrow> insn list \<Rightarrow> mach \<Rightarrow> mach option" where
  "exec h [] st = Some st"
| "exec h (i # is) st = Option.bind (straight h i st) (exec h is)"

lemma straight_exec: "straight h i st = Some st' \<Longrightarrow> exec_insn h i st = Some st' \<and> (\<forall>l. i \<noteq> Label l)"
  by (cases i) simp_all

lemma exec_no_labels: "exec h is st = Some st' \<Longrightarrow> Label l \<notin> set is"
  by (induction "is" arbitrary: st) (auto split: bind_splits dest: straight_exec)

lemma exec_append [simp]: "exec h (xs @ ys) st = Option.bind (exec h xs st) (exec h ys)"
  by (induction xs arbitrary: st) (auto simp: Option.bind_assoc intro!: Option.bind_cong)

lemma insns_append [simp]: "insns (xs @ ys) = insns xs @ insns ys"
  by (simp add: insns_def)

lemma insns_Cons [simp]: "insns (j # js) = insns_x64 j @ insns js" "insns [] = []"
  by (simp_all add: insns_def)

text \<open>An instruction that \<open>exec_insn\<close> executes does not transfer control, so \<open>step\<close> goes on behind it.\<close>

lemma step_exec_insn:
  "pc < length code \<Longrightarrow> exec_insn h (code ! pc) st = Some st' \<Longrightarrow> step h code pc st = Some (Running (pc + 1) st')"
  by (cases "code ! pc") (auto simp: step_def)

lemma run_exec:
  "exec h is st = Some st' \<Longrightarrow> run (length is + n) h (pre @ is @ post) (length pre) st = run n h (pre @ is @ post) (length pre + length is) st'"
proof (induction "is" arbitrary: st pre)
  case (Cons i "is")
  then obtain st1 where 1: "exec_insn h i st = Some st1" "exec h is st1 = Some st'" by (auto split: bind_splits dest: straight_exec)
  have "step h (pre @ (i # is) @ post) (length pre) st = Some (Running (length pre + 1) st1)"
    by (rule step_exec_insn) (use 1 in \<open>auto simp: nth_append\<close>)
  moreover have "run (length is + n) h ((pre @ [i]) @ is @ post) (length (pre @ [i])) st1 = run n h ((pre @ [i]) @ is @ post) (length (pre @ [i]) + length is) st'"
    by (rule Cons.IH [OF 1(2)])
  ultimately show ?case by simp
qed simp

section \<open>What stays while an expression is evaluated\<close>

text \<open>\<open>pushes n st st'\<close>: \<open>n\<close> more words are on the stack, and what was there is unchanged, as are the registers a
  called function saves and the memory.\<close>

definition pushes :: "nat \<Rightarrow> mach \<Rightarrow> mach \<Rightarrow> bool" where
  "pushes n st st' \<longleftrightarrow> rsp st = rsp st' + n \<and> (\<forall>i \<ge> rsp st. stk st' i = stk st i)
     \<and> (\<forall>r. callee_saved r \<longrightarrow> regs st' r = regs st r) \<and> m_mem st' = m_mem st \<and> m_env st' = m_env st"

lemma pushes_trans: "pushes a st st1 \<Longrightarrow> pushes b st1 st2 \<Longrightarrow> pushes (a + b) st st2"
  by (auto simp: pushes_def)

text \<open>The integer an argument descriptor stands for at run time; \<open>m\<close> is the memory and \<open>sp\<close> the stack depth of the compiler.\<close>

definition int_at :: "mem \<Rightarrow> val \<Rightarrow> u64 \<Rightarrow> bool" where
  "int_at m p v \<longleftrightarrow> load8 m p = Some (W v)"

definition on_stack :: "mach \<Rightarrow> int \<Rightarrow> arg \<Rightarrow> val \<Rightarrow> bool" where
  "on_stack st sp d x \<longleftrightarrow> (\<exists>sl. a_slot d = Some sl \<and> sl \<le> sp \<and> stk st (rsp st + nat (sp - sl)) = x)"

definition in_reg :: "mach \<Rightarrow> arg \<Rightarrow> val \<Rightarrow> bool" where
  "in_reg st d x \<longleftrightarrow> (\<exists>k. a_slot d = Some (int k) \<and> callee_saved k \<and> regs st k = x)"

definition arg_val :: "mem \<Rightarrow> int \<Rightarrow> mach \<Rightarrow> arg \<Rightarrow> u64 \<Rightarrow> bool" where
  "arg_val m sp st d v \<longleftrightarrow>
     (case a_type d of
        None \<Rightarrow> False
      | Some ARGT_CONST \<Rightarrow> \<exists>c x. a_cell d = Some c \<and> get_cell m c = Some x \<and> c_ar x = W v
      | Some ARGT_ENV \<Rightarrow> \<exists>e p. a_env d = Some e \<and> load8 (m_mem st) e = Some p \<and> int_at (m_mem st) p v
      | Some ARGT_REG \<Rightarrow> \<exists>x. in_reg st d x \<and> int_at (m_mem st) x v
      | Some ARGT_REG_INT \<Rightarrow> in_reg st d (W v)
      | Some ARGT_STACK \<Rightarrow> \<exists>x. on_stack st sp d x \<and> int_at (m_mem st) x v
      | Some ARGT_STACK_INT \<Rightarrow> on_stack st sp d (W v)
      | Some ARGT_LAMBDA \<Rightarrow> False)"

lemma in_reg_keeps: "in_reg st d x \<Longrightarrow> \<forall>r. callee_saved r \<longrightarrow> regs st' r = regs st r \<Longrightarrow> in_reg st' d x"
  by (auto simp: in_reg_def)

lemma on_stack_moves:
  assumes "on_stack st sp d x" "sp' + int (rsp st') = sp + int (rsp st)" "sp \<le> sp'" "\<forall>i \<ge> rsp st. stk st' i = stk st i"
  shows "on_stack st' sp' d x"
proof -
  obtain sl where sl: "a_slot d = Some sl" "sl \<le> sp" "stk st (rsp st + nat (sp - sl)) = x" using assms(1) by (auto simp: on_stack_def)
  have "rsp st' + nat (sp' - sl) = rsp st + nat (sp - sl)" using assms(2,3) sl(2) by linarith
  then show ?thesis using sl assms(3,4) by (auto simp: on_stack_def)
qed

text \<open>Pushing moves the stack pointer and the depth the compiler assumes together.\<close>

lemma arg_val_moves:
  assumes "arg_val m sp st d v" "sp' + int (rsp st') = sp + int (rsp st)" "sp \<le> sp'" "\<forall>i \<ge> rsp st. stk st' i = stk st i"
    "\<forall>r. callee_saved r \<longrightarrow> regs st' r = regs st r" "m_mem st' = m_mem st"
  shows "arg_val m sp' st' d v"
  using assms(1,6) on_stack_moves [OF _ assms(2-4)] in_reg_keeps [OF _ assms(5)]
  by (fastforce simp: arg_val_def split: option.splits argt.splits)

section \<open>Loading an argument\<close>

lemma reg_facts [simp]: "R0 = 0" "R1 = 1" "R2 = 2" "R3 = 3" "ARGR0 = 1" "ARGR1 = 2" "ARGR2 = 3" "RSP = 12" "RCX = 13"
  by (simp_all add: reg_defs RCX_def)

lemma set_reg_simp [simp]: "r \<noteq> 12 \<Longrightarrow> set_reg r v st = Some (st\<lparr>regs := (regs st)(r := v)\<rparr>)"
  by (simp add: set_reg_def)

lemma get_reg_simp [simp]: "r \<noteq> 12 \<Longrightarrow> get_reg st r = regs st r"
  by (simp add: get_reg_def)

lemma stack_slot_mult [simp]: "0 \<le> k \<Longrightarrow> stack_slot st (8 * k) = Some (rsp st + nat k)"
  by (auto simp: stack_slot_def nat_add_distrib)

lemma stack_slot_diff [simp]:
  "sl \<le> sp \<Longrightarrow> stack_slot st (8 * sp - 8 * sl) = Some (rsp st + nat (sp - sl))"
  using stack_slot_mult [of "sp - sl" st] by (simp only: diff_ge_0_iff_ge right_diff_distrib)

lemma emit_code_eq: "s\<lparr>c_code := c_code s @ js\<rparr> = s\<lparr>c_code := c_code s @ is\<rparr> \<longleftrightarrow> js = is"
  by (cases s) simp

lemma load_int_ok:
  assumes "arg_val (c_mem s) (f_sp (c_frame s)) st d v" "r < 4"
  shows "\<exists>is. load_int r d s = Some (emit is s) \<and> exec h (insns is) st = Some (st\<lparr>regs := (regs st)(r := W v)\<rparr>)"
proof -
  obtain t where t: "a_type d = Some t" using assms(1) by (cases "a_type d") (auto simp: arg_val_def)
  show ?thesis
    using assms t
    by (cases t)
      (auto simp: arg_val_def load_int_def on_stack_def in_reg_def int_at_def PTRSZ_def movr_def callee_saved_def emit_def
        emit_code_eq)
qed

section \<open>Arithmetic expressions\<close>

datatype aop = OAdd | OSub | OMul | ODiv | OAnd | OOr | OXor | OShl | OShr | OGt | OLt | OEq

datatype aexp = ANum u64 | AVar cstr | ABin aop aexp aexp | ANot aexp

fun op_name :: "aop \<Rightarrow> string" where
  "op_name OAdd = ''+''"
| "op_name OSub = ''-''"
| "op_name OMul = ''*''"
| "op_name ODiv = ''/''"
| "op_name OAnd = ''bitand''"
| "op_name OOr = ''bitor''"
| "op_name OXor = ''bitxor''"
| "op_name OShl = ''shl''"
| "op_name OShr = ''shr''"
| "op_name OGt = ''gt''"
| "op_name OLt = ''lt''"
| "op_name OEq = ''eq''"

fun op_builtin :: "aop \<Rightarrow> string" where
  "op_builtin OAdd = ''ADD''"
| "op_builtin OSub = ''SUB''"
| "op_builtin OMul = ''MUL''"
| "op_builtin ODiv = ''DIV''"
| "op_builtin OAnd = ''BITAND''"
| "op_builtin OOr = ''BITOR''"
| "op_builtin OXor = ''BITXOR''"
| "op_builtin OShl = ''SHL''"
| "op_builtin OShr = ''SHR''"
| "op_builtin OGt = ''GT''"
| "op_builtin OLt = ''LT''"
| "op_builtin OEq = ''EQ''"

text \<open>The meaning of the operators: wrap-around arithmetic on 64-bit words, signed division that rounds towards zero (undefined for the
  divisor 0 and for an overflow), shifts by the low six bits of the count, and comparisons of signed numbers, which are 1 or 0 as the
  documentation of the language says.\<close>

fun eval_op :: "aop \<Rightarrow> u64 \<Rightarrow> u64 \<Rightarrow> u64 option" where
  "eval_op OAdd a b = Some (a + b)"
| "eval_op OSub a b = Some (a - b)"
| "eval_op OMul a b = Some (a * b)"
| "eval_op ODiv a b = div_word a b"
| "eval_op OAnd a b = Some (a AND b)"
| "eval_op OOr a b = Some (a OR b)"
| "eval_op OXor a b = Some (a XOR b)"
| "eval_op OShl a b = Some (push_bit (unat b mod 64) a)"
| "eval_op OShr a b = Some (drop_bit (unat b mod 64) a)"
| "eval_op OGt a b = Some (if sint b < sint a then 1 else 0)"
| "eval_op OLt a b = Some (if sint a < sint b then 1 else 0)"
| "eval_op OEq a b = Some (if a = b then 1 else 0)"

fun eval :: "(cstr \<Rightarrow> u64) \<Rightarrow> aexp \<Rightarrow> u64 option" where
  "eval \<rho> (ANum n) = Some n"
| "eval \<rho> (AVar x) = Some (\<rho> x)"
| "eval \<rho> (ABin op a b) = do { x \<leftarrow> eval \<rho> a; y \<leftarrow> eval \<rho> b; eval_op op x y }"
| "eval \<rho> (ANot a) = map_option (\<lambda>x. NOT x) (eval \<rho> a)"

text \<open>What the emitted code computes. \<open>gt\<close> and \<open>lt\<close> differ from their meaning: the code subtracts and keeps the difference unless its
  sign bit is set. On an expression without them the two agree.\<close>

definition gt_word :: "u64 \<Rightarrow> u64 \<Rightarrow> u64" where
  "gt_word a b = (if negative (a - b) then 0 else a - b)"

fun code_op :: "aop \<Rightarrow> u64 \<Rightarrow> u64 \<Rightarrow> u64 option" where
  "code_op OGt a b = Some (gt_word a b)"
| "code_op OLt a b = Some (gt_word b a)"
| "code_op op a b = eval_op op a b"

fun code_value :: "(cstr \<Rightarrow> u64) \<Rightarrow> aexp \<Rightarrow> u64 option" where
  "code_value \<rho> (ANum n) = Some n"
| "code_value \<rho> (AVar x) = Some (\<rho> x)"
| "code_value \<rho> (ABin op a b) = do { x \<leftarrow> code_value \<rho> a; y \<leftarrow> code_value \<rho> b; code_op op x y }"
| "code_value \<rho> (ANot a) = map_option (\<lambda>x. NOT x) (code_value \<rho> a)"

fun no_cmp :: "aexp \<Rightarrow> bool" where
  "no_cmp (ABin op a b) \<longleftrightarrow> op \<noteq> OGt \<and> op \<noteq> OLt \<and> no_cmp a \<and> no_cmp b"
| "no_cmp (ANot a) \<longleftrightarrow> no_cmp a"
| "no_cmp _ \<longleftrightarrow> True"

lemma code_value_eval: "no_cmp e \<Longrightarrow> code_value \<rho> e = eval \<rho> e"
proof (induction e)
  case (ABin op a b)
  then have "code_op op = eval_op op" by (cases op) (simp_all add: fun_eq_iff)
  then show ?case using ABin by simp
qed simp_all

text \<open>Signed subtraction on 64 bits: exact while the difference is in range, else it is off by \<open>2 ^ 64\<close> and has the other sign.\<close>

definition in_range :: "u64 \<Rightarrow> u64 \<Rightarrow> bool" where
  "in_range x y \<longleftrightarrow> - (2 ^ 63) \<le> sint x - sint y \<and> sint x - sint y < 2 ^ 63"

lemma sint_diff: "in_range x y \<Longrightarrow> sint (x - y) = sint x - sint y"
  using signed_take_bit_int_eq_self [of 63 "sint x - sint y"] sint_word_ariths(2) [of x y] by (simp add: in_range_def)

lemma sint_diff_over:
  assumes "\<not> in_range x y"
  shows "sint (x - y) = sint x - sint y + (if sint x < sint y then 2 ^ 64 else - (2 ^ 64))"
proof -
  let ?d = "sint x - sint y" and ?k = "if sint x < sint y then 2 ^ 64 else - (2 ^ 64) :: int"
  have b: "- (2 ^ 63) \<le> sint x" "sint x < 2 ^ 63" "- (2 ^ 63) \<le> sint y" "sint y < 2 ^ 63"
    using sint_ge [of x] sint_lt [of x] sint_ge [of y] sint_lt [of y] by simp_all
  have "signed_take_bit 63 ?d = signed_take_bit 63 (?d + ?k)"
    by (rule signed_take_bit_eq_iff_take_bit_eq [THEN iffD2]) (simp add: take_bit_eq_mod)
  also have "\<dots> = ?d + ?k"
    by (rule signed_take_bit_int_eq_self) (use b assms in \<open>auto simp: in_range_def split: if_splits\<close>)
  finally show ?thesis using sint_word_ariths(2) [of x y] by simp
qed

lemma gt_word_in_range: "in_range x y \<Longrightarrow> sint (gt_word x y) = max 0 (sint x - sint y)"
  using sint_diff [of x y] by (simp add: gt_word_def negative_def)

lemma gt_word_over: "\<not> in_range x y \<Longrightarrow> gt_word x y \<noteq> 0 \<longleftrightarrow> sint x < sint y"
  using sint_diff_over [of x y] sint_ge [of x] sint_lt [of x] sint_ge [of y] sint_lt [of y]
  by (auto simp: gt_word_def negative_def)

text \<open>So the difference is a truth value for the comparison, and it is the documented 1 or 0 only when the operands are close.\<close>

lemma gt_word_truth: "in_range x y \<Longrightarrow> gt_word x y \<noteq> 0 \<longleftrightarrow> sint y < sint x"
proof -
  assume "in_range x y"
  moreover have "sint (gt_word x y) = 0 \<longleftrightarrow> gt_word x y = 0" by (rule signed_eq_0_iff)
  ultimately show ?thesis using gt_word_in_range [of x y] by auto
qed

lemma gt_word_documented: "in_range x y \<Longrightarrow> gt_word x y = (if sint y < sint x then 1 else 0) \<longleftrightarrow> sint x \<le> sint y + 1"
proof -
  assume r: "in_range x y"
  have "gt_word x y = w \<longleftrightarrow> sint (gt_word x y) = sint w" for w by (auto simp: signed_word_eqI)
  then show ?thesis unfolding gt_word_in_range [OF r] by (auto simp: max_def)
qed

fun sexp_of :: "aexp \<Rightarrow> sexp" where
  "sexp_of (ANum n) = SInt n"
| "sexp_of (AVar x) = SSym x"
| "sexp_of (ABin op a b) = SCons (SSym (bs (op_name op))) (SCons (sexp_of a) (SCons (sexp_of b) SNil))"
| "sexp_of (ANot a) = SCons (SSym (bs ''bitnot'')) (SCons (sexp_of a) SNil)"

fun avars :: "aexp \<Rightarrow> cstr set" where
  "avars (ANum n) = {}"
| "avars (AVar x) = {x}"
| "avars (ABin op a b) = avars a \<union> avars b"
| "avars (ANot a) = avars a"

text \<open>How many words an expression pushes at most.\<close>

fun adepth :: "aexp \<Rightarrow> nat" where
  "adepth (ABin op a b) = Suc (max (adepth a) (Suc (adepth b)))"
| "adepth (ANot a) = Suc (adepth a)"
| "adepth _ = 0"

section \<open>The switch over the builtins\<close>

lemma builtin_numbers:
  "BUILTIN ''ADD'' = 1" "BUILTIN ''SUB'' = 2" "BUILTIN ''MUL'' = 3" "BUILTIN ''DIV'' = 4" "BUILTIN ''MOD'' = 5" "BUILTIN ''BITAND'' = 6"
  "BUILTIN ''BITNOT'' = 7" "BUILTIN ''BITOR'' = 8" "BUILTIN ''BITXOR'' = 9" "BUILTIN ''SHL'' = 10" "BUILTIN ''SHR'' = 11"
  "BUILTIN ''LT'' = 12" "BUILTIN ''GT'' = 13" "BUILTIN ''EQ'' = 14"
  "BUILTIN ''LET'' = 43"
  by (simp_all add: BUILTIN_def builtin_names_def)

text \<open>Emission accumulates, and the depth of the stack is a separate field.\<close>

lemma emit_simps [simp]:
  "emit ys (emit xs s) = emit (xs @ ys) s" "emit [] s = s" "add_sp i (emit xs s) = emit xs (add_sp i s)"
  "add_sp i (add_sp j s) = add_sp (j + i) s" "add_sp 0 s = s"
  by (simp_all add: emit_def add_sp_def)

lemma emit_fields [simp]:
  "c_mem (emit xs s) = c_mem s" "c_env (emit xs s) = c_env s" "c_frame (emit xs s) = c_frame s"
  "c_protos (emit xs s) = c_protos s" "tag_of (emit xs s) p = tag_of s p"
  "c_mem (add_sp i s) = c_mem s" "c_env (add_sp i s) = c_env s" "c_protos (add_sp i s) = c_protos s" "tag_of (add_sp i s) p = tag_of s p"
  "f_sp (c_frame (add_sp i s)) = f_sp (c_frame s) + i" "f_args (c_frame (add_sp i s)) = f_args (c_frame s)"
  by (simp_all add: emit_def add_sp_def tag_of_def)

definition same :: "mach \<Rightarrow> mach \<Rightarrow> bool" where
  "same st st' \<longleftrightarrow> rsp st' = rsp st \<and> stk st' = stk st \<and> (\<forall>r. callee_saved r \<longrightarrow> regs st' r = regs st r)
     \<and> m_mem st' = m_mem st \<and> m_env st' = m_env st"

lemma loads_ok:
  assumes "arg_val (c_mem s) (f_sp (c_frame s)) st d1 a" "arg_val (c_mem s) (f_sp (c_frame s)) st d2 b" "r1 < 4" "r2 < 4"
  shows "\<exists>is. Option.bind (load_int r1 d1 s) (load_int r2 d2) = Some (emit is s)
    \<and> exec h (insns is) st = Some (st\<lparr>regs := (regs st)(r1 := W a, r2 := W b)\<rparr>)"
proof -
  let ?st = "st\<lparr>regs := (regs st)(r1 := W a)\<rparr>"
  obtain i1 where 1: "load_int r1 d1 s = Some (emit i1 s)" "exec h (insns i1) st = Some ?st"
    using load_int_ok [OF assms(1,3)] by blast
  have "arg_val (c_mem (emit i1 s)) (f_sp (c_frame (emit i1 s))) ?st d2 b"
    using arg_val_moves [OF assms(2), of "f_sp (c_frame s)" ?st] assms(3) by (simp add: callee_saved_def)
  then obtain i2 where "load_int r2 d2 (emit i1 s) = Some (emit (i1 @ i2) s)"
    "exec h (insns i2) ?st = Some (st\<lparr>regs := (regs st)(r1 := W a, r2 := W b)\<rparr>)"
    using load_int_ok [OF _ assms(4), of "emit i1 s" ?st d2 b h] by auto
  then show ?thesis using 1 by (intro exI [of _ "i1 @ i2"]) simp
qed

text \<open>What a case of the switch emits in an integer context and in a context that wants a cell.\<close>

definition computes :: "host \<Rightarrow> comp \<Rightarrow> mach \<Rightarrow> val \<Rightarrow> u64 \<Rightarrow> (val \<times> comp) option \<Rightarrow> bool" where
  "computes h s st rt v r \<longleftrightarrow>
     (tag_of s rt = Some TAG_INT \<longrightarrow>
       (\<exists>cd st'. r = Some (prototype_int (c_protos s), emit cd s) \<and> exec h (insns cd) st = Some st' \<and> regs st' 0 = W v \<and> same st st'))
     \<and> (tag_of s rt = Some TAG_ANY \<longrightarrow>
       (\<exists>cd st'. r = Some (prototype_any (c_protos s), emit (cd @ [JCall Host_alloc_int ''alloc_int'']) s)
          \<and> exec h (insns cd) st = Some st' \<and> regs st' 1 = W v \<and> same st st'))"

lemma computesI:
  assumes "tag_of s rt = Some TAG_INT \<Longrightarrow> r = Some (prototype_int (c_protos s), emit cd s)"
    "exec h (insns cd) st = Some st1" "regs st1 0 = W v" "same st st1"
    and "tag_of s rt = Some TAG_ANY \<Longrightarrow> r = Some (prototype_any (c_protos s), emit (cd' @ [JCall Host_alloc_int ''alloc_int'']) s)"
    "exec h (insns cd') st = Some st2" "regs st2 1 = W v" "same st st2"
  shows "computes h s st rt v r"
  unfolding computes_def using assms by blast

lemma return_int_computes:
  assumes "exec h (insns cd) st = Some st'" "regs st' 1 = W v" "same st st'"
  shows "computes h s st rt v (return_int rt (emit cd s))"
proof -
  have "exec h (insns (cd @ [JMovr 0 1])) st = Some (st'\<lparr>regs := (regs st')(0 := W v)\<rparr>)"
    using assms(1,2) by (simp add: movr_def)
  moreover have "same st (st'\<lparr>regs := (regs st')(0 := W v)\<rparr>)" using assms(3) by (simp add: same_def callee_saved_def)
  ultimately show ?thesis
    using assms by (fastforce simp: computes_def return_int_def TAG_INT_def TAG_ANY_def)
qed


lemma compile_int_op_ok:
  assumes "arg_val (c_mem s) (f_sp (c_frame s)) st (ds ! 0) a" "arg_val (c_mem s) (f_sp (c_frame s)) st (ds ! 1) b"
    and "\<exists>st'. exec h (insns [i]) (st\<lparr>regs := (regs st)(1 := W a, 2 := W b)\<rparr>) = Some st' \<and> regs st' 1 = W v
      \<and> same (st\<lparr>regs := (regs st)(1 := W a, 2 := W b)\<rparr>) st'"
  shows "computes h s st rt v (compile_int_op i ds rt s)"
proof -
  obtain cd where cd: "Option.bind (load_int 1 (ds ! 0) s) (load_int 2 (ds ! 1)) = Some (emit cd s)"
    "exec h (insns cd) st = Some (st\<lparr>regs := (regs st)(1 := W a, 2 := W b)\<rparr>)"
    using loads_ok [OF assms(1,2), of 1 2] by auto
  obtain st' where st': "exec h (insns (cd @ [i])) st = Some st'" "regs st' 1 = W v" "same st st'"
    using assms(3) cd(2) by (auto simp: same_def callee_saved_def)
  show ?thesis
    using return_int_computes [OF st'] cd(1) by (auto simp: compile_int_op_def bind_eq_Some_conv)
qed

lemma compile_gt_ok:
  assumes "arg_val (c_mem s) (f_sp (c_frame s)) st (ds ! 0) a" "arg_val (c_mem s) (f_sp (c_frame s)) st (ds ! 1) b"
  shows "computes h s st rt (gt_word a b) (compile_gt ds rt s)"
proof -
  let ?c = "[JMovi 3 (W 0), JSubr 1 2, JMovneg 1 3]"
  obtain cd where cd: "Option.bind (load_int 1 (ds ! 0) s) (load_int 2 (ds ! 1)) = Some (emit cd s)"
    "exec h (insns cd) st = Some (st\<lparr>regs := (regs st)(1 := W a, 2 := W b)\<rparr>)"
    using loads_ok [OF assms, of 1 2] by auto
  have "\<exists>st'. exec h (insns (cd @ ?c)) st = Some st' \<and> regs st' 1 = W (gt_word a b) \<and> same st st'"
    using cd(2) by (auto simp: cmovr_def set_flags_def sign_of_def gt_word_def same_def callee_saved_def)
  then show ?thesis
    using return_int_computes [of h "cd @ ?c"] cd(1) by (auto simp: compile_gt_def bind_eq_Some_conv)
qed

lemma compile_lt_ok:
  assumes "arg_val (c_mem s) (f_sp (c_frame s)) st (ds ! 0) a" "arg_val (c_mem s) (f_sp (c_frame s)) st (ds ! 1) b"
  shows "computes h s st rt (gt_word b a) (compile_lt ds rt s)"
proof -
  let ?c = "[JMovi 3 (W 0), JSubr 1 2, JMovneg 1 3]"
  obtain cd where cd: "Option.bind (load_int 2 (ds ! 0) s) (load_int 1 (ds ! 1)) = Some (emit cd s)"
    "exec h (insns cd) st = Some (st\<lparr>regs := (regs st)(2 := W a, 1 := W b)\<rparr>)"
    using loads_ok [OF assms, of 2 1] by auto
  have "\<exists>st'. exec h (insns (cd @ ?c)) st = Some st' \<and> regs st' 1 = W (gt_word b a) \<and> same st st'"
    using cd(2) by (auto simp: cmovr_def set_flags_def sign_of_def gt_word_def same_def callee_saved_def)
  then show ?thesis
    using return_int_computes [of h "cd @ ?c"] cd(1) by (auto simp: compile_lt_def bind_eq_Some_conv)
qed

lemma compile_eq_ok:
  assumes "arg_val (c_mem s) (f_sp (c_frame s)) st (ds ! 0) a" "arg_val (c_mem s) (f_sp (c_frame s)) st (ds ! 1) b"
  shows "computes h s st rt (if a = b then 1 else 0) (compile_eq ds rt s)"
proof -
  let ?v = "if a = b then 1 else 0 :: u64"
  let ?c = "[JMovi 0 (W 0), JMovi 3 (W 1), JCmpr 1 2, JMoveq 0 3]"
  obtain cd where cd: "Option.bind (load_int 1 (ds ! 0) s) (load_int 2 (ds ! 1)) = Some (emit cd s)"
    "exec h (insns cd) st = Some (st\<lparr>regs := (regs st)(1 := W a, 2 := W b)\<rparr>)"
    using loads_ok [OF assms, of 1 2] by auto
  have "\<exists>st'. exec h (insns (cd @ ?c)) st = Some st' \<and> regs st' 0 = W ?v \<and> same st st'"
    using cd(2) by (cases "a = b") (auto simp: cmovr_def compare_def same_def callee_saved_def)
  then obtain st' where st': "exec h (insns (cd @ ?c)) st = Some st'" "regs st' 0 = W ?v" "same st st'" by blast
  let ?st = "st'\<lparr>regs := (regs st')(1 := W ?v)\<rparr>"
  have "exec h (insns ((cd @ ?c) @ [JMovr 1 0])) st = Some ?st"
    unfolding insns_append [of "cd @ ?c"] exec_append [of h "insns (cd @ ?c)"] st'(1) using st'(2) by (simp add: movr_def)
  moreover have "same st ?st" using st'(3) by (simp add: same_def callee_saved_def)
  moreover obtain s1 where "load_int 1 (ds ! 0) s = Some s1" "load_int 2 (ds ! 1) s1 = Some (emit cd s)"
    using cd(1) by (auto simp: bind_eq_Some_conv)
  ultimately show ?thesis
    using st'
    by (intro computesI [of s rt _ "cd @ ?c" h st st' _ "(cd @ ?c) @ [JMovr 1 0]" ?st])
      (auto simp: compile_eq_def Let_def TAG_INT_def TAG_ANY_def simp del: exec_append insns_append)
qed

fun arith_case :: "aop \<Rightarrow> arg list \<Rightarrow> val \<Rightarrow> comp \<Rightarrow> (val \<times> comp) option" where
  "arith_case OAdd = compile_add"
| "arith_case OSub = compile_sub"
| "arith_case OMul = compile_mul"
| "arith_case ODiv = compile_div"
| "arith_case OAnd = compile_bitand"
| "arith_case OOr = compile_bitor"
| "arith_case OXor = compile_bitxor"
| "arith_case OShl = compile_shl"
| "arith_case OShr = compile_shr"
| "arith_case OGt = compile_gt"
| "arith_case OLt = compile_lt"
| "arith_case OEq = compile_eq"

lemma compile_builtin_case:
  "compile_builtin fuel pfmt genv rec (W (ucast (BUILTIN (op_builtin op)))) ds argi args oo rt s = arith_case op ds rt s"
  "compile_builtin fuel pfmt genv rec (W (ucast (BUILTIN ''BITNOT''))) ds argi args oo rt s = compile_bitnot ds rt s"
  by (cases op) (simp_all add: compile_builtin_def builtin_numbers)

lemmas compile_int_defs = compile_add_def compile_sub_def compile_mul_def compile_div_def compile_bitand_def compile_bitor_def
  compile_bitxor_def compile_shl_def compile_shr_def

lemma arith_case_ok:
  assumes "arg_val (c_mem s) (f_sp (c_frame s)) st (ds ! 0) a" "arg_val (c_mem s) (f_sp (c_frame s)) st (ds ! 1) b" "code_op op a b = Some v"
  shows "computes h s st rt v (arith_case op ds rt s)"
proof (cases "op \<in> {OGt, OLt, OEq}")
  case True
  then show ?thesis
    using assms(3) compile_gt_ok [OF assms(1,2)] compile_lt_ok [OF assms(1,2)] compile_eq_ok [OF assms(1,2)] by auto
next
  case False
  then show ?thesis
    using assms(3)
    by (cases op)
      (auto simp: compile_int_defs set_flags_def same_def callee_saved_def intro!: compile_int_op_ok [OF assms(1,2)])
qed

lemma compile_bitnot_ok:
  assumes "arg_val (c_mem s) (f_sp (c_frame s)) st (ds ! 0) a"
  shows "computes h s st rt (NOT a) (compile_bitnot ds rt s)"
proof -
  obtain cd where cd: "load_int 1 (ds ! 0) s = Some (emit cd s)" "exec h (insns cd) st = Some (st\<lparr>regs := (regs st)(1 := W a)\<rparr>)"
    using load_int_ok [OF assms, of 1] by auto
  have "\<exists>st'. exec h (insns (cd @ [JNotr 1])) st = Some st' \<and> regs st' 1 = W (NOT a) \<and> same st st'"
    using cd(2) by (auto simp: same_def callee_saved_def)
  then show ?thesis
    using return_int_computes [of h "cd @ [JNotr 1]"] cd(1) by (auto simp: compile_bitnot_def)
qed

section \<open>Variables\<close>

text \<open>The entry of a frame a name refers to is the first one with that name; entries without a name are skipped.\<close>

definition entry_named :: "mem \<Rightarrow> cstr \<Rightarrow> arg \<Rightarrow> bool" where
  "entry_named m x a \<longleftrightarrow> (\<exists>q. a_name a = Some q \<and> q \<noteq> NULL \<and> read_cstr m q = Some x)"

definition entry_ok :: "mem \<Rightarrow> arg \<Rightarrow> bool" where
  "entry_ok m a \<longleftrightarrow> (\<exists>q. a_name a = Some q \<and> (q = NULL \<or> a_type a \<noteq> None \<and> read_cstr m q \<noteq> None))"

lemma frame_idx_from_first:
  assumes "\<forall>a \<in> set as. entry_ok m a" "read_cstr m argname = Some x"
  shows "frame_idx_from m argname False as i =
    Some (case find (entry_named m x) as of None \<Rightarrow> - 1 | Some a \<Rightarrow> int (i + length (takeWhile (\<lambda>a. \<not> entry_named m x a) as)))"
  using assms(1)
proof (induction as arbitrary: i)
  case (Cons a as)
  then show ?case using assms(2) by (auto simp: entry_ok_def entry_named_def split: option.splits)
qed simp

lemma find_nth_takeWhile: "find Q xs = Some x \<Longrightarrow> xs ! length (takeWhile (\<lambda>x. \<not> Q x) xs) = x"
  by (induction xs) (auto split: if_splits)

lemma get_sym_frame_idx_ok:
  assumes "\<And>as. f = Some as \<Longrightarrow> \<forall>a \<in> set as. entry_ok m a" "read_cstr m argname = Some x"
  shows "case Option.bind f (find (entry_named m x)) of
    None \<Rightarrow> get_sym_frame_idx m argname f False = Some (- 1)
  | Some a \<Rightarrow> \<exists>i as. get_sym_frame_idx m argname f False = Some (int i) \<and> f = Some as \<and> as ! i = a"
  using assms frame_idx_from_first [of _ m argname x 0] find_nth_takeWhile
  by (cases f) (auto simp: get_sym_frame_idx_def split: option.splits)

definition frame_ok :: "comp \<Rightarrow> bool" where
  "frame_ok s \<longleftrightarrow> (\<forall>as. f_args (c_frame s) = Some as \<longrightarrow> (\<forall>a \<in> set as. entry_ok (c_mem s) a))"

text \<open>The descriptor a variable compiles to: its entry in the frame, else its entry in the environment.\<close>

definition var_desc :: "comp \<Rightarrow> cstr \<Rightarrow> arg \<Rightarrow> bool" where
  "var_desc s x d \<longleftrightarrow>
     (case Option.bind (f_args (c_frame s)) (find (entry_named (c_mem s) x)) of
        Some a \<Rightarrow> d = a
      | None \<Rightarrow> \<exists>e. lookup_global_symbol (c_env s) x = Some e \<and> e \<noteq> NULL \<and> a_type d = Some ARGT_ENV \<and> a_env d = Some e)"

definition var_is :: "comp \<Rightarrow> mach \<Rightarrow> cstr \<Rightarrow> u64 \<Rightarrow> bool" where
  "var_is s st x v \<longleftrightarrow> (\<exists>d. var_desc s x d \<and> arg_val (c_mem s) (f_sp (c_frame s)) st d v)"

section \<open>Preparing integer arguments\<close>

definition int_builtin :: "comp \<Rightarrow> string \<Rightarrow> string \<Rightarrow> nat \<Rightarrow> bool" where
  "int_builtin s name b n \<longleftrightarrow>
     (\<exists>e ent sig. lookup_global_symbol (c_env s) (bs name) = Some e \<and> e \<noteq> NULL \<and> as_env (c_mem s) e = Some ent
        \<and> get_cell (c_mem s) (e_cell ent) = Some \<lparr>c_ar = W (ucast (BUILTIN b)), c_dr = sig, c_tag = TAG_BUILTIN\<rparr>
        \<and> list_at (c_mem s) sig (replicate n (prototype_int (c_protos s))))"

text \<open>The environment still has the operators \<open>init_compiler\<close> put there.\<close>

definition arith_ready :: "comp \<Rightarrow> bool" where
  "arith_ready s \<longleftrightarrow> (\<forall>op. int_builtin s (op_name op) (op_builtin op) 2) \<and> int_builtin s ''bitnot'' ''BITNOT'' 1
     \<and> tag_of s (prototype_int (c_protos s)) = Some TAG_INT \<and> tag_of s (prototype_any (c_protos s)) = Some TAG_ANY"

definition ready :: "(cstr \<Rightarrow> u64) \<Rightarrow> cstr set \<Rightarrow> comp \<Rightarrow> mach \<Rightarrow> bool" where
  "ready \<rho> xs s st \<longleftrightarrow> arith_ready s \<and> frame_ok s \<and> (\<forall>x \<in> xs. var_is s st x (\<rho> x))"

lemma var_desc_moves [simp]: "var_desc (emit cd s) x d = var_desc s x d" "var_desc (add_sp i s) x d = var_desc s x d"
  by (auto simp: var_desc_def split: option.splits)

lemma ready_moves:
  assumes "ready \<rho> xs s st" "pushes n st st'"
  shows "ready \<rho> xs (emit cd (add_sp (int n) s)) st'"
proof -
  have "arg_val (c_mem s) (f_sp (c_frame s) + int n) st' d v" if "arg_val (c_mem s) (f_sp (c_frame s)) st d v" for d v
    using arg_val_moves [OF that, of "f_sp (c_frame s) + int n" st'] assms(2) by (simp add: pushes_def)
  then have "var_is (emit cd (add_sp (int n) s)) st' x v" if "var_is s st x v" for x v
    using that by (auto simp: var_is_def)
  then show ?thesis
    using assms(1) by (simp add: ready_def arith_ready_def int_builtin_def frame_ok_def)
qed

lemma ready_mono: "ready \<rho> xs s st \<Longrightarrow> ys \<subseteq> xs \<Longrightarrow> ready \<rho> ys s st"
  by (auto simp: ready_def)

definition prepares :: "host \<Rightarrow> compiler \<Rightarrow> comp \<Rightarrow> mach \<Rightarrow> val \<Rightarrow> u64 \<Rightarrow> bool" where
  "prepares h rec s st p v \<longleftrightarrow>
     (\<forall>argi sigs ds k. argi < length ds \<longrightarrow> sigs \<noteq> NULL \<longrightarrow>
       (\<exists>cd n d st'. prepare_arg rec False argi p sigs (prototype_int (c_protos s)) ds k s
            = Some (Some (ds[argi := d], k + n), emit cd (add_sp (int n) s))
          \<and> exec h (insns cd) st = Some st' \<and> pushes n st st' \<and> n \<le> 1 \<and> arg_val (c_mem s) (f_sp (c_frame s) + int n) st' d v))"

lemma pushes_0 [simp]: "pushes 0 st st"
  by (simp add: pushes_def)

lemma tag_of_not_NULL: "tag_of s p = Some t \<Longrightarrow> p \<noteq> NULL"
  by (auto simp: tag_of_def)

lemma text_on_read: "text_on D nb m p tg s \<Longrightarrow> \<exists>c. get_cell m p = Some c \<and> c_tag c = tg \<and> read_cstr m (c_ar c) = Some s"
  by (auto simp: text_on_def text_at_def read_cstr_def)


text \<open>An argument that needs no code.\<close>

lemma prepares_plain:
  assumes "\<And>argi sigs ds k. argi < length ds \<Longrightarrow> sigs \<noteq> NULL \<Longrightarrow>
    \<exists>d. prepare_arg rec False argi p sigs (prototype_int (c_protos s)) ds k s = Some (Some (ds[argi := d], k), s)
      \<and> arg_val (c_mem s) (f_sp (c_frame s)) st d v"
  shows "prepares h rec s st p v"
  unfolding prepares_def
proof (intro allI impI)
  fix argi k and ds :: "arg list"
  fix sigs :: val
  assume "argi < length ds" "sigs \<noteq> NULL"
  then obtain d where "prepare_arg rec False argi p sigs (prototype_int (c_protos s)) ds k s = Some (Some (ds[argi := d], k), s)"
    "arg_val (c_mem s) (f_sp (c_frame s)) st d v" using assms by blast
  then show "\<exists>cd n d st'. prepare_arg rec False argi p sigs (prototype_int (c_protos s)) ds k s
            = Some (Some (ds[argi := d], k + n), emit cd (add_sp (int n) s))
          \<and> exec h (insns cd) st = Some st' \<and> pushes n st st' \<and> n \<le> 1 \<and> arg_val (c_mem s) (f_sp (c_frame s) + int n) st' d v"
    by (intro exI [of _ "[]"] exI [of _ 0] exI [of _ d] exI [of _ st]) simp
qed

lemma prepares_const:
  assumes "arith_ready s" "sexp_on D nb (c_mem s) p (SInt v)"
  shows "prepares h rec s st p v"
proof (rule prepares_plain)
  fix argi k and ds :: "arg list"
  fix sigs :: val
  assume "argi < length ds" "sigs \<noteq> NULL"
  moreover obtain dr where "get_cell (c_mem s) p = Some \<lparr>c_ar = W v, c_dr = dr, c_tag = TAG_INT\<rparr>" using assms(2) by auto
  moreover have it: "tag_of s (prototype_int (c_protos s)) = Some TAG_INT" using assms(1) by (simp add: arith_ready_def)
  ultimately show "\<exists>d. prepare_arg rec False argi p sigs (prototype_int (c_protos s)) ds k s = Some (Some (ds[argi := d], k), s)
      \<and> arg_val (c_mem s) (f_sp (c_frame s)) st d v"
    using tag_of_not_NULL [OF it]
    by (intro exI [of _ "(ds ! argi)\<lparr>a_cell := Some p, a_slot := Some (int argi - 1), a_type := Some ARGT_CONST\<rparr>"])
      (simp add: prepare_arg_def Let_def compatible_type_def tag_defs arg_val_def)
qed

lemma prepares_var:
  assumes "arith_ready s" "frame_ok s" "sexp_on D nb (c_mem s) p (SSym x)" "var_is s st x v"
  shows "prepares h rec s st p v"
proof (rule prepares_plain)
  fix argi k and ds :: "arg list"
  fix sigs :: val
  assume a: "argi < length ds" "sigs \<noteq> NULL"
  obtain c where c: "get_cell (c_mem s) p = Some c" "c_tag c = TAG_SYM" "read_cstr (c_mem s) (c_ar c) = Some x"
    using text_on_read assms(3) by fastforce
  have it: "tag_of s (prototype_int (c_protos s)) = Some TAG_INT" using assms(1) by (simp add: arith_ready_def)
  note simps = prepare_arg_def Let_def compatible_type_def tag_defs it tag_of_not_NULL [OF it] a c
  obtain d where d: "var_desc s x d" "arg_val (c_mem s) (f_sp (c_frame s)) st d v" using assms(4) by (auto simp: var_is_def)
  have idx: "case Option.bind (f_args (c_frame s)) (find (entry_named (c_mem s) x)) of
      None \<Rightarrow> get_sym_frame_idx (c_mem s) (c_ar c) (f_args (c_frame s)) False = Some (- 1)
    | Some a \<Rightarrow> \<exists>i as. get_sym_frame_idx (c_mem s) (c_ar c) (f_args (c_frame s)) False = Some (int i)
        \<and> f_args (c_frame s) = Some as \<and> as ! i = a"
    using get_sym_frame_idx_ok [OF _ c(3)] assms(2) by (simp add: frame_ok_def)
  show "\<exists>d. prepare_arg rec False argi p sigs (prototype_int (c_protos s)) ds k s = Some (Some (ds[argi := d], k), s)
      \<and> arg_val (c_mem s) (f_sp (c_frame s)) st d v"
  proof (cases "Option.bind (f_args (c_frame s)) (find (entry_named (c_mem s) x))")
    case None
    then obtain e where "lookup_global_symbol (c_env s) x = Some e" "e \<noteq> NULL" "a_type d = Some ARGT_ENV" "a_env d = Some e"
      using d(1) by (auto simp: var_desc_def)
    then show ?thesis using None idx d(2)
      by (intro exI [of _ "(ds ! argi)\<lparr>a_env := Some e, a_type := Some ARGT_ENV\<rparr>"]) (simp add: simps, simp add: arg_val_def)
  next
    case (Some a)
    then show ?thesis using idx d by (auto simp: simps var_desc_def)
  qed
qed

text \<open>A nested expression is evaluated and pushed.\<close>

lemma prepares_nested:
  assumes "arith_ready s" "get_cell (c_mem s) p = Some c" "c_tag c = TAG_CONS"
    and "rec p (prototype_int (c_protos s)) s = Some (prototype_int (c_protos s), emit cd s)"
    and "exec h (insns cd) st = Some st'" "regs st' 0 = W v" "pushes 0 st st'" "0 < rsp st"
  shows "prepares h rec s st p v"
  unfolding prepares_def
proof (intro allI impI)
  fix argi k and ds :: "arg list"
  fix sigs :: val
  assume a: "argi < length ds" "sigs \<noteq> NULL"
  let ?d = "(ds ! argi)\<lparr>a_cell := Some NULL, a_slot := Some (f_sp (c_frame s) + 1), a_type := Some ARGT_STACK_INT\<rparr>"
  let ?st = "st'\<lparr>rsp := rsp st' - 1, stk := (stk st')(rsp st' - 1 := W v)\<rparr>"
  have it: "tag_of s (prototype_int (c_protos s)) = Some TAG_INT" using assms(1) by (simp add: arith_ready_def)
  have "prepare_arg rec False argi p sigs (prototype_int (c_protos s)) ds k s
      = Some (Some (ds[argi := ?d], k + 1), emit (cd @ [JPush 0 0]) (add_sp (int 1) s))"
    using assms(2-4) a it tag_of_not_NULL [OF it] by (simp add: prepare_arg_def Let_def tag_defs)
  moreover have "exec h (insns (cd @ [JPush 0 0])) st = Some ?st"
    using assms(5-8) by (simp add: push_word_def pushes_def)
  moreover have "pushes 1 st ?st" using assms(7,8) by (auto simp: pushes_def)
  moreover have "arg_val (c_mem s) (f_sp (c_frame s) + int 1) ?st ?d v"
    by (simp add: arg_val_def on_stack_def)
  ultimately show "\<exists>cd n d st'. prepare_arg rec False argi p sigs (prototype_int (c_protos s)) ds k s
            = Some (Some (ds[argi := d], k + n), emit cd (add_sp (int n) s))
          \<and> exec h (insns cd) st = Some st' \<and> pushes n st st' \<and> n \<le> 1 \<and> arg_val (c_mem s) (f_sp (c_frame s) + int n) st' d v"
    by blast
qed

section \<open>Argument lists\<close>

text \<open>One round of the loop over an argument with an integer signature that is not the last one.\<close>

lemma prepare_args_step:
  assumes "prepares h rec s st x v" "tag_of s (prototype_int (c_protos s)) = Some TAG_INT" "x \<noteq> NULL" "argi + 1 < MAXARGS" "argi < length ds"
    and "get_cell (c_mem s) args = Some \<lparr>c_ar = x, c_dr = args', c_tag = TAG_CONS\<rparr>" "args \<noteq> NULL" "args' \<noteq> NULL"
    and "get_cell (c_mem s) sigs = Some \<lparr>c_ar = prototype_int (c_protos s), c_dr = sigs', c_tag = TAG_CONS\<rparr>" "sigs \<noteq> NULL" "sigs' \<noteq> NULL"
    and "k = Suc k'" "argi' = argi + 1"
  shows "\<exists>cd n d st'. prepare_args k rec False argi args sigs ds pushed s
      = prepare_args k' rec False argi' args' sigs' (ds[argi := d]) (pushed + n) (emit cd (add_sp (int n) s))
    \<and> exec h (insns cd) st = Some st' \<and> pushes n st st' \<and> n \<le> 1 \<and> arg_val (c_mem s) (f_sp (c_frame s) + int n) st' d v"
proof -
  obtain cd n d st' where *: "prepare_arg rec False argi x sigs (prototype_int (c_protos s)) ds pushed s
            = Some (Some (ds[argi := d], pushed + n), emit cd (add_sp (int n) s))"
    "exec h (insns cd) st = Some st'" "pushes n st st'" "n \<le> 1" "arg_val (c_mem s) (f_sp (c_frame s) + int n) st' d v"
    using assms(1,5,10) unfolding prepares_def by blast
  obtain it where it: "get_cell (c_mem s) (prototype_int (c_protos s)) = Some it" "c_tag it = TAG_INT"
    using assms(2) by (auto simp: tag_of_def)
  have "prepare_args k rec False argi args sigs ds pushed s
      = prepare_args k' rec False argi' args' sigs' (ds[argi := d]) (pushed + n) (emit cd (add_sp (int n) s))"
    using assms(3-) *(1) it tag_of_not_NULL [OF assms(2)] by (simp add: car_def cdr_def)
  then show ?thesis using * by blast
qed

text \<open>The last round meets the empty cells at the ends of both lists.\<close>

lemma prepare_args_end:
  assumes "argi + 1 < MAXARGS"
    and "get_cell (c_mem s) args = Some \<lparr>c_ar = NULL, c_dr = NULL, c_tag = TAG_CONS\<rparr>" "args \<noteq> NULL"
    and "get_cell (c_mem s) sigs = Some \<lparr>c_ar = NULL, c_dr = NULL, c_tag = TAG_CONS\<rparr>" "sigs \<noteq> NULL"
    and "k = Suc k'" "argi' = argi + 1"
  shows "prepare_args k rec False argi args sigs ds pushed s = Some (Some (ds, argi', pushed), s)"
  using assms by (simp add: car_def cdr_def)

section \<open>Forms\<close>

definition cleanup :: "nat \<Rightarrow> jit list" where
  "cleanup n = (if n \<noteq> 0 then [JInc_stack (int n * PTRSZ)] else [])"

text \<open>What the code of a form does: in an integer context the value is in \<open>R0\<close> and the stack as before; in a
  context that wants a cell the value is boxed and the arguments are dropped.\<close>

definition yields :: "host \<Rightarrow> comp \<Rightarrow> mach \<Rightarrow> val \<Rightarrow> u64 \<Rightarrow> (val \<times> comp) option \<Rightarrow> bool" where
  "yields h s st rt v r \<longleftrightarrow>
     (tag_of s rt = Some TAG_INT \<longrightarrow>
       (\<exists>cd st'. r = Some (prototype_int (c_protos s), emit cd s) \<and> exec h (insns cd) st = Some st' \<and> regs st' 0 = W v \<and> pushes 0 st st'))
     \<and> (tag_of s rt = Some TAG_ANY \<longrightarrow>
       (\<exists>cd n st'. r = Some (prototype_any (c_protos s), emit (cd @ [JCall Host_alloc_int ''alloc_int''] @ cleanup n) s)
          \<and> exec h (insns cd) st = Some st' \<and> regs st' 1 = W v \<and> pushes n st st'))"

lemma same_pushes: "pushes n st st0 \<Longrightarrow> same st0 st' \<Longrightarrow> pushes n st st'"
  by (auto simp: pushes_def same_def)

lemma exec_cleanup:
  "\<exists>z. exec h (insns (cleanup n)) st = Some (st\<lparr>rsp := rsp st + n, zf := fst z, sf := fst (snd z), lt := snd (snd z)\<rparr>)"
proof (cases n)
  case 0
  then show ?thesis by (intro exI [of _ "(zf st, sf st, lt st)"]) (simp add: cleanup_def)
next
  case (Suc k)
  have "stack_slot st (int n * 8) = Some (rsp st + n)" using stack_slot_mult [of "int n" st] by (simp add: mult.commute)
  then show ?thesis using Suc by (auto simp: cleanup_def PTRSZ_def set_flags_def)
qed

lemma pushes_drop: "pushes n st st' \<Longrightarrow> pushes 0 st (st'\<lparr>rsp := rsp st' + n, zf := a, sf := b, lt := c\<rparr>)"
  by (auto simp: pushes_def)

lemma clean_return_cleanup: "clean_return n t (emit cd s) = (t, emit (cd @ cleanup n) (add_sp (- int n) s))"
  by (simp add: clean_return_def cleanup_def)

lemma yields_form:
  assumes "exec h (insns cd0) st = Some st0" "pushes n st st0" "computes h (emit cd0 (add_sp (int n) s)) st0 rt v r" "arith_ready s"
  shows "yields h s st rt v (do { (t, s) \<leftarrow> r; if t = NULL then failed s else Some (clean_return n t s) })"
proof -
  have nn: "prototype_int (c_protos s) \<noteq> NULL" "prototype_any (c_protos s) \<noteq> NULL"
    using assms(4) by (auto simp: arith_ready_def tag_of_def)
  show ?thesis
    unfolding yields_def
  proof (intro conjI impI)
    assume "tag_of s rt = Some TAG_INT"
    then obtain cd st' where *: "r = Some (prototype_int (c_protos s), emit (cd0 @ cd) (add_sp (int n) s))"
      "exec h (insns cd) st0 = Some st'" "regs st' 0 = W v" "same st0 st'"
      using assms(3) by (auto simp: computes_def)
    obtain z where "exec h (insns (cleanup n)) st' = Some (st'\<lparr>rsp := rsp st' + n, zf := fst z, sf := fst (snd z), lt := snd (snd z)\<rparr>)"
      using exec_cleanup by blast
    then show "\<exists>cd st'. (do { (t, s) \<leftarrow> r; if t = NULL then failed s else Some (clean_return n t s) })
        = Some (prototype_int (c_protos s), emit cd s) \<and> exec h (insns cd) st = Some st' \<and> regs st' 0 = W v \<and> pushes 0 st st'"
      using * nn assms(1) pushes_drop [OF same_pushes [OF assms(2) *(4)]]
      by (intro exI [of _ "cd0 @ cd @ cleanup n"]) (simp add: clean_return_cleanup)
  next
    assume "tag_of s rt = Some TAG_ANY"
    then obtain cd st' where *:
      "r = Some (prototype_any (c_protos s), emit (cd0 @ cd @ [JCall Host_alloc_int ''alloc_int'']) (add_sp (int n) s))"
      "exec h (insns cd) st0 = Some st'" "regs st' 1 = W v" "same st0 st'"
      using assms(3) by (auto simp: computes_def)
    then show "\<exists>cd m st'. (do { (t, s) \<leftarrow> r; if t = NULL then failed s else Some (clean_return n t s) })
        = Some (prototype_any (c_protos s), emit (cd @ [JCall Host_alloc_int ''alloc_int''] @ cleanup m) s)
        \<and> exec h (insns cd) st = Some st' \<and> regs st' 1 = W v \<and> pushes m st st'"
      using nn assms(1) same_pushes [OF assms(2) *(4)]
      by (intro exI [of _ "cd0 @ cd"] exI [of _ n]) (simp add: clean_return_cleanup)
  qed
qed

definition form_code :: "nat \<Rightarrow> (val \<Rightarrow> byte list) \<Rightarrow> val \<Rightarrow> compiler \<Rightarrow> string \<Rightarrow> val \<Rightarrow> val \<Rightarrow> prepared \<times> comp \<Rightarrow> (val \<times> comp) option" where
  "form_code fuel pfmt genv rec b args rt = (\<lambda>(p, s).
     (case p of
        None \<Rightarrow> failed s
      | Some (ds, argi, k) \<Rightarrow>
          do {
            (t, s) \<leftarrow> compile_builtin fuel pfmt genv rec (W (ucast (BUILTIN b))) ds argi args NULL rt s;
            if t = NULL then failed s else Some (clean_return k t s)
          }))"

lemma form_start:
  assumes "sexp_on D nb (c_mem s) p (SCons (SSym (bs name)) as)" "int_builtin s name b n" "sdepth (SCons (SSym (bs name)) as) \<le> fuel"
    and "(ucast (BUILTIN b) :: u64) \<noteq> 43"
  shows "\<exists>cm args sigs. compile_form fuel pfmt genv rec p rt s
      = Option.bind (prepare_args MAXARGS rec False 0 args sigs (replicate MAXARGS arg0) 0 (emit [JComment cm] s))
          (form_code fuel pfmt genv rec b args rt)
    \<and> sexp_on D nb (c_mem s) args as \<and> list_at (c_mem s) sigs (replicate n (prototype_int (c_protos s)))"
proof -
  obtain q args where p: "get_cell (c_mem s) p = Some \<lparr>c_ar = q, c_dr = args, c_tag = TAG_CONS\<rparr>" "p \<noteq> NULL"
    "text_on D nb (c_mem s) q TAG_SYM (bs name)" "sexp_on D nb (c_mem s) args as"
    using assms(1) sexp_on_mem by fastforce
  obtain c where c: "get_cell (c_mem s) q = Some c" "c_tag c = TAG_SYM" "read_cstr (c_mem s) (c_ar c) = Some (bs name)"
    using text_on_read [OF p(3)] by blast
  obtain e ent sigs where e: "lookup_global_symbol (c_env s) (bs name) = Some e" "e \<noteq> NULL" "as_env (c_mem s) e = Some ent"
    "get_cell (c_mem s) (e_cell ent) = Some \<lparr>c_ar = W (ucast (BUILTIN b)), c_dr = sigs, c_tag = TAG_BUILTIN\<rparr>"
    "list_at (c_mem s) sigs (replicate n (prototype_int (c_protos s)))"
    using assms(2) by (auto simp: int_builtin_def)
  have "q \<noteq> NULL" "e_cell ent \<noteq> NULL" using c(1) e(4) by auto
  then have "resolve_op q s = Some (Some (e, \<lparr>c_ar = W (ucast (BUILTIN b)), c_dr = sigs, c_tag = TAG_BUILTIN\<rparr>, sigs, NULL))"
    using c e by (simp add: resolve_op_def)
  moreover obtain cm where "lisp_write fuel (c_mem s) p 256 255 = Some cm"
    using write_cell_prints [OF assms(1,3), of 255 256 False] by (auto simp: lisp_write_def)
  ultimately have "compile_form fuel pfmt genv rec p rt s
      = Option.bind (prepare_args MAXARGS rec False 0 args sigs (replicate MAXARGS arg0) 0 (emit [JComment cm] s))
          (form_code fuel pfmt genv rec b args rt)"
    using p(1,2) assms(4) by (simp add: compile_form_def car_def cdr_def Let_def builtin_numbers form_code_def cong: option.case_cong)
  then show ?thesis using p(4) e(5) by blast
qed


text \<open>An operator with one argument and one with two.\<close>

lemma exec_comment [simp]: "exec h (insns (JComment c # cd)) st = exec h (insns cd) st"
  by simp

lemma two_args:
  assumes p1: "prepares h rec s st x a" and p2: "\<And>cd n st'. pushes n st st' \<Longrightarrow> n \<le> 1 \<Longrightarrow> prepares h rec (emit cd (add_sp (int n) s)) st' y b"
    and r: "arith_ready s" and a: "sexp_on D nb (c_mem s) args (SCons ea (SCons eb SNil))"
    "get_cell (c_mem s) args = Some \<lparr>c_ar = x, c_dr = args', c_tag = TAG_CONS\<rparr>"
    "get_cell (c_mem s) args' = Some \<lparr>c_ar = y, c_dr = args'', c_tag = TAG_CONS\<rparr>"
    and l: "list_at (c_mem s) sigs [prototype_int (c_protos s), prototype_int (c_protos s)]"
  shows "\<exists>cd n ds st'. prepare_args MAXARGS rec False 0 args sigs (replicate MAXARGS arg0) 0 s = Some (Some (ds, 3, n), emit cd (add_sp (int n) s))
    \<and> exec h (insns cd) st = Some st' \<and> pushes n st st'
    \<and> arg_val (c_mem s) (f_sp (c_frame s) + int n) st' (ds ! 0) a \<and> arg_val (c_mem s) (f_sp (c_frame s) + int n) st' (ds ! 1) b"
proof -
  have nn: "x \<noteq> NULL" "y \<noteq> NULL" "args \<noteq> NULL" "args' \<noteq> NULL" "args'' \<noteq> NULL"
    and nil: "get_cell (c_mem s) args'' = Some \<lparr>c_ar = NULL, c_dr = NULL, c_tag = TAG_CONS\<rparr>"
    using a sexp_on_mem by fastforce+
  obtain sigs' sigs'' where sg: "get_cell (c_mem s) sigs = Some \<lparr>c_ar = prototype_int (c_protos s), c_dr = sigs', c_tag = TAG_CONS\<rparr>"
    "get_cell (c_mem s) sigs' = Some \<lparr>c_ar = prototype_int (c_protos s), c_dr = sigs'', c_tag = TAG_CONS\<rparr>"
    "get_cell (c_mem s) sigs'' = Some \<lparr>c_ar = NULL, c_dr = NULL, c_tag = TAG_CONS\<rparr>"
    using l by auto
  then have sn: "sigs \<noteq> NULL" "sigs' \<noteq> NULL" "sigs'' \<noteq> NULL" by auto
  have it: "tag_of s (prototype_int (c_protos s)) = Some TAG_INT" using r by (simp add: arith_ready_def)
  let ?ds = "replicate MAXARGS arg0"
  obtain cd1 n1 d1 st1 where 1: "prepare_args MAXARGS rec False 0 args sigs ?ds 0 s
      = prepare_args 7 rec False 1 args' sigs' (?ds[0 := d1]) n1 (emit cd1 (add_sp (int n1) s))"
    "exec h (insns cd1) st = Some st1" "pushes n1 st st1" "n1 \<le> 1" "arg_val (c_mem s) (f_sp (c_frame s) + int n1) st1 d1 a"
    using prepare_args_step [OF p1 it nn(1) _ _ a(2) nn(3,4) sg(1) sn(1,2), of 0 ?ds MAXARGS 7 1 0] by (auto simp: MAXARGS_def)
  let ?s1 = "emit cd1 (add_sp (int n1) s)"
  have "\<exists>cd n d st'. prepare_args 7 rec False 1 args' sigs' (?ds[0 := d1]) n1 ?s1
      = prepare_args 6 rec False 2 args'' sigs'' (?ds[0 := d1, 1 := d]) (n1 + n) (emit cd (add_sp (int n) ?s1))
    \<and> exec h (insns cd) st1 = Some st' \<and> pushes n st1 st' \<and> n \<le> 1 \<and> arg_val (c_mem ?s1) (f_sp (c_frame ?s1) + int n) st' d b"
    by (rule prepare_args_step [OF p2 [OF 1(3,4)] _ nn(2) _ _ _ nn(4,5) _ sn(2,3)])
      (use it a(3) sg(2) in \<open>simp_all add: MAXARGS_def\<close>)
  then obtain cd2 n2 d2 st2 where 2: "prepare_args 7 rec False 1 args' sigs' (?ds[0 := d1]) n1 ?s1
      = prepare_args 6 rec False 2 args'' sigs'' (?ds[0 := d1, 1 := d2]) (n1 + n2) (emit cd2 (add_sp (int n2) ?s1))"
    "exec h (insns cd2) st1 = Some st2" "pushes n2 st1 st2" "arg_val (c_mem s) (f_sp (c_frame s) + int n1 + int n2) st2 d2 b"
    unfolding emit_fields by blast
  have 3: "prepare_args 6 rec False 2 args'' sigs'' ds k s' = Some (Some (ds, 3, k), s')" if "c_mem s' = c_mem s" for ds k s'
    by (rule prepare_args_end [where k' = 5]) (use nil nn(5) sg(3) sn(3) that in \<open>simp_all add: MAXARGS_def\<close>)
  have "arg_val (c_mem s) (f_sp (c_frame s) + int n1 + int n2) st2 d1 a"
    using arg_val_moves [OF 1(5), of "f_sp (c_frame s) + int n1 + int n2" st2] 2(3) by (simp add: pushes_def)
  then show ?thesis
    using 1 2 3 [of "emit cd2 (add_sp (int n2) ?s1)"] pushes_trans [OF 1(3) 2(3)]
    by (intro exI [of _ "cd1 @ cd2"] exI [of _ "n1 + n2"] exI [of _ "?ds[0 := d1, 1 := d2]"] exI [of _ st2])
      (simp add: MAXARGS_def add.assoc)
qed

lemma one_arg:
  assumes p1: "prepares h rec s st x a" and r: "arith_ready s" and a: "sexp_on D nb (c_mem s) args (SCons ea SNil)"
    "get_cell (c_mem s) args = Some \<lparr>c_ar = x, c_dr = args', c_tag = TAG_CONS\<rparr>"
    and l: "list_at (c_mem s) sigs [prototype_int (c_protos s)]"
  shows "\<exists>cd n ds st'. prepare_args MAXARGS rec False 0 args sigs (replicate MAXARGS arg0) 0 s = Some (Some (ds, 2, n), emit cd (add_sp (int n) s))
    \<and> exec h (insns cd) st = Some st' \<and> pushes n st st' \<and> arg_val (c_mem s) (f_sp (c_frame s) + int n) st' (ds ! 0) a"
proof -
  have nn: "x \<noteq> NULL" "args \<noteq> NULL" "args' \<noteq> NULL"
    and nil: "get_cell (c_mem s) args' = Some \<lparr>c_ar = NULL, c_dr = NULL, c_tag = TAG_CONS\<rparr>"
    using a sexp_on_mem by fastforce+
  obtain sigs' where sg: "get_cell (c_mem s) sigs = Some \<lparr>c_ar = prototype_int (c_protos s), c_dr = sigs', c_tag = TAG_CONS\<rparr>"
    "get_cell (c_mem s) sigs' = Some \<lparr>c_ar = NULL, c_dr = NULL, c_tag = TAG_CONS\<rparr>"
    using l by auto
  then have sn: "sigs \<noteq> NULL" "sigs' \<noteq> NULL" by auto
  have it: "tag_of s (prototype_int (c_protos s)) = Some TAG_INT" using r by (simp add: arith_ready_def)
  let ?ds = "replicate MAXARGS arg0"
  obtain cd1 n1 d1 st1 where 1: "prepare_args MAXARGS rec False 0 args sigs ?ds 0 s
      = prepare_args 7 rec False 1 args' sigs' (?ds[0 := d1]) n1 (emit cd1 (add_sp (int n1) s))"
    "exec h (insns cd1) st = Some st1" "pushes n1 st st1" "n1 \<le> 1" "arg_val (c_mem s) (f_sp (c_frame s) + int n1) st1 d1 a"
    using prepare_args_step [OF p1 it nn(1) _ _ a(2) nn(2,3) sg(1) sn, of 0 ?ds MAXARGS 7 1 0] by (auto simp: MAXARGS_def)
  have "prepare_args 7 rec False 1 args' sigs' ds k s' = Some (Some (ds, 2, k), s')" if "c_mem s' = c_mem s" for ds k s'
    by (rule prepare_args_end [where k' = 6]) (use nil nn(3) sg(2) sn(2) that in \<open>simp_all add: MAXARGS_def\<close>)
  then show ?thesis
    using 1 by (intro exI [of _ "cd1"] exI [of _ "n1"] exI [of _ "?ds[0 := d1]"] exI [of _ st1]) (simp add: MAXARGS_def)
qed

lemma arith_number [simp]: "(ucast (BUILTIN (op_builtin op)) :: u64) \<noteq> 43" "(ucast (BUILTIN ''BITNOT'') :: u64) \<noteq> 43"
  by (cases op) (simp_all add: builtin_numbers)

lemma bin_form:
  assumes "sexp_on D nb (c_mem s) p (SCons (SSym (bs (op_name op))) (SCons ea (SCons eb SNil)))" "arith_ready s"
    and "sdepth (SCons (SSym (bs (op_name op))) (SCons ea (SCons eb SNil))) \<le> fuel" "code_op op a b = Some v"
    and pa: "\<And>x cm. sexp_on D nb (c_mem s) x ea \<Longrightarrow> prepares h rec (emit cm s) st x a"
    and pb: "\<And>y cd n st'. sexp_on D nb (c_mem s) y eb \<Longrightarrow> pushes n st st' \<Longrightarrow> n \<le> 1 \<Longrightarrow> prepares h rec (emit cd (add_sp (int n) s)) st' y b"
  shows "yields h s st rt v (compile_form fuel pfmt genv rec p rt s)"
proof -
  have ib: "int_builtin s (op_name op) (op_builtin op) 2" using assms(2) by (simp add: arith_ready_def)
  obtain cm args sigs where f: "compile_form fuel pfmt genv rec p rt s
      = Option.bind (prepare_args MAXARGS rec False 0 args sigs (replicate MAXARGS arg0) 0 (emit [JComment cm] s))
          (form_code fuel pfmt genv rec (op_builtin op) args rt)"
    "sexp_on D nb (c_mem s) args (SCons ea (SCons eb SNil))"
    "list_at (c_mem s) sigs [prototype_int (c_protos s), prototype_int (c_protos s)]"
    using form_start [OF assms(1) ib assms(3) arith_number(1), unfolded numeral_2_eq_2 replicate.simps] by blast
  obtain x y args' args'' where xy: "get_cell (c_mem s) args = Some \<lparr>c_ar = x, c_dr = args', c_tag = TAG_CONS\<rparr>" "sexp_on D nb (c_mem s) x ea"
    "get_cell (c_mem s) args' = Some \<lparr>c_ar = y, c_dr = args'', c_tag = TAG_CONS\<rparr>" "sexp_on D nb (c_mem s) y eb"
    using f(2) by auto
  let ?s = "emit [JComment cm] s"
  have r: "arith_ready ?s" using assms(2) by (simp add: arith_ready_def int_builtin_def)
  have "prepares h rec (emit cd (add_sp (int n) ?s)) st' y b" if "pushes n st st'" "n \<le> 1" for cd n st'
    using pb [OF xy(4) that, of "[JComment cm] @ cd"] by simp
  from two_args [OF pa [OF xy(2)] this r, unfolded emit_fields, OF _ _ f(2) xy(1,3) f(3)]
  obtain cd n ds st' where c: "prepare_args MAXARGS rec False 0 args sigs (replicate MAXARGS arg0) 0 ?s = Some (Some (ds, 3, n), emit cd (add_sp (int n) ?s))"
    "exec h (insns cd) st = Some st'" "pushes n st st'"
    "arg_val (c_mem s) (f_sp (c_frame s) + int n) st' (ds ! 0) a" "arg_val (c_mem s) (f_sp (c_frame s) + int n) st' (ds ! 1) b"
    by blast
  let ?s1 = "emit ([JComment cm] @ cd) (add_sp (int n) s)"
  have "computes h ?s1 st' rt v (arith_case op ds rt ?s1)"
    using arith_case_ok [of ?s1 st' ds a b op v h rt] c(4,5) assms(4) by simp
  from yields_form [OF _ c(3) this assms(2)] c(1,2) f(1) show ?thesis
    by (simp add: form_code_def compile_builtin_case)
qed

lemma not_form:
  assumes "sexp_on D nb (c_mem s) p (SCons (SSym (bs ''bitnot'')) (SCons ea SNil))" "arith_ready s"
    and "sdepth (SCons (SSym (bs ''bitnot'')) (SCons ea SNil)) \<le> fuel"
    and pa: "\<And>x cm. sexp_on D nb (c_mem s) x ea \<Longrightarrow> prepares h rec (emit cm s) st x a"
  shows "yields h s st rt (NOT a) (compile_form fuel pfmt genv rec p rt s)"
proof -
  have ib: "int_builtin s ''bitnot'' ''BITNOT'' 1" using assms(2) by (simp add: arith_ready_def)
  obtain cm args sigs where f: "compile_form fuel pfmt genv rec p rt s
      = Option.bind (prepare_args MAXARGS rec False 0 args sigs (replicate MAXARGS arg0) 0 (emit [JComment cm] s))
          (form_code fuel pfmt genv rec ''BITNOT'' args rt)"
    "sexp_on D nb (c_mem s) args (SCons ea SNil)" "list_at (c_mem s) sigs [prototype_int (c_protos s)]"
    using form_start [OF assms(1) ib assms(3) arith_number(2), unfolded One_nat_def replicate.simps] by blast
  obtain x args' where xy: "get_cell (c_mem s) args = Some \<lparr>c_ar = x, c_dr = args', c_tag = TAG_CONS\<rparr>" "sexp_on D nb (c_mem s) x ea"
    using f(2) by auto
  let ?s = "emit [JComment cm] s"
  have r: "arith_ready ?s" using assms(2) by (simp add: arith_ready_def int_builtin_def)
  from one_arg [OF pa [OF xy(2)] r, unfolded emit_fields, OF f(2) xy(1) f(3)]
  obtain cd n ds st' where c: "prepare_args MAXARGS rec False 0 args sigs (replicate MAXARGS arg0) 0 ?s = Some (Some (ds, 2, n), emit cd (add_sp (int n) ?s))"
    "exec h (insns cd) st = Some st'" "pushes n st st'" "arg_val (c_mem s) (f_sp (c_frame s) + int n) st' (ds ! 0) a"
    by blast
  let ?s1 = "emit ([JComment cm] @ cd) (add_sp (int n) s)"
  have "computes h ?s1 st' rt (NOT a) (compile_bitnot ds rt ?s1)"
    using compile_bitnot_ok [of ?s1 st' ds a h rt] c(4) by simp
  from yields_form [OF _ c(3) this assms(2)] c(1,2) f(1) show ?thesis
    by (simp add: form_code_def compile_builtin_case)
qed

section \<open>Compiled arithmetic computes its value\<close>

lemma compile_expr_form:
  "get_cell (c_mem s) p = Some c \<Longrightarrow> c_tag c = TAG_CONS \<Longrightarrow>
   compile_expr (Suc fuel) pfmt genv p rt s = compile_form fuel pfmt genv (compile_expr fuel pfmt genv) p rt s"
  by (cases "p = NULL") (simp_all add: tag_defs)

text \<open>A form in argument position, from what its code does.\<close>

lemma prepares_form:
  assumes "arith_ready s" "sexp_on D nb (c_mem s) p (SCons a d)" "0 < rsp st"
    and "\<And>rt. yields h s st rt v (compile_form fuel pfmt genv (compile_expr fuel pfmt genv) p rt s)"
  shows "prepares h (compile_expr (Suc fuel) pfmt genv) s st p v"
proof -
  obtain c where c: "get_cell (c_mem s) p = Some c" "c_tag c = TAG_CONS" using assms(2) by auto
  have "tag_of s (prototype_int (c_protos s)) = Some TAG_INT" using assms(1) by (simp add: arith_ready_def)
  then obtain cd st' where *: "compile_form fuel pfmt genv (compile_expr fuel pfmt genv) p (prototype_int (c_protos s)) s
      = Some (prototype_int (c_protos s), emit cd s)" "exec h (insns cd) st = Some st'" "regs st' 0 = W v" "pushes 0 st st'"
    using assms(4) unfolding yields_def by blast
  show ?thesis
    using prepares_nested [OF assms(1) c _ *(2-4) assms(3), where rec = "compile_expr (Suc fuel) pfmt genv"]
      *(1) compile_expr_form [OF c] by simp
qed

fun is_form :: "aexp \<Rightarrow> bool" where
  "is_form (ABin op a b) \<longleftrightarrow> True"
| "is_form (ANot a) \<longleftrightarrow> True"
| "is_form _ \<longleftrightarrow> False"

lemma arith_step:
  assumes "ready \<rho> (avars e) s st" "code_value \<rho> e = Some v" "sexp_on D nb (c_mem s) p (sexp_of e)" "sdepth (sexp_of e) \<le> f" "adepth e \<le> rsp st" "is_form e"
    and IH: "\<And>e' s st p v. size e' < size e \<Longrightarrow> sexp_on D nb (c_mem s) p (sexp_of e') \<Longrightarrow> ready \<rho> (avars e') s st \<Longrightarrow> code_value \<rho> e' = Some v
      \<Longrightarrow> sdepth (sexp_of e') < f \<Longrightarrow> adepth e' \<le> rsp st \<Longrightarrow> prepares h (compile_expr f pfmt genv) s st p v"
  shows "yields h s st rt v (compile_form f pfmt genv (compile_expr f pfmt genv) p rt s)"
proof (cases e)
  case (ABin op ea eb)
  obtain a b where ab: "code_value \<rho> ea = Some a" "code_value \<rho> eb = Some b" "code_op op a b = Some v"
    using assms(2) ABin by (auto split: bind_splits)
  have r: "arith_ready s" "ready \<rho> (avars ea) s st" "ready \<rho> (avars eb) s st"
    using assms(1) ABin ready_mono [of \<rho> "avars ea \<union> avars eb"] by (auto simp: ready_def)
  have "prepares h (compile_expr f pfmt genv) (emit cm s) st x a" if "sexp_on D nb (c_mem s) x (sexp_of ea)" for x cm
    using IH [of ea "emit cm s" x st a] that ab(1) assms(4,5) ABin ready_moves [OF r(2) pushes_0, of cm] by simp
  moreover have "prepares h (compile_expr f pfmt genv) (emit cd (add_sp (int n) s)) st' y b"
    if "sexp_on D nb (c_mem s) y (sexp_of eb)" "pushes n st st'" "n \<le> 1" for y cd n st'
    using IH [of eb "emit cd (add_sp (int n) s)" y st' b] that ab(2) assms(4,5) ABin ready_moves [OF r(3) that(2), of cd]
    by (auto simp: pushes_def)
  ultimately show ?thesis
    using bin_form [OF _ r(1) _ ab(3), of D nb p "sexp_of ea" "sexp_of eb" f h "compile_expr f pfmt genv" st rt pfmt genv] assms(3,4) ABin
    by simp
next
  case (ANot ea)
  obtain a where ab: "code_value \<rho> ea = Some a" "v = NOT a" using assms(2) ANot by auto
  have r: "arith_ready s" "ready \<rho> (avars ea) s st" using assms(1) ANot by (auto simp: ready_def)
  have "prepares h (compile_expr f pfmt genv) (emit cm s) st x a" if "sexp_on D nb (c_mem s) x (sexp_of ea)" for x cm
    using IH [of ea "emit cm s" x st a] that ab(1) assms(4,5) ANot ready_moves [OF r(2) pushes_0, of cm] by simp
  then show ?thesis
    using not_form [OF _ r(1), of D nb p "sexp_of ea" f h "compile_expr f pfmt genv" st a rt pfmt genv] assms(3,4) ab(2) ANot by simp
qed (use assms(6) in simp_all)

lemma prepares_arith:
  assumes "sexp_on D nb (c_mem s) p (sexp_of e)" "ready \<rho> (avars e) s st" "code_value \<rho> e = Some v" "sdepth (sexp_of e) < fuel" "adepth e \<le> rsp st"
  shows "prepares h (compile_expr fuel pfmt genv) s st p v"
  using assms
proof (induction "size e" arbitrary: e s st p fuel v rule: less_induct)
  case less
  have r: "arith_ready s" using less.prems(2) by (simp add: ready_def)
  show ?case
  proof (cases "is_form e")
    case True
    then obtain a d where e: "sexp_of e = SCons a d" "0 < adepth e" by (cases e) auto
    obtain f where f: "fuel = Suc f" "sdepth (sexp_of e) \<le> f" using less.prems(4) by (cases fuel) auto
    have "yields h s st rt v (compile_form f pfmt genv (compile_expr f pfmt genv) p rt s)" for rt
      by (rule arith_step [OF less.prems(2,3,1) f(2) less.prems(5) True less.hyps])
    from prepares_form [OF r less.prems(1) [unfolded e(1)] _ this] show ?thesis
      unfolding f(1) using e(2) less.prems(5) by linarith
  next
    case False
    then show ?thesis
      using less.prems prepares_const [OF r, of D nb p v] prepares_var [OF r, of D nb p _ st v]
      by (cases e) (auto simp: ready_def)
  qed
qed

lemma arith_yields:
  assumes "sexp_on D nb (c_mem s) p (sexp_of e)" "ready \<rho> (avars e) s st" "code_value \<rho> e = Some v" "sdepth (sexp_of e) < fuel" "adepth e \<le> rsp st"
    "is_form e"
  shows "yields h s st rt v (compile_expr fuel pfmt genv p rt s)"
proof -
  obtain f where f: "fuel = Suc f" "sdepth (sexp_of e) \<le> f" using assms(4) by (cases fuel) auto
  obtain c where "get_cell (c_mem s) p = Some c" "c_tag c = TAG_CONS" using assms(1,6) by (cases e) auto
  from compile_expr_form [OF this] show ?thesis
    unfolding f(1) using arith_step [OF assms(2,3,1) f(2) assms(5,6) prepares_arith] by simp
qed

section \<open>Boxing the result\<close>

lemma exec_box:
  assumes "regs st 1 = W v" "alloc_inv (m_mem st)" "0 < cells_left (m_mem st)"
  shows "\<exists>st' p. exec h (insns [JCall Host_alloc_int ''alloc_int'']) st = Some st' \<and> regs st' 0 = p \<and> rsp st' = rsp st
    \<and> (\<forall>i \<ge> rsp st. stk st' i = stk st i) \<and> (\<forall>r. callee_saved r \<longrightarrow> regs st' r = regs st r) \<and> m_env st' = m_env st
    \<and> (\<exists>d. fresh_cell (m_mem st) p \<lparr>c_ar = W (scast (ucast v :: u32)), c_dr = d, c_tag = TAG_INT\<rparr> (m_mem st'))"
proof -
  obtain p m' d where p: "alloc_int (ucast v) (m_mem st) = Some (p, m')"
    "fresh_cell (m_mem st) p \<lparr>c_ar = W (scast (ucast v :: u32)), c_dr = d, c_tag = TAG_INT\<rparr> m'"
    using alloc_int_ok [OF assms(2,3)] by blast
  then show ?thesis
    using assms(1) by (auto simp: call_host_def host_result_def Let_def int_arg_def callee_saved_def)
qed

lemma arith_boxed:
  assumes "sexp_on D nb (c_mem s) p (sexp_of e)" "ready \<rho> (avars e) s st" "code_value \<rho> e = Some v" "sdepth (sexp_of e) < fuel" "adepth e \<le> rsp st"
    "is_form e" "alloc_inv (m_mem st)" "0 < cells_left (m_mem st)" "tag_of s rt = Some TAG_ANY"
  shows "\<exists>cd st'. compile_expr fuel pfmt genv p rt s = Some (prototype_any (c_protos s), emit cd s)
    \<and> exec h (insns cd) st = Some st' \<and> rsp st' = rsp st \<and> (\<forall>i \<ge> rsp st. stk st' i = stk st i)
    \<and> (\<forall>r. callee_saved r \<longrightarrow> regs st' r = regs st r) \<and> m_env st' = m_env st
    \<and> (\<exists>d. fresh_cell (m_mem st) (regs st' 0) \<lparr>c_ar = W (scast (ucast v :: u32)), c_dr = d, c_tag = TAG_INT\<rparr> (m_mem st'))"
proof -
  obtain cd n st1 where c: "compile_expr fuel pfmt genv p rt s
      = Some (prototype_any (c_protos s), emit (cd @ [JCall Host_alloc_int ''alloc_int''] @ cleanup n) s)"
    "exec h (insns cd) st = Some st1" "regs st1 1 = W v" "pushes n st st1"
    using arith_yields [OF assms(1-6), of h rt pfmt genv] assms(9) unfolding yields_def by blast
  have m: "m_mem st1 = m_mem st" "rsp st = rsp st1 + n" using c(4) by (simp_all add: pushes_def)
  obtain st2 d where b: "exec h (insns [JCall Host_alloc_int ''alloc_int'']) st1 = Some st2" "rsp st2 = rsp st1"
    "\<forall>i \<ge> rsp st1. stk st2 i = stk st1 i" "\<forall>r. callee_saved r \<longrightarrow> regs st2 r = regs st1 r" "m_env st2 = m_env st1"
    "fresh_cell (m_mem st) (regs st2 0) \<lparr>c_ar = W (scast (ucast v :: u32)), c_dr = d, c_tag = TAG_INT\<rparr> (m_mem st2)"
    using exec_box [OF c(3), of h] assms(7,8) m(1) by auto
  obtain z where z: "exec h (insns (cleanup n)) st2 = Some (st2\<lparr>rsp := rsp st2 + n, zf := fst z, sf := fst (snd z), lt := snd (snd z)\<rparr>)"
    using exec_cleanup by blast
  let ?cd = "cd @ [JCall Host_alloc_int ''alloc_int''] @ cleanup n"
  let ?st = "st2\<lparr>rsp := rsp st2 + n, zf := fst z, sf := fst (snd z), lt := snd (snd z)\<rparr>"
  have "exec h (insns ?cd) st = Some ?st"
    by (simp only: insns_append exec_append c(2) b(1) z bind.bind_lunit)
  then show ?thesis using c(1,4) b(2-6) m(2)
    by (intro exI [of _ ?cd] exI [of _ ?st]) (auto simp: pushes_def)
qed

text \<open>
  The machine after the return of a top-level expression: the return address is popped, the rest of the stack, the
  environment and the registers of the caller are as before, and the only change of the memory is a new cell with the
  value. \<open>alloc_int\<close> takes an \<open>int\<close>: the value is cut to 32 bits and sign-extended.
\<close>

definition returned :: "mach \<Rightarrow> mach \<Rightarrow> u64 \<Rightarrow> bool" where
  "returned st st' v \<longleftrightarrow> rsp st' = rsp st + 1 \<and> (\<forall>i \<ge> rsp st. stk st' i = stk st i)
    \<and> (\<forall>r. callee_saved r \<longrightarrow> regs st' r = regs st r) \<and> m_env st' = m_env st
    \<and> (\<exists>d. fresh_cell (m_mem st) (regs st' 0) \<lparr>c_ar = W (scast (ucast v :: u32)), c_dr = d, c_tag = TAG_INT\<rparr> (m_mem st'))"

lemma compiled_arith_runs:
  assumes "sexp_on D nb (c_mem s) p (sexp_of e)" "ready \<rho> (avars e) s st" "code_value \<rho> e = Some v" "sdepth (sexp_of e) < fuel" "adepth e \<le> rsp st"
    "is_form e" "alloc_inv (m_mem st)" "0 < cells_left (m_mem st)" "stk st (rsp st) = HOST_RETURN"
  shows "\<exists>cd n st'. compile_expr fuel pfmt genv p (prototype_any (c_protos s)) s = Some (prototype_any (c_protos s), emit cd s)
    \<and> run n h (pre @ insns (cd @ [JRet])) (length pre) st = Some st' \<and> returned st st' v
    \<and> (\<forall>l. Label l \<notin> set (insns cd))"
proof -
  have "tag_of s (prototype_any (c_protos s)) = Some TAG_ANY" using assms(2) by (simp add: ready_def arith_ready_def)
  then obtain cd st1 d where c: "compile_expr fuel pfmt genv p (prototype_any (c_protos s)) s = Some (prototype_any (c_protos s), emit cd s)"
    "exec h (insns cd) st = Some st1" "rsp st1 = rsp st" "\<forall>i \<ge> rsp st. stk st1 i = stk st i" "\<forall>r. callee_saved r \<longrightarrow> regs st1 r = regs st r"
    "m_env st1 = m_env st" "fresh_cell (m_mem st) (regs st1 0) \<lparr>c_ar = W (scast (ucast v :: u32)), c_dr = d, c_tag = TAG_INT\<rparr> (m_mem st1)"
    using arith_boxed [OF assms(1-8), of "prototype_any (c_protos s)" pfmt genv h] by blast
  from run_exec [OF c(2), of 1 pre "[Ret]"] have "run (length (insns cd) + 1) h (pre @ insns (cd @ [JRet])) (length pre) st
      = run 1 h (pre @ insns (cd @ [JRet])) (length pre + length (insns cd)) st1" by simp
  moreover have "run 1 h (pre @ insns (cd @ [JRet])) (length pre + length (insns cd)) st1 = Some (st1\<lparr>rsp := rsp st + 1\<rparr>)"
    using c(3,4) assms(9) by (simp add: step_def nth_append HOST_RETURN_def)
  ultimately have "run (length (insns cd) + 1) h (pre @ insns (cd @ [JRet])) (length pre) st = Some (st1\<lparr>rsp := rsp st + 1\<rparr>)" by simp
  then show ?thesis
    using c(1,4-7) exec_no_labels [OF c(2)]
    by (intro exI [of _ cd] exI [of _ "length (insns cd) + 1"] exI [of _ "st1\<lparr>rsp := rsp st + 1\<rparr>"]) (auto simp: returned_def simp del: run.simps)
qed

end
