(* ===== verification/Environment.thy ===== *)
theory Environment
  imports Compiler
begin

text \<open>
  The global environment of \<^verbatim>\<open>src/sledge/compiler_new.c\<close>: a hash table from names to entries, each of
  which points to a cell. \<open>env_abs\<close> reads it as a map from names to cells; \<open>insert_symbol\<close> is the update of
  that map at one name, and \<open>init_compiler\<close> builds the map of all builtins. The lemmas on the initialisation
  count the cells it takes, so that later stages know what is left.
\<close>

section \<open>The global environment as a map from names to cells\<close>

definition env_inv :: "val strmap \<Rightarrow> mem \<Rightarrow> bool" where
  "env_inv env m \<longleftrightarrow> sm_inv env \<and> (\<forall>x e. sm_abs env x = Some e \<longrightarrow> (\<exists>k < length (envs m). e = P (OEnv k) 0))
     \<and> (\<forall>x y e. sm_abs env x = Some e \<longrightarrow> sm_abs env y = Some e \<longrightarrow> x = y)"

definition env_abs :: "val strmap \<Rightarrow> mem \<Rightarrow> cstr \<rightharpoonup> val" where
  "env_abs env m x = do { e \<leftarrow> sm_abs env x; map_option e_cell (as_env m e) }"

text \<open>Only the entries of the environment may differ.\<close>

definition same_but_envs :: "mem \<Rightarrow> mem \<Rightarrow> bool" where
  "same_but_envs m m' \<longleftrightarrow> (\<exists>E. m' = m\<lparr>envs := E\<rparr>)"

lemma envs_irrelevant [simp]:
  "get_cell (m\<lparr>envs := E\<rparr>) p = get_cell m p" "live (m\<lparr>envs := E\<rparr>) = live m"
  "alloc_inv (m\<lparr>envs := E\<rparr>) = alloc_inv m" "cells_left (m\<lparr>envs := E\<rparr>) = cells_left m"
  by (simp_all add: get_cell_def live_def alloc_inv_def cells_left_def free_ptrs_def free_slots_def)

lemma read_cstr_envs [simp]: "read_cstr (m\<lparr>envs := E\<rparr>) p = read_cstr m p"
  by (rule read_cstr_blocks_cong) simp

lemma list_at_envs [simp]: "list_at (m\<lparr>envs := E\<rparr>) p xs = list_at m p xs"
  by (induction xs arbitrary: p) auto

lemma as_env_cong: "envs m' = envs m \<Longrightarrow> as_env m' e = as_env m e"
  by (cases "(m, e)" rule: as_env.cases) auto

lemma env_inv_entry: "env_inv env m \<Longrightarrow> sm_abs env x = Some e \<Longrightarrow> \<exists>k < length (envs m). e = P (OEnv k) 0"
  by (auto simp: env_inv_def)

lemma env_inv_inj: "env_inv env m \<Longrightarrow> sm_abs env x = Some e \<Longrightarrow> sm_abs env y = Some e \<Longrightarrow> x = y"
  unfolding env_inv_def by blast

lemma insert_symbol_ok:
  assumes "env_inv env m" "get_cell m symbol = Some sc" "read_cstr m (c_ar sc) = Some x" "length x < MAX_SYMBOL_SIZE"
  shows "\<exists>env' m'. insert_symbol symbol cell env m = Some (cell, env', m') \<and> env_inv env' m' \<and> same_but_envs m m'
    \<and> env_abs env' m' = (env_abs env m)(x \<mapsto> cell)"
proof (cases "sm_abs env x")
  case (Some e)
  have inv: "sm_inv env" using assms(1) by (simp add: env_inv_def)
  obtain k where k: "e = P (OEnv k) 0" "k < length (envs m)" using assms(1) Some by (auto simp: env_inv_def)
  let ?m = "m\<lparr>envs := (envs m)[k := (envs m ! k)\<lparr>e_cell := cell\<rparr>]\<rparr>"
  have "insert_symbol symbol cell env m = Some (cell, env, ?m)"
    using assms(2,3) sm_get_abs [OF inv, of x] Some k by (simp add: insert_symbol_def insert_symbol_out_def)
  moreover have "env_abs env ?m = (env_abs env m)(x \<mapsto> cell)"
  proof
    fix y
    show "env_abs env ?m y = ((env_abs env m)(x \<mapsto> cell)) y"
    proof (cases "y = x")
      case True
      then show ?thesis using Some k by (simp add: env_abs_def)
    next
      case False
      have "\<exists>j < length (envs m). e' = P (OEnv j) 0 \<and> j \<noteq> k" if "sm_abs env y = Some e'" for e'
        using env_inv_entry [OF assms(1) that] env_inv_inj [OF assms(1) that, of x] Some k False by auto
      then show ?thesis using False by (cases "sm_abs env y") (auto simp: env_abs_def)
    qed
  qed
  ultimately show ?thesis using assms(1) by (auto simp: env_inv_def same_but_envs_def)
next
  case None
  have inv: "sm_inv env" using assms(1) by (simp add: env_inv_def)
  let ?e = "P (OEnv (length (envs m))) 0"
  let ?m = "m\<lparr>envs := envs m @ [\<lparr>e_cell = cell, e_name = x\<rparr>]\<rparr>"
  obtain env' where env': "sm_put True True (Some env) (Some x) (Some ?e) = Some (1, Some env')" "sm_inv env'"
    "sm_abs env' = (sm_abs env)(x \<mapsto> ?e)" using sm_put_ok [OF inv, of x ?e] by blast
  have "insert_symbol symbol cell env m = Some (cell, env', ?m)"
    using assms(2-4) sm_get_abs [OF inv, of x] None env'(1) by (simp add: insert_symbol_def insert_symbol_out_def Let_def)
  moreover have old: "\<exists>k < length (envs m). e = P (OEnv k) 0" if "sm_abs env y = Some e" for y e
    using assms(1) that by (auto simp: env_inv_def)
  have "env_inv env' ?m"
    using assms(1) old env' unfolding env_inv_def by (fastforce simp: less_Suc_eq split: if_splits)
  moreover have "env_abs env' ?m y = ((env_abs env m)(x \<mapsto> cell)) y" for y
  proof (cases "y = x \<or> sm_abs env y = None")
    case True
    then show ?thesis by (auto simp: env_abs_def env'(3))
  next
    case False
    then obtain e where e: "sm_abs env y = Some e" "y \<noteq> x" by auto
    then show ?thesis using old [OF e(1)] by (auto simp: env_abs_def env'(3) nth_append)
  qed
  ultimately show ?thesis by (auto simp: same_but_envs_def)
qed

text \<open>A new name of 64 bytes or more is refused: nothing is stored and the result is a fresh empty cell. A message says by how many
  bytes, the terminating NUL included, the name is too long.\<close>

lemma insert_symbol_refused:
  assumes "env_inv env m" "get_cell m symbol = Some sc" "read_cstr m (c_ar sc) = Some x" "MAX_SYMBOL_SIZE \<le> length x"
    "env_abs env m x = None" "alloc_inv m" "0 < cells_left m"
  shows "\<exists>p m'. insert_symbol_out symbol cell env m
      = Some (bs ''[insert_symbol] max symbol size exceeded by '' @ show_nat (length x - 63) @ [10], p, env, m') \<and> sexp_at m' p SNil \<and> env_inv env m' \<and> env_abs env m' = env_abs env m"
proof -
  have inv: "sm_inv env" using assms(1) by (simp add: env_inv_def)
  have "sm_abs env x = None"
    using env_inv_entry [OF assms(1), of x] assms(5) by (cases "sm_abs env x") (auto simp: env_abs_def)
  moreover obtain p m' where p: "alloc_nil m = Some (p, m')" "fresh_cell m p \<lparr>c_ar = NULL, c_dr = NULL, c_tag = TAG_CONS\<rparr> m'"
    using alloc_nil_ok [OF assms(6,7)] by blast
  moreover have "length x - MAX_SYMBOL_SIZE + 1 = length x - 63" using assms(4) by (simp add: MAX_SYMBOL_SIZE_def)
  ultimately have "insert_symbol_out symbol cell env m
      = Some (bs ''[insert_symbol] max symbol size exceeded by '' @ show_nat (length x - 63) @ [10], p, env, m')"
    using assms(2-4) sm_get_abs [OF inv, of x] by (simp add: insert_symbol_out_def)
  moreover have "envs m' = envs m" using p(2) by (simp add: fresh_cell_def same_rest_def)
  then have "as_env m' = as_env m" by (intro ext as_env_cong)
  ultimately show ?thesis
    using p(2) assms(1) \<open>envs m' = envs m\<close> by (auto simp: env_inv_def env_abs_def fun_eq_iff fresh_cell_def)
qed

lemma lookup_global_abs:
  assumes "env_inv env m" "env_abs env m x = Some c"
  shows "\<exists>e ent. lookup_global_symbol env x = Some e \<and> e \<noteq> NULL \<and> as_env m e = Some ent \<and> e_cell ent = c"
proof -
  obtain e ent where e: "sm_abs env x = Some e" "as_env m e = Some ent" "e_cell ent = c"
    using assms(2) by (auto simp: env_abs_def bind_eq_Some_conv)
  moreover have "sm_inv env" using assms(1) by (simp add: env_inv_def)
  ultimately show ?thesis
    using sm_get_abs [of env x] by (auto simp: lookup_global_symbol_def)
qed

section \<open>The builtins\<close>

text \<open>A line of the table is installed.\<close>

definition installed :: "val strmap \<Rightarrow> mem \<Rightarrow> string \<times> string \<times> val list option \<Rightarrow> bool" where
  "installed env m d \<longleftrightarrow> (case d of (name, b, ps) \<Rightarrow>
     \<exists>c sig. env_abs env m (bs name) = Some c \<and> c \<in> live m
       \<and> get_cell m c = Some \<lparr>c_ar = W (ucast (BUILTIN b)), c_dr = sig, c_tag = TAG_BUILTIN\<rparr>
       \<and> (case ps of None \<Rightarrow> sig = NULL | Some xs \<Rightarrow> list_at m sig xs))"

definition name_ok :: "string \<Rightarrow> bool" where
  "name_ok name \<longleftrightarrow> length name < MAX_SYMBOL_SIZE \<and> 0 \<notin> set (bs name)"

lemma env_abs_envs: "envs m' = envs m \<Longrightarrow> env_abs env m' = env_abs env m"
  unfolding env_abs_def using as_env_cong [of m' m] by (auto simp: fun_eq_iff)

lemma env_inv_envs: "envs m' = envs m \<Longrightarrow> env_inv env m' = env_inv env m"
  by (simp add: env_inv_def)

lemma installed_frame:
  assumes "installed env m d" "mem_grows m m'" "env_abs env' m' (bs (fst d)) = env_abs env m (bs (fst d))"
  shows "installed env' m' d"
proof -
  obtain name b ps where d: "d = (name, b, ps)" by (cases d)
  then obtain c sig where c: "env_abs env m (bs name) = Some c" "c \<in> live m"
    "get_cell m c = Some \<lparr>c_ar = W (ucast (BUILTIN b)), c_dr = sig, c_tag = TAG_BUILTIN\<rparr>"
    "case ps of None \<Rightarrow> sig = NULL | Some xs \<Rightarrow> list_at m sig xs"
    using assms(1) by (auto simp: installed_def)
  have "c \<in> live m'" "get_cell m' c = get_cell m c" using assms(2) c(2) by (auto simp: mem_grows_def)
  moreover have "case ps of None \<Rightarrow> sig = NULL | Some xs \<Rightarrow> list_at m' sig xs"
    using c(4) list_at_ext [OF assms(2)] by (auto split: option.splits)
  ultimately show ?thesis using c(1,3) assms(3) d unfolding installed_def by auto
qed

lemma alloc_builtin_ok:
  assumes "alloc_inv m" "0 < cells_left m"
  shows "\<exists>p m'. alloc_builtin b sig m = Some (p, m') \<and> fresh_cell m p \<lparr>c_ar = W (ucast b), c_dr = sig, c_tag = TAG_BUILTIN\<rparr> m'"
proof -
  obtain p m1 c m' where 1: "cell_alloc m = Some (p, m1)"
    "upd_cell p (\<lambda>c. c\<lparr>c_tag := TAG_BUILTIN, c_ar := W (ucast b), c_dr := sig\<rparr>) m1 = Some m'"
    "fresh_cell m p (c\<lparr>c_tag := TAG_BUILTIN, c_ar := W (ucast b), c_dr := sig\<rparr>) m'"
    using construct_cell [OF assms] by blast
  moreover have "c\<lparr>c_tag := TAG_BUILTIN, c_ar := W (ucast b), c_dr := sig\<rparr> = \<lparr>c_ar = W (ucast b), c_dr = sig, c_tag = TAG_BUILTIN\<rparr>" by (cases c) simp
  ultimately show ?thesis by (auto simp: alloc_builtin_def)
qed

definition steady :: "nat \<Rightarrow> mem \<Rightarrow> mem \<Rightarrow> bool" where
  "steady n m m' \<longleftrightarrow> alloc_inv m' \<and> mem_grows m m' \<and> cells_left m \<le> cells_left m' + n"

lemma steady_trans: "steady a m m1 \<Longrightarrow> steady b m1 m2 \<Longrightarrow> steady (a + b) m m2"
  using mem_grows_trans by (auto simp: steady_def)

lemma fresh_cell_steady: "fresh_cell m p c m' \<Longrightarrow> steady 1 m m' \<and> envs m' = envs m \<and> p \<in> live m' \<and> get_cell m' p = Some c"
  using fresh_cell_ext by (auto simp: steady_def fresh_cell_def same_rest_def)

lemma fresh_bytes_steady: "fresh_bytes m p c blk m' \<Longrightarrow> steady 1 m m' \<and> envs m' = envs m \<and> p \<in> live m' \<and> get_cell m' p = Some c"
  using fresh_bytes_ext by (auto simp: steady_def fresh_bytes_def fresh_cell_def same_rest_def)

lemma alloc_sym_named:
  assumes "alloc_inv m" "0 < cells_left m" "name_ok name"
  shows "\<exists>p m' c. alloc_sym (Some (bs name)) m = Some (p, m') \<and> steady 1 m m' \<and> envs m' = envs m
    \<and> get_cell m' p = Some c \<and> read_cstr m' (c_ar c) = Some (bs name) \<and> p \<in> live m' \<and> c_tag c = TAG_SYM"
proof -
  have l: "length (bs name) + 2 < 2 ^ 31" using assms(3) by (simp add: name_ok_def MAX_SYMBOL_SIZE_def)
  obtain p m' where p: "alloc_sym (Some (bs name)) m = Some (p, m')"
    "fresh_bytes m p \<lparr>c_ar = bytesp (length (blocks m)), c_dr = W (of_nat (length (bs name) + 1)), c_tag = TAG_SYM\<rparr> (bs name @ [0, 0]) m'"
    using alloc_sym_ok [OF assms(1,2) l] by blast
  have "read_cstr m' (bytesp (length (blocks m))) = Some (bs name)"
    using fresh_bytes_block [OF p(2)] assms(3) c_str_append_nul [of "bs name" "[0]"] by (simp add: read_cstr_def name_ok_def)
  then show ?thesis using p(1) fresh_bytes_steady [OF p(2)] by auto
qed

definition sig_ok :: "val list option \<Rightarrow> bool" where
  "sig_ok ps \<longleftrightarrow> (case ps of None \<Rightarrow> True | Some xs \<Rightarrow> length xs \<le> 3)"

lemma alloc_signature:
  assumes "alloc_inv m" "4 \<le> cells_left m" "sig_ok ps"
  shows "\<exists>sig m'. (case ps of None \<Rightarrow> Some (NULL, m) | Some xs \<Rightarrow> alloc_list xs (length xs) m) = Some (sig, m')
    \<and> steady 4 m m' \<and> envs m' = envs m \<and> (case ps of None \<Rightarrow> sig = NULL | Some xs \<Rightarrow> list_at m' sig xs)"
proof (cases ps)
  case None
  then show ?thesis using assms(1) by (simp add: steady_def)
next
  case (Some xs)
  then have "length xs \<le> 3" using assms(3) by (simp add: sig_ok_def)
  then show ?thesis
    using alloc_list_ok [OF assms(1), of "length xs" xs] assms(2) Some by (auto simp: steady_def same_rest_def)
qed

lemma read_cstr_grows: "mem_grows m m' \<Longrightarrow> read_cstr m p = Some x \<Longrightarrow> read_cstr m' p = Some x"
  using block_at_ext [of m m' p] by (cases "block_at m p") (auto simp: read_cstr_def)

lemma insert_builtin_ok:
  assumes "env_inv env m" "alloc_inv m" "6 \<le> cells_left m" "name_ok (fst d)" "sig_ok (snd (snd d))"
  shows "\<exists>env' m'. insert_builtin d (env, m) = Some (env', m') \<and> env_inv env' m' \<and> steady 6 m m' \<and> installed env' m' d
    \<and> (\<forall>x. x \<noteq> bs (fst d) \<longrightarrow> env_abs env' m' x = env_abs env m x)"
proof -
  obtain name b ps where d: "d = (name, b, ps)" by (cases d)
  obtain sy m1 c where 1: "alloc_sym (Some (bs name)) m = Some (sy, m1)" "steady 1 m m1" "envs m1 = envs m"
    "get_cell m1 sy = Some c" "read_cstr m1 (c_ar c) = Some (bs name)" "sy \<in> live m1"
    using alloc_sym_named [OF assms(2), of name] assms(3,4) d by auto
  obtain sig m2 where 2: "(case ps of None \<Rightarrow> Some (NULL, m1) | Some xs \<Rightarrow> alloc_list xs (length xs) m1) = Some (sig, m2)"
    "steady 4 m1 m2" "envs m2 = envs m1" "case ps of None \<Rightarrow> sig = NULL | Some xs \<Rightarrow> list_at m2 sig xs"
    using alloc_signature [of m1 ps] 1(2) assms(3,5) d by (auto simp: steady_def)
  obtain q m3 where 3: "alloc_builtin (BUILTIN b) sig m2 = Some (q, m3)"
    "fresh_cell m2 q \<lparr>c_ar = W (ucast (BUILTIN b)), c_dr = sig, c_tag = TAG_BUILTIN\<rparr> m3"
    using alloc_builtin_ok [of m2 "BUILTIN b" sig] 1(2) 2(2) assms(3) by (auto simp: steady_def)
  note f3 = fresh_cell_steady [OF 3(2)]
  have g: "steady 5 m1 m3" "steady 6 m m3" using steady_trans [OF 2(2), of 1 m3] steady_trans [OF 1(2), of 5 m3] f3 by auto
  then have gr: "mem_grows m1 m3" by (simp add: steady_def)
  have sy: "get_cell m3 sy = Some c" using gr 1(4,6) by (simp add: mem_grows_def)
  have name: "read_cstr m3 (c_ar c) = Some (bs name)" by (rule read_cstr_grows [OF gr 1(5)])
  have "env_inv env m3" "env_abs env m3 = env_abs env m"
    using assms(1) env_inv_envs [of m3 m env] env_abs_envs [of m3 m env] f3 1(3) 2(3) by simp_all
  moreover have "length (bs name) < MAX_SYMBOL_SIZE" using assms(4) d by (simp add: name_ok_def)
  ultimately obtain env' m' where 4: "insert_symbol sy q env m3 = Some (q, env', m')" "env_inv env' m'" "same_but_envs m3 m'"
    "env_abs env' m' = (env_abs env m)(bs name \<mapsto> q)"
    using insert_symbol_ok [OF _ sy name] by metis
  obtain E where E: "m' = m3\<lparr>envs := E\<rparr>" using 4(3) by (auto simp: same_but_envs_def)
  have "case ps of None \<Rightarrow> sig = NULL | Some xs \<Rightarrow> list_at m3 sig xs"
    using 2(4) list_at_ext f3 by (auto simp: steady_def split: option.splits)
  then have "installed env' m' d" using f3 4(4) by (auto simp: installed_def d E split: option.splits)
  moreover have "steady 6 m m'" using g(2) by (simp add: E steady_def mem_grows_def)
  moreover have "insert_builtin d (env, m) = Some (env', m')" using 1(1) 2(1) 3(1) 4(1) by (simp add: insert_builtin_def d)
  ultimately show ?thesis using 4(2,4) d by auto
qed

lemma insert_builtins_ok:
  assumes "env_inv env m" "alloc_inv m" "6 * length ds \<le> cells_left m" "\<forall>d \<in> set ds. name_ok (fst d) \<and> sig_ok (snd (snd d))"
    "distinct (map (bs \<circ> fst) ds)"
  shows "\<exists>env' m'. insert_builtins ds (env, m) = Some (env', m') \<and> env_inv env' m' \<and> steady (6 * length ds) m m'
    \<and> (\<forall>d \<in> set ds. installed env' m' d) \<and> (\<forall>x. x \<notin> set (map (bs \<circ> fst) ds) \<longrightarrow> env_abs env' m' x = env_abs env m x)"
  using assms
proof (induction ds arbitrary: env m)
  case Nil
  then show ?case by (simp add: steady_def)
next
  case (Cons d ds)
  obtain env1 m1 where 1: "insert_builtin d (env, m) = Some (env1, m1)" "env_inv env1 m1" "steady 6 m m1" "installed env1 m1 d"
    "\<forall>x. x \<noteq> bs (fst d) \<longrightarrow> env_abs env1 m1 x = env_abs env m x"
    using insert_builtin_ok [OF Cons.prems(1,2), of d] Cons.prems(3,4) by auto
  obtain env' m' where 2: "insert_builtins ds (env1, m1) = Some (env', m')" "env_inv env' m'" "steady (6 * length ds) m1 m'"
    "\<forall>d \<in> set ds. installed env' m' d" "\<forall>x. x \<notin> set (map (bs \<circ> fst) ds) \<longrightarrow> env_abs env' m' x = env_abs env1 m1 x"
    using Cons.IH [OF 1(2)] 1(3) Cons.prems(3-5) by (auto simp: steady_def)
  have "installed env' m' d"
    using installed_frame [OF 1(4), of m' env'] 2(3,5) Cons.prems(5) by (simp add: steady_def)
  then show ?case using 1 2 steady_trans [OF 1(3) 2(3)] by auto
qed

section \<open>Initialisation\<close>

definition has :: "mem \<Rightarrow> val \<Rightarrow> u64 \<Rightarrow> bool" where
  "has m p tg \<longleftrightarrow> p \<in> live m \<and> (\<exists>c. get_cell m p = Some c \<and> c_tag c = tg)"

lemma has_grows: "has m p tg \<Longrightarrow> mem_grows m m' \<Longrightarrow> has m' p tg"
  by (auto simp: has_def mem_grows_def)

definition makes :: "(mem \<Rightarrow> (val \<times> mem) option) \<Rightarrow> u64 \<Rightarrow> bool" where
  "makes f tg \<longleftrightarrow> (\<forall>m. alloc_inv m \<longrightarrow> 0 < cells_left m \<longrightarrow>
     (\<exists>p m'. f m = Some (p, m') \<and> steady 1 m m' \<and> envs m' = envs m \<and> has m' p tg))"

lemma makesD:
  "makes f tg \<Longrightarrow> steady k m0 m \<Longrightarrow> k < cells_left m0 \<Longrightarrow> j = Suc k \<Longrightarrow>
   \<exists>p m'. f m = Some (p, m') \<and> mem_grows m m' \<and> steady j m0 m' \<and> envs m' = envs m \<and> has m' p tg"
  using steady_trans [of k m0 m 1] unfolding makes_def by (fastforce simp: steady_def)

lemma fresh_makes:
  assumes "\<And>m. alloc_inv m \<Longrightarrow> 0 < cells_left m \<Longrightarrow> \<exists>p m' c. f m = Some (p, m') \<and> fresh_cell m p c m' \<and> c_tag c = tg"
  shows "makes f tg"
  using assms fresh_cell_steady unfolding makes_def has_def by meson

lemma makes_basic:
  "makes alloc_nil TAG_CONS" "makes (alloc_error e) TAG_ERROR" "makes (alloc_cons a d) TAG_CONS" "makes (alloc_int i) TAG_INT"
  by (rule fresh_makes, drule alloc_nil_ok alloc_error_ok alloc_cons_ok alloc_int_ok, assumption, force)+

lemma makes_proto: "makes (proto_cell tg) tg"
proof (rule fresh_makes)
  fix m assume m: "alloc_inv m" "0 < cells_left m"
  obtain p m1 d where 1: "alloc_int 0 m = Some (p, m1)" "fresh_cell m p \<lparr>c_ar = W (scast (0 :: u32)), c_dr = d, c_tag = TAG_INT\<rparr> m1"
    using alloc_int_ok [OF m] by blast
  then have "alloc_inv m1" "p \<in> live m1" by (auto simp: fresh_cell_def)
  from cs.upd_used [OF this, of "\<lambda>c. c\<lparr>c_tag := tg\<rparr>"] obtain c m2 where 2: "get_cell m1 p = Some c"
    "upd_cell p (\<lambda>c. c\<lparr>c_tag := tg\<rparr>) m1 = Some m2" "alloc_inv m2" "live m2 = live m1" "get_cell m2 p = Some (c\<lparr>c_tag := tg\<rparr>)" by blast
  have "\<forall>q \<in> live m. get_cell m2 q = get_cell m q"
    using 1(2) cs.upd_get_other [OF 2(2)] unfolding fresh_cell_def by metis
  then have "fresh_cell m p (c\<lparr>c_tag := tg\<rparr>) m2"
    using 1(2) 2 cs.upd_get_other [OF 2(2)] upd_cell_other [OF 2(2)] by (auto simp: fresh_cell_def same_rest_def)
  then show "\<exists>p m' c. proto_cell tg m = Some (p, m') \<and> fresh_cell m p c m' \<and> c_tag c = tg"
    using 1(1) 2(2) by (force simp: proto_cell_def)
qed

lemma makes_sym: "name_ok name \<Longrightarrow> makes (alloc_sym (Some (bs name))) TAG_SYM"
  using alloc_sym_named unfolding makes_def has_def by blast

lemma makes_string: "length s < 64 \<Longrightarrow> makes (alloc_string_copy s) TAG_STR"
  unfolding makes_def has_def
proof (intro allI impI)
  fix m assume "length s < 64" "alloc_inv m" "0 < cells_left m"
  then show "\<exists>p m'. alloc_string_copy s m = Some (p, m') \<and> steady 1 m m' \<and> envs m' = envs m \<and> p \<in> live m' \<and> (\<exists>c. get_cell m' p = Some c \<and> c_tag c = TAG_STR)"
    using alloc_string_copy_ok [of m s] fresh_bytes_steady by fastforce
qed

definition protos_ok :: "mem \<Rightarrow> prototypes \<Rightarrow> bool" where
  "protos_ok m p \<longleftrightarrow> has m (prototype_nil p) TAG_CONS \<and> has m (prototype_type_error p) TAG_ERROR \<and> has m (consed_type_error p) TAG_CONS
     \<and> has m (prototype_any p) TAG_ANY \<and> has m (prototype_void p) TAG_VOID \<and> has m (prototype_symbol p) TAG_SYM
     \<and> has m (prototype_int p) TAG_INT \<and> has m (prototype_struct p) TAG_STRUCT \<and> has m (prototype_struct_def p) TAG_STRUCT_DEF
     \<and> has m (prototype_stream p) TAG_STREAM \<and> has m (prototype_string p) TAG_STR \<and> has m (prototype_lambda p) TAG_LAMBDA
     \<and> has m (prototype_cons p) TAG_CONS"

lemma protos_ok_grows: "protos_ok m p \<Longrightarrow> mem_grows m m' \<Longrightarrow> protos_ok m' p"
  by (auto simp: protos_ok_def intro: has_grows)

lemma make_prototypes_ok:
  assumes "alloc_inv m" "15 \<le> cells_left m"
  shows "\<exists>p m'. make_prototypes m = Some (p, m') \<and> steady 15 m m' \<and> envs m' = envs m \<and> protos_ok m' p"
proof -
  have s0: "steady 0 m m" using assms(1) by (simp add: steady_def)
  have sy: "makes (alloc_sym (Some (bs ''symbol''))) TAG_SYM" by (rule makes_sym) (simp add: name_ok_def MAX_SYMBOL_SIZE_def)
  have st: "makes (alloc_string_copy (bs ''string'')) TAG_STR" by (rule makes_string) simp
  obtain p1 m1 where s1: "alloc_nil m = Some (p1, m1)" "mem_grows m m1" "steady 1 m m1" "envs m1 = envs m" "has m1 p1 TAG_CONS"
    using makesD [OF makes_basic(1) s0, of 1] assms(2) by auto
  obtain p2 m2 where s2: "alloc_error ERR_INVALID_PARAM_TYPE m1 = Some (p2, m2)" "mem_grows m1 m2" "steady 2 m m2" "envs m2 = envs m1" "has m2 p2 TAG_ERROR"
    using makesD [OF makes_basic(2) [of ERR_INVALID_PARAM_TYPE] s1(3), of 2] assms(2) by auto
  obtain p3 m3 where s3: "alloc_cons p2 p1 m2 = Some (p3, m3)" "mem_grows m2 m3" "steady 3 m m3" "envs m3 = envs m2" "has m3 p3 TAG_CONS"
    using makesD [OF makes_basic(3) [of p2 p1] s2(3), of 3] assms(2) by auto
  obtain p4 m4 where s4: "proto_cell TAG_ANY m3 = Some (p4, m4)" "mem_grows m3 m4" "steady 4 m m4" "envs m4 = envs m3" "has m4 p4 TAG_ANY"
    using makesD [OF makes_proto [of TAG_ANY] s3(3), of 4] assms(2) by auto
  obtain p5 m5 where s5: "proto_cell TAG_VOID m4 = Some (p5, m5)" "mem_grows m4 m5" "steady 5 m m5" "envs m5 = envs m4" "has m5 p5 TAG_VOID"
    using makesD [OF makes_proto [of TAG_VOID] s4(3), of 5] assms(2) by auto
  obtain p6 m6 where s6: "alloc_sym (Some (bs ''symbol'')) m5 = Some (p6, m6)" "mem_grows m5 m6" "steady 6 m m6" "envs m6 = envs m5" "has m6 p6 TAG_SYM"
    using makesD [OF sy s5(3), of 6] assms(2) by auto
  obtain p7 m7 where s7: "alloc_int 0 m6 = Some (p7, m7)" "mem_grows m6 m7" "steady 7 m m7" "envs m7 = envs m6" "has m7 p7 TAG_INT"
    using makesD [OF makes_basic(4) [of 0] s6(3), of 7] assms(2) by auto
  obtain p8 m8 where s8: "proto_cell TAG_STRUCT m7 = Some (p8, m8)" "mem_grows m7 m8" "steady 8 m m8" "envs m8 = envs m7" "has m8 p8 TAG_STRUCT"
    using makesD [OF makes_proto [of TAG_STRUCT] s7(3), of 8] assms(2) by auto
  obtain p9 m9 where s9: "proto_cell TAG_STRUCT_DEF m8 = Some (p9, m9)" "mem_grows m8 m9" "steady 9 m m9" "envs m9 = envs m8" "has m9 p9 TAG_STRUCT_DEF"
    using makesD [OF makes_proto [of TAG_STRUCT_DEF] s8(3), of 9] assms(2) by auto
  obtain p10 m10 where s10: "proto_cell TAG_STREAM m9 = Some (p10, m10)" "mem_grows m9 m10" "steady 10 m m10" "envs m10 = envs m9" "has m10 p10 TAG_STREAM"
    using makesD [OF makes_proto [of TAG_STREAM] s9(3), of 10] assms(2) by auto
  obtain p11 m11 where s11: "alloc_string_copy (bs ''string'') m10 = Some (p11, m11)" "mem_grows m10 m11" "steady 11 m m11" "envs m11 = envs m10" "has m11 p11 TAG_STR"
    using makesD [OF st s10(3), of 11] assms(2) by auto
  obtain p12 m12 where s12: "proto_cell TAG_LAMBDA m11 = Some (p12, m12)" "mem_grows m11 m12" "steady 12 m m12" "envs m12 = envs m11" "has m12 p12 TAG_LAMBDA"
    using makesD [OF makes_proto [of TAG_LAMBDA] s11(3), of 12] assms(2) by auto
  obtain p13 m13 where s13: "alloc_nil m12 = Some (p13, m13)" "mem_grows m12 m13" "steady 13 m m13" "envs m13 = envs m12" "has m13 p13 TAG_CONS"
    using makesD [OF makes_basic(1) s12(3), of 13] assms(2) by auto
  obtain p14 m14 where s14: "alloc_nil m13 = Some (p14, m14)" "mem_grows m13 m14" "steady 14 m m14" "envs m14 = envs m13" "has m14 p14 TAG_CONS"
    using makesD [OF makes_basic(1) s13(3), of 14] assms(2) by auto
  obtain p15 m15 where s15: "alloc_cons p13 p14 m14 = Some (p15, m15)" "mem_grows m14 m15" "steady 15 m m15" "envs m15 = envs m14" "has m15 p15 TAG_CONS"
    using makesD [OF makes_basic(3) [of p13 p14] s14(3), of 15] assms(2) by auto
  note g14 = s15(2)
  note g13 = mem_grows_trans [OF s14(2) g14]
  note g12 = mem_grows_trans [OF s13(2) g13]
  note g11 = mem_grows_trans [OF s12(2) g12]
  note g10 = mem_grows_trans [OF s11(2) g11]
  note g9 = mem_grows_trans [OF s10(2) g10]
  note g8 = mem_grows_trans [OF s9(2) g9]
  note g7 = mem_grows_trans [OF s8(2) g8]
  note g6 = mem_grows_trans [OF s7(2) g7]
  note g5 = mem_grows_trans [OF s6(2) g6]
  note g4 = mem_grows_trans [OF s5(2) g5]
  note g3 = mem_grows_trans [OF s4(2) g4]
  note g2 = mem_grows_trans [OF s3(2) g3]
  note g1 = mem_grows_trans [OF s2(2) g2]
  show ?thesis
    unfolding make_prototypes_def protos_ok_def
    using s1(1,4) s2(1,4) s3(1,4) s4(1,4) s5(1,4) s6(1,4) s7(1,4) s8(1,4) s9(1,4) s10(1,4) s11(1,4) s12(1,4) s13(1,4) s14(1,4) s15(1,3-5)
      has_grows [OF s1(5) g1] has_grows [OF s2(5) g2] has_grows [OF s3(5) g3] has_grows [OF s4(5) g4] has_grows [OF s5(5) g5] has_grows [OF s6(5) g6] has_grows [OF s7(5) g7] has_grows [OF s8(5) g8] has_grows [OF s9(5) g9] has_grows [OF s10(5) g10] has_grows [OF s11(5) g11] has_grows [OF s12(5) g12] has_grows [OF s13(5) g13] has_grows [OF s14(5) g14]
    by simp
qed

lemma builtin_table_ok:
  "\<forall>d \<in> set (builtin_table p). name_ok (fst d) \<and> sig_ok (snd (snd d))" "length (builtin_table p) = 53"
  "distinct (map (bs \<circ> fst) (builtin_table p))" "bs ''nil'' \<notin> set (map (bs \<circ> fst) (builtin_table p))"
  "bs ''type_error'' \<notin> set (map (bs \<circ> fst) (builtin_table p))"
  by (simp_all add: builtin_table_def Let_def name_ok_def sig_ok_def MAX_SYMBOL_SIZE_def)

text \<open>Binding a new symbol to a cell, as \<open>init_compiler\<close> does for \<open>nil\<close> and \<open>type_error\<close>.\<close>

lemma bind_name:
  assumes "env_inv env m" "alloc_inv m" "0 < cells_left m" "name_ok name"
  shows "\<exists>sy m1 env' m'. alloc_sym (Some (bs name)) m = Some (sy, m1) \<and> insert_symbol sy cell env m1 = Some (cell, env', m')
    \<and> env_inv env' m' \<and> steady 1 m m' \<and> env_abs env' m' = (env_abs env m)(bs name \<mapsto> cell)"
proof -
  obtain sy m1 c where 1: "alloc_sym (Some (bs name)) m = Some (sy, m1)" "steady 1 m m1" "envs m1 = envs m"
    "get_cell m1 sy = Some c" "read_cstr m1 (c_ar c) = Some (bs name)"
    using alloc_sym_named [OF assms(2-4)] by blast
  have "env_inv env m1" "length (bs name) < MAX_SYMBOL_SIZE" using assms(1,4) env_inv_envs [OF 1(3)] by (simp_all add: name_ok_def)
  from insert_symbol_ok [OF this(1) 1(4,5) this(2), of cell] obtain env' m' where
    2: "insert_symbol sy cell env m1 = Some (cell, env', m')" "env_inv env' m'" "same_but_envs m1 m'"
    "env_abs env' m' = (env_abs env m1)(bs name \<mapsto> cell)" by blast
  moreover have "steady 1 m m'" using 1(2) 2(3) by (auto simp: same_but_envs_def steady_def mem_grows_def)
  ultimately show ?thesis using 1(1) env_abs_envs [OF 1(3)] by simp
qed

lemma init_compiler_ok:
  "\<exists>p env m'. init_compiler m = Some (p, env, m') \<and> env_inv env m' \<and> alloc_inv m' \<and> protos_ok m' p \<and> MAX_CELLS \<le> cells_left m' + 335
    \<and> (\<forall>d \<in> set (builtin_table p). installed env m' d)
    \<and> env_abs env m' (bs ''nil'') = Some (prototype_nil p) \<and> env_abs env m' (bs ''type_error'') = Some (consed_type_error p)"
proof -
  let ?m = "init_allocator m"
  have 0: "alloc_inv ?m" "cells_left ?m = MAX_CELLS" using alloc_inv_mem0 by blast+
  have M: "MAX_CELLS = 100000" by (simp add: MAX_CELLS_def)
  obtain env0 :: "val strmap" where e0: "sm_new True True 1000 = Some env0" by (simp add: sm_new_def)
  then have i0: "env_inv env0 m'" for m' using sm_new_inv [OF _ e0] by (simp add: env_inv_def)
  obtain p m1 where 1: "make_prototypes ?m = Some (p, m1)" "steady 15 ?m m1" "protos_ok m1 p"
    using make_prototypes_ok [OF 0(1)] 0(2) M by auto
  obtain sy env2 m2 m2' where 2: "alloc_sym (Some (bs ''nil'')) m1 = Some (sy, m2')" "insert_symbol sy (prototype_nil p) env0 m2' = Some (prototype_nil p, env2, m2)"
    "env_inv env2 m2" "steady 1 m1 m2" "env_abs env2 m2 = (env_abs env0 m1)(bs ''nil'' \<mapsto> prototype_nil p)"
    using bind_name [OF i0, of m1 "''nil''" "prototype_nil p"] 1(2) 0 M by (auto simp: steady_def name_ok_def MAX_SYMBOL_SIZE_def)
  obtain sy2 env3 m3 m3' where 3: "alloc_sym (Some (bs ''type_error'')) m2 = Some (sy2, m3')"
    "insert_symbol sy2 (consed_type_error p) env2 m3' = Some (consed_type_error p, env3, m3)"
    "env_inv env3 m3" "steady 1 m2 m3" "env_abs env3 m3 = (env_abs env2 m2)(bs ''type_error'' \<mapsto> consed_type_error p)"
    using bind_name [OF 2(3), of "''type_error''" "consed_type_error p"] 1(2) 2(4) 0 M by (auto simp: steady_def name_ok_def MAX_SYMBOL_SIZE_def)
  have s3: "steady 17 ?m m3" using steady_trans [OF steady_trans [OF 1(2) 2(4)] 3(4)] by simp
  obtain env4 m4 where 4: "insert_builtins (builtin_table p) (env3, m3) = Some (env4, m4)" "env_inv env4 m4" "steady 318 m3 m4"
    "\<forall>d \<in> set (builtin_table p). installed env4 m4 d"
    "\<forall>x. x \<notin> set (map (bs \<circ> fst) (builtin_table p)) \<longrightarrow> env_abs env4 m4 x = env_abs env3 m3 x"
    using insert_builtins_ok [OF 3(3), of "builtin_table p"] builtin_table_ok [of p] s3 0 M by (auto simp: steady_def)
  have s4: "steady 335 ?m m4" using steady_trans [OF s3 4(3)] by simp
  have "protos_ok m4 p" using 1(3) 2(4) 3(4) 4(3) protos_ok_grows unfolding steady_def by blast
  moreover have "env_abs env4 m4 (bs ''nil'') = Some (prototype_nil p)" "env_abs env4 m4 (bs ''type_error'') = Some (consed_type_error p)"
    using 4(5) builtin_table_ok(4,5) [of p] 2(5) 3(5) by simp_all
  moreover have "init_compiler m = Some (p, env4, m4)"
    using e0 1(1) 2(1,2) 3(1,2) 4(1) by (simp add: init_compiler_def Let_def)
  ultimately show ?thesis using 4(2,4) s4 0(2) by (auto simp: steady_def)
qed

section \<open>Properties\<close>

lemma lookup_global_spec:
  assumes "env_inv env m"
  shows "case env_abs env m y of
      None \<Rightarrow> lookup_global_symbol env y = Some NULL
    | Some c \<Rightarrow> \<exists>e ent. lookup_global_symbol env y = Some e \<and> e \<noteq> NULL \<and> as_env m e = Some ent \<and> e_cell ent = c"
proof (cases "env_abs env m y")
  case None
  then have "sm_abs env y = None" using env_inv_entry [OF assms, of y] by (cases "sm_abs env y") (auto simp: env_abs_def)
  then show ?thesis using None sm_get_abs [of env y] assms by (simp add: lookup_global_symbol_def env_inv_def)
next
  case (Some c)
  then show ?thesis using lookup_global_abs [OF assms Some] by simp
qed

text \<open>
  C7. The global environment implements a map from names to cells. Inserting a symbol of fewer than 64 bytes sets that
  name and no other, whether the name is new or already bound, changes nothing in the memory but the entries, and keeps the
  environment well formed; a lookup finds the entry of exactly the names that are bound.
\<close>

theorem global_env_refines_map:
  assumes "env_inv env m" "get_cell m symbol = Some sc" "read_cstr m (c_ar sc) = Some x" "length x < MAX_SYMBOL_SIZE"
  shows "\<exists>env' m'. insert_symbol symbol cell env m = Some (cell, env', m') \<and> env_inv env' m' \<and> same_but_envs m m'
    \<and> env_abs env' m' = (env_abs env m)(x \<mapsto> cell)
    \<and> (\<forall>y. case env_abs env' m' y of
        None \<Rightarrow> lookup_global_symbol env' y = Some NULL
      | Some c \<Rightarrow> \<exists>e ent. lookup_global_symbol env' y = Some e \<and> e \<noteq> NULL \<and> as_env m' e = Some ent \<and> e_cell ent = c)"
  using insert_symbol_ok [OF assms, of cell] lookup_global_spec by blast

definition empty_env :: "val strmap" where
  "empty_env = \<lparr>buckets = replicate 1000 []\<rparr>"

lemma empty_env_inv: "env_inv empty_env m" "env_abs empty_env m = Map.empty"
proof -
  have "sm_new True True 1000 = Some empty_env" by (simp add: sm_new_def empty_env_def)
  from sm_new_inv [OF _ this] have "sm_inv empty_env" "sm_abs empty_env = Map.empty" by simp_all
  then show "env_inv empty_env m" "env_abs empty_env m = Map.empty" by (simp_all add: env_inv_def env_abs_def fun_eq_iff)
qed

theorem global_env_refines_map_witness:
  "\<exists>env' m'. insert_symbol (cellp 1) (cellp 2) empty_env sample_mem = Some (cellp 2, env', m')
     \<and> env_abs env' m' = [[97, 98] \<mapsto> cellp 2] \<and> lookup_global_symbol env' [97] = Some NULL"
proof -
  obtain sc where sc: "get_cell sample_mem (cellp 1) = Some sc" "read_cstr sample_mem (c_ar sc) = Some [97, 98]"
    using read_cstr_text [OF sample_mem_facts(4)] by blast
  have "length ([97, 98] :: cstr) < MAX_SYMBOL_SIZE" by (simp add: MAX_SYMBOL_SIZE_def)
  from global_env_refines_map [OF empty_env_inv(1) sc this, of "cellp 2"] obtain env' m' where
    "insert_symbol (cellp 1) (cellp 2) empty_env sample_mem = Some (cellp 2, env', m')" "env_abs env' m' = [[97, 98] \<mapsto> cellp 2]"
    "case env_abs env' m' [97] of None \<Rightarrow> lookup_global_symbol env' [97] = Some NULL | Some c \<Rightarrow> True"
    unfolding empty_env_inv(2) by (fastforce split: option.splits)
  then show ?thesis by auto
qed

text \<open>
  C36. A new name of 64 bytes or more is refused: \<open>insert_symbol\<close> prints by how many bytes the name, with its NUL, is too long, binds
  nothing, and returns a new empty list instead of the value. The caller gets no sign of the failure but this list.
\<close>

theorem long_symbol_refused:
  assumes "env_inv env m" "get_cell m symbol = Some sc" "read_cstr m (c_ar sc) = Some x" "MAX_SYMBOL_SIZE \<le> length x"
    "env_abs env m x = None" "alloc_inv m" "0 < cells_left m"
  shows "\<exists>p m'. insert_symbol_out symbol cell env m
      = Some (bs ''[insert_symbol] max symbol size exceeded by '' @ show_nat (length x - 63) @ [10], p, env, m')
    \<and> insert_symbol symbol cell env m = Some (p, env, m') \<and> sexp_at m' p SNil \<and> env_inv env m' \<and> env_abs env m' = env_abs env m"
  using insert_symbol_refused [OF assms, of cell] by (auto simp: insert_symbol_def)

theorem long_symbol_refused_witness:
  "\<exists>symbol m p m'. alloc_sym (Some (replicate 64 97)) (init_allocator mem0) = Some (symbol, m)
     \<and> insert_symbol_out symbol symbol empty_env m = Some (bs ''[insert_symbol] max symbol size exceeded by 1'' @ [10], p, empty_env, m')
     \<and> env_abs empty_env m' (replicate 64 97) = None"
proof -
  let ?x = "replicate 64 97 :: cstr" and ?m = "init_allocator mem0"
  have m: "alloc_inv ?m" "0 < cells_left ?m" "2 \<le> cells_left ?m" using alloc_inv_mem0 [of mem0] by (simp_all add: MAX_CELLS_def)
  obtain p m' where p: "alloc_sym (Some ?x) ?m = Some (p, m')"
    "fresh_bytes ?m p \<lparr>c_ar = bytesp (length (blocks ?m)), c_dr = W (of_nat (length ?x + 1)), c_tag = TAG_SYM\<rparr> (?x @ [0, 0]) m'"
    using alloc_sym_ok [OF m(1,2), of ?x] by auto
  note f = fresh_bytes_steady [OF p(2)]
  have "read_cstr m' (bytesp (length (blocks ?m))) = Some ?x"
    using fresh_bytes_block [OF p(2)] c_str_append_nul [of ?x "[0]"] by (simp add: read_cstr_def)
  moreover have "get_cell m' p = Some \<lparr>c_ar = bytesp (length (blocks ?m)), c_dr = W (of_nat (length ?x + 1)), c_tag = TAG_SYM\<rparr>"
    using p(2) by (simp add: fresh_bytes_def fresh_cell_def)
  moreover have "alloc_inv m'" "0 < cells_left m'" using f m(3) by (auto simp: steady_def)
  ultimately obtain q m2 where
    "insert_symbol_out p p empty_env m' = Some (bs ''[insert_symbol] max symbol size exceeded by '' @ show_nat (length ?x - 63) @ [10], q, empty_env, m2)"
    "env_abs empty_env m2 = env_abs empty_env m'"
    using long_symbol_refused [OF empty_env_inv(1), of m' p _ ?x p] by (auto simp: MAX_SYMBOL_SIZE_def empty_env_inv(2))
  moreover have "show_nat (length ?x - 63) = bs ''1''" by (simp add: show_nat.simps digit_char_def)
  ultimately have "insert_symbol_out p p empty_env m' = Some (bs ''[insert_symbol] max symbol size exceeded by 1'' @ [10], q, empty_env, m2)"
    "env_abs empty_env m2 ?x = None" by (simp_all add: empty_env_inv(2))
  then show ?thesis using p(1) by blast
qed

text \<open>
  C6. \<open>init_compiler\<close> always succeeds and establishes the state the compiler works on: a well-formed allocator and environment,
  every prototype cell with the tag the compiler tests for, every builtin of the table bound to a cell with its number and its
  signature, and \<open>nil\<close> and \<open>type_error\<close>. It takes at most 335 of the 100000 cells.
\<close>

theorem init_compiler_establishes:
  "\<exists>p env m'. init_compiler m = Some (p, env, m') \<and> env_inv env m' \<and> alloc_inv m' \<and> protos_ok m' p \<and> MAX_CELLS \<le> cells_left m' + 335
    \<and> (\<forall>d \<in> set (builtin_table p). installed env m' d)
    \<and> env_abs env m' (bs ''nil'') = Some (prototype_nil p) \<and> env_abs env m' (bs ''type_error'') = Some (consed_type_error p)"
  by (rule init_compiler_ok)

theorem init_compiler_establishes_witness:
  "\<exists>p env m'. init_compiler mem0 = Some (p, env, m') \<and> installed env m' (''+'', ''ADD'', Some [prototype_int p, prototype_int p])"
  using init_compiler_establishes [of mem0] by (fastforce simp: builtin_table_def Let_def)

end
