(* ===== verification/Reading.thy ===== *)
theory Reading
  imports Reader
begin

text \<open>
  Correctness of the reader. The invariant of the character state machine (\<open>at_slot\<close>, \<open>pending\<close>, \<open>pending_text\<close>)
  relates its state to the structure under construction; a grammar of texts (\<open>atom_text\<close>, \<open>reads\<close>) says which structure
  a text stands for; rule induction over the grammar shows that the reader builds it (\<open>reads_ok\<close>).
\<close>

section \<open>Running the state machine\<close>

lemma read_chars_append:
  "read_chars xs rs m = Some (rs1, m1) \<Longrightarrow> \<not> is_error (rs_state rs1) \<Longrightarrow>
   read_chars (xs @ ys) rs m = read_chars ys rs1 m1"
  by (induction xs arbitrary: rs m) (auto split: bind_splits if_splits)

lemma bind_triple: "Option.bind x (\<lambda>(a, b, c). Some (f a b c)) = map_option (\<lambda>(a, b, c). f a b c) x"
  by (cases x) auto

text \<open>One character from a state that has a current cell.\<close>

lemma read_char_step:
  "rs_cell rs \<noteq> NULL \<Longrightarrow> read_char c rs m =
     map_option (\<lambda>(cell, rs, m). (rs\<lparr>rs_cell := cell\<rparr>, m))
       (case rs_state rs of
          PST_ATOM \<Rightarrow> read_atom c (rs_cell rs) rs m
        | PST_COMMENT \<Rightarrow> Some (rs_cell rs, if c = 10 \<or> c = 0 then rs\<lparr>rs_state := PST_ATOM\<rparr> else rs, m)
        | PST_NUM \<Rightarrow> read_num c (rs_cell rs) rs m
        | PST_NUM_NEG \<Rightarrow> read_num c (rs_cell rs) rs m
        | PST_SYM \<Rightarrow> read_sym_or_str c (rs_cell rs) rs m
        | PST_STR \<Rightarrow> read_sym_or_str c (rs_cell rs) rs m
        | PST_BYTES \<Rightarrow> read_hex_bytes c (rs_cell rs) rs m
        | _ \<Rightarrow> Some (rs_cell rs, rs, m))"
  by (simp add: read_char_def bind_triple)

section \<open>Changes of the memory\<close>

text \<open>Nothing of the memory changes but the cell \<open>c\<close>, and new cells and blocks.\<close>

definition grows_but :: "mem \<Rightarrow> val \<Rightarrow> mem \<Rightarrow> bool" where
  "grows_but m c m' \<longleftrightarrow> alloc_inv m' \<and> live m \<subseteq> live m' \<and> (\<forall>q \<in> live m - {c}. get_cell m' q = get_cell m q)
     \<and> prefix (blocks m) (blocks m') \<and> envs m' = envs m \<and> vecs m' = vecs m"

lemma grows_but_refl [simp]: "alloc_inv m \<Longrightarrow> grows_but m c m"
  by (simp add: grows_but_def)

lemma grows_but_trans:
  "grows_but m c m1 \<Longrightarrow> grows_but m1 c1 m2 \<Longrightarrow> c1 = c \<or> c1 \<notin> live m \<Longrightarrow> grows_but m c m2"
  unfolding grows_but_def by (metis (no_types, lifting) DiffD1 DiffD2 DiffI prefix_order.trans singletonD subsetD subsetI)

lemma fresh_cell_grows: "fresh_cell m p x m' \<Longrightarrow> grows_but m c m'"
  by (auto simp: fresh_cell_def grows_but_def same_rest_def)

lemma fresh_bytes_grows: "fresh_bytes m p x blk m' \<Longrightarrow> grows_but m c m'"
  by (auto simp: fresh_bytes_def fresh_cell_def grows_but_def same_rest_def)

text \<open>Overwriting a cell in use.\<close>

lemma upd_cell_grows:
  assumes "alloc_inv m" "p \<in> live m"
  obtains x m' where "get_cell m p = Some x" "upd_cell p f m = Some m'" "grows_but m p m'" "get_cell m' p = Some (f x)"
    "live m' = live m" "blocks m' = blocks m" "cells_left m' = cells_left m" "alloc_inv m'" "\<forall>q. q \<noteq> p \<longrightarrow> get_cell m' q = get_cell m q"
proof -
  obtain x m' where u: "get_cell m p = Some x" "upd_cell p f m = Some m'" "alloc_inv m'" "live m' = live m" "get_cell m' p = Some (f x)"
    "blocks m' = blocks m" "vecs m' = vecs m" "cells_left m' = cells_left m" "\<forall>q. q \<noteq> p \<longrightarrow> get_cell m' q = get_cell m q"
    using upd_cell_keeps [OF assms] by metis
  moreover have "envs m' = envs m" using upd_cell_other [OF u(2)] by (simp add: same_rest_def)
  ultimately show ?thesis using that by (simp add: grows_but_def)
qed

section \<open>The pieces of a text\<close>

text \<open>An empty place at the end of a list under construction.\<close>

definition empty_slot :: "mem \<Rightarrow> val \<Rightarrow> val \<Rightarrow> bool" where
  "empty_slot m c d \<longleftrightarrow> c \<in> live m \<and> get_cell m c = Some \<lparr>c_ar = NULL, c_dr = d, c_tag = TAG_CONS\<rparr>"

text \<open>The place \<open>c\<close> of \<open>m\<close> has been filled with \<open>s\<close>, made of new cells and blocks other than \<open>E\<close>.\<close>

definition filled :: "mem \<Rightarrow> val \<Rightarrow> sexp \<Rightarrow> val \<Rightarrow> val set \<Rightarrow> mem \<Rightarrow> bool" where
  "filled m c s d E m' \<longleftrightarrow> grows_but m c m' \<and>
     (\<exists>p. get_cell m' c = Some \<lparr>c_ar = p, c_dr = d, c_tag = TAG_CONS\<rparr> \<and> sexp_on (live m' - live m - E) (length (blocks m)) m' p s)"

lemma sexp_on_grows:
  assumes "sexp_on D nb m1 p s" "grows_but m1 c m2" "c \<notin> D" "D \<subseteq> live m1"
  shows "sexp_on D nb m2 p s"
  using assms by (intro sexp_on_frame [OF assms(1)]) (auto simp: grows_but_def)

lemma filled_frame:
  assumes "filled m c s d E m1" "grows_but m1 c1 m2" "c1 = c \<or> c1 \<notin> live m" "c1 \<notin> live m1 - live m - E" "E' \<inter> (live m1 - E) = {}"
    "get_cell m2 c = Some \<lparr>c_ar = p, c_dr = d', c_tag = TAG_CONS\<rparr>" "sexp_on (live m1 - live m - E) (length (blocks m)) m1 p s"
  shows "filled m c s d' E' m2"
proof -
  have "sexp_on (live m1 - live m - E) (length (blocks m)) m2 p s"
    using assms by (intro sexp_on_grows [OF assms(7,2)]) auto
  moreover have "live m1 - live m - E \<subseteq> live m2 - live m - E'"
    using assms(2,5) by (auto simp: grows_but_def)
  ultimately have "sexp_on (live m2 - live m - E') (length (blocks m)) m2 p s"
    by (rule sexp_on_mono) simp
  then show ?thesis
    using grows_but_trans [of m c m1 c1 m2] assms unfolding filled_def by auto
qed

text \<open>The end of an element: a new empty place is linked in behind it.\<close>

lemma next_list_cell_ok:
  assumes f: "filled m c s d {} m1" and "c \<in> live m" "0 < cells_left m1"
  shows "\<exists>n m2. reader_next_list_cell c rs m1 = Some (n, rs\<lparr>rs_state := PST_ATOM\<rparr>, m2) \<and> filled m c s n {n} m2
    \<and> empty_slot m2 n NULL \<and> n \<in> live m2 - live m \<and> cells_left m2 = cells_left m1 - 1"
proof -
  obtain p where p: "get_cell m1 c = Some \<lparr>c_ar = p, c_dr = d, c_tag = TAG_CONS\<rparr>" "sexp_on (live m1 - live m) (length (blocks m)) m1 p s"
    and g: "grows_but m c m1" using f by (auto simp: filled_def)
  have i: "alloc_inv m1" "c \<in> live m1" using g assms(2) by (auto simp: grows_but_def)
  obtain n m' where n: "alloc_nil m1 = Some (n, m')" "fresh_cell m1 n \<lparr>c_ar = NULL, c_dr = NULL, c_tag = TAG_CONS\<rparr> m'"
    using alloc_nil_ok [OF i(1) assms(3)] by blast
  then have n': "alloc_inv m'" "c \<in> live m'" "n \<notin> live m1" "live m' = insert n (live m1)" "cells_left m' = cells_left m1 - 1"
    "get_cell m' n = Some \<lparr>c_ar = NULL, c_dr = NULL, c_tag = TAG_CONS\<rparr>" "get_cell m' c = get_cell m1 c"
    using i by (auto simp: fresh_cell_def)
  obtain x m2 where u: "get_cell m' c = Some x" "upd_cell c (\<lambda>c. c\<lparr>c_dr := n\<rparr>) m' = Some m2" "grows_but m' c m2"
    "get_cell m2 c = Some (x\<lparr>c_dr := n\<rparr>)" "live m2 = live m'" "cells_left m2 = cells_left m'" "\<forall>q. q \<noteq> c \<longrightarrow> get_cell m2 q = get_cell m' q"
    using upd_cell_grows [OF n'(1,2), of "\<lambda>c. c\<lparr>c_dr := n\<rparr>"] by metis
  have g2: "grows_but m1 c m2" by (rule grows_but_trans [OF fresh_cell_grows [OF n(2)] u(3)]) simp
  have "n \<noteq> c" "n \<notin> live m" using n'(3) i(2) g by (auto simp: grows_but_def)
  moreover have "filled m c s n {n} m2"
    by (rule filled_frame [OF f g2, where p = p]) (use u(1,4) n'(3,7) p assms(2) in auto)
  ultimately show ?thesis
    using n(1) u n' by (auto simp: reader_next_list_cell_def empty_slot_def)
qed


section \<open>Numbers\<close>

text \<open>The value of a sequence of digits in a base, modulo \<open>2 ^ 64\<close> as the reader computes it.\<close>

definition num_value :: "u64 \<Rightarrow> u64 \<Rightarrow> byte list \<Rightarrow> u64" where
  "num_value b = foldl (\<lambda>v c. v * b + ucast (c - 48))"

abbreviation dec_value :: "u64 \<Rightarrow> byte list \<Rightarrow> u64" where
  "dec_value \<equiv> num_value 10"

definition base_of :: "vst \<Rightarrow> u64" where
  "base_of vs = (if vs = VST_HEX then 16 else 10)"

text \<open>A cell under construction: \<open>c\<close> points to the new cell \<open>n\<close>.\<close>

definition pending :: "mem \<Rightarrow> val \<Rightarrow> val \<Rightarrow> val \<Rightarrow> cell \<Rightarrow> mem \<Rightarrow> bool" where
  "pending m c d n x m' \<longleftrightarrow> grows_but m c m' \<and> c \<in> live m \<and> get_cell m' c = Some \<lparr>c_ar = n, c_dr = d, c_tag = TAG_CONS\<rparr>
     \<and> n \<in> live m' - live m \<and> get_cell m' n = Some x"

lemma pending_distinct: "pending m c d n x m' \<Longrightarrow> n \<noteq> c \<and> c \<noteq> NULL \<and> n \<noteq> NULL \<and> alloc_inv m' \<and> c \<in> live m'"
  by (auto simp: pending_def grows_but_def)

text \<open>The first character of an atom: a new cell is stored in the place \<open>c\<close>.\<close>

lemma place_cell:
  assumes "empty_slot m c d" "grows_but m c m1" "get_cell m1 c = get_cell m c" "n \<in> live m1 - live m" "get_cell m1 n = Some x"
  obtains m2 where "upd_cell c (\<lambda>x. x\<lparr>c_ar := n\<rparr>) m1 = Some m2" "pending m c d n x m2" "cells_left m2 = cells_left m1"
    "blocks m2 = blocks m1" "live m2 = live m1"
proof -
  have "alloc_inv m1" "c \<in> live m1" "n \<noteq> c" using assms by (auto simp: empty_slot_def grows_but_def)
  then obtain y m2 where u: "get_cell m1 c = Some y" "upd_cell c (\<lambda>x. x\<lparr>c_ar := n\<rparr>) m1 = Some m2" "grows_but m1 c m2"
    "get_cell m2 c = Some (y\<lparr>c_ar := n\<rparr>)" "live m2 = live m1" "blocks m2 = blocks m1" "cells_left m2 = cells_left m1"
    "\<forall>q. q \<noteq> c \<longrightarrow> get_cell m2 q = get_cell m1 q"
    using upd_cell_grows [of m1 c "\<lambda>x. x\<lparr>c_ar := n\<rparr>"] by metis
  have "grows_but m c m2" by (rule grows_but_trans [OF assms(2) u(3)]) simp
  then have "pending m c d n x m2"
    using u assms \<open>n \<noteq> c\<close> by (auto simp: pending_def empty_slot_def)
  with u that show ?thesis by blast
qed

text \<open>Overwriting the cell under construction.\<close>

lemma pending_upd:
  assumes "pending m c d n x m1"
  obtains m2 where "upd_cell n f m1 = Some m2" "pending m c d n (f x) m2" "cells_left m2 = cells_left m1" "blocks m2 = blocks m1"
    "live m2 = live m1"
proof -
  have p: "alloc_inv m1" "n \<in> live m1" "n \<noteq> c" "get_cell m1 n = Some x" using assms by (auto simp: pending_def grows_but_def)
  then obtain m2 where u: "upd_cell n f m1 = Some m2" "grows_but m1 n m2" "get_cell m2 n = Some (f x)" "live m2 = live m1"
    "blocks m2 = blocks m1" "cells_left m2 = cells_left m1" "\<forall>q. q \<noteq> n \<longrightarrow> get_cell m2 q = get_cell m1 q"
    using upd_cell_grows [of m1 n f] by (metis option.inject)
  have "grows_but m c m2" by (rule grows_but_trans [OF _ u(2)]) (use assms in \<open>auto simp: pending_def\<close>)
  with u assms p(3) that show ?thesis by (auto simp: pending_def)
qed

lemma pending_int_filled:
  "pending m c d n \<lparr>c_ar = W v, c_dr = e, c_tag = TAG_INT\<rparr> m' \<Longrightarrow> filled m c (SInt v) d {} m'"
  by (auto simp: pending_def filled_def)

lemma is_digit_facts: "is_digit c \<Longrightarrow> \<not> is_white c \<and> c \<noteq> 41 \<and> c \<noteq> 59 \<and> \<not> 97 \<le> c"
  by (auto simp: is_digit_def is_white_def word_le_nat_alt)

lemma read_digits:
  assumes "pending m c d n \<lparr>c_ar = W v, c_dr = e, c_tag = TAG_INT\<rparr> m1" "rs_cell rs = c"
    "rs_state rs = (if neg then PST_NUM_NEG else PST_NUM)" "list_all is_digit ds"
  shows "\<exists>m2. read_chars ds rs m1 = Some (rs, m2) \<and> cells_left m2 = cells_left m1
    \<and> pending m c d n \<lparr>c_ar = W (if neg then - num_value (base_of (rs_valuestate rs)) (- v) ds else num_value (base_of (rs_valuestate rs)) v ds), c_dr = e, c_tag = TAG_INT\<rparr> m2"
  using assms(1,4)
proof (induction ds arbitrary: v m1)
  case Nil
  then show ?case by (simp add: num_value_def)
next
  case (Cons a ds)
  let ?v = "if neg then v * base_of (rs_valuestate rs) - ucast (a - 48) else v * base_of (rs_valuestate rs) + ucast (a - 48)"
  obtain m2 where m2: "upd_cell n (\<lambda>y. y\<lparr>c_ar := W ?v\<rparr>) m1 = Some m2" "cells_left m2 = cells_left m1"
    "pending m c d n \<lparr>c_ar = W ?v, c_dr = e, c_tag = TAG_INT\<rparr> m2"
    using pending_upd [OF Cons.prems(1), of "\<lambda>y. y\<lparr>c_ar := W ?v\<rparr>"] by (metis cell.update_convs(1))
  have a: "is_digit a" "\<not> 97 \<le> a" using Cons.prems(2) is_digit_facts by auto
  have "read_char a rs m1 = Some (rs, m2)"
    using Cons.prems(1) pending_distinct [OF Cons.prems(1)] assms(2,3) m2(1) a
    by (cases neg; cases "rs_valuestate rs") (auto simp: read_char_step read_num_def pending_def Let_def base_of_def)
  moreover have "\<not> is_error (rs_state rs)" using assms(3) by (cases neg) auto
  moreover obtain m3 where "read_chars ds rs m2 = Some (rs, m3)" "cells_left m3 = cells_left m2"
    "pending m c d n \<lparr>c_ar = W (if neg then - num_value (base_of (rs_valuestate rs)) (- ?v) ds else num_value (base_of (rs_valuestate rs)) ?v ds), c_dr = e, c_tag = TAG_INT\<rparr> m3"
    using Cons.IH [OF m2(3)] Cons.prems(2) by auto
  ultimately show ?case
    using m2(2) by (cases neg) (auto simp: num_value_def algebra_simps)
qed

section \<open>Symbols and strings\<close>

lemma pending_blocks:
  "pending m c d n x m1 \<Longrightarrow> prefix (blocks m) bl \<Longrightarrow> pending m c d n x (m1\<lparr>blocks := bl\<rparr>)"
  by (simp add: pending_def grows_but_def)

text \<open>A text under construction in a block with room for one more character and a NUL.\<close>

definition pending_text :: "mem \<Rightarrow> val \<Rightarrow> val \<Rightarrow> val \<Rightarrow> u64 \<Rightarrow> byte list \<Rightarrow> mem \<Rightarrow> bool" where
  "pending_text m c d n tg s m' \<longleftrightarrow>
     (\<exists>b sz. pending m c d n \<lparr>c_ar = bytesp b, c_dr = W (of_nat sz), c_tag = tg\<rparr> m' \<and> length (blocks m) \<le> b \<and> b < length (blocks m')
        \<and> blocks m' ! b = s @ replicate (sz + 1 - length s) 0 \<and> length s + 2 \<le> sz \<and> (sz \<le> 2 * (length s + 1) \<or> sz = 32))"

lemma overlay_zeros: "off + k \<le> length z \<Longrightarrow> z = s @ replicate j 0 \<Longrightarrow> length s \<le> off \<Longrightarrow> overlay off (replicate k 0) z = z"
  by (rule nth_equalityI) (auto simp: nth_overlay nth_append)

lemma ucast_of_nat_u32 [simp]: "ucast (of_nat k :: u64) = (of_nat k :: u32)"
  by transfer simp

lemma grow_buffer_ok:
  assumes "pending m c d n \<lparr>c_ar = bytesp b, c_dr = W (of_nat sz), c_tag = tg\<rparr> m1" "length (blocks m) \<le> b" "b < length (blocks m1)"
    "blocks m1 ! b = s @ replicate (sz + 1 - length s) 0" "length s \<le> sz" "0 < sz" "sz < 2 ^ 30"
  shows "\<exists>m2. grow_buffer n m1 = Some m2 \<and> cells_left m2 = cells_left m1
    \<and> pending m c d n \<lparr>c_ar = bytesp (length (blocks m1)), c_dr = W (of_nat (2 * sz)), c_tag = tg\<rparr> m2
    \<and> blocks m2 = blocks m1 @ [s @ replicate (2 * sz + 1 - length s) 0]"
proof -
  define blk where "blk = s @ replicate (2 * sz + 1 - length s) 0"
  have w: "ucast (2 * of_nat sz :: u64) = (of_nat (2 * sz) :: u32)" using ucast_of_nat_u32 [of "2 * sz"] by simp
  have un: "unat (of_nat (2 * sz) + 1 :: u32) = 2 * sz + 1" "\<not> sint (of_nat (2 * sz) + 1 :: u32) < 0"
    using assms(7) unat_of_nat_Suc [of "2 * sz"] sint_small [of "of_nat (2 * sz) + 1 :: u32"] by simp_all
  have pm: "prefix (blocks m) (blocks m1)" using assms(1) by (auto simp: pending_def grows_but_def)
  let ?m = "\<lambda>m x. m\<lparr>blocks := blocks m1 @ [x]\<rparr>"
  have "read_bytes (?m m1 (replicate (2 * sz + 1) 0)) (bytesp b) sz = Some (take sz (blocks m1 ! b))"
    using assms(3-6) by (simp add: read_bytes_def nth_append)
  moreover have "take sz (blocks m1 ! b) @ drop sz (replicate (2 * sz + 1) 0) = blk"
    using assms(4,5) by (simp add: blk_def take_append drop_replicate del: replicate_Suc add: replicate_add [symmetric] Suc_diff_le)
  ultimately have mc: "memcpy (bytesp (length (blocks m1))) (bytesp b) sz (?m m1 (replicate (2 * sz + 1) 0)) = Some (?m m1 blk)"
    using assms(4,5) by (simp add: memcpy_def)
  have "pending m c d n \<lparr>c_ar = bytesp b, c_dr = W (of_nat sz), c_tag = tg\<rparr> (?m m1 blk)"
    using pending_blocks [OF assms(1)] pm by (simp add: prefix_append)
  from pending_upd [OF this, of "\<lambda>x. x\<lparr>c_ar := bytesp (length (blocks m1))\<rparr>"]
  obtain m2 where m2: "upd_cell n (\<lambda>x. x\<lparr>c_ar := bytesp (length (blocks m1))\<rparr>) (?m m1 blk) = Some m2" "cells_left m2 = cells_left m1"
    "blocks m2 = blocks m1 @ [blk]"
    "pending m c d n \<lparr>c_ar = bytesp (length (blocks m1)), c_dr = W (of_nat sz), c_tag = tg\<rparr> m2"
    by auto
  from pending_upd [OF m2(4), of "\<lambda>x. x\<lparr>c_dr := W (2 * of_nat sz)\<rparr>"]
  obtain m3 where m3: "upd_cell n (\<lambda>x. x\<lparr>c_dr := W (2 * of_nat sz)\<rparr>) m2 = Some m3" "cells_left m3 = cells_left m1"
    "blocks m3 = blocks m1 @ [blk]"
    "pending m c d n \<lparr>c_ar = bytesp (length (blocks m1)), c_dr = W (of_nat (2 * sz)), c_tag = tg\<rparr> m3"
    using m2(2,3) by auto
  have "overlay sz (replicate sz 0) blk = blk"
    by (rule overlay_zeros [where s = s]) (use assms(5) in \<open>auto simp: blk_def\<close>)
  moreover have "length blk = 2 * sz + 1" using assms(5) by (simp add: blk_def)
  ultimately have "write_bytes (P (OBytes (length (blocks m1))) sz) (replicate sz 0) m2 = Some m2"
    using m2(3) by (simp add: list_update_append)
  then have "grow_buffer n m1 = Some m3"
    using assms(1,7) un mc m2(1) m3(1)
    by (simp add: grow_buffer_def pending_def w cell_realloc_def bytes_alloc_def)
  then show ?thesis using m3 blk_def by blast
qed

lemma write_char_ok:
  assumes "pending m c d n x m1" "length (blocks m) \<le> b" "b < length (blocks m1)" "blocks m1 ! b = s @ replicate (sz + 1 - length s) 0"
    "length s < sz"
  shows "\<exists>m2. write_bytes (P (OBytes b) (length s)) [ch] m1 = Some m2 \<and> pending m c d n x m2 \<and> cells_left m2 = cells_left m1
    \<and> length (blocks m2) = length (blocks m1) \<and> blocks m2 ! b = (s @ [ch]) @ replicate (sz + 1 - length (s @ [ch])) 0"
proof -
  have "overlay (length s) [ch] (s @ replicate (sz + 1 - length s) 0) = (s @ [ch]) @ replicate (sz + 1 - length (s @ [ch])) 0"
    using assms(5) by (simp add: overlay_def Suc_diff_le)
  moreover have "prefix (blocks m) (blocks m1)" using assms(1) by (simp add: pending_def grows_but_def)
  then have "prefix (blocks m) ((blocks m1)[b := z])" for z
    using assms(2) by (auto simp: prefix_def list_update_append)
  ultimately show ?thesis
    using assms pending_blocks [OF assms(1)] by simp
qed

lemma append_char_ok:
  assumes "pending_text m c d n tg s m1" "rs_sym_len rs = length s" "length s < 2 ^ 28"
  shows "\<exists>m2. append_char ch c rs m1 = Some (c, rs\<lparr>rs_sym_len := length s + 1\<rparr>, m2) \<and> pending_text m c d n tg (s @ [ch]) m2
    \<and> cells_left m2 = cells_left m1"
proof -
  obtain b sz where b: "pending m c d n \<lparr>c_ar = bytesp b, c_dr = W (of_nat sz), c_tag = tg\<rparr> m1" "length (blocks m) \<le> b" "b < length (blocks m1)"
    "blocks m1 ! b = s @ replicate (sz + 1 - length s) 0" "length s + 2 \<le> sz" "sz \<le> 2 * (length s + 1) \<or> sz = 32"
    using assms(1) by (auto simp: pending_text_def)
  have sz: "sz < 2 ^ 30" using b(6) assms(3) by auto
  have g: "get_cell m1 c = Some \<lparr>c_ar = n, c_dr = d, c_tag = TAG_CONS\<rparr>" "get_cell m1 n = Some \<lparr>c_ar = bytesp b, c_dr = W (of_nat sz), c_tag = tg\<rparr>"
    using b(1) by (auto simp: pending_def)
  have "unat (of_nat sz - 1 :: u64) = sz - 1"
    using sz b(5) by (subst unat_sub) (auto simp: word_le_nat_alt)
  then have full: "(of_nat sz - 1 :: u64) \<le> of_nat (length s + 1) \<longleftrightarrow> sz \<le> length s + 2"
    using assms(3) unat_of_nat_u64 [of "length s + 1"] by (auto simp: word_le_nat_alt)
  show ?thesis
  proof (cases "sz \<le> length s + 2")
    case True
    obtain m2 where m2: "grow_buffer n m1 = Some m2" "cells_left m2 = cells_left m1"
      "pending m c d n \<lparr>c_ar = bytesp (length (blocks m1)), c_dr = W (of_nat (2 * sz)), c_tag = tg\<rparr> m2"
      "blocks m2 = blocks m1 @ [s @ replicate (2 * sz + 1 - length s) 0]"
      using grow_buffer_ok [OF b(1-4) _ _ sz] b(5) by auto
    obtain m3 where m3: "write_bytes (P (OBytes (length (blocks m1))) (length s)) [ch] m2 = Some m3"
      "pending m c d n \<lparr>c_ar = bytesp (length (blocks m1)), c_dr = W (of_nat (2 * sz)), c_tag = tg\<rparr> m3" "cells_left m3 = cells_left m2"
      "length (blocks m3) = length (blocks m2)"
      "blocks m3 ! length (blocks m1) = (s @ [ch]) @ replicate (2 * sz + 1 - length (s @ [ch])) 0"
      using write_char_ok [OF m2(3), of "length (blocks m1)" s "2 * sz" ch] m2(4) b(2,3,5) by (auto simp: nth_append)
    have "pending_text m c d n tg (s @ [ch]) m3"
      unfolding pending_text_def
      by (rule exI [of _ "length (blocks m1)"], rule exI [of _ "2 * sz"]) (use m2(4) m3 b(2,3,5) True in auto)
    moreover have "append_char ch c rs m1 = Some (c, rs\<lparr>rs_sym_len := length s + 1\<rparr>, m3)"
      using g True full m2(1,3) m3(1) assms(2) by (simp add: append_char_def pending_def)
    ultimately show ?thesis using m2(2) m3(3) by auto
  next
    case False
    obtain m3 where m3: "write_bytes (P (OBytes b) (length s)) [ch] m1 = Some m3"
      "pending m c d n \<lparr>c_ar = bytesp b, c_dr = W (of_nat sz), c_tag = tg\<rparr> m3" "cells_left m3 = cells_left m1"
      "length (blocks m3) = length (blocks m1)" "blocks m3 ! b = (s @ [ch]) @ replicate (sz + 1 - length (s @ [ch])) 0"
      using write_char_ok [OF b(1-4), of ch] b(5) by auto
    have "pending_text m c d n tg (s @ [ch]) m3"
      unfolding pending_text_def by (rule exI [of _ b], rule exI [of _ sz]) (use m3 b(2,3,5,6) False in auto)
    moreover have "append_char ch c rs m1 = Some (c, rs\<lparr>rs_sym_len := length s + 1\<rparr>, m3)"
      using g False full m3(1) assms(2) by (simp add: append_char_def)
    ultimately show ?thesis using m3(3) by auto
  qed
qed

lemma pending_text_on:
  assumes "pending m c d n \<lparr>c_ar = bytesp b, c_dr = W (of_nat k), c_tag = tg\<rparr> m'" "length (blocks m) \<le> b" "b < length (blocks m')"
    "blocks m' ! b = s @ replicate j 0" "0 < j" "length s \<le> k" "k \<le> length s + j" "k + 1 < 2 ^ 31" "0 \<notin> set s"
  shows "text_on (live m' - live m) (length (blocks m)) m' n tg s"
proof -
  have "c_str (s @ replicate j 0) = Some s"
    using assms(5,9) c_str_append_nul [of s "replicate (j - 1) 0"] by (cases j) auto
  then have "text_at m' n tg (of_nat k) s"
    using assms by (auto simp: text_at_def pending_def)
  then show ?thesis using assms(1,2) by (auto simp: text_on_def pending_def)
qed

lemma pending_sym_filled:
  assumes "pending_text m c d n TAG_SYM s m'" "0 \<notin> set s" "length s < 2 ^ 28"
  shows "filled m c (SSym s) d {} m'"
proof -
  obtain b sz where b: "pending m c d n \<lparr>c_ar = bytesp b, c_dr = W (of_nat sz), c_tag = TAG_SYM\<rparr> m'" "length (blocks m) \<le> b" "b < length (blocks m')"
    "blocks m' ! b = s @ replicate (sz + 1 - length s) 0" "length s + 2 \<le> sz" "sz \<le> 2 * (length s + 1) \<or> sz = 32"
    using assms(1) by (auto simp: pending_text_def)
  have "text_on (live m' - live m) (length (blocks m)) m' n TAG_SYM s"
    by (rule pending_text_on [OF b(1-4)]) (use b(5,6) assms(2,3) in auto)
  then show ?thesis using b(1) by (auto simp: filled_def pending_def)
qed

text \<open>The characters of a symbol after the first, and of a string up to the closing quote.\<close>

definition sym_char :: "byte \<Rightarrow> byte \<Rightarrow> bool" where
  "sym_char first c \<longleftrightarrow> \<not> is_white c \<and> c \<noteq> 41 \<and> c \<noteq> 0 \<and> (first = 45 \<longrightarrow> \<not> is_digit c)"

lemma read_text_char:
  assumes "pending_text m c d n tg (x # s) m1" "rs_cell rs = c" "rs_sym_len rs = length (x # s)" "length (x # s) < 2 ^ 28"
    "rs_state rs = PST_SYM" "sym_char x ch"
  shows "\<exists>m2. read_char ch rs m1 = Some (rs\<lparr>rs_sym_len := length (x # s @ [ch])\<rparr>, m2) \<and> pending_text m c d n tg (x # s @ [ch]) m2
    \<and> cells_left m2 = cells_left m1"
proof -
  obtain b sz where b: "pending m c d n \<lparr>c_ar = bytesp b, c_dr = W (of_nat sz), c_tag = tg\<rparr> m1" "b < length (blocks m1)"
    "blocks m1 ! b = (x # s) @ replicate (sz + 1 - length (x # s)) 0"
    using assms(1) by (auto simp: pending_text_def)
  obtain m2 where m2: "append_char ch c rs m1 = Some (c, rs\<lparr>rs_sym_len := length (x # s) + 1\<rparr>, m2)"
    "pending_text m c d n tg ((x # s) @ [ch]) m2" "cells_left m2 = cells_left m1"
    using append_char_ok [OF assms(1,3,4)] by blast
  have "read_sym_or_str ch c rs m1 = append_char ch c rs m1"
    using assms(5,6) b by (auto simp: read_sym_or_str_def sym_char_def pending_def read_bytes_def)
  then show ?thesis
    using m2 assms(2,5) pending_distinct [OF b(1)] by (simp add: read_char_step)
qed

lemma read_sym_chars:
  assumes "pending_text m c d n tg (x # s) m1" "rs_cell rs = c" "rs_sym_len rs = length (x # s)" "length (x # s @ cs) < 2 ^ 28"
    "rs_state rs = PST_SYM" "list_all (sym_char x) cs"
  shows "\<exists>m2. read_chars cs rs m1 = Some (rs\<lparr>rs_sym_len := length (x # s @ cs)\<rparr>, m2) \<and> pending_text m c d n tg (x # s @ cs) m2
    \<and> cells_left m2 = cells_left m1"
  using assms
proof (induction cs arbitrary: s rs m1)
  case Nil
  moreover have "rs\<lparr>rs_sym_len := Suc (length s)\<rparr> = rs" using Nil.prems(3) by (cases rs) simp
  ultimately show ?case by simp
next
  case (Cons ch cs)
  obtain m2 where m2: "read_char ch rs m1 = Some (rs\<lparr>rs_sym_len := length (x # s @ [ch])\<rparr>, m2)" "pending_text m c d n tg (x # s @ [ch]) m2"
    "cells_left m2 = cells_left m1"
    using read_text_char [of m c d n tg x s m1 rs ch] Cons.prems by auto
  obtain m3 where "read_chars cs (rs\<lparr>rs_sym_len := length (x # s @ [ch])\<rparr>) m2 = Some (rs\<lparr>rs_sym_len := length (x # (s @ [ch]) @ cs)\<rparr>, m3)"
    "pending_text m c d n tg (x # (s @ [ch]) @ cs) m3" "cells_left m3 = cells_left m2"
    using Cons.IH [of "s @ [ch]" m2 "rs\<lparr>rs_sym_len := length (x # s @ [ch])\<rparr>"] m2(2) Cons.prems by auto
  with m2 Cons.prems(5) show ?case by simp
qed

lemma read_str_chars:
  assumes "pending_text m c d n tg s m1" "rs_cell rs = c" "rs_sym_len rs = length s" "length (s @ cs) < 2 ^ 28"
    "rs_state rs = PST_STR" "34 \<notin> set cs"
  shows "\<exists>m2. read_chars cs rs m1 = Some (rs\<lparr>rs_sym_len := length (s @ cs)\<rparr>, m2) \<and> pending_text m c d n tg (s @ cs) m2
    \<and> cells_left m2 = cells_left m1"
  using assms
proof (induction cs arbitrary: s rs m1)
  case Nil
  moreover have "rs\<lparr>rs_sym_len := length s\<rparr> = rs" using Nil.prems(3) by (cases rs) simp
  ultimately show ?case by simp
next
  case (Cons ch cs)
  have "c \<noteq> NULL" using Cons.prems(1) pending_distinct unfolding pending_text_def by blast
  then obtain m2 where m2: "read_char ch rs m1 = Some (rs\<lparr>rs_sym_len := length (s @ [ch])\<rparr>, m2)" "pending_text m c d n tg (s @ [ch]) m2"
    "cells_left m2 = cells_left m1"
    using append_char_ok [of m c d n tg s m1 rs ch] Cons.prems by (auto simp: read_char_step read_sym_or_str_def)
  obtain m3 where "read_chars cs (rs\<lparr>rs_sym_len := length (s @ [ch])\<rparr>) m2 = Some (rs\<lparr>rs_sym_len := length ((s @ [ch]) @ cs)\<rparr>, m3)"
    "pending_text m c d n tg ((s @ [ch]) @ cs) m3" "cells_left m3 = cells_left m2"
    using Cons.IH [of "s @ [ch]" m2 "rs\<lparr>rs_sym_len := length (s @ [ch])\<rparr>"] m2(2) Cons.prems by auto
  with m2 Cons.prems(5) show ?case by simp
qed

section \<open>The first character of an atom\<close>

lemma slot_not_null: "empty_slot m c d \<Longrightarrow> c \<noteq> NULL"
  by (auto simp: empty_slot_def)

text \<open>The state of the reader at an empty place.\<close>

definition at_slot :: "reader \<Rightarrow> val \<Rightarrow> mem \<Rightarrow> val \<Rightarrow> bool" where
  "at_slot rs c m d \<longleftrightarrow> rs_state rs = PST_ATOM \<and> rs_cell rs = c \<and> empty_slot m c d \<and> alloc_inv m"

text \<open>A new cell that is not yet stored anywhere.\<close>

definition made :: "mem \<Rightarrow> val \<Rightarrow> val \<Rightarrow> cell \<Rightarrow> mem \<Rightarrow> bool" where
  "made m c n x m1 \<longleftrightarrow> grows_but m c m1 \<and> c \<in> live m \<and> get_cell m1 c = get_cell m c \<and> n \<in> live m1 - live m \<and> get_cell m1 n = Some x"

lemma made_fresh: "fresh_cell m n x m1 \<Longrightarrow> c \<in> live m \<Longrightarrow> made m c n x m1"
  using fresh_cell_grows [of m n x m1 c] by (auto simp: made_def fresh_cell_def)

lemma made_fresh_bytes: "fresh_bytes m n x blk m1 \<Longrightarrow> c \<in> live m \<Longrightarrow> made m c n x m1"
  using fresh_bytes_grows [of m n x blk m1 c] by (auto simp: made_def fresh_bytes_def fresh_cell_def)

lemma made_upd:
  assumes "made m c n x m1"
  obtains m2 where "upd_cell n f m1 = Some m2" "made m c n (f x) m2" "cells_left m2 = cells_left m1" "blocks m2 = blocks m1"
proof -
  have p: "alloc_inv m1" "n \<in> live m1" "n \<noteq> c" "get_cell m1 n = Some x" using assms by (auto simp: made_def grows_but_def)
  then obtain m2 where u: "upd_cell n f m1 = Some m2" "grows_but m1 n m2" "get_cell m2 n = Some (f x)" "live m2 = live m1"
    "blocks m2 = blocks m1" "cells_left m2 = cells_left m1" "\<forall>q. q \<noteq> n \<longrightarrow> get_cell m2 q = get_cell m1 q"
    using upd_cell_grows [of m1 n f] by (metis option.inject)
  have "grows_but m c m2" by (rule grows_but_trans [OF _ u(2)]) (use assms in \<open>auto simp: made_def\<close>)
  with u assms p(3) that show ?thesis by (auto simp: made_def)
qed

lemma made_blocks: "made m c n x m1 \<Longrightarrow> prefix (blocks m) bl \<Longrightarrow> made m c n x (m1\<lparr>blocks := bl\<rparr>)"
  by (simp add: made_def grows_but_def)

lemma made_place:
  assumes "made m c n x m1" "empty_slot m c d"
  obtains m2 where "upd_cell c (\<lambda>x. x\<lparr>c_ar := n\<rparr>) m1 = Some m2" "pending m c d n x m2" "cells_left m2 = cells_left m1"
    "blocks m2 = blocks m1"
  using place_cell [OF assms(2), of m1 n x] assms(1) by (auto simp: made_def)

lemma start_number:
  assumes "at_slot rs c m d" "0 < cells_left m" "is_digit ch"
  shows "\<exists>n e m1. read_char ch rs m = Some (rs\<lparr>rs_state := PST_NUM, rs_valuestate := VST_DEFAULT\<rparr>, m1)
    \<and> pending m c d n \<lparr>c_ar = W (ucast (ch - 48)), c_dr = e, c_tag = TAG_INT\<rparr> m1 \<and> cells_left m1 = cells_left m - 1"
proof -
  have a: "rs_state rs = PST_ATOM" "rs_cell rs = c" "empty_slot m c d" "alloc_inv m" "c \<noteq> NULL" "c \<in> live m"
    using assms(1) slot_not_null by (auto simp: at_slot_def empty_slot_def)
  obtain n e m1 where n: "alloc_int 0 m = Some (n, m1)" "fresh_cell m n \<lparr>c_ar = W (scast (0 :: u32)), c_dr = e, c_tag = TAG_INT\<rparr> m1"
    using alloc_int_ok [OF a(4) assms(2)] by blast
  obtain m2 where u: "upd_cell n (\<lambda>x. x\<lparr>c_ar := W (ucast (ch - 48))\<rparr>) m1 = Some m2" "cells_left m2 = cells_left m1"
    "made m c n \<lparr>c_ar = W (ucast (ch - 48)), c_dr = e, c_tag = TAG_INT\<rparr> m2"
    using made_upd [OF made_fresh [OF n(2) a(6)], of "\<lambda>x. x\<lparr>c_ar := W (ucast (ch - 48))\<rparr>"] by auto
  obtain m3 where m3: "upd_cell c (\<lambda>x. x\<lparr>c_ar := n\<rparr>) m2 = Some m3"
    "pending m c d n \<lparr>c_ar = W (ucast (ch - 48)), c_dr = e, c_tag = TAG_INT\<rparr> m3" "cells_left m3 = cells_left m2"
    using made_place [OF u(3) a(3)] by blast
  moreover have "read_char ch rs m = Some (rs\<lparr>rs_state := PST_NUM, rs_valuestate := VST_DEFAULT\<rparr>, m3)"
    using a assms(3) is_digit_facts [OF assms(3)] n(1) u(1) m3(1) by (simp add: read_char_step read_atom_def)
  ultimately show ?thesis using u(2) n(2) by (auto simp: fresh_cell_def)
qed

lemma SYM_INIT_facts: "unat SYM_INIT_BUFFER_SIZE = 32" "unat (SYM_INIT_BUFFER_SIZE + 1) = 33" "ucast SYM_INIT_BUFFER_SIZE = (of_nat 32 :: u64)"
  by (simp_all add: SYM_INIT_BUFFER_SIZE_def)

definition sym_start :: "byte \<Rightarrow> bool" where
  "sym_start c \<longleftrightarrow> \<not> is_white c \<and> \<not> is_digit c \<and> c \<notin> {0, 34, 40, 41, 59, 91}"

lemma start_symbol:
  assumes "at_slot rs c m d" "0 < cells_left m" "sym_start ch"
  shows "\<exists>n m1. read_char ch rs m = Some (rs\<lparr>rs_state := PST_SYM, rs_sym_len := 1\<rparr>, m1)
    \<and> pending_text m c d n TAG_SYM [ch] m1 \<and> cells_left m1 = cells_left m - 1"
proof -
  have a: "rs_state rs = PST_ATOM" "rs_cell rs = c" "empty_slot m c d" "alloc_inv m" "c \<noteq> NULL" "c \<in> live m"
    using assms(1) slot_not_null by (auto simp: at_slot_def empty_slot_def)
  let ?b = "length (blocks m)" and ?blk = "[ch] @ replicate 32 0"
  obtain n m1 where n: "alloc_num_bytes SYM_INIT_BUFFER_SIZE m = Some (n, m1)"
    "fresh_bytes m n \<lparr>c_ar = bytesp ?b, c_dr = W (of_nat 32), c_tag = TAG_BYTES\<rparr> (replicate 33 0) m1"
    using alloc_num_bytes_ok(1) [OF a(4) assms(2), of SYM_INIT_BUFFER_SIZE] by (auto simp: SYM_INIT_facts)
  have b1: "blocks m1 = blocks m @ [replicate 33 0]" "cells_left m1 = cells_left m - 1"
    using n(2) by (auto simp: fresh_bytes_def fresh_cell_def)
  obtain m2 where m2: "upd_cell n (\<lambda>x. x\<lparr>c_tag := TAG_SYM\<rparr>) m1 = Some m2" "cells_left m2 = cells_left m1" "blocks m2 = blocks m1"
    "made m c n \<lparr>c_ar = bytesp ?b, c_dr = W (of_nat 32), c_tag = TAG_SYM\<rparr> m2"
    using made_upd [OF made_fresh_bytes [OF n(2) a(6)], of "\<lambda>x. x\<lparr>c_tag := TAG_SYM\<rparr>"] by auto
  let ?m3 = "m2\<lparr>blocks := blocks m @ [?blk]\<rparr>"
  have "write_bytes (bytesp ?b) (replicate 32 0) m2 = Some m2"
    using m2(3) b1(1) by (simp add: list_update_append numeral_eq_Suc)
  moreover have "write_bytes (bytesp ?b) [ch] m2 = Some ?m3"
    using m2(3) b1(1) by (simp add: list_update_append numeral_eq_Suc)
  moreover have m3: "made m c n \<lparr>c_ar = bytesp ?b, c_dr = W (of_nat 32), c_tag = TAG_SYM\<rparr> ?m3"
    using made_blocks [OF m2(4)] by simp
  moreover obtain m4 where m4: "upd_cell n (\<lambda>x. x\<lparr>c_dr := W (of_nat 32)\<rparr>) ?m3 = Some m4" "cells_left m4 = cells_left m1"
    "blocks m4 = blocks m @ [?blk]" "made m c n \<lparr>c_ar = bytesp ?b, c_dr = W (of_nat 32), c_tag = TAG_SYM\<rparr> m4"
    using made_upd [OF m3, of "\<lambda>x. x\<lparr>c_dr := W (of_nat 32)\<rparr>"] m2(2) by auto
  moreover obtain m5 where m5: "upd_cell c (\<lambda>x. x\<lparr>c_ar := n\<rparr>) m4 = Some m5"
    "pending m c d n \<lparr>c_ar = bytesp ?b, c_dr = W (of_nat 32), c_tag = TAG_SYM\<rparr> m5" "cells_left m5 = cells_left m4" "blocks m5 = blocks m4"
    using made_place [OF m4(4) a(3)] by blast
  ultimately have "read_char ch rs m = Some (rs\<lparr>rs_state := PST_SYM, rs_sym_len := 1\<rparr>, m5)"
    using a assms(3) n(1) m2(1,4) m4(1) m5(1)
    by (simp add: read_char_step read_atom_def sym_start_def made_def SYM_INIT_facts)
  moreover have "pending_text m c d n TAG_SYM [ch] m5"
    unfolding pending_text_def by (rule exI [of _ ?b], rule exI [of _ 32]) (use m5 m4(3) in auto)
  ultimately show ?thesis using m5(3) m4(2) b1(2) by auto
qed

lemma start_string:
  assumes "at_slot rs c m d" "0 < cells_left m"
  shows "\<exists>n m1. read_char 34 rs m = Some (rs\<lparr>rs_state := PST_STR, rs_sym_len := 0\<rparr>, m1)
    \<and> pending_text m c d n TAG_STR [] m1 \<and> cells_left m1 = cells_left m - 1"
proof -
  have a: "rs_state rs = PST_ATOM" "rs_cell rs = c" "empty_slot m c d" "alloc_inv m" "c \<noteq> NULL" "c \<in> live m"
    using assms(1) slot_not_null by (auto simp: at_slot_def empty_slot_def)
  let ?b = "length (blocks m)"
  obtain n m1 where n: "alloc_num_string SYM_INIT_BUFFER_SIZE m = Some (n, m1)"
    "fresh_bytes m n \<lparr>c_ar = bytesp ?b, c_dr = W (of_nat 32), c_tag = TAG_STR\<rparr> (replicate 33 0) m1"
    using alloc_num_bytes_ok(2) [OF a(4) assms(2), of SYM_INIT_BUFFER_SIZE] by (auto simp: SYM_INIT_facts)
  have b1: "blocks m1 = blocks m @ [replicate 33 0]" "cells_left m1 = cells_left m - 1"
    using n(2) by (auto simp: fresh_bytes_def fresh_cell_def)
  obtain m5 where m5: "upd_cell c (\<lambda>x. x\<lparr>c_ar := n\<rparr>) m1 = Some m5"
    "pending m c d n \<lparr>c_ar = bytesp ?b, c_dr = W (of_nat 32), c_tag = TAG_STR\<rparr> m5" "cells_left m5 = cells_left m1" "blocks m5 = blocks m1"
    using made_place [OF made_fresh_bytes [OF n(2) a(6)] a(3)] by blast
  then have "read_char 34 rs m = Some (rs\<lparr>rs_state := PST_STR, rs_sym_len := 0\<rparr>, m5)"
    using a n(1) by (simp add: read_char_step read_atom_def alloc_string_def is_white_def is_digit_def)
  moreover have "pending_text m c d n TAG_STR [] m5"
    unfolding pending_text_def by (rule exI [of _ ?b], rule exI [of _ 32]) (use m5 b1 in auto)
  ultimately show ?thesis using m5(3) b1(2) by auto
qed

section \<open>Atoms\<close>

text \<open>Numbers in decimal, negative numbers, and symbols; a symbol that starts with a minus sign has no digit.\<close>

inductive atom_text :: "byte list \<Rightarrow> sexp \<Rightarrow> bool" where
  number: "list_all is_digit (x # ds) \<Longrightarrow> atom_text (x # ds) (SInt (dec_value 0 (x # ds)))"
| negative: "list_all is_digit (x # ds) \<Longrightarrow> atom_text (45 # x # ds) (SInt (- dec_value 0 (x # ds)))"
| symbol: "sym_start x \<Longrightarrow> list_all (sym_char x) cs \<Longrightarrow> atom_text (x # cs) (SSym (x # cs))"

text \<open>
  The base of a negative number is taken from the field \<open>valuestate\<close>, which nothing has set before the first positive number. A text in
  which no digit follows a minus sign does not depend on it.
\<close>

definition neg_free :: "byte list \<Rightarrow> bool" where
  "neg_free t \<longleftrightarrow> (\<forall>u x v. t = u @ 45 # x # v \<longrightarrow> \<not> is_digit x)"

definition base_ok :: "vst \<Rightarrow> byte list \<Rightarrow> bool" where
  "base_ok vs t \<longleftrightarrow> vs = VST_DEFAULT \<or> neg_free t"

lemma neg_freeD: "neg_free (u @ 45 # x # v) \<Longrightarrow> \<not> is_digit x"
  unfolding neg_free_def by blast

lemma neg_free_append: "neg_free (t @ u) \<Longrightarrow> neg_free t \<and> neg_free u"
  unfolding neg_free_def by (metis append.assoc append_Cons)

lemma neg_free_Cons: "neg_free (x # t) \<Longrightarrow> neg_free t"
  using neg_free_append [of "[x]" t] by simp

lemma neg_free_snoc: "neg_free t \<Longrightarrow> \<not> is_digit x \<Longrightarrow> neg_free (t @ [x])"
proof -
  assume t: "neg_free t" "\<not> is_digit x"
  have "\<not> is_digit y" if "t @ [x] = u @ 45 # y # v" for u y v
  proof (cases v rule: rev_cases)
    case Nil
    then show ?thesis using that t(2) by simp
  next
    case (snoc v' z)
    then have "t = u @ 45 # y # v'" using that by (simp flip: append_Cons append_assoc)
    then show ?thesis using t(1) neg_freeD by blast
  qed
  then show ?thesis by (simp add: neg_free_def)
qed

lemma base_ok_parts:
  "base_ok vs (t @ u) \<Longrightarrow> base_ok vs t \<and> base_ok vs u" "base_ok vs (x # t) \<Longrightarrow> base_ok vs t"
  by (auto simp: base_ok_def dest: neg_free_append neg_free_Cons)

lemma base_ok_later: "base_ok vs t \<Longrightarrow> vs' \<in> {vs, VST_DEFAULT} \<Longrightarrow> base_ok vs' t"
  by (auto simp: base_ok_def)

definition same_rs :: "reader \<Rightarrow> reader \<Rightarrow> bool" where
  "same_rs rs rs' \<longleftrightarrow> rs_sp rs' = rs_sp rs \<and> rs_level rs' = rs_level rs \<and> rs_valuestate rs' \<in> {rs_valuestate rs, VST_DEFAULT}
     \<and> rs_stack rs' = rs_stack rs \<and> rs_cell rs' = rs_cell rs"

definition in_atom :: "reader \<Rightarrow> bool" where
  "in_atom rs \<longleftrightarrow> rs_state rs \<in> {PST_NUM, PST_NUM_NEG, PST_SYM}"

lemma in_atom_no_error: "in_atom rs \<Longrightarrow> \<not> is_error (rs_state rs)"
  by (auto simp: in_atom_def)

lemma read_minus_digit:
  assumes "pending_text m c d n TAG_SYM [45] m1" "rs_cell rs = c" "rs_state rs = PST_SYM" "is_digit x"
  shows "\<exists>e m2. read_char x rs m1 = Some (rs\<lparr>rs_state := PST_NUM_NEG\<rparr>, m2) \<and> cells_left m2 = cells_left m1
    \<and> pending m c d n \<lparr>c_ar = W (- ucast (x - 48)), c_dr = e, c_tag = TAG_INT\<rparr> m2"
proof -
  obtain b sz where b: "pending m c d n \<lparr>c_ar = bytesp b, c_dr = W (of_nat sz), c_tag = TAG_SYM\<rparr> m1" "b < length (blocks m1)"
    "blocks m1 ! b = [45] @ replicate (sz + 1 - length [45 :: byte]) 0"
    using assms(1) by (auto simp: pending_text_def)
  obtain m2 where m2: "upd_cell n (\<lambda>y. y\<lparr>c_tag := TAG_INT, c_ar := W (- ucast (x - 48))\<rparr>) m1 = Some m2" "cells_left m2 = cells_left m1"
    "pending m c d n \<lparr>c_ar = W (- ucast (x - 48)), c_dr = W (of_nat sz), c_tag = TAG_INT\<rparr> m2"
    using pending_upd [OF b(1), of "\<lambda>y. y\<lparr>c_tag := TAG_INT, c_ar := W (- ucast (x - 48))\<rparr>"] by auto
  have "read_char x rs m1 = Some (rs\<lparr>rs_state := PST_NUM_NEG\<rparr>, m2)"
    using b m2(1) assms(2-4) pending_distinct [OF b(1)] is_digit_facts [OF assms(4)]
    by (simp add: read_char_step read_sym_or_str_def pending_def read_bytes_def)
  with m2 show ?thesis by blast
qed

lemma read_atom_text:
  assumes "atom_text a s" "at_slot rs c m d" "base_ok (rs_valuestate rs) a" "0 < cells_left m" "length a < 2 ^ 28"
  shows "\<exists>rs' m'. read_chars a rs m = Some (rs', m') \<and> in_atom rs' \<and> same_rs rs rs' \<and> filled m c s d {} m' \<and> cells_left m' = cells_left m - 1"
  using assms(1)
proof cases
  case (number x ds)
  then obtain n e m1 where m1: "read_char x rs m = Some (rs\<lparr>rs_state := PST_NUM, rs_valuestate := VST_DEFAULT\<rparr>, m1)"
    "pending m c d n \<lparr>c_ar = W (ucast (x - 48)), c_dr = e, c_tag = TAG_INT\<rparr> m1" "cells_left m1 = cells_left m - 1"
    using start_number [OF assms(2,4), of x] by auto
  obtain m2 where "read_chars ds (rs\<lparr>rs_state := PST_NUM, rs_valuestate := VST_DEFAULT\<rparr>) m1 = Some (rs\<lparr>rs_state := PST_NUM, rs_valuestate := VST_DEFAULT\<rparr>, m2)"
    "cells_left m2 = cells_left m1" "pending m c d n \<lparr>c_ar = W (dec_value (ucast (x - 48)) ds), c_dr = e, c_tag = TAG_INT\<rparr> m2"
    using read_digits [OF m1(2), of "rs\<lparr>rs_state := PST_NUM, rs_valuestate := VST_DEFAULT\<rparr>" False ds] number assms(2)
    by (auto simp: at_slot_def base_of_def)
  with m1 number assms(3) show ?thesis
    by (auto simp: in_atom_def same_rs_def num_value_def dest: pending_int_filled)
next
  case (negative x ds)
  have vs: "rs_valuestate rs = VST_DEFAULT" using assms(3) negative neg_freeD [of "[]"] by (auto simp: base_ok_def)
  have "sym_start 45" by (simp add: sym_start_def is_white_def is_digit_def)
  then obtain n m1 where m1: "read_char 45 rs m = Some (rs\<lparr>rs_state := PST_SYM, rs_sym_len := 1\<rparr>, m1)"
    "pending_text m c d n TAG_SYM [45] m1" "cells_left m1 = cells_left m - 1"
    using start_symbol [OF assms(2,4), of 45] by blast
  let ?rs = "rs\<lparr>rs_state := PST_NUM_NEG, rs_sym_len := 1\<rparr>"
  obtain e m2 where m2: "read_char x (rs\<lparr>rs_state := PST_SYM, rs_sym_len := 1\<rparr>) m1 = Some (?rs, m2)" "cells_left m2 = cells_left m1"
    "pending m c d n \<lparr>c_ar = W (- ucast (x - 48)), c_dr = e, c_tag = TAG_INT\<rparr> m2"
    using read_minus_digit [OF m1(2), of "rs\<lparr>rs_state := PST_SYM, rs_sym_len := 1\<rparr>" x] negative assms(2)
    by (auto simp: at_slot_def)
  obtain m3 where "read_chars ds ?rs m2 = Some (?rs, m3)" "cells_left m3 = cells_left m2"
    "pending m c d n \<lparr>c_ar = W (- dec_value (ucast (x - 48)) ds), c_dr = e, c_tag = TAG_INT\<rparr> m3"
    using read_digits [OF m2(3), of ?rs True ds] negative assms(2) vs by (auto simp: at_slot_def base_of_def)
  with m1 m2 negative show ?thesis
    by (auto simp: in_atom_def same_rs_def num_value_def dest: pending_int_filled)
next
  case (symbol x cs)
  then obtain n m1 where m1: "read_char x rs m = Some (rs\<lparr>rs_state := PST_SYM, rs_sym_len := 1\<rparr>, m1)"
    "pending_text m c d n TAG_SYM [x] m1" "cells_left m1 = cells_left m - 1"
    using start_symbol [OF assms(2,4), of x] by blast
  obtain m2 where m2: "read_chars cs (rs\<lparr>rs_state := PST_SYM, rs_sym_len := 1\<rparr>) m1 = Some (rs\<lparr>rs_state := PST_SYM, rs_sym_len := length (x # cs)\<rparr>, m2)"
    "pending_text m c d n TAG_SYM (x # cs) m2" "cells_left m2 = cells_left m1"
    using read_sym_chars [OF m1(2), of "rs\<lparr>rs_state := PST_SYM, rs_sym_len := 1\<rparr>" cs] symbol assms(2,5) by (auto simp: at_slot_def)
  have "0 \<notin> set (x # cs)" using symbol by (auto simp: sym_start_def sym_char_def list_all_iff)
  then have "filled m c (SSym (x # cs)) d {} m2" using pending_sym_filled [OF m2(2)] symbol(1) assms(5) by simp
  with m1 m2 symbol show ?thesis by (auto simp: in_atom_def same_rs_def)
qed

section \<open>Delimiters\<close>

lemma read_white_next:
  assumes "in_atom rs" "rs_cell rs = c" "c \<noteq> NULL" "is_white w"
  shows "read_char w rs m = map_option (\<lambda>(cell, rs, m). (rs\<lparr>rs_cell := cell\<rparr>, m)) (reader_next_list_cell c rs m)"
proof -
  have "\<not> is_digit w" "w \<noteq> 41" "\<not> is_hex_lower w"
    using assms(4) by (auto simp: is_white_def is_digit_def is_hex_lower_def)
  with assms show ?thesis by (auto simp: in_atom_def read_char_step read_num_def read_sym_or_str_def)
qed

lemma read_white_after_atom:
  assumes "in_atom rs" "rs_cell rs = c" "filled m c s d {} m1" "c \<in> live m" "0 < cells_left m1" "is_white w"
  shows "\<exists>n m2. read_char w rs m1 = Some (rs\<lparr>rs_state := PST_ATOM, rs_cell := n\<rparr>, m2) \<and> filled m c s n {n} m2
    \<and> empty_slot m2 n NULL \<and> n \<in> live m2 - live m \<and> cells_left m2 = cells_left m1 - 1"
proof -
  have "c \<noteq> NULL" using assms(3) by (auto simp: filled_def)
  then show ?thesis
    using next_list_cell_ok [OF assms(3-5), of rs] read_white_next [OF assms(1,2) _ assms(6), of m1] by auto
qed

text \<open>A closing parenthesis right behind an atom acts like a space and a closing parenthesis.\<close>

lemma read_close_after_atom:
  assumes "in_atom rs" "rs_cell rs = c" "filled m c s d {} m1" "c \<in> live m" "0 < cells_left m1" "0 < rs_level rs"
  shows "read_char 41 rs m1 = read_chars [32, 41] rs m1"
proof -
  obtain p where p: "get_cell m1 c = Some \<lparr>c_ar = p, c_dr = d, c_tag = TAG_CONS\<rparr>" "p \<noteq> NULL" "c \<noteq> NULL"
    using assms(3) sexp_on_mem by (fastforce simp: filled_def)
  obtain n m2 where n: "reader_next_list_cell c rs m1 = Some (n, rs\<lparr>rs_state := PST_ATOM\<rparr>, m2)" "empty_slot m2 n NULL"
    using next_list_cell_ok [OF assms(3-5), of rs] by blast
  then have n': "get_cell m2 n = Some \<lparr>c_ar = NULL, c_dr = NULL, c_tag = TAG_CONS\<rparr>" "n \<noteq> NULL"
    "read_char 32 rs m1 = Some (rs\<lparr>rs_state := PST_ATOM, rs_cell := n\<rparr>, m2)"
    using read_white_next [OF assms(1,2) p(3), of 32] by (auto simp: empty_slot_def is_white_def)
  obtain m0 where m0: "alloc_nil m1 = Some (n, m0)" "upd_cell c (\<lambda>c. c\<lparr>c_dr := n\<rparr>) m0 = Some m2"
    using n(1) by (auto simp: reader_next_list_cell_def split: bind_splits)
  have *: "\<not> is_digit 41" "\<not> is_white 41" "\<not> is_hex_lower 41" by (simp_all add: is_white_def is_digit_def is_hex_lower_def)
  let ?rs = "rs\<lparr>rs_level := rs_level rs - 1, rs_sp := rs_sp rs - 1\<rparr>"
  let ?fin = "\<lambda>rs. do { cell \<leftarrow> stack_top ?rs; (cell, rs, m) \<leftarrow> reader_next_list_cell cell rs m2; Some (cell, rs\<lparr>rs_state := PST_ATOM\<rparr>, m) }"
  have "read_char 41 rs m1 = map_option (\<lambda>(cell, rs, m). (rs\<lparr>rs_cell := cell\<rparr>, m)) (?fin ?rs)"
    using assms(1,2,6) p m0 * by (auto simp: in_atom_def read_char_step read_num_def read_sym_or_str_def reader_end_list_def Let_def)
  also have "\<dots> = read_char 41 (rs\<lparr>rs_state := PST_ATOM, rs_cell := n\<rparr>) m2"
    using n' assms(6) * by (auto simp: read_char_step read_atom_def reader_end_list_def reader_next_list_cell_def stack_top_def Let_def
        split: bind_splits option.splits)
  finally show ?thesis using n'(3) by (auto split: bind_splits)
qed


section \<open>Lists\<close>

definition list_sexp :: "sexp list \<Rightarrow> sexp" where
  "list_sexp ss = foldr SCons ss SNil"

text \<open>How many parentheses are open inside of a structure.\<close>

fun nest :: "sexp \<Rightarrow> nat" where
  "nest SNil = 1"
| "nest (SCons a d) = max (Suc (nest a)) (nest d)"
| "nest _ = 0"

lemma nest_list_sexp: "nest (list_sexp ss) \<le> k \<longleftrightarrow> 1 \<le> k \<and> (\<forall>s \<in> set ss. nest s < k)"
  by (induction ss) (auto simp: list_sexp_def)

text \<open>The elements \<open>ss\<close> of a list from the cell \<open>h\<close> up to the cell \<open>e\<close>.\<close>

fun chain_on :: "val set \<Rightarrow> nat \<Rightarrow> mem \<Rightarrow> val \<Rightarrow> sexp list \<Rightarrow> val \<Rightarrow> bool" where
  "chain_on D nb m h [] e \<longleftrightarrow> h = e"
| "chain_on D nb m h (s # ss) e \<longleftrightarrow>
     (\<exists>p q. h \<in> D \<and> get_cell m h = Some \<lparr>c_ar = p, c_dr = q, c_tag = TAG_CONS\<rparr> \<and> sexp_on D nb m p s \<and> chain_on D nb m q ss e)"

lemma chain_sexp:
  "chain_on D nb m h ss e \<Longrightarrow> D \<subseteq> D' \<Longrightarrow> nb' \<le> nb \<Longrightarrow> e \<in> D' \<Longrightarrow>
   get_cell m e = Some \<lparr>c_ar = NULL, c_dr = NULL, c_tag = TAG_CONS\<rparr> \<Longrightarrow> sexp_on D' nb' m h (list_sexp ss)"
proof (induction ss arbitrary: h)
  case (Cons s ss)
  then show ?case by (fastforce simp: list_sexp_def intro: sexp_on_mono)
qed (simp add: list_sexp_def)

lemma chain_mono: "chain_on D nb m h ss e \<Longrightarrow> D \<subseteq> D' \<Longrightarrow> nb' \<le> nb \<Longrightarrow> chain_on D' nb' m h ss e"
  by (induction ss arbitrary: h) (auto intro: sexp_on_mono)

text \<open>What the reader has done when it is back between two elements: it has read \<open>ss\<close> from the place \<open>h\<close> on.\<close>

definition items_read :: "reader \<Rightarrow> mem \<Rightarrow> val \<Rightarrow> val \<Rightarrow> sexp list \<Rightarrow> reader \<Rightarrow> mem \<Rightarrow> bool" where
  "items_read rs m h d ss rs' m' \<longleftrightarrow>
     (\<exists>e. at_slot rs' e m' (if ss = [] then d else NULL) \<and> e \<in> insert h (live m' - live m) \<and> grows_but m h m'
        \<and> chain_on (insert h (live m' - live m) - {e}) (length (blocks m)) m' h ss e)
     \<and> rs_sp rs' = rs_sp rs \<and> rs_level rs' = rs_level rs \<and> rs_valuestate rs' \<in> {rs_valuestate rs, VST_DEFAULT}
     \<and> length (rs_stack rs') = length (rs_stack rs) \<and> (\<forall>i < rs_sp rs. rs_stack rs' ! i = rs_stack rs ! i)
     \<and> (ss = [] \<longrightarrow> rs_stack rs' ! rs_sp rs = rs_stack rs ! rs_sp rs)
     \<and> (length ss = 1 \<longrightarrow> rs_stack rs' ! rs_sp rs \<in> {rs_stack rs ! rs_sp rs, Some h})"

lemma items_read_Nil:
  assumes "at_slot rs h m d" "rs' = rs\<lparr>rs_sym_len := k\<rparr> \<or> rs' = rs"
  shows "items_read rs m h d [] rs' m"
  using assms by (auto simp: items_read_def at_slot_def)

lemma items_read_Cons:
  assumes el: "filled m h s c {c} m1" "empty_slot m1 c NULL" "c \<in> live m1 - live m" "h \<in> live m"
    and rs1: "rs_sp rs1 = rs_sp rs" "rs_level rs1 = rs_level rs" "rs_valuestate rs1 \<in> {rs_valuestate rs, VST_DEFAULT}"
      "length (rs_stack rs1) = length (rs_stack rs)" "\<forall>i < rs_sp rs. rs_stack rs1 ! i = rs_stack rs ! i"
      "rs_stack rs1 ! rs_sp rs \<in> {rs_stack rs ! rs_sp rs, Some h}"
    and tl: "items_read rs1 m1 c NULL ss rs2 m2"
  shows "items_read rs m h d (s # ss) rs2 m2"
proof -
  obtain e where e: "at_slot rs2 e m2 NULL" "e \<in> insert c (live m2 - live m1)" "grows_but m1 c m2"
    "chain_on (insert c (live m2 - live m1) - {e}) (length (blocks m1)) m2 c ss e"
    using tl by (auto simp: items_read_def)
  obtain p where p: "get_cell m1 h = Some \<lparr>c_ar = p, c_dr = c, c_tag = TAG_CONS\<rparr>" "sexp_on (live m1 - live m - {c}) (length (blocks m)) m1 p s"
    "grows_but m h m1"
    using el(1) by (auto simp: filled_def)
  have g: "grows_but m h m2" by (rule grows_but_trans [OF p(3) e(3)]) (use el(3) in simp)
  have l: "live m \<subseteq> live m1" "live m1 \<subseteq> live m2" using p(3) e(3) by (auto simp: grows_but_def)
  have h: "h \<noteq> c" "h \<in> live m1" using el(3,4) l by auto
  then have "get_cell m2 h = Some \<lparr>c_ar = p, c_dr = c, c_tag = TAG_CONS\<rparr>" using p(1) e(3) by (auto simp: grows_but_def)
  moreover have "sexp_on (live m1 - live m - {c}) (length (blocks m)) m2 p s"
    by (rule sexp_on_grows [OF p(2) e(3)]) auto
  then have "sexp_on (insert h (live m2 - live m) - {e}) (length (blocks m)) m2 p s"
    by (rule sexp_on_mono) (use e(2) l in auto)
  moreover have "length (blocks m) \<le> length (blocks m1)" using p(3) by (auto simp: grows_but_def dest: prefix_length_le)
  then have "chain_on (insert h (live m2 - live m) - {e}) (length (blocks m)) m2 c ss e"
    by (intro chain_mono [OF e(4)]) (use el(3) l in auto)
  moreover have "e \<in> live m2 - live m" "h \<noteq> e" using e(2) el(3,4) l by auto
  ultimately show ?thesis
    using e(1) g tl rs1 by (auto simp: items_read_def)
qed

text \<open>One element has been read into the place \<open>h\<close>, and the reader stands at the next place.\<close>

definition elem_read :: "reader \<Rightarrow> mem \<Rightarrow> val \<Rightarrow> sexp \<Rightarrow> reader \<Rightarrow> mem \<Rightarrow> bool" where
  "elem_read rs m h s rs1 m1 \<longleftrightarrow>
     (\<exists>c. filled m h s c {c} m1 \<and> at_slot rs1 c m1 NULL \<and> c \<in> live m1 - live m)
     \<and> rs_sp rs1 = rs_sp rs \<and> rs_level rs1 = rs_level rs \<and> rs_valuestate rs1 \<in> {rs_valuestate rs, VST_DEFAULT}
     \<and> length (rs_stack rs1) = length (rs_stack rs) \<and> (\<forall>i < rs_sp rs. rs_stack rs1 ! i = rs_stack rs ! i)
     \<and> rs_stack rs1 ! rs_sp rs \<in> {rs_stack rs ! rs_sp rs, Some h}"

lemma elem_items:
  assumes "elem_read rs m h s rs1 m1" "h \<in> live m" "\<And>c. at_slot rs1 c m1 NULL \<Longrightarrow> items_read rs1 m1 c NULL ss rs2 m2"
  shows "items_read rs m h d (s # ss) rs2 m2"
  using assms unfolding elem_read_def at_slot_def by (auto intro!: items_read_Cons [where c = "rs_cell rs1" and ?m1.0 = m1 and ?rs1.0 = rs1])

lemma filled_inv: "filled m c s d E m' \<Longrightarrow> alloc_inv m'"
  by (simp add: filled_def grows_but_def)

lemma read_atom_elem:
  assumes "atom_text a s" "is_white w" "at_slot rs c m d" "base_ok (rs_valuestate rs) a" "2 \<le> cells_left m" "length a < 2 ^ 28"
  shows "\<exists>rs1 m1. read_chars (a @ [w]) rs m = Some (rs1, m1) \<and> elem_read rs m c s rs1 m1 \<and> cells_left m1 + 2 = cells_left m"
proof -
  obtain rs1 m1 where 1: "read_chars a rs m = Some (rs1, m1)" "in_atom rs1" "same_rs rs rs1" "filled m c s d {} m1" "cells_left m1 = cells_left m - 1"
    using read_atom_text [OF assms(1,3,4) _ assms(6)] assms(5) by auto
  have c: "c \<in> live m" "rs_cell rs1 = c" using assms(3) 1(3) by (auto simp: at_slot_def empty_slot_def same_rs_def)
  obtain n m2 where 2: "read_char w rs1 m1 = Some (rs1\<lparr>rs_state := PST_ATOM, rs_cell := n\<rparr>, m2)" "filled m c s n {n} m2"
    "empty_slot m2 n NULL" "n \<in> live m2 - live m" "cells_left m2 = cells_left m1 - 1"
    using read_white_after_atom [OF 1(2) c(2) 1(4) c(1) _ assms(2)] 1(5) assms(5) by auto
  have "read_chars (a @ [w]) rs m = Some (rs1\<lparr>rs_state := PST_ATOM, rs_cell := n\<rparr>, m2)"
    using read_chars_append [OF 1(1) in_atom_no_error [OF 1(2)], of "[w]"] 2(1) by simp
  moreover have "elem_read rs m c s (rs1\<lparr>rs_state := PST_ATOM, rs_cell := n\<rparr>) m2"
    using 2 1(3) filled_inv [OF 2(2)] by (auto simp: elem_read_def at_slot_def same_rs_def)
  ultimately show ?thesis using 1(5) 2(5) assms(5) by auto
qed

lemma read_string_elem:
  assumes "34 \<notin> set s" "0 \<notin> set s" "at_slot rs c m d" "2 \<le> cells_left m" "length s < 2 ^ 28"
  shows "\<exists>rs1 m1. read_chars (34 # s @ [34]) rs m = Some (rs1, m1) \<and> elem_read rs m c (SStr s) rs1 m1 \<and> cells_left m1 + 2 = cells_left m"
proof -
  obtain n m1 where 1: "read_char 34 rs m = Some (rs\<lparr>rs_state := PST_STR, rs_sym_len := 0\<rparr>, m1)" "pending_text m c d n TAG_STR [] m1"
    "cells_left m1 = cells_left m - 1"
    using start_string [OF assms(3)] assms(4) by auto
  have c: "c \<in> live m" "rs_cell rs = c" "c \<noteq> NULL" using assms(3) by (auto simp: at_slot_def empty_slot_def)
  let ?rs = "rs\<lparr>rs_state := PST_STR, rs_sym_len := length s\<rparr>"
  obtain m2 where 2: "read_chars s (rs\<lparr>rs_state := PST_STR, rs_sym_len := 0\<rparr>) m1 = Some (?rs, m2)" "pending_text m c d n TAG_STR s m2"
    "cells_left m2 = cells_left m1"
    using read_str_chars [OF 1(2), of "rs\<lparr>rs_state := PST_STR, rs_sym_len := 0\<rparr>" s] c(2) assms(1,5) by auto
  obtain b sz where b: "pending m c d n \<lparr>c_ar = bytesp b, c_dr = W (of_nat sz), c_tag = TAG_STR\<rparr> m2" "length (blocks m) \<le> b" "b < length (blocks m2)"
    "blocks m2 ! b = s @ replicate (sz + 1 - length s) 0" "length s + 2 \<le> sz"
    using 2(2) by (auto simp: pending_text_def)
  obtain m3 where 3: "upd_cell n (\<lambda>y. y\<lparr>c_dr := W (of_nat (length s))\<rparr>) m2 = Some m3" "cells_left m3 = cells_left m2" "blocks m3 = blocks m2"
    "pending m c d n \<lparr>c_ar = bytesp b, c_dr = W (of_nat (length s)), c_tag = TAG_STR\<rparr> m3"
    using pending_upd [OF b(1), of "\<lambda>y. y\<lparr>c_dr := W (of_nat (length s))\<rparr>"] by auto
  have "text_on (live m3 - live m) (length (blocks m)) m3 n TAG_STR s"
    by (rule pending_text_on [OF 3(4), of s "sz + 1 - length s"]) (use b 3(3) assms(2,5) in auto)
  then have f: "filled m c (SStr s) d {} m3" using 3(4) by (auto simp: filled_def pending_def)
  obtain n' m4 where 4: "reader_next_list_cell c ?rs m3 = Some (n', rs\<lparr>rs_state := PST_ATOM, rs_sym_len := length s\<rparr>, m4)"
    "filled m c (SStr s) n' {n'} m4" "empty_slot m4 n' NULL" "n' \<in> live m4 - live m" "cells_left m4 = cells_left m3 - 1"
    using next_list_cell_ok [OF f c(1), of ?rs] 3(2) 2(3) 1(3) assms(4) by auto
  let ?rs4 = "rs\<lparr>rs_state := PST_ATOM, rs_sym_len := length s, rs_cell := n'\<rparr>"
  have "read_char 34 ?rs m2 = Some (?rs4, m4)"
    using b(1) 3(1) 4(1) c(2,3) by (simp add: read_char_step read_sym_or_str_def pending_def)
  then have "read_chars (s @ [34]) (rs\<lparr>rs_state := PST_STR, rs_sym_len := 0\<rparr>) m1 = Some (?rs4, m4)"
    using read_chars_append [OF 2(1), of "[34]"] by simp
  then have "read_chars (34 # s @ [34]) rs m = Some (?rs4, m4)" using 1(1) by simp
  moreover have "elem_read rs m c (SStr s) ?rs4 m4"
    using 4 filled_inv [OF 4(2)] by (auto simp: elem_read_def at_slot_def)
  ultimately show ?thesis using 1(3) 2(3) 3(2) 4(5) assms(4) by auto
qed

abbreviation nil_cell :: cell where
  "nil_cell \<equiv> \<lparr>c_ar = NULL, c_dr = NULL, c_tag = TAG_CONS\<rparr>"

text \<open>The state behind an opening parenthesis.\<close>

definition opened :: "reader \<Rightarrow> val \<Rightarrow> reader" where
  "opened rs n = rs\<lparr>rs_stack := (rs_stack rs)[rs_sp rs := Some (rs_cell rs)], rs_sp := rs_sp rs + 1, rs_level := rs_level rs + 1,
     rs_state := PST_ATOM, rs_cell := n\<rparr>"

lemma read_open:
  assumes "at_slot rs c m d" "0 < cells_left m" "rs_sp rs < length (rs_stack rs)"
  shows "\<exists>n m1. read_char 40 rs m = Some (opened rs n, m1) \<and> pending m c d n nil_cell m1 \<and> cells_left m1 = cells_left m - 1
    \<and> at_slot (opened rs n) n m1 NULL"
proof -
  have a: "rs_state rs = PST_ATOM" "rs_cell rs = c" "empty_slot m c d" "alloc_inv m" "c \<noteq> NULL" "c \<in> live m"
    using assms(1) slot_not_null by (auto simp: at_slot_def empty_slot_def)
  obtain n m1 where n: "alloc_nil m = Some (n, m1)" "fresh_cell m n nil_cell m1"
    using alloc_nil_ok [OF a(4) assms(2)] by blast
  obtain m2 where m2: "upd_cell c (\<lambda>x. x\<lparr>c_ar := n\<rparr>) m1 = Some m2" "pending m c d n nil_cell m2" "cells_left m2 = cells_left m1"
    using made_place [OF made_fresh [OF n(2) a(6)] a(3)] by blast
  have "read_char 40 rs m = Some (opened rs n, m2)"
    using a n(1) m2(1) assms(3) by (simp add: read_char_step read_atom_def is_white_def is_digit_def stack_put_def opened_def)
  moreover have "at_slot (opened rs n) n m2 NULL"
    using m2(2) by (auto simp: at_slot_def opened_def empty_slot_def pending_def grows_but_def)
  ultimately show ?thesis using m2 n(2) by (auto simp: fresh_cell_def)
qed

lemma read_close:
  assumes "pending m c d n nil_cell m1" "rs_cell rs = c" "rs_sp rs < length (rs_stack rs)" "rs_state rs = PST_ATOM" "0 < cells_left m2"
    "items_read (opened rs n) m1 n NULL us rs2 m2"
  shows "\<exists>rs3 m3. read_char 41 rs2 m2 = Some (rs3, m3) \<and> elem_read rs m c (list_sexp us) rs3 m3 \<and> cells_left m3 = cells_left m2 - 1"
proof -
  obtain e where e: "at_slot rs2 e m2 NULL" "e \<in> insert n (live m2 - live m1)" "grows_but m1 n m2"
    "chain_on (insert n (live m2 - live m1) - {e}) (length (blocks m1)) m2 n us e"
    using assms(6) by (auto simp: items_read_def)
  have r: "rs_sp rs2 = rs_sp rs + 1" "rs_level rs2 = rs_level rs + 1" "rs_valuestate rs2 \<in> {rs_valuestate rs, VST_DEFAULT}"
    "length (rs_stack rs2) = length (rs_stack rs)" "\<forall>i < rs_sp rs. rs_stack rs2 ! i = rs_stack rs ! i" "rs_stack rs2 ! rs_sp rs = Some c"
    using assms(2,3,6) by (auto simp: items_read_def opened_def less_Suc_eq)
  have p: "grows_but m c m1" "c \<in> live m" "get_cell m1 c = Some \<lparr>c_ar = n, c_dr = d, c_tag = TAG_CONS\<rparr>" "n \<in> live m1 - live m"
    using assms(1) by (auto simp: pending_def)
  have l: "live m \<subseteq> live m1" "live m1 \<subseteq> live m2" using p(1) e(3) by (auto simp: grows_but_def)
  have ec: "get_cell m2 e = Some nil_cell" "e \<noteq> NULL" "rs_state rs2 = PST_ATOM" "rs_cell rs2 = e"
    using e(1) by (auto simp: at_slot_def empty_slot_def)
  have "c \<noteq> n" "c \<in> live m1" using p l by auto
  then have "get_cell m2 c = Some \<lparr>c_ar = n, c_dr = d, c_tag = TAG_CONS\<rparr>" using e(3) p(3) by (auto simp: grows_but_def)
  moreover have "length (blocks m) \<le> length (blocks m1)" using p(1) by (auto simp: grows_but_def dest: prefix_length_le)
  then have "sexp_on (live m2 - live m) (length (blocks m)) m2 n (list_sexp us)"
    by (intro chain_sexp [OF e(4) _ _ _ ec(1)]) (use e(2) p(4) l in auto)
  moreover have "grows_but m c m2" by (rule grows_but_trans [OF p(1) e(3)]) (use p(4) in auto)
  ultimately have f: "filled m c (list_sexp us) d {} m2" by (auto simp: filled_def)
  let ?rs = "rs2\<lparr>rs_level := rs_level rs, rs_sp := rs_sp rs\<rparr>"
  obtain n' m3 where 3: "reader_next_list_cell c ?rs m2 = Some (n', ?rs\<lparr>rs_state := PST_ATOM\<rparr>, m3)"
    "filled m c (list_sexp us) n' {n'} m3" "empty_slot m3 n' NULL" "n' \<in> live m3 - live m" "cells_left m3 = cells_left m2 - 1"
    using next_list_cell_ok [OF f p(2) assms(5), of ?rs] by blast
  have "read_char 41 rs2 m2 = Some (?rs\<lparr>rs_state := PST_ATOM, rs_cell := n'\<rparr>, m3)"
    using ec r 3(1) assms(3) by (simp add: read_char_step read_atom_def is_white_def is_digit_def reader_end_list_def stack_top_def Let_def)
  moreover have "elem_read rs m c (list_sexp us) (?rs\<lparr>rs_state := PST_ATOM, rs_cell := n'\<rparr>) m3"
    using 3 r filled_inv [OF 3(2)] by (auto simp: elem_read_def at_slot_def)
  ultimately show ?thesis using 3(5) by auto
qed

section \<open>Texts\<close>

text \<open>
  A grammar of what the reader accepts: \<open>reads t ss\<close> says that the text \<open>t\<close> consists of the elements \<open>ss\<close> with
  any white space and comments between them, the last one being closed.
\<close>

inductive reads :: "byte list \<Rightarrow> sexp list \<Rightarrow> bool" where
  empty: "reads [] []"
| white: "is_white w \<Longrightarrow> reads t ss \<Longrightarrow> reads (w # t) ss"
| comment: "set cs \<inter> {0, 10} = {} \<Longrightarrow> reads t ss \<Longrightarrow> reads (59 # cs @ 10 # t) ss"
| atom: "atom_text a s \<Longrightarrow> is_white w \<Longrightarrow> reads t ss \<Longrightarrow> reads (a @ w # t) (s # ss)"
| string: "set s \<inter> {0, 34} = {} \<Longrightarrow> reads t ss \<Longrightarrow> reads (34 # s @ 34 # t) (SStr s # ss)"
| list: "reads b us \<Longrightarrow> reads t ss \<Longrightarrow> reads (40 # b @ 41 # t) (list_sexp us # ss)"
| list_atom: "reads b us \<Longrightarrow> atom_text a s \<Longrightarrow> reads (b @ a @ [32]) (us @ [s]) \<Longrightarrow> reads t ss \<Longrightarrow> reads (40 # b @ a @ 41 # t) (list_sexp (us @ [s]) # ss)"

lemma reads_append: "reads t ss \<Longrightarrow> reads u rs \<Longrightarrow> reads (t @ u) (ss @ rs)"
  by (induction rule: reads.induct) (auto intro: reads.intros)

lemma same_cell: "rs_cell rs = c \<Longrightarrow> rs\<lparr>rs_state := x, rs_cell := c\<rparr> = rs\<lparr>rs_state := x\<rparr>"
  by (cases rs) simp

lemma read_comment:
  assumes "at_slot rs c m d" "set cs \<inter> {0, 10} = {}"
  shows "read_chars (59 # cs @ [10]) rs m = Some (rs, m)"
proof -
  have a: "rs_state rs = PST_ATOM" "rs_cell rs = c" "c \<noteq> NULL" using assms(1) slot_not_null by (auto simp: at_slot_def)
  have "rs\<lparr>rs_cell := c\<rparr> = rs" "rs\<lparr>rs_cell := c, rs_state := PST_ATOM\<rparr> = rs" using a by (cases rs; simp)+
  then have "read_chars (cs @ [10]) (rs\<lparr>rs_state := PST_COMMENT\<rparr>) m = Some (rs, m)"
    using assms(2) a by (induction cs) (auto simp: read_char_step)
  then show ?thesis using a by (simp add: same_cell read_char_step read_atom_def is_white_def is_digit_def)
qed

text \<open>The conditions under which a text is read without error: enough cells, and room on the stack of the reader.\<close>

definition can_read :: "reader \<Rightarrow> val \<Rightarrow> mem \<Rightarrow> val \<Rightarrow> byte list \<Rightarrow> sexp list \<Rightarrow> bool" where
  "can_read rs h m d t ss \<longleftrightarrow> at_slot rs h m d \<and> base_ok (rs_valuestate rs) t
     \<and> (\<forall>s \<in> set ss. rs_sp rs + nest s \<le> length (rs_stack rs)) \<and> 2 * length t \<le> cells_left m \<and> length t < 2 ^ 28"

definition reads_well :: "byte list \<Rightarrow> sexp list \<Rightarrow> bool" where
  "reads_well t ss \<longleftrightarrow> (\<forall>rs h m d. can_read rs h m d t ss \<longrightarrow>
     (\<exists>rs' m'. read_chars t rs m = Some (rs', m') \<and> items_read rs m h d ss rs' m' \<and> cells_left m \<le> cells_left m' + 2 * length t))"

lemma reads_wellE:
  assumes "reads_well t ss" "can_read rs h m d t ss"
  obtains rs' m' where "read_chars t rs m = Some (rs', m')" "items_read rs m h d ss rs' m'" "cells_left m \<le> cells_left m' + 2 * length t"
  using assms unfolding reads_well_def by blast

lemma at_slot_no_error: "at_slot rs c m d \<Longrightarrow> \<not> is_error (rs_state rs)"
  by (simp add: at_slot_def)

lemma items_read_slot: "items_read rs m h d ss rs' m' \<Longrightarrow> \<not> is_error (rs_state rs')"
  by (auto simp: items_read_def at_slot_def)

text \<open>An element and what follows it.\<close>

lemma reads_well_Cons:
  assumes tl: "reads_well t ss"
    and el: "\<And>rs h m d. can_read rs h m d (e @ t) (s # ss) \<Longrightarrow>
      \<exists>rs1 m1. read_chars e rs m = Some (rs1, m1) \<and> elem_read rs m h s rs1 m1 \<and> cells_left m \<le> cells_left m1 + 2 * length e"
  shows "reads_well (e @ t) (s # ss)"
  unfolding reads_well_def
proof (intro allI impI)
  fix rs h m d assume can: "can_read rs h m d (e @ t) (s # ss)"
  obtain rs1 m1 where 1: "read_chars e rs m = Some (rs1, m1)" "elem_read rs m h s rs1 m1" "cells_left m \<le> cells_left m1 + 2 * length e"
    using el [OF can] by blast
  obtain c where c: "at_slot rs1 c m1 NULL" using 1(2) by (auto simp: elem_read_def)
  have "can_read rs1 c m1 NULL t ss"
    using can c 1(2,3) by (auto simp: can_read_def elem_read_def dest: base_ok_parts intro: base_ok_later)
  then obtain rs2 m2 where 2: "read_chars t rs1 m1 = Some (rs2, m2)" "items_read rs1 m1 c NULL ss rs2 m2" "cells_left m1 \<le> cells_left m2 + 2 * length t"
    using reads_wellE [OF tl] by blast
  have "h \<in> live m" using can by (auto simp: can_read_def at_slot_def empty_slot_def)
  then have "items_read rs m h d (s # ss) rs2 m2"
    by (rule elem_items [OF 1(2)]) (use 2(2) c in \<open>auto simp: at_slot_def\<close>)
  then show "\<exists>rs' m'. read_chars (e @ t) rs m = Some (rs', m') \<and> items_read rs m h d (s # ss) rs' m' \<and> cells_left m \<le> cells_left m' + 2 * length (e @ t)"
    using read_chars_append [OF 1(1) at_slot_no_error [OF c], of t] 2 1(3) by auto
qed

text \<open>A list; the text \<open>b\<close> acts like the text \<open>x\<close> before the closing parenthesis.\<close>

lemma reads_well_list:
  assumes "reads_well b us" "reads_well t ss" "length b \<le> length x + 1" "neg_free x \<Longrightarrow> neg_free b"
    and close: "\<And>rs h m. can_read rs h m NULL b us \<Longrightarrow> 0 < rs_level rs \<Longrightarrow> read_chars (x @ [41]) rs m = read_chars (b @ [41]) rs m"
  shows "reads_well ((40 # x @ [41]) @ t) (list_sexp us # ss)"
proof (rule reads_well_Cons [OF assms(2)])
  fix rs h m d assume can: "can_read rs h m d ((40 # x @ [41]) @ t) (list_sexp us # ss)"
  then have a: "at_slot rs h m d" "rs_state rs = PST_ATOM" "rs_cell rs = h" "0 < cells_left m" "rs_sp rs < length (rs_stack rs)"
    "\<forall>u \<in> set us. rs_sp rs + 1 + nest u \<le> length (rs_stack rs)"
    using nest_list_sexp [of us "length (rs_stack rs) - rs_sp rs"] by (auto simp: can_read_def at_slot_def)
  obtain n m1 where 1: "read_char 40 rs m = Some (opened rs n, m1)" "pending m h d n nil_cell m1" "cells_left m1 = cells_left m - 1"
    "at_slot (opened rs n) n m1 NULL"
    using read_open [OF a(1,4,5)] by blast
  have "base_ok (rs_valuestate rs) x" using can by (auto simp: can_read_def dest: base_ok_parts)
  then have "base_ok (rs_valuestate rs) b" using assms(4) by (auto simp: base_ok_def)
  then have can1: "can_read (opened rs n) n m1 NULL b us"
    using can 1(3,4) a assms(3) by (auto simp: can_read_def opened_def)
  then obtain rs2 m2 where 2: "read_chars b (opened rs n) m1 = Some (rs2, m2)" "items_read (opened rs n) m1 n NULL us rs2 m2"
    "cells_left m1 \<le> cells_left m2 + 2 * length b"
    using reads_wellE [OF assms(1)] by blast
  have left: "0 < cells_left m2" using 2(3) 1(3) can assms(3) by (auto simp: can_read_def)
  obtain rs3 m3 where 3: "read_char 41 rs2 m2 = Some (rs3, m3)" "elem_read rs m h (list_sexp us) rs3 m3" "cells_left m3 = cells_left m2 - 1"
    using read_close [OF 1(2) a(3,5,2) left 2(2)] by blast
  have "read_chars (x @ [41]) (opened rs n) m1 = Some (rs3, m3)"
    using close [OF can1] read_chars_append [OF 2(1) items_read_slot [OF 2(2)], of "[41]"] 3(1) by (simp add: opened_def)
  then have "read_chars (40 # x @ [41]) rs m = Some (rs3, m3)" using 1(1) by (simp add: opened_def)
  then show "\<exists>rs1 m1. read_chars (40 # x @ [41]) rs m = Some (rs1, m1) \<and> elem_read rs m h (list_sexp us) rs1 m1
      \<and> cells_left m \<le> cells_left m1 + 2 * length (40 # x @ [41])"
    using 3 2(3) 1(3) assms(3) by auto
qed

lemma read_close_eq:
  assumes "reads_well b us" "atom_text a s" "can_read rs h m NULL (b @ a @ [32]) (us @ [s])" "0 < rs_level rs"
  shows "read_chars ((b @ a) @ [41]) rs m = read_chars ((b @ a @ [32]) @ [41]) rs m"
proof -
  have "can_read rs h m NULL b us" using assms(3) by (auto simp: can_read_def dest: base_ok_parts)
  then obtain rs1 m1 where 1: "read_chars b rs m = Some (rs1, m1)" "items_read rs m h NULL us rs1 m1" "cells_left m \<le> cells_left m1 + 2 * length b"
    using reads_wellE [OF assms(1)] by blast
  obtain c d where c: "at_slot rs1 c m1 d" using 1(2) by (auto simp: items_read_def)
  have "base_ok (rs_valuestate rs) a" using assms(3) by (auto simp: can_read_def dest!: base_ok_parts)
  then have r: "base_ok (rs_valuestate rs1) a" "0 < rs_level rs1"
    using assms(4) 1(2) by (auto simp: items_read_def intro: base_ok_later)
  have left: "2 \<le> cells_left m1" "length a < 2 ^ 28" using 1(3) assms(3) by (auto simp: can_read_def)
  obtain rs2 m2 where 2: "read_chars a rs1 m1 = Some (rs2, m2)" "in_atom rs2" "same_rs rs1 rs2" "filled m1 c s d {} m2" "cells_left m2 = cells_left m1 - 1"
    using read_atom_text [OF assms(2) c r(1) _ left(2)] left(1) by auto
  have "read_char 41 rs2 m2 = read_chars [32, 41] rs2 m2"
    by (rule read_close_after_atom [OF 2(2) _ 2(4)]) (use c 2(3,5) r(2) left(1) in \<open>auto simp: at_slot_def empty_slot_def same_rs_def\<close>)
  then have "read_chars [41] rs2 m2 = read_chars [32, 41] rs2 m2" by (cases "read_char 41 rs2 m2") (auto split: bind_splits)
  then show ?thesis
    using read_chars_append [OF 1(1) items_read_slot [OF 1(2)]] read_chars_append [OF 2(1) in_atom_no_error [OF 2(2)]] by simp
qed

lemma read_white_at_slot: "at_slot rs c m d \<Longrightarrow> is_white w \<Longrightarrow> read_char w rs m = Some (rs, m)"
  by (cases rs) (auto simp: at_slot_def read_char_step read_atom_def dest: slot_not_null)

text \<open>White space and comments change nothing.\<close>

lemma reads_well_layout:
  assumes "reads_well t ss" "\<And>rs h m d. at_slot rs h m d \<Longrightarrow> read_chars u rs m = Some (rs, m)"
  shows "reads_well (u @ t) ss"
  unfolding reads_well_def
proof (intro allI impI)
  fix rs h m d assume can: "can_read rs h m d (u @ t) ss"
  then have s: "at_slot rs h m d" and "can_read rs h m d t ss" by (auto simp: can_read_def dest: base_ok_parts)
  then obtain rs' m' where "read_chars t rs m = Some (rs', m')" "items_read rs m h d ss rs' m'" "cells_left m \<le> cells_left m' + 2 * length t"
    using reads_wellE [OF assms(1)] by blast
  then show "\<exists>rs' m'. read_chars (u @ t) rs m = Some (rs', m') \<and> items_read rs m h d ss rs' m' \<and> cells_left m \<le> cells_left m' + 2 * length (u @ t)"
    using read_chars_append [OF assms(2) [OF s] at_slot_no_error [OF s], of t] by auto
qed

lemma reads_well_atom:
  assumes "atom_text a s" "is_white w" "reads_well t ss"
  shows "reads_well ((a @ [w]) @ t) (s # ss)"
proof (rule reads_well_Cons [OF assms(3)])
  fix rs h m d assume "can_read rs h m d ((a @ [w]) @ t) (s # ss)"
  then have c: "at_slot rs h m d" "base_ok (rs_valuestate rs) a" "2 \<le> cells_left m" "length a < 2 ^ 28"
    by (auto simp: can_read_def dest!: base_ok_parts)
  show "\<exists>rs1 m1. read_chars (a @ [w]) rs m = Some (rs1, m1) \<and> elem_read rs m h s rs1 m1 \<and> cells_left m \<le> cells_left m1 + 2 * length (a @ [w])"
    using read_atom_elem [OF assms(1,2) c] by fastforce
qed

lemma reads_ok: "reads t ss \<Longrightarrow> reads_well t ss"
proof (induction rule: reads.induct)
  case empty
  then show ?case using items_read_Nil by (fastforce simp: reads_well_def can_read_def)
next
  case (white w t ss)
  then show ?case using reads_well_layout [of t ss "[w]"] read_white_at_slot at_slot_no_error by fastforce
next
  case (comment cs t ss)
  then show ?case using reads_well_layout [of t ss "59 # cs @ [10]"] read_comment by fastforce
next
  case (atom a s w t ss)
  then show ?case using reads_well_atom by fastforce
next
  case (string s t ss)
  have "reads_well ((34 # s @ [34]) @ t) (SStr s # ss)"
  proof (rule reads_well_Cons [OF string.IH])
    fix rs h m d assume "can_read rs h m d ((34 # s @ [34]) @ t) (SStr s # ss)"
    then have c: "at_slot rs h m d" "2 \<le> cells_left m" "length s < 2 ^ 28" by (auto simp: can_read_def)
    show "\<exists>rs1 m1. read_chars (34 # s @ [34]) rs m = Some (rs1, m1) \<and> elem_read rs m h (SStr s) rs1 m1
        \<and> cells_left m \<le> cells_left m1 + 2 * length (34 # s @ [34])"
      using read_string_elem [OF _ _ c] string.hyps by fastforce
  qed
  then show ?case by simp
next
  case (list b us t ss)
  then show ?case using reads_well_list [OF list.IH, of b] by simp
next
  case (list_atom b us a s t ss)
  then show ?case using reads_well_list [of "b @ a @ [32]" "us @ [s]" t ss "b @ a"] read_close_eq [OF list_atom.IH(1)]
      neg_free_snoc [of "b @ a" 32] by (simp add: is_digit_def)
qed

lemma reads_list_atom:
  "reads b us \<Longrightarrow> atom_text a s \<Longrightarrow> reads t ss \<Longrightarrow> reads (40 # b @ a @ 41 # t) (list_sexp (us @ [s]) # ss)"
  using reads_append [of b us "a @ [32]" "[s]"] reads.atom [OF _ _ reads.empty, of a s 32] by (intro reads.list_atom) (auto simp: is_white_def)

section \<open>Whole strings\<close>

text \<open>A text with one element: closed, or an atom at the end of the input.\<close>

definition reads_one :: "byte list \<Rightarrow> sexp \<Rightarrow> bool" where
  "reads_one t s \<longleftrightarrow> reads t [s] \<or> (\<exists>b a. t = b @ a \<and> reads b [] \<and> atom_text a s)"

lemma atom_text_nonempty: "atom_text a s \<Longrightarrow> a \<noteq> []"
  by (auto elim: atom_text.cases)

lemma reads_one_nonempty: "reads_one t s \<Longrightarrow> t \<noteq> []"
  by (auto simp: reads_one_def dest: atom_text_nonempty elim: reads.cases)

text \<open>The root that the first character creates.\<close>

lemma read_atom_cell:
  "Option.bind (read_atom x c (rs\<lparr>rs_cell := u\<rparr>) m) (\<lambda>(cell, rs, m). Some (rs\<lparr>rs_cell := cell\<rparr>, m))
   = Option.bind (read_atom x c rs m) (\<lambda>(cell, rs, m). Some (rs\<lparr>rs_cell := cell\<rparr>, m))"
  by (simp add: read_atom_def reader_end_list_def reader_next_list_cell_def stack_put_def stack_top_def Let_def bind_eq_None_conv
      split: bind_splits)

lemma read_root:
  assumes "alloc_inv m" "2 \<le> cells_left m" "t \<noteq> []"
  obtains r d m1 rs where "read_chars t (reader_init vs) m = read_chars t rs m1" "at_slot rs r m1 d" "r \<notin> live m"
    "grows_but m r m1" "cells_left m1 = cells_left m - 2" "rs_valuestate rs = vs" "rs_sp rs = 0" "rs_level rs = 0"
    "length (rs_stack rs) = stack_slots" "rs_stack rs ! 0 = Some r"
proof -
  obtain r m1 where r: "alloc_nil m = Some (r, m1)" "fresh_cell m r nil_cell m1" using alloc_nil_ok [OF assms(1)] assms(2) by auto
  then have i1: "alloc_inv m1" "0 < cells_left m1" "r \<notin> live m" "r \<in> live m1" "cells_left m1 = cells_left m - 1"
    using assms(2) by (auto simp: fresh_cell_def)
  obtain n m2 where n: "alloc_nil m1 = Some (n, m2)" "fresh_cell m1 n nil_cell m2" using alloc_nil_ok [OF i1(1,2)] by auto
  then have i2: "alloc_inv m2" "r \<in> live m2" "get_cell m2 r = Some nil_cell" "cells_left m2 = cells_left m - 2"
    using r(2) i1 by (auto simp: fresh_cell_def)
  obtain m3 where u: "upd_cell r (\<lambda>x. x\<lparr>c_dr := n\<rparr>) m2 = Some m3" "grows_but m2 r m3" "live m3 = live m2" "alloc_inv m3"
    "get_cell m3 r = Some \<lparr>c_ar = NULL, c_dr = n, c_tag = TAG_CONS\<rparr>" "cells_left m3 = cells_left m2"
    using upd_cell_grows [OF i2(1,2), of "\<lambda>x. x\<lparr>c_dr := n\<rparr>"] i2(3) by (metis cell.update_convs(2) option.inject)
  let ?rs = "(reader_init vs)\<lparr>rs_stack := (replicate stack_slots None)[0 := Some r], rs_cell := r\<rparr>"
  have "r \<noteq> NULL" "0 < stack_slots" using i2(3) by (auto simp: stack_slots_def)
  then have "read_char x (reader_init vs) m = read_char x ?rs m3" for x
    using r(1) n(1) u(1) read_atom_cell [of x r NULL ?rs m3] by (simp add: read_char_def reader_init_def stack_put_def)
  then have "read_chars t (reader_init vs) m = read_chars t ?rs m3" using assms(3) by (cases t) simp_all
  moreover have "at_slot ?rs r m3 n" using u i2(2) by (simp add: at_slot_def empty_slot_def reader_init_def)
  moreover have "grows_but m r m3"
    by (rule grows_but_trans [OF fresh_cell_grows [OF r(2)] grows_but_trans [OF fresh_cell_grows [OF n(2)] u(2)]]) auto
  ultimately show ?thesis using that i1(3) u(6) i2(4) by (auto simp: reader_init_def stack_slots_def)
qed

lemma read_one_ok:
  assumes "reads_one t s" "at_slot rs r m d" "base_ok (rs_valuestate rs) t" "nest s \<le> length (rs_stack rs)" "rs_sp rs = 0"
    "rs_stack rs ! 0 = Some r" "2 * length t \<le> cells_left m" "length t < 2 ^ 28"
  shows "\<exists>rs' m' p d'. read_chars t rs m = Some (rs', m') \<and> \<not> is_error (rs_state rs') \<and> rs_level rs' = rs_level rs \<and> rs_sp rs' = 0
    \<and> rs_stack rs' ! 0 = Some r \<and> length (rs_stack rs') = length (rs_stack rs) \<and> grows_but m r m'
    \<and> get_cell m' r = Some \<lparr>c_ar = p, c_dr = d', c_tag = TAG_CONS\<rparr> \<and> sexp_on (insert r (live m' - live m)) (length (blocks m)) m' p s
    \<and> cells_left m \<le> cells_left m' + 2 * length t"
  using assms(1) unfolding reads_one_def
proof (elim disjE exE conjE)
  assume "reads t [s]"
  moreover have "can_read rs r m d t [s]" using assms by (auto simp: can_read_def)
  ultimately obtain rs' m' where 1: "read_chars t rs m = Some (rs', m')" "items_read rs m r d [s] rs' m'"
    "cells_left m \<le> cells_left m' + 2 * length t"
    using reads_wellE [OF reads_ok] by blast
  then obtain e p where e: "grows_but m r m'" "get_cell m' r = Some \<lparr>c_ar = p, c_dr = e, c_tag = TAG_CONS\<rparr>"
    "sexp_on (insert r (live m' - live m) - {e}) (length (blocks m)) m' p s"
    by (auto simp: items_read_def)
  then have "sexp_on (insert r (live m' - live m)) (length (blocks m)) m' p s"
    by (auto intro: sexp_on_mono)
  then show ?thesis using 1 e items_read_slot [OF 1(2)] assms(5,6) by (auto simp: items_read_def)
next
  fix b a assume t: "t = b @ a" "reads b []" "atom_text a s"
  have vs: "base_ok (rs_valuestate rs) b" "base_ok (rs_valuestate rs) a" using assms(3) t(1) by (auto dest: base_ok_parts)
  have "can_read rs r m d b []" using assms t(1) vs(1) by (auto simp: can_read_def)
  then obtain rs1 m1 where 1: "read_chars b rs m = Some (rs1, m1)" "items_read rs m r d [] rs1 m1" "cells_left m \<le> cells_left m1 + 2 * length b"
    using reads_wellE [OF reads_ok [OF t(2)]] by blast
  then have s1: "at_slot rs1 r m1 d" "grows_but m r m1" "base_ok (rs_valuestate rs1) a"
    using vs(2) by (auto simp: items_read_def intro: base_ok_later)
  have "0 < cells_left m1" "length a < 2 ^ 28" using 1(3) t(1) assms(7,8) atom_text_nonempty [OF t(3)] by (cases a; auto)+
  from read_atom_text [OF t(3) s1(1,3) this]
  obtain rs2 m2 where 2: "read_chars a rs1 m1 = Some (rs2, m2)" "in_atom rs2" "same_rs rs1 rs2" "filled m1 r s d {} m2"
    "cells_left m2 = cells_left m1 - 1"
    by blast
  then obtain p where p: "grows_but m1 r m2" "get_cell m2 r = Some \<lparr>c_ar = p, c_dr = d, c_tag = TAG_CONS\<rparr>"
    "sexp_on (live m2 - live m1) (length (blocks m1)) m2 p s"
    by (auto simp: filled_def)
  have "length (blocks m) \<le> length (blocks m1)" "live m \<subseteq> live m1" using s1(2) by (auto simp: grows_but_def dest: prefix_length_le)
  then have "sexp_on (insert r (live m2 - live m)) (length (blocks m)) m2 p s" by (auto intro: sexp_on_mono [OF p(3)])
  moreover have "grows_but m r m2" by (rule grows_but_trans [OF s1(2) p(1)]) simp
  moreover have "read_chars t rs m = Some (rs2, m2)" using read_chars_append [OF 1(1) at_slot_no_error [OF s1(1)], of a] 2(1) t(1) by simp
  moreover have "cells_left m \<le> cells_left m2 + 2 * length t"
    using 1(3) 2(5) t(1) atom_text_nonempty [OF t(3)] by (cases a) auto
  ultimately show ?thesis using p(2) 1(2) 2(3) in_atom_no_error [OF 2(2)] assms(5,6) by (auto simp: items_read_def same_rs_def)
qed

lemma read_string_ok:
  assumes "reads_one t s" "alloc_inv m" "2 * length t + 2 \<le> cells_left m" "length t < 2 ^ 28" "nest s \<le> stack_slots" "base_ok vs t"
  shows "\<exists>p m'. read_string vs t m = Some (p, m') \<and> sexp_on (live m' - live m) (length (blocks m)) m' p s
    \<and> alloc_inv m' \<and> mem_grows m m' \<and> envs m' = envs m \<and> cells_left m \<le> cells_left m' + 2 * length t + 2"
proof -
  have two: "2 \<le> cells_left m" using assms(3) by simp
  obtain r d m1 rs where r: "read_chars t (reader_init vs) m = read_chars t rs m1" "at_slot rs r m1 d" "r \<notin> live m"
    "grows_but m r m1" "cells_left m1 = cells_left m - 2" "rs_valuestate rs = vs" "rs_sp rs = 0" "rs_level rs = 0"
    "length (rs_stack rs) = stack_slots" "rs_stack rs ! 0 = Some r"
    by (rule read_root [OF assms(2) two reads_one_nonempty [OF assms(1)]])
  have left: "2 * length t \<le> cells_left m1" using r(5) assms(3) by simp
  obtain rs' m' p d' where 1: "read_chars t rs m1 = Some (rs', m')" "\<not> is_error (rs_state rs')" "rs_level rs' = 0" "rs_sp rs' = 0"
    "rs_stack rs' ! 0 = Some r" "length (rs_stack rs') = stack_slots" "grows_but m1 r m'"
    "get_cell m' r = Some \<lparr>c_ar = p, c_dr = d', c_tag = TAG_CONS\<rparr>" "sexp_on (insert r (live m' - live m1)) (length (blocks m1)) m' p s"
    "cells_left m1 \<le> cells_left m' + 2 * length t"
    using read_one_ok [OF assms(1) r(2)] left r assms(4-6) by auto
  have "r \<noteq> NULL" using 1(8) by auto
  have g: "grows_but m r m'" by (rule grows_but_trans [OF r(4) 1(7)]) simp
  have "read_string vs t m = Some (p, m')"
    using r(1) 1 \<open>r \<noteq> NULL\<close> by (simp add: read_string_def stack_top_def car_def stack_slots_def)
  moreover have "length (blocks m) \<le> length (blocks m1)" "live m \<subseteq> live m1" "live m1 \<subseteq> live m'" "r \<in> live m1"
    using r(2,4) 1(7) by (auto simp: grows_but_def at_slot_def empty_slot_def dest: prefix_length_le)
  then have "sexp_on (live m' - live m) (length (blocks m)) m' p s"
    by (intro sexp_on_mono [OF 1(9)]) (use r(3) in auto)
  moreover have "mem_grows m m'" "alloc_inv m'" "envs m' = envs m"
    using g r(3) by (auto simp: grows_but_def mem_grows_def)
  moreover have "cells_left m \<le> cells_left m' + 2 * length t + 2" using 1(10) r(5) by simp
  ultimately show ?thesis by blast
qed

lemma read_error_ok:
  assumes "read_chars t (reader_init vs) m = Some (rs, m1)" "is_error (rs_state rs) \<or> rs_level rs \<noteq> 0" "alloc_inv m1" "0 < cells_left m1"
  shows "\<exists>p m'. read_string vs t m = Some (p, m') \<and> get_cell m' p = Some \<lparr>c_ar = W (ucast ERR_SYNTAX), c_dr = NULL, c_tag = TAG_ERROR\<rparr>"
  using alloc_error_ok [OF assms(3,4), of ERR_SYNTAX] assms(1,2) by (auto simp: read_string_def fresh_cell_def)

text \<open>The elements of a text at the outermost level.\<close>

lemma read_items_at_root:
  assumes "reads t ss" "alloc_inv m" "2 * length t + 4 \<le> cells_left m" "length t < 2 ^ 28" "\<forall>s \<in> set ss. nest s \<le> stack_slots" "u \<noteq> []" "base_ok vs t"
  obtains rs e m1 d where "read_chars (t @ u) (reader_init vs) m = read_chars u rs m1" "at_slot rs e m1 d" "rs_level rs = 0" "rs_sp rs = 0"
    "length (rs_stack rs) = stack_slots" "rs_valuestate rs \<in> {vs, VST_DEFAULT}" "cells_left m \<le> cells_left m1 + 2 * length t + 2"
proof -
  have two: "2 \<le> cells_left m" "t @ u \<noteq> []" using assms(3,6) by simp_all
  obtain r d m1 rs where r: "read_chars (t @ u) (reader_init vs) m = read_chars (t @ u) rs m1" "at_slot rs r m1 d"
    "cells_left m1 = cells_left m - 2" "rs_valuestate rs = vs" "rs_sp rs = 0" "rs_level rs = 0" "length (rs_stack rs) = stack_slots"
    using read_root [OF assms(2) two, of vs] by metis
  have "can_read rs r m1 d t ss" using r assms(3-5,7) by (simp add: can_read_def)
  then obtain rs' m' where 1: "read_chars t rs m1 = Some (rs', m')" "items_read rs m1 r d ss rs' m'" "cells_left m1 \<le> cells_left m' + 2 * length t"
    using reads_wellE [OF reads_ok [OF assms(1)]] by blast
  have "read_chars (t @ u) rs m1 = read_chars u rs' m'" by (rule read_chars_append [OF 1(1) items_read_slot [OF 1(2)]])
  with that 1 r show ?thesis by (auto simp: items_read_def)
qed



text \<open>
  C34. A closing parenthesis too many, whatever follows, and an opening one that is never closed give the syntax error cell, whatever the
  uninitialised field \<open>valuestate\<close> holds if no digit follows a minus sign, and in any case if it is not \<open>VST_HEX\<close>.
\<close>

theorem read_string_unbalanced:
  assumes "reads t ss" "alloc_inv m" "2 * length t + 2 * length b + 6 \<le> cells_left m" "length t + length b < 2 ^ 28"
    "\<forall>s \<in> set ss. nest s \<le> stack_slots" "reads b us" "\<forall>s \<in> set us. nest s < stack_slots" "x = 41 # u \<or> x = 40 # b"
    and "vs = VST_DEFAULT \<or> neg_free t \<and> neg_free b"
  shows "\<exists>p m'. read_string vs (t @ x) m = Some (p, m')
    \<and> get_cell m' p = Some \<lparr>c_ar = W (ucast ERR_SYNTAX), c_dr = NULL, c_tag = TAG_ERROR\<rparr>"
proof -
  obtain rs e m1 d where 1: "read_chars (t @ x) (reader_init vs) m = read_chars x rs m1" "at_slot rs e m1 d" "rs_level rs = 0" "rs_sp rs = 0"
    "length (rs_stack rs) = stack_slots" "rs_valuestate rs \<in> {vs, VST_DEFAULT}" "cells_left m \<le> cells_left m1 + 2 * length t + 2"
    by (rule read_items_at_root [OF assms(1,2) _ _ assms(5), of x vs]) (use assms(3,4,8,9) in \<open>auto simp: base_ok_def\<close>)
  have s: "rs_state rs = PST_ATOM" "rs_cell rs = e" "e \<noteq> NULL" "alloc_inv m1" "0 < cells_left m1"
    using 1(2,7) slot_not_null assms(3) by (auto simp: at_slot_def)
  show ?thesis
    using assms(8)
  proof
    assume x: "x = 41 # u"
    have "read_char 41 rs m1 = Some (rs\<lparr>rs_state := PST_ERR_UNEXP_CLOSING_BRACE, rs_cell := e\<rparr>, m1)"
      using s 1(3) by (simp add: read_char_step read_atom_def reader_end_list_def is_white_def is_digit_def)
    then have "read_chars (t @ x) (reader_init vs) m = Some (rs\<lparr>rs_state := PST_ERR_UNEXP_CLOSING_BRACE, rs_cell := e\<rparr>, m1)"
      using 1(1) x by simp
    then show ?thesis by (rule read_error_ok) (use s in auto)
  next
    assume x: "x = 40 # b"
    obtain n m2 where 2: "read_char 40 rs m1 = Some (opened rs n, m2)" "cells_left m2 = cells_left m1 - 1" "at_slot (opened rs n) n m2 NULL"
      using read_open [OF 1(2) s(5)] 1(4,5) by (auto simp: stack_slots_def)
    have "base_ok (rs_valuestate rs) b" using 1(6) assms(9) by (auto simp: base_ok_def)
    then have "can_read (opened rs n) n m2 NULL b us"
      using 2(2,3) 1 assms(3,4,7) by (auto simp: can_read_def opened_def Suc_le_eq)
    then obtain rs' m' where 3: "read_chars b (opened rs n) m2 = Some (rs', m')" "items_read (opened rs n) m2 n NULL us rs' m'"
      "cells_left m2 \<le> cells_left m' + 2 * length b"
      using reads_wellE [OF reads_ok [OF assms(6)]] by blast
    have "read_chars (t @ x) (reader_init vs) m = Some (rs', m')" using 1(1) x 2(1) 3(1) by (simp add: opened_def)
    moreover have "rs_level rs' \<noteq> 0" "alloc_inv m'" "0 < cells_left m'"
      using 3(2,3) 2(2) 1(7) assms(3) by (auto simp: items_read_def opened_def at_slot_def)
    ultimately show ?thesis by (intro read_error_ok) auto
  qed
qed

theorem read_string_unbalanced_witness:
  "\<exists>p m'. read_string VST_DEFAULT (bs ''())'') sample_mem = Some (p, m') \<and> get_cell m' p = Some \<lparr>c_ar = W 0, c_dr = NULL, c_tag = TAG_ERROR\<rparr>"
proof -
  have "reads (40 # [] @ 41 # []) [list_sexp []]" by (intro reads.intros)
  from read_string_unbalanced [OF this sample_mem_facts(1) _ _ _ reads.empty, of "[41]" "[]" VST_DEFAULT] show ?thesis
    by (simp add: sample_mem_facts list_sexp_def stack_slots_def ERR_SYNTAX_def)
qed

text \<open>
  The base of a negative number is whatever the field \<open>valuestate\<close> happens to be: it is set at the first digit of a
  positive number only, and \<open>read_string\<close> does not initialise it. Left at \<open>VST_HEX\<close> by a hexadecimal number, it makes the
  digits of a negative number hexadecimal.
\<close>

theorem negative_number_base:
  assumes "list_all is_digit (x # ds)" "alloc_inv m" "4 \<le> cells_left m"
  shows "\<exists>p m'. read_string vs (45 # x # ds) m = Some (p, m') \<and> sexp_at m' p (SInt (- num_value (base_of vs) 0 (x # ds)))"
proof -
  have two: "2 \<le> cells_left m" using assms(3) by simp
  obtain r d m1 rs where r: "read_chars (45 # x # ds) (reader_init vs) m = read_chars (45 # x # ds) rs m1" "at_slot rs r m1 d" "r \<notin> live m"
    "grows_but m r m1" "cells_left m1 = cells_left m - 2" "rs_valuestate rs = vs" "rs_sp rs = 0" "rs_level rs = 0"
    "length (rs_stack rs) = stack_slots" "rs_stack rs ! 0 = Some r"
    by (rule read_root [OF assms(2) two, of "45 # x # ds" vs]) auto
  have c: "rs_cell rs = r" "sym_start 45" "0 < cells_left m1"
    using r(2,5) assms(3) by (auto simp: at_slot_def sym_start_def is_white_def is_digit_def)
  obtain n m2 where 2: "read_char 45 rs m1 = Some (rs\<lparr>rs_state := PST_SYM, rs_sym_len := 1\<rparr>, m2)" "pending_text m1 r d n TAG_SYM [45] m2"
    using start_symbol [OF r(2) c(3,2)] by blast
  let ?rs = "rs\<lparr>rs_state := PST_NUM_NEG, rs_sym_len := 1\<rparr>"
  obtain e m3 where 3: "read_char x (rs\<lparr>rs_state := PST_SYM, rs_sym_len := 1\<rparr>) m2 = Some (?rs, m3)"
    "pending m1 r d n \<lparr>c_ar = W (- ucast (x - 48)), c_dr = e, c_tag = TAG_INT\<rparr> m3"
    using read_minus_digit [OF 2(2), of "rs\<lparr>rs_state := PST_SYM, rs_sym_len := 1\<rparr>" x] assms(1) c(1) by auto
  obtain m4 where 4: "read_chars ds ?rs m3 = Some (?rs, m4)"
    "pending m1 r d n \<lparr>c_ar = W (- num_value (base_of vs) (ucast (x - 48)) ds), c_dr = e, c_tag = TAG_INT\<rparr> m4"
    using read_digits [OF 3(2), of ?rs True ds] assms(1) c(1) r(6) by auto
  have "read_string vs (45 # x # ds) m = Some (n, m4)"
    using r(1,7-10) 2(1) 3(1) 4 pending_distinct [OF 4(2)] by (simp add: read_string_def stack_top_def car_def stack_slots_def pending_def)
  then show ?thesis using 4(2) by (auto simp: pending_def num_value_def)
qed

theorem negative_number_base_witness:
  "\<exists>p m'. read_string VST_HEX (bs ''-12'') sample_mem = Some (p, m') \<and> sexp_at m' p (SInt (- 18))"
  using negative_number_base [of 49 "[50]" sample_mem VST_HEX]
  by (simp add: sample_mem_facts is_digit_def num_value_def base_of_def)

end
