(* ===== verification/Roundtrip.thy ===== *)
theory Roundtrip
  imports Reading Writer
begin

text \<open>
  The printer and the reader together: the text that \<open>lisp_write\<close> produces belongs to the grammar of the reader, so that
  reading it gives the printed structure back.
\<close>

section \<open>Numbers\<close>

lemma is_digit_digit_char: "d < 10 \<Longrightarrow> is_digit (digit_char d)"
proof -
  assume "d < 10"
  then have "unat (digit_char d) = 48 + d" by (simp add: digit_char_def unat_plus_small unat_of_nat)
  with \<open>d < 10\<close> show ?thesis by (simp add: is_digit_def word_le_nat_alt)
qed

lemma digit_char_value: "d < 10 \<Longrightarrow> ucast (digit_char d - 48) = (of_nat d :: u64)"
  by (simp add: digit_char_def unsigned_of_nat take_bit_nat_eq_self)

lemma show_nat_digits: "list_all is_digit (show_nat n) \<and> show_nat n \<noteq> []"
  by (induction n rule: show_nat.induct) (subst (1 2) show_nat.simps, auto simp: is_digit_digit_char)

lemma dec_value_show_nat: "dec_value 0 (show_nat n) = of_nat n"
proof (induction n rule: show_nat.induct)
  case (1 n)
  show ?case
  proof (cases "n < 10")
    case True
    then show ?thesis by (subst show_nat.simps) (simp add: num_value_def digit_char_value)
  next
    case False
    then have "dec_value 0 (show_nat n) = of_nat (n div 10) * 10 + of_nat (n mod 10)"
      using 1 by (subst show_nat.simps) (simp add: num_value_def digit_char_value)
    also have "\<dots> = of_nat (n div 10 * 10 + n mod 10)" by (simp only: of_nat_add of_nat_mult of_nat_numeral)
    finally show ?thesis by simp
  qed
qed

lemma show_int_atom: "atom_text (show_int (sint w)) (SInt w)"
proof (cases "sint w < 0")
  case True
  define k where "k = nat (- sint w)"
  obtain x ds where x: "show_nat k = x # ds" using show_nat_digits [of k] by (cases "show_nat k") auto
  have "atom_text (45 # x # ds) (SInt (- dec_value 0 (x # ds)))"
    using show_nat_digits [of k] x by (intro atom_text.negative) simp
  moreover have "- dec_value 0 (x # ds) = w"
  proof -
    have "(of_nat k :: u64) = of_int (- sint w)" using True by (simp add: k_def)
    then show ?thesis using dec_value_show_nat [of k] x by simp
  qed
  ultimately show ?thesis using True x by (simp add: show_int_def k_def)
next
  case False
  define k where "k = nat (sint w)"
  obtain x ds where x: "show_nat k = x # ds" using show_nat_digits [of k] by (cases "show_nat k") auto
  have "atom_text (x # ds) (SInt (dec_value 0 (x # ds)))"
    using show_nat_digits [of k] x by (intro atom_text.number) simp
  moreover have "dec_value 0 (x # ds) = w"
  proof -
    have "(of_nat k :: u64) = of_int (sint w)" using False by (simp add: k_def)
    then show ?thesis using dec_value_show_nat [of k] x by simp
  qed
  ultimately show ?thesis using False x by (simp add: show_int_def k_def)
qed

section \<open>The printed text in the grammar of the reader\<close>

text \<open>Structures whose text can be read back: proper lists, symbols the reader takes for symbols, strings without quotes,
  and no empty list as an element (which is printed like the symbol \<open>nil\<close>).\<close>

fun readable :: "sexp \<Rightarrow> bool" and readable_tail :: "sexp \<Rightarrow> bool" where
  "readable SNil = False"
| "readable (SInt w) = True"
| "readable (SSym s) = (s \<noteq> [] \<and> sym_start (hd s) \<and> list_all (sym_char (hd s)) (tl s))"
| "readable (SStr s) = (set s \<inter> {0, 34} = {})"
| "readable (SCons a d) = (readable a \<and> readable_tail d)"
| "readable_tail SNil = True"
| "readable_tail (SCons a d) = (readable a \<and> readable_tail d)"
| "readable_tail _ = False"

text \<open>The text is an atom, or closed.\<close>

definition reads_elem :: "byte list \<Rightarrow> sexp \<Rightarrow> bool" where
  "reads_elem t s \<longleftrightarrow> atom_text t s \<or> reads t [s]"

lemma reads_elem_space: "reads_elem t s \<Longrightarrow> reads (t @ [32]) [s]"
  using reads.atom [OF _ _ reads.empty, of t s 32] reads_append [of t "[s]" "[32]" "[]"] reads.white [OF _ reads.empty, of 32]
  by (auto simp: reads_elem_def is_white_def)

text \<open>The rest of a list after the elements \<open>us\<close>.\<close>

definition reads_tail :: "byte list \<Rightarrow> sexp \<Rightarrow> bool" where
  "reads_tail t d \<longleftrightarrow> (\<forall>b us. reads b us \<longrightarrow> reads (40 # b @ t @ [41]) [foldr SCons us d])"

lemma reads_tail_last: "reads_elem t a \<Longrightarrow> reads_tail t (SCons a SNil)"
  unfolding reads_tail_def reads_elem_def
  using reads_list_atom [OF _ _ reads.empty] reads.list [OF reads_append reads.empty]
  by (fastforce simp: list_sexp_def)

lemma reads_tail_more:
  assumes "reads_elem t a" "reads_tail r d"
  shows "reads_tail (t @ 32 # r) (SCons a d)"
  unfolding reads_tail_def
proof (intro allI impI)
  fix b us assume "reads b us"
  then have "reads (b @ t @ [32]) (us @ [a])" using reads_append reads_elem_space [OF assms(1)] by blast
  then show "reads (40 # b @ (t @ 32 # r) @ [41]) [foldr SCons us (SCons a d)]"
    using assms(2) unfolding reads_tail_def by fastforce
qed

lemma reads_elem_list:
  assumes "reads_elem t a" "reads_tail r d"
  shows "reads (40 # t @ 32 # r @ [41]) [SCons a d]" "reads (40 # t @ 32 # [41]) [SCons a SNil]"
proof -
  show "reads (40 # t @ 32 # r @ [41]) [SCons a d]"
    using reads_elem_space [OF assms(1)] assms(2) unfolding reads_tail_def by fastforce
  show "reads (40 # t @ 32 # [41]) [SCons a SNil]"
    using reads.list [OF reads_elem_space [OF assms(1)] reads.empty] by (simp add: list_sexp_def)
qed

lemma print_nonempty: "readable s \<Longrightarrow> print_sexp b s \<noteq> []"
proof (induction s arbitrary: b)
  case (SCons a d)
  then show ?case by (cases d) (auto simp: Let_def)
qed (use atom_text_nonempty [OF show_int_atom] in auto)

lemma print_reads:
  "(readable s \<longrightarrow> reads_elem (print_sexp False s) s) \<and> (readable_tail s \<longrightarrow> s \<noteq> SNil \<longrightarrow> reads_tail (print_sexp True s) s)"
proof (induction s)
  case (SSym s)
  then show ?case using atom_text.symbol [of "hd s" "tl s"] by (auto simp: reads_elem_def)
next
  case (SStr s)
  then show ?case using reads.string [OF _ reads.empty, of s] by (auto simp: reads_elem_def)
next
  case (SCons a d)
  show ?case
  proof (cases d)
    case SNil
    then show ?thesis
      using SCons reads_tail_last [of "print_sexp False a" a] reads_elem_list(2) [of "print_sexp False a" a "[]" "SCons a SNil"]
        reads.list [OF reads_elem_space reads.empty, of "print_sexp False a" a]
      by (auto simp: reads_elem_def list_sexp_def)
  next
    case (SCons x y)
    have d: "readable_tail d \<Longrightarrow> print_sexp True d \<noteq> []" using print_nonempty [of "SCons x y" True] SCons by simp
    have "readable_tail d \<Longrightarrow> reads_tail (print_sexp True d) d" using SCons.IH(2) SCons by simp
    then show ?thesis
      using SCons d SCons.IH(1) reads_tail_more [of "print_sexp False a" a "print_sexp True d" d]
        reads_elem_list(1) [of "print_sexp False a" a "print_sexp True d" d]
      by (auto simp: reads_elem_def Let_def simp del: print_sexp.simps(5) simp: print_sexp.simps(5) [of _ a])
  qed (simp_all)
qed (auto simp: reads_elem_def intro: show_int_atom)

text \<open>
  C5. Printing and reading back: for a readable structure (nested lists of integers, of strings without quotes and of symbols that the reader
  takes for symbols) whose text fits the buffer and the temporaries of the printer, what \<open>lisp_write\<close> leaves in the buffer is read by
  \<open>read_string\<close> as an equal structure in new memory, with enough cells left and room on the stack of the reader. If the text has a digit
  after a minus sign, the uninitialised field \<open>valuestate\<close> of the reader must not happen to hold \<open>VST_HEX\<close>.
\<close>

theorem write_read_roundtrip:
  assumes "sexp_at m p s" "readable s" "sdepth s \<le> fuel" "length (print_sexp False s) + 3 \<le> min n TMP_BUF_SIZE" "n \<le> cap" "n < 2 ^ 31"
    "alloc_inv m" "2 * length (print_sexp False s) + 2 \<le> cells_left m" "nest s \<le> stack_slots"
    and "vs = VST_DEFAULT \<or> neg_free (print_sexp False s)"
  shows "\<exists>t q m'. lisp_write fuel m p cap (int n) = Some t \<and> read_string vs t m = Some (q, m')
    \<and> sexp_on (live m' - live m) (length (blocks m)) m' q s \<and> sexp_at m' p s"
proof -
  let ?t = "print_sexp False s"
  have "2 \<le> n" using assms(4) by simp
  then have w: "lisp_write fuel m p cap (int n) = Some ?t"
    using write_cell_prints [OF assms(1,3) _ assms(6,5), of False] assms(4) by (auto simp: printed_def lisp_write_def)
  have "reads_one ?t s"
    using print_reads [of s] assms(2) reads.empty unfolding reads_one_def reads_elem_def by (metis append_Nil)
  moreover have "length ?t < 2 ^ 28" using assms(4) by (simp add: TMP_BUF_SIZE_def)
  ultimately obtain q m' where "read_string vs ?t m = Some (q, m')" "sexp_on (live m' - live m) (length (blocks m)) m' q s" "mem_grows m m'"
    using read_string_ok [OF _ assms(7,8) _ assms(9), of vs] assms(10) unfolding base_ok_def by blast
  with w sexp_at_ext assms(1) show ?thesis by blast
qed

theorem write_read_roundtrip_witness:
  "\<exists>t q m'. lisp_write 2 sample_mem (cellp 0) 16 16 = Some t \<and> read_string VST_DEFAULT t sample_mem = Some (q, m')
     \<and> sexp_at m' (cellp 0) (SCons (SStr [97, 98]) SNil)"
proof -
  have "readable (SCons (SStr [97, 98]) SNil)" by simp
  from write_read_roundtrip [OF sample_mem_facts(5) this, of 2 16 16 VST_DEFAULT] show ?thesis
    by (auto simp: TMP_BUF_SIZE_def sample_mem_facts stack_slots_def)
qed
end
