(* ===== verification/FileStream.thy ===== *)
theory FileStream
  imports Alloc
begin

text \<open>
  The mount table and streams of \<^verbatim>\<open>src/sledge/stream.c\<close>. Calls through function pointers (handlers
  in C or compiled Lisp functions) are the parameter \<open>call2\<close>: entry point, two arguments, memory. The
  search of the mount table, written twice in the source, is \<open>find_fs\<close>; its fuel bounds the number
  of mounts visited.
\<close>

section \<open>Operations\<close>

definition get_fs_list :: "mem \<Rightarrow> val" where
  "get_fs_list m = fs_list m"

text \<open>Whether the argument is NULL or no string, the test all operations on paths begin with.\<close>

definition not_string :: "mem \<Rightarrow> val \<Rightarrow> bool option" where
  "not_string m path = (if path = NULL then Some True else map_option (\<lambda>c. c_tag c \<noteq> TAG_STR) (get_cell m path))"

text \<open>The loop of \<open>fs_open\<close> and \<open>fs_mmap\<close>: the filesystem whose mount point is a prefix of the path,
  which is what \<open>strstr(path, mount_point) == path\<close> tests.\<close>

fun find_fs :: "nat \<Rightarrow> mem \<Rightarrow> val \<Rightarrow> val \<Rightarrow> val option option" where
  "find_fs 0 m fsl path = None"
| "find_fs (Suc fuel) m fsl path =
     do {
       fs_cell \<leftarrow> car m fsl;
       if fs_cell = NULL then Some None
       else do {
         x \<leftarrow> get_cell m fs_cell;
         fs \<leftarrow> as_fs m (c_dr x);
         p \<leftarrow> get_cell m path;
         match \<leftarrow>
           (if c_ar p = NULL then Some False
            else do {
              s \<leftarrow> read_cstr m (c_ar p);
              mp \<leftarrow> get_cell m (mount_point fs);
              ms \<leftarrow> read_cstr m (c_ar mp);
              Some (prefix ms s)
            });
         if match then Some (Some (c_dr x))
         else do { r \<leftarrow> cdr m fsl; find_fs fuel m r path }
       }
     }"

definition fs_open ::
  "(val \<Rightarrow> val \<Rightarrow> val \<Rightarrow> mem \<Rightarrow> (val \<times> mem) option) \<Rightarrow> nat \<Rightarrow> val \<Rightarrow> mem \<Rightarrow> (val \<times> mem) option"
where
  "fs_open call2 fuel path m =
     do {
       bad \<leftarrow> not_string m path;
       if bad then alloc_nil m
       else do {
         found \<leftarrow> find_fs fuel m (fs_list m) path;
         (case found of
            None \<Rightarrow> alloc_nil m
          | Some fsp \<Rightarrow>
              do {
                fs \<leftarrow> as_fs m fsp;
                let s = P (OStream (length (streams m))) 0;
                let m = m\<lparr>streams := streams m @ [\<lparr>s_id = stream_id m, s_path = path, s_fs = fsp\<rparr>]\<rparr>;
                (stream_cell, m) \<leftarrow> alloc_int (stream_id m) m;
                m \<leftarrow> upd_cell stream_cell (\<lambda>c. c\<lparr>c_tag := TAG_STREAM, c_ar := s\<rparr>) m;
                let m = m\<lparr>stream_id := stream_id m + 1\<rparr>;
                m \<leftarrow> (if open_fn fs = NULL then Some m
                       else do {
                         f \<leftarrow> get_cell m (open_fn fs);
                         if c_dr f = NULL then Some m else map_option snd (call2 (c_dr f) path NULL m)
                       });
                Some (stream_cell, m)
              })
       }
     }"

definition fs_mmap ::
  "(val \<Rightarrow> val \<Rightarrow> val \<Rightarrow> mem \<Rightarrow> (val \<times> mem) option) \<Rightarrow> nat \<Rightarrow> val \<Rightarrow> mem \<Rightarrow> (val \<times> mem) option"
where
  "fs_mmap call2 fuel path m =
     do {
       bad \<leftarrow> not_string m path;
       if bad then alloc_nil m
       else do {
         found \<leftarrow> find_fs fuel m (fs_list m) path;
         (case found of
            None \<Rightarrow> alloc_nil m
          | Some fsp \<Rightarrow>
              do {
                fs \<leftarrow> as_fs m fsp;
                if mmap_fn fs = NULL then alloc_nil m
                else do {
                  f \<leftarrow> get_cell m (mmap_fn fs);
                  if c_dr f = NULL then alloc_nil m else call2 (c_dr f) path NULL m
                }
              })
       }
     }"

definition fs_mount :: "val \<Rightarrow> val \<Rightarrow> mem \<Rightarrow> (val \<times> mem) option" where
  "fs_mount path handlers m =
     do {
       bad \<leftarrow> not_string m path;
       if bad then alloc_nil m
       else do {
         f_open \<leftarrow> car m handlers;
         handlers \<leftarrow> cdr m handlers;
         f_read \<leftarrow> car m handlers;
         handlers \<leftarrow> cdr m handlers;
         f_write \<leftarrow> car m handlers;
         handlers \<leftarrow> cdr m handlers;
         f_delete \<leftarrow> car m handlers;
         handlers \<leftarrow> cdr m handlers;
         f_mmap \<leftarrow> car m handlers;
         handlers \<leftarrow> cdr m handlers;
         let fs = P (OFs (length (fss m))) 0;
         let m = m\<lparr>fss := fss m @ [\<lparr>mount_point = path, open_fn = f_open, close_fn = NULL, read_fn = f_read,
                    write_fn = f_write, delete_fn = f_delete, mmap_fn = f_mmap\<rparr>]\<rparr>;
         (fs_cell, m) \<leftarrow> alloc_int (num_fs m) m;
         let m = m\<lparr>num_fs := num_fs m + 1\<rparr>;
         m \<leftarrow> upd_cell fs_cell (\<lambda>c. c\<lparr>c_dr := fs, c_tag := TAG_FS\<rparr>) m;
         (l, m) \<leftarrow> alloc_cons fs_cell (fs_list m) m;
         Some (fs_cell, m\<lparr>fs_list := l\<rparr>)
       }
     }"

definition wrap_in_lambda :: "val \<Rightarrow> mem \<Rightarrow> (val \<times> mem) option" where
  "wrap_in_lambda cfunc m =
     do {
       (args, m) \<leftarrow> alloc_nil m;
       (lbd, m) \<leftarrow> alloc_lambda args m;
       m \<leftarrow> upd_cell lbd (\<lambda>c. c\<lparr>c_dr := cfunc\<rparr>) m;
       Some (lbd, m)
     }"

text \<open>Whether the argument is NULL or no stream.\<close>

definition not_stream :: "mem \<Rightarrow> val \<Rightarrow> bool option" where
  "not_stream m stream = (if stream = NULL then Some True else map_option (\<lambda>c. c_tag c \<noteq> TAG_STREAM) (get_cell m stream))"

definition stream_read ::
  "(val \<Rightarrow> val \<Rightarrow> val \<Rightarrow> mem \<Rightarrow> (val \<times> mem) option) \<Rightarrow> val \<Rightarrow> mem \<Rightarrow> (val \<times> mem) option"
where
  "stream_read call2 stream m =
     do {
       bad \<leftarrow> not_stream m stream;
       if bad then alloc_nil m
       else do {
         c \<leftarrow> get_cell m stream;
         s \<leftarrow> as_stream m (c_ar c);
         fs \<leftarrow> as_fs m (s_fs s);
         f \<leftarrow> get_cell m (read_fn fs);
         call2 (c_dr f) stream NULL m
       }
     }"

definition stream_write ::
  "(val \<Rightarrow> val \<Rightarrow> val \<Rightarrow> mem \<Rightarrow> (val \<times> mem) option) \<Rightarrow> val \<Rightarrow> val \<Rightarrow> mem \<Rightarrow> (val \<times> mem) option"
where
  "stream_write call2 stream arg m =
     do {
       bad \<leftarrow> not_stream m stream;
       if bad then alloc_nil m
       else do {
         c \<leftarrow> get_cell m stream;
         s \<leftarrow> as_stream m (c_ar c);
         fs \<leftarrow> as_fs m (s_fs s);
         f \<leftarrow> get_cell m (write_fn fs);
         call2 (c_dr f) stream arg m
       }
     }"

definition fs_mount_builtin :: "cstr \<Rightarrow> val \<Rightarrow> val \<Rightarrow> val \<Rightarrow> val \<Rightarrow> val \<Rightarrow> mem \<Rightarrow> mem option" where
  "fs_mount_builtin path open_handler read_handler write_handler delete_handler mmap_handler m =
     do {
       (a, m) \<leftarrow> wrap_in_lambda open_handler m;
       (b, m) \<leftarrow> wrap_in_lambda read_handler m;
       (c, m) \<leftarrow> wrap_in_lambda write_handler m;
       (d, m) \<leftarrow> wrap_in_lambda delete_handler m;
       (e, m) \<leftarrow> wrap_in_lambda mmap_handler m;
       (handlers, m) \<leftarrow> alloc_list [a, b, c, d, e] 5 m;
       (p, m) \<leftarrow> alloc_string_copy path m;
       (_, m) \<leftarrow> fs_mount p handlers m;
       Some m
     }"

definition filesystems_init :: "mem \<Rightarrow> (val \<times> mem) option" where
  "filesystems_init m = do { (l, m) \<leftarrow> alloc_nil m; Some (l, m\<lparr>fs_list := l\<rparr>) }"

section \<open>The mount table as a list\<close>

text \<open>\<open>mounts_at m p ms\<close>: the cells from \<open>p\<close> on hold, newest first, filesystems mounted at the given
  paths.\<close>

fun mounts_at :: "mem \<Rightarrow> val \<Rightarrow> (cstr \<times> val) list \<Rightarrow> bool" where
  "mounts_at m p [] \<longleftrightarrow> p \<in> live m \<and> (\<exists>c. get_cell m p = Some c \<and> c_ar c = NULL)"
| "mounts_at m p ((mp, f) # ms) \<longleftrightarrow>
     (\<exists>x d c fs w. p \<in> live m \<and> get_cell m p = Some \<lparr>c_ar = x, c_dr = d, c_tag = TAG_CONS\<rparr> \<and> x \<in> live m \<and> get_cell m x = Some c
        \<and> c_dr c = f \<and> as_fs m f = Some fs \<and> text_at m (mount_point fs) TAG_STR w mp \<and> mounts_at m d ms)"

lemma live_not_NULL: "alloc_inv m \<Longrightarrow> p \<in> live m \<Longrightarrow> p \<noteq> NULL"
  using live_cases by fastforce

lemma mounts_at_NULL: "mounts_at m p ms \<Longrightarrow> p \<noteq> NULL"
  by (cases ms) auto

lemma find_fs_first:
  assumes "mounts_at m fsl ms" "text_at m path TAG_STR w s" "length ms < fuel"
  shows "find_fs fuel m fsl path = Some (map_option snd (find (\<lambda>(mp, f). prefix mp s) ms))"
  using assms(1,3)
proof (induction ms arbitrary: fsl fuel)
  case Nil
  then obtain f where "fuel = Suc f" by (cases fuel) auto
  with Nil mounts_at_NULL [OF Nil(1)] show ?case by (auto simp: car_def)
next
  case (Cons a ms)
  obtain mp f where a: "a = (mp, f)" by (cases a)
  obtain n where n: "fuel = Suc n" "length ms < n" using Cons.prems(2) by (cases fuel) auto
  obtain x d c fs w' where h: "get_cell m fsl = Some \<lparr>c_ar = x, c_dr = d, c_tag = TAG_CONS\<rparr>" "get_cell m x = Some c" "c_dr c = f"
    "as_fs m f = Some fs" "text_at m (mount_point fs) TAG_STR w' mp" "mounts_at m d ms"
    using Cons.prems(1) a by auto
  have nn: "fsl \<noteq> NULL" "x \<noteq> NULL" using h(1,2) by auto
  obtain cm where cm: "get_cell m (mount_point fs) = Some cm" "read_cstr m (c_ar cm) = Some mp"
    using read_cstr_text [OF h(5)] by auto
  obtain cp where cp: "get_cell m path = Some cp" "read_cstr m (c_ar cp) = Some s"
    using read_cstr_text [OF assms(2)] by auto
  then have "c_ar cp \<noteq> NULL" by (auto simp: read_cstr_def)
  then have "find_fs fuel m fsl path = (if prefix mp s then Some (Some f) else find_fs n m d path)"
    using n h nn cm cp by (auto simp: car_def cdr_def)
  with Cons.IH [OF h(6) n(2)] a show ?case by simp
qed

lemma other_fields_irrelevant [simp]:
  "get_cell (m\<lparr>fss := x\<rparr>) p = get_cell m p" "live (m\<lparr>fss := x\<rparr>) = live m" "alloc_inv (m\<lparr>fss := x\<rparr>) = alloc_inv m"
  "cells_left (m\<lparr>fss := x\<rparr>) = cells_left m"
  "get_cell (m\<lparr>num_fs := n\<rparr>) p = get_cell m p" "live (m\<lparr>num_fs := n\<rparr>) = live m" "alloc_inv (m\<lparr>num_fs := n\<rparr>) = alloc_inv m"
  "cells_left (m\<lparr>num_fs := n\<rparr>) = cells_left m"
  "get_cell (m\<lparr>fs_list := l\<rparr>) p = get_cell m p" "live (m\<lparr>fs_list := l\<rparr>) = live m" "alloc_inv (m\<lparr>fs_list := l\<rparr>) = alloc_inv m"
  "cells_left (m\<lparr>fs_list := l\<rparr>) = cells_left m"
  "get_cell (m\<lparr>streams := s\<rparr>) p = get_cell m p" "live (m\<lparr>streams := s\<rparr>) = live m" "alloc_inv (m\<lparr>streams := s\<rparr>) = alloc_inv m"
  "cells_left (m\<lparr>streams := s\<rparr>) = cells_left m"
  "get_cell (m\<lparr>stream_id := i\<rparr>) p = get_cell m p" "live (m\<lparr>stream_id := i\<rparr>) = live m" "alloc_inv (m\<lparr>stream_id := i\<rparr>) = alloc_inv m"
  "cells_left (m\<lparr>stream_id := i\<rparr>) = cells_left m"
  "get_cell (m\<lparr>file_cell := p'\<rparr>) p = get_cell m p" "live (m\<lparr>file_cell := p'\<rparr>) = live m" "alloc_inv (m\<lparr>file_cell := p'\<rparr>) = alloc_inv m"
  "cells_left (m\<lparr>file_cell := p'\<rparr>) = cells_left m"
  by (simp_all add: get_cell_def live_def alloc_inv_def cells_left_def free_ptrs_def free_slots_def)

lemma as_fs_mono: "prefix (fss m) (fss m') \<Longrightarrow> as_fs m f = Some fs \<Longrightarrow> as_fs m' f = Some fs"
  by (cases "(m, f)" rule: as_fs.cases) (auto simp: nth_append elim!: prefixE split: if_splits)

lemma mounts_at_grows:
  assumes "mem_grows m m'" "prefix (fss m) (fss m')"
  shows "mounts_at m p ms \<Longrightarrow> mounts_at m' p ms"
proof (induction ms arbitrary: p)
  case Nil
  with assms(1) show ?case by (auto simp: mem_grows_def)
next
  case (Cons a ms)
  obtain mp f where a: "a = (mp, f)" by (cases a)
  with Cons.prems obtain x d c fs w where h: "p \<in> live m" "get_cell m p = Some \<lparr>c_ar = x, c_dr = d, c_tag = TAG_CONS\<rparr>"
    "x \<in> live m" "get_cell m x = Some c" "c_dr c = f" "as_fs m f = Some fs" "text_at m (mount_point fs) TAG_STR w mp" "mounts_at m d ms"
    by auto
  then have "p \<in> live m'" "get_cell m' p = Some \<lparr>c_ar = x, c_dr = d, c_tag = TAG_CONS\<rparr>" "x \<in> live m'" "get_cell m' x = Some c"
    using assms(1) by (auto simp: mem_grows_def)
  with a h(5) as_fs_mono [OF assms(2) h(6)] text_at_ext [OF assms(1) h(7)] Cons.IH [OF h(8)] show ?case by auto
qed

lemma list_at_step:
  assumes "list_at m p (x # xs)"
  shows "car m p = Some x" "\<exists>q. cdr m p = Some q \<and> list_at m q xs"
  using assms by (auto simp: car_def cdr_def)

lemma fs_mount_ok:
  assumes "alloc_inv m" "2 \<le> cells_left m" "text_at m path TAG_STR w mp" "list_at m handlers [fo, fr, fw, fd, fm]"
    "mounts_at m (fs_list m) ms"
  defines "fs \<equiv> \<lparr>mount_point = path, open_fn = fo, close_fn = NULL, read_fn = fr, write_fn = fw, delete_fn = fd, mmap_fn = fm\<rparr>"
  shows "\<exists>c m'. fs_mount path handlers m = Some (c, m') \<and> alloc_inv m' \<and> mem_grows m m' \<and> cells_left m' = cells_left m - 2
    \<and> fss m' = fss m @ [fs] \<and> mounts_at m' (fs_list m') ((mp, P (OFs (length (fss m))) 0) # ms)"
proof -
  obtain q1 q2 q3 q4 q5 where q: "cdr m handlers = Some q1" "list_at m q1 [fr, fw, fd, fm]" "cdr m q1 = Some q2" "list_at m q2 [fw, fd, fm]"
    "cdr m q2 = Some q3" "list_at m q3 [fd, fm]" "cdr m q3 = Some q4" "list_at m q4 [fm]" "cdr m q4 = Some q5"
    using list_at_step(2) assms(4) by metis
  note cars = list_at_step(1) [OF assms(4)] list_at_step(1) [OF q(2)] list_at_step(1) [OF q(4)] list_at_step(1) [OF q(6)] list_at_step(1) [OF q(8)]
  have str: "not_string m path = Some False" using read_cstr_text [OF assms(3)] by (auto simp: not_string_def)
  define m0 where "m0 = m\<lparr>fss := fss m @ [fs]\<rparr>"
  have m0: "alloc_inv m0" "0 < cells_left m0" "cells_left m0 = cells_left m" "live m0 = live m" "num_fs m0 = num_fs m" "fs_list m0 = fs_list m"
    "fss m0 = fss m @ [fs]" "blocks m0 = blocks m" "vecs m0 = vecs m" "\<And>p. get_cell m0 p = get_cell m p"
    using assms(1,2) by (simp_all add: m0_def)
  obtain c m1 d where c: "alloc_int (num_fs m) m0 = Some (c, m1)" "fresh_cell m0 c \<lparr>c_ar = W (scast (num_fs m)), c_dr = d, c_tag = TAG_INT\<rparr> m1"
    using alloc_int_ok [OF m0(1,2)] by blast
  let ?f = "P (OFs (length (fss m))) 0"
  have c': "alloc_inv (m1\<lparr>num_fs := num_fs m1 + 1\<rparr>)" "c \<in> live (m1\<lparr>num_fs := num_fs m1 + 1\<rparr>)"
    using c(2) by (auto simp: fresh_cell_def)
  obtain x m2 where m2: "get_cell (m1\<lparr>num_fs := num_fs m1 + 1\<rparr>) c = Some x"
    "upd_cell c (\<lambda>c. c\<lparr>c_dr := ?f, c_tag := TAG_FS\<rparr>) (m1\<lparr>num_fs := num_fs m1 + 1\<rparr>) = Some m2" "alloc_inv m2"
    "live m2 = live (m1\<lparr>num_fs := num_fs m1 + 1\<rparr>)" "get_cell m2 c = Some (x\<lparr>c_dr := ?f, c_tag := TAG_FS\<rparr>)"
    "blocks m2 = blocks (m1\<lparr>num_fs := num_fs m1 + 1\<rparr>)" "vecs m2 = vecs (m1\<lparr>num_fs := num_fs m1 + 1\<rparr>)"
    "cells_left m2 = cells_left (m1\<lparr>num_fs := num_fs m1 + 1\<rparr>)"
    "\<forall>q. q \<noteq> c \<longrightarrow> get_cell m2 q = get_cell (m1\<lparr>num_fs := num_fs m1 + 1\<rparr>) q"
    by (rule upd_cell_keeps [OF c'])
  have r2: "fss m2 = fss m @ [fs]" "fs_list m2 = fs_list m"
    using upd_cell_other [OF m2(2)] c(2) m0 by (auto simp: fresh_cell_def same_rest_def)
  have "get_cell m2 q = get_cell m q" if "q \<in> live m" for q
    using that c(2) m0(4,10) m2(9) by (cases "q = c") (auto simp: fresh_cell_def)
  then have g2: "mem_grows m m2" using c(2) m0 m2(4,6,7) by (auto simp: fresh_cell_def mem_grows_def same_rest_def)
  have l2: "0 < cells_left m2" "cells_left m2 = cells_left m - 1" using m2(8) c(2) m0(3) assms(2) by (auto simp: fresh_cell_def)
  obtain l m3 where l: "alloc_cons c (fs_list m) m2 = Some (l, m3)" "fresh_cell m2 l \<lparr>c_ar = c, c_dr = fs_list m, c_tag = TAG_CONS\<rparr> m3"
    using alloc_cons_ok [OF m2(3) l2(1)] by blast
  define m' where "m' = m3\<lparr>fs_list := l\<rparr>"
  have f3: "fss m3 = fss m @ [fs]" using l(2) r2 by (simp add: fresh_cell_def same_rest_def)
  have g': "mem_grows m m'" using mem_grows_trans [OF g2 fresh_cell_ext [OF l(2)]] by (simp add: m'_def mem_grows_def)
  have "as_fs m' ?f = Some fs" using f3 by (simp add: m'_def)
  moreover have "text_at m' (mount_point fs) TAG_STR w mp" using text_at_ext [OF g' assms(3)] by (simp add: fs_def)
  moreover have "mounts_at m' (fs_list m) ms" using mounts_at_grows [OF g' _ assms(5)] f3 by (simp add: m'_def)
  moreover have "c \<in> live m'" "get_cell m' c = Some (x\<lparr>c_dr := ?f, c_tag := TAG_FS\<rparr>)" "l \<in> live m'"
      "get_cell m' l = Some \<lparr>c_ar = c, c_dr = fs_list m, c_tag = TAG_CONS\<rparr>"
    using l(2) m2(4,5) c(2) by (auto simp: m'_def fresh_cell_def)
  ultimately have "mounts_at m' (fs_list m') ((mp, ?f) # ms)" by (auto simp: m'_def)
  moreover have "fs_mount path handlers m = Some (c, m')"
    using q cars c(1) m2(2) l(1) r2 str by (simp add: fs_mount_def m'_def Let_def flip: fs_def m0_def)
  moreover have "alloc_inv m'" "cells_left m' = cells_left m - 2" "fss m' = fss m @ [fs]"
    using l(2) l2 f3 by (auto simp: m'_def fresh_cell_def)
  ultimately show ?thesis using g' by blast
qed

text \<open>Growth that leaves the mount table alone.\<close>

definition grows_quiet :: "mem \<Rightarrow> mem \<Rightarrow> nat \<Rightarrow> bool" where
  "grows_quiet m m' n \<longleftrightarrow> alloc_inv m' \<and> mem_grows m m' \<and> cells_left m' = cells_left m - n \<and> fss m' = fss m \<and> fs_list m' = fs_list m"

lemma grows_quiet_trans: "grows_quiet m1 m2 a \<Longrightarrow> grows_quiet m2 m3 b \<Longrightarrow> grows_quiet m1 m3 (a + b)"
  by (auto simp: grows_quiet_def dest: mem_grows_trans)

lemma fresh_cell_quiet: "fresh_cell m p c m' \<Longrightarrow> grows_quiet m m' 1"
  using fresh_cell_ext by (auto simp: grows_quiet_def fresh_cell_def same_rest_def)

lemma fresh_bytes_quiet: "fresh_bytes m p c blk m' \<Longrightarrow> grows_quiet m m' 1"
  using fresh_bytes_ext by (auto simp: grows_quiet_def fresh_bytes_def fresh_cell_def same_rest_def)

definition handler_at :: "mem \<Rightarrow> val \<Rightarrow> val \<Rightarrow> bool" where
  "handler_at m p f \<longleftrightarrow> p \<in> live m \<and> (\<exists>a. get_cell m p = Some \<lparr>c_ar = a, c_dr = f, c_tag = TAG_LAMBDA\<rparr>)"

lemma handler_at_grows: "mem_grows m m' \<Longrightarrow> handler_at m p f \<Longrightarrow> handler_at m' p f"
  by (auto simp: handler_at_def mem_grows_def)

lemma wrap_in_lambda_ok:
  assumes "alloc_inv m" "2 \<le> cells_left m"
  shows "\<exists>p m'. wrap_in_lambda f m = Some (p, m') \<and> grows_quiet m m' 2 \<and> handler_at m' p f"
proof -
  obtain a m1 where a: "alloc_nil m = Some (a, m1)" "fresh_cell m a \<lparr>c_ar = NULL, c_dr = NULL, c_tag = TAG_CONS\<rparr> m1"
    using alloc_nil_ok [OF assms(1)] assms(2) by fastforce
  have m1: "alloc_inv m1" "0 < cells_left m1" using a(2) assms(2) by (auto simp: fresh_cell_def)
  obtain i m2 where tk: "taken m1 i m2" using taken_exists [OF m1] by blast
  note t = taken_simps [OF tk]
  let ?c = "\<lparr>c_ar = a, c_dr = f, c_tag = TAG_LAMBDA\<rparr>"
  let ?m = "m2\<lparr>cell_heap := (cell_heap m1)(i := ?c)\<rparr>"
  have fc: "fresh_cell m1 (cellp i) ?c ?m" by (rule taken_fresh_cell [OF tk])
  have "(x :: cell)\<lparr>c_tag := TAG_LAMBDA, c_ar := a, c_dr := f\<rparr> = ?c" for x by simp
  then have "wrap_in_lambda f m = Some (cellp i, ?m)"
    using a(1) t by (simp add: wrap_in_lambda_def alloc_lambda_def)
  moreover have "grows_quiet m ?m 2"
    using grows_quiet_trans [OF fresh_cell_quiet [OF a(2)] fresh_cell_quiet [OF fc]] by (simp add: numeral_2_eq_2)
  moreover have "handler_at ?m (cellp i) f" using fc by (auto simp: handler_at_def fresh_cell_def)
  ultimately show ?thesis by blast
qed

lemma grows_quiet_mem: "grows_quiet m m' n \<Longrightarrow> mem_grows m m'"
  by (simp add: grows_quiet_def)

lemma wrap_all_ok:
  assumes "alloc_inv m" "2 * length fs \<le> cells_left m"
  shows "\<exists>ps m'. length ps = length fs \<and> grows_quiet m m' (2 * length fs) \<and> (\<forall>i < length fs. handler_at m' (ps ! i) (fs ! i))
    \<and> foldl (\<lambda>st f. do { (ps, m) \<leftarrow> st; (p, m) \<leftarrow> wrap_in_lambda f m; Some (ps @ [p], m) }) (Some ([], m)) fs = Some (ps, m')"
  using assms
proof (induction fs rule: rev_induct)
  case Nil
  then show ?case by (simp add: grows_quiet_def)
next
  case (snoc f fs)
  then obtain ps m1 where 1: "length ps = length fs" "grows_quiet m m1 (2 * length fs)" "\<forall>i < length fs. handler_at m1 (ps ! i) (fs ! i)"
    "foldl (\<lambda>st f. do { (ps, m) \<leftarrow> st; (p, m) \<leftarrow> wrap_in_lambda f m; Some (ps @ [p], m) }) (Some ([], m)) fs = Some (ps, m1)"
    by auto
  have "alloc_inv m1" "2 \<le> cells_left m1" using 1(2) snoc.prems(2) by (auto simp: grows_quiet_def)
  then obtain p m2 where 2: "wrap_in_lambda f m1 = Some (p, m2)" "grows_quiet m1 m2 2" "handler_at m2 p f"
    using wrap_in_lambda_ok by blast
  have "handler_at m2 ((ps @ [p]) ! i) ((fs @ [f]) ! i)" if "i < length (fs @ [f])" for i
    using that 1(1,3) 2(3) handler_at_grows [OF grows_quiet_mem [OF 2(2)]] by (cases "i = length fs") (auto simp: nth_append less_Suc_eq)
  with 1 2 grows_quiet_trans [OF 1(2) 2(2)] show ?case
    by (intro exI [of _ "ps @ [p]"] exI [of _ m2]) (simp add: algebra_simps)
qed

lemma fs_mount_builtin_ok:
  assumes "alloc_inv m" "19 \<le> cells_left m" "mounts_at m (fs_list m) ms" "0 \<notin> set path" "length path + 2 < 2 ^ 31"
  shows "\<exists>m' f fs. fs_mount_builtin path fo fr fw fd fm m = Some m' \<and> alloc_inv m' \<and> mem_grows m m' \<and> cells_left m' = cells_left m - 19
    \<and> mounts_at m' (fs_list m') ((path, f) # ms) \<and> as_fs m' f = Some fs
    \<and> handler_at m' (open_fn fs) fo \<and> handler_at m' (read_fn fs) fr \<and> handler_at m' (write_fn fs) fw \<and> handler_at m' (delete_fn fs) fd
    \<and> handler_at m' (mmap_fn fs) fm"
proof -
  define hs where "hs = [fo, fr, fw, fd, fm]"
  have "length hs = 5" "2 * length hs = 10" "2 * length hs \<le> cells_left m" using assms(2) by (simp_all add: hs_def)
  then obtain ps m1 where ps: "length ps = 5" "grows_quiet m m1 10" "\<forall>i < 5. handler_at m1 (ps ! i) (hs ! i)"
    "foldl (\<lambda>st f. do { (ps, m) \<leftarrow> st; (p, m) \<leftarrow> wrap_in_lambda f m; Some (ps @ [p], m) }) (Some ([], m)) hs = Some (ps, m1)"
    using wrap_all_ok [OF assms(1), of hs] by metis
  then obtain a b c d e where abc: "ps = [a, b, c, d, e]" by (auto simp: length_Suc_conv numeral_eq_Suc)
  have m1: "alloc_inv m1" "5 < cells_left m1" using ps(2) assms(2) by (auto simp: grows_quiet_def)
  obtain h m2 where h: "alloc_list ps 5 m1 = Some (h, m2)" "alloc_inv m2" "mem_grows m1 m2" "cells_left m2 = cells_left m1 - 5 - 1"
    "same_rest m1 m2" "list_at m2 h ps"
    using alloc_list_ok [OF m1, of ps] ps(1) by auto
  have c2: "0 < cells_left m2" "length path + 1 < 2 ^ 31" using h(4) ps(2) assms(2,5) by (auto simp: grows_quiet_def)
  obtain q m3 where q: "alloc_string_copy path m2 = Some (q, m3)"
    "fresh_bytes m2 q \<lparr>c_ar = bytesp (length (blocks m2)), c_dr = W (of_nat (length path) + 1), c_tag = TAG_STR\<rparr> (path @ [0]) m3"
    using alloc_string_copy_ok [OF h(2) c2] by blast
  have u: "unat (of_nat (length path) + 1 :: u64) = length path + 1"
    using assms(5) by (simp add: unat_word_ariths unat_of_nat)
  have t3: "text_at m3 q TAG_STR (of_nat (length path) + 1) path"
    by (rule fresh_bytes_text [OF q(2)]) (use assms(4,5) u in auto)
  have g23: "mem_grows m2 m3" using fresh_bytes_ext [OF q(2)] .
  have g3: "mem_grows m m3" using ps(2) mem_grows_trans [OF h(3) g23] mem_grows_trans by (auto simp: grows_quiet_def)
  have r3: "fss m3 = fss m" "fs_list m3 = fs_list m" "alloc_inv m3" "2 \<le> cells_left m3" "cells_left m3 = cells_left m - 17"
    using ps(2) h(4,5) q(2) assms(2) by (auto simp: grows_quiet_def same_rest_def fresh_bytes_def fresh_cell_def)
  have "mounts_at m3 (fs_list m3) ms" using mounts_at_grows [OF g3 _ assms(3)] r3 by simp
  moreover have "list_at m3 h [a, b, c, d, e]" using list_at_ext [OF g23 h(6)] abc by simp
  moreover have fs17: "cells_left m3 - 2 = cells_left m - 19" using r3(5) by simp
  ultimately obtain x m4 where m4: "fs_mount q h m3 = Some (x, m4)" "alloc_inv m4" "mem_grows m3 m4" "cells_left m4 = cells_left m - 19"
    "fss m4 = fss m3 @ [\<lparr>mount_point = q, open_fn = a, close_fn = NULL, read_fn = b, write_fn = c, delete_fn = d, mmap_fn = e\<rparr>]"
    "mounts_at m4 (fs_list m4) ((path, P (OFs (length (fss m3))) 0) # ms)"
    using fs_mount_ok [OF r3(3,4) t3] fs17 by metis
  have g14: "mem_grows m1 m4" using mem_grows_trans [OF mem_grows_trans [OF h(3) g23] m4(3)] .
  have "handler_at m4 (ps ! i) (hs ! i)" if "i < 5" for i
    using that ps(3) handler_at_grows [OF g14] by blast
  from this [of 0] this [of 1] this [of 2] this [of 3] this [of 4]
  have ha: "handler_at m4 a fo" "handler_at m4 b fr" "handler_at m4 c fw" "handler_at m4 d fd" "handler_at m4 e fm"
    by (simp_all add: abc hs_def)
  have "fs_mount_builtin path fo fr fw fd fm m = Some m4"
    using ps(4) h(1) q(1) m4(1) unfolding abc hs_def by (auto simp: fs_mount_builtin_def split: Option.bind_splits)
  moreover have "as_fs m4 (P (OFs (length (fss m3))) 0) =
      Some \<lparr>mount_point = q, open_fn = a, close_fn = NULL, read_fn = b, write_fn = c, delete_fn = d, mmap_fn = e\<rparr>"
    using m4(5) by simp
  ultimately show ?thesis
    using m4(2,4,6) ha mem_grows_trans [OF g3 m4(3)] by (intro exI conjI) (assumption | simp)+
qed

lemma fs_open_matched:
  assumes "alloc_inv m" "0 < cells_left m" "mounts_at m (fs_list m) ms" "text_at m path TAG_STR w s" "length ms < fuel"
    "find (\<lambda>(mp, f). prefix mp s) ms = Some (mp, f)" "as_fs m f = Some fs" "handler_at m (open_fn fs) h"
  shows "\<exists>sc m1 d. fs_open call2 fuel path m = (if h = NULL then Some (sc, m1) else map_option (\<lambda>(r, m2). (sc, m2)) (call2 h path NULL m1))
    \<and> sc \<notin> live m \<and> get_cell m1 sc = Some \<lparr>c_ar = P (OStream (length (streams m))) 0, c_dr = d, c_tag = TAG_STREAM\<rparr>
    \<and> streams m1 = streams m @ [\<lparr>s_id = stream_id m, s_path = path, s_fs = f\<rparr>] \<and> stream_id m1 = stream_id m + 1
    \<and> alloc_inv m1 \<and> mem_grows m m1 \<and> fss m1 = fss m \<and> fs_list m1 = fs_list m \<and> cells_left m1 = cells_left m - 1 \<and> sc \<in> live m1"
proof -
  have str: "not_string m path = Some False" using read_cstr_text [OF assms(4)] by (auto simp: not_string_def)
  have ff: "find_fs fuel m (fs_list m) path = Some (Some f)"
    using find_fs_first [OF assms(3-5)] assms(6) by simp
  define m0 where "m0 = m\<lparr>streams := streams m @ [\<lparr>s_id = stream_id m, s_path = path, s_fs = f\<rparr>]\<rparr>"
  have "alloc_inv m0" "0 < cells_left m0" using assms(1,2) by (simp_all add: m0_def)
  then obtain i m1 where tk: "taken m0 i m1" using taken_exists by blast
  note t = taken_simps [OF tk]
  let ?s = "P (OStream (length (streams m))) 0"
  let ?c = "\<lparr>c_ar = ?s, c_dr = c_dr (cell_heap m0 i), c_tag = TAG_STREAM\<rparr>"
  let ?m1 = "m1\<lparr>cell_heap := (cell_heap m0)(i := ?c)\<rparr>"
  have fc: "fresh_cell m0 (cellp i) ?c ?m1" by (rule taken_fresh_cell [OF tk])
  define m2 where "m2 = ?m1\<lparr>stream_id := stream_id ?m1 + 1\<rparr>"
  have ext: "mem_grows m m2" "alloc_inv m2" "cellp i \<notin> live m" "get_cell m2 (cellp i) = Some ?c" "streams m2 = streams m0"
     "stream_id m2 = stream_id m + 1" "fss m2 = fss m" "fs_list m2 = fs_list m" "cells_left m2 = cells_left m - 1" "cellp i \<in> live m2"
    using fc by (auto simp: m2_def fresh_cell_def mem_grows_def same_rest_def m0_def)
  have "get_cell m2 (open_fn fs) = get_cell m (open_fn fs)" "open_fn fs \<noteq> NULL"
    using ext(1) assms(8) by (auto simp: handler_at_def mem_grows_def)
  then obtain a where oh: "get_cell m2 (open_fn fs) = Some \<lparr>c_ar = a, c_dr = h, c_tag = TAG_LAMBDA\<rparr>" "open_fn fs \<noteq> NULL"
    using assms(8) by (auto simp: handler_at_def)
  define ma where "ma = m1\<lparr>cell_heap := (cell_heap m0)(i := (cell_heap m0 i)\<lparr>c_tag := TAG_INT, c_ar := W (scast (stream_id m))\<rparr>)\<rparr>"
  have ai: "alloc_int (stream_id m) m0 = Some (cellp i, ma)" "stream_id m0 = stream_id m"
    using t by (simp_all add: alloc_int_def ma_def) (simp add: m0_def)
  have ub: "upd_cell (cellp i) (\<lambda>c. c\<lparr>c_tag := TAG_STREAM, c_ar := ?s\<rparr>) ma = Some ?m1"
    using t(2) by (cases "cell_heap m0 i") (simp add: ma_def)
  have "fs_open call2 fuel path m =
      do { m \<leftarrow> (if h = NULL then Some m2 else map_option snd (call2 h path NULL m2)); Some (cellp i, m) }"
    unfolding fs_open_def Let_def str ff assms(7) m0_def [symmetric] Option.bind.bind_lunit if_False option.case ai prod.case ub m2_def [symmetric]
    using oh by simp
  then have "fs_open call2 fuel path m = (if h = NULL then Some (cellp i, m2) else map_option (\<lambda>(r, m2). (cellp i, m2)) (call2 h path NULL m2))"
    by (cases "call2 h path NULL m2") auto
  with ext show ?thesis by (intro exI conjI) (assumption | simp add: m0_def)+
qed

section \<open>Properties of the mount table\<close>

text \<open>
  C30. The last filesystem mounted wins: after \<open>fs_mount_builtin\<close> of a path, whatever was mounted
  before, opening any string that begins with this path makes a stream on the new filesystem and calls
  its open handler, once, with the path, and \<open>fs_mmap\<close> returns what its mmap handler returns.
\<close>

theorem mount_then_open:
  assumes "alloc_inv m" "20 \<le> cells_left m" "mounts_at m (fs_list m) ms" "0 \<notin> set path" "length path + 2 < 2 ^ 31"
    and "text_at m p TAG_STR w s" "prefix path s" "length ms + 1 < fuel" "fo \<noteq> NULL" "fm \<noteq> NULL"
  shows "\<exists>m' f. fs_mount_builtin path fo fr fw fd fm m = Some m' \<and> mounts_at m' (fs_list m') ((path, f) # ms)
    \<and> (\<exists>sc m1. fs_open call2 fuel p m' = map_option (\<lambda>(r, m2). (sc, m2)) (call2 fo p NULL m1)
         \<and> streams m1 = streams m' @ [\<lparr>s_id = stream_id m', s_path = p, s_fs = f\<rparr>])
    \<and> fs_mmap call2 fuel p m' = call2 fm p NULL m'"
proof -
  have c19: "19 \<le> cells_left m" and c20: "0 < cells_left m - 19" using assms(2) by simp_all
  obtain m' f fs where m': "fs_mount_builtin path fo fr fw fd fm m = Some m'" "alloc_inv m'" "mem_grows m m'"
    "mounts_at m' (fs_list m') ((path, f) # ms)" "as_fs m' f = Some fs" "handler_at m' (open_fn fs) fo" "handler_at m' (mmap_fn fs) fm" "0 < cells_left m'"
    using fs_mount_builtin_ok [OF assms(1) c19 assms(3-5)] c20 by metis
  have t: "text_at m' p TAG_STR w s" using text_at_ext [OF m'(3) assms(6)] .
  have fnd: "find (\<lambda>(mp, f). prefix mp s) ((path, f) # ms) = Some (path, f)" using assms(7) by simp
  have len: "length ((path, f) # ms) < fuel" using assms(8) by simp
  have "fs_mmap call2 fuel p m' = call2 fm p NULL m'"
    using read_cstr_text [OF t] find_fs_first [OF m'(4) t len] fnd m'(5,7) assms(10)
    by (auto simp: fs_mmap_def not_string_def handler_at_def)
  moreover have "\<exists>sc m1. fs_open call2 fuel p m' = map_option (\<lambda>(r, m2). (sc, m2)) (call2 fo p NULL m1)
         \<and> streams m1 = streams m' @ [\<lparr>s_id = stream_id m', s_path = p, s_fs = f\<rparr>]"
    using fs_open_matched [OF m'(2,8,4) t len fnd m'(5,6), of call2] assms(9) by auto
  ultimately show ?thesis using m'(1,4) by (intro exI [of _ m'], intro exI [of _ f]) (rule conjI, assumption)+
qed

text \<open>
  C31. Opening a path under which nothing is mounted returns a new empty list, calls no handler and
  creates no stream; a word that is no string is refused the same way.
\<close>

theorem fs_open_refused:
  assumes "alloc_inv m" "0 < cells_left m"
    and "path = NULL \<or> (\<exists>c. get_cell m path = Some c \<and> c_tag c \<noteq> TAG_STR)
      \<or> (\<exists>w s ms. text_at m path TAG_STR w s \<and> mounts_at m (fs_list m) ms \<and> length ms < fuel \<and> (\<forall>(mp, f) \<in> set ms. \<not> prefix mp s))"
  shows "\<exists>p m'. fs_open call2 fuel path m = Some (p, m') \<and> fs_mmap call2 fuel path m = Some (p, m')
    \<and> get_cell m' p = Some \<lparr>c_ar = NULL, c_dr = NULL, c_tag = TAG_CONS\<rparr> \<and> p \<notin> live m \<and> mem_grows m m' \<and> streams m' = streams m"
proof -
  have "fs_open call2 fuel path m = alloc_nil m \<and> fs_mmap call2 fuel path m = alloc_nil m"
    using assms(3)
  proof (elim disjE exE conjE)
    fix w s ms assume t: "text_at m path TAG_STR w s" "mounts_at m (fs_list m) ms" "length ms < fuel" "\<forall>(mp, f) \<in> set ms. \<not> prefix mp s"
    then have "find (\<lambda>(mp, f). prefix mp s) ms = None" by (auto simp: find_None_iff)
    with find_fs_first [OF t(2,1,3)] read_cstr_text [OF t(1)] show ?thesis
      by (auto simp: fs_open_def fs_mmap_def not_string_def)
  qed (auto simp: fs_open_def fs_mmap_def not_string_def)
  moreover obtain p m' where p: "alloc_nil m = Some (p, m')" "fresh_cell m p \<lparr>c_ar = NULL, c_dr = NULL, c_tag = TAG_CONS\<rparr> m'"
    using alloc_nil_ok [OF assms(1,2)] by blast
  ultimately show ?thesis using fresh_cell_ext [OF p(2)] by (auto simp: fresh_cell_def same_rest_def)
qed

text \<open>A memory with an empty mount table and the path \<open>"ab"\<close>.\<close>

definition mount_sample :: mem where
  "mount_sample = sample_mem\<lparr>fs_list := cellp 2\<rparr>"

lemma mount_sample_facts:
  "alloc_inv mount_sample" "cells_left mount_sample = 99997" "text_at mount_sample (cellp 1) TAG_STR 3 [97, 98]"
  "mounts_at mount_sample (fs_list mount_sample) []"
proof -
  have "mem_grows sample_mem mount_sample" by (simp add: mem_grows_def mount_sample_def)
  then show "text_at mount_sample (cellp 1) TAG_STR 3 [97, 98]" using text_at_ext sample_mem_facts(4) by blast
  show "alloc_inv mount_sample" "cells_left mount_sample = 99997" using sample_mem_facts(1,2) by (simp_all add: mount_sample_def)
  have "live mount_sample = {cellp 0, cellp 1, cellp 2}" using sample_mem_facts(3) by (simp add: mount_sample_def)
  then show "mounts_at mount_sample (fs_list mount_sample) []"
    by (simp add: mount_sample_def) (simp add: sample_mem_def get_cell_def MAX_CELLS_def)
qed

theorem mount_then_open_witness:
  "\<exists>m'. fs_mount_builtin [97] (W 1) (W 2) (W 3) (W 4) (W 5) mount_sample = Some m'
     \<and> fs_mmap (\<lambda>f a b m. Some (f, m)) 9 (cellp 1) m' = Some (W 5, m')"
proof -
  have "20 \<le> cells_left mount_sample" "0 \<notin> set [97 :: byte]" "length [97 :: byte] + 2 < 2 ^ 31"
    "prefix [97] [97, 98 :: byte]" "length [] + 1 < (9 :: nat)" "W 1 \<noteq> NULL" "W 5 \<noteq> NULL"
    using mount_sample_facts(2) by simp_all
  from mount_then_open [OF mount_sample_facts(1) this(1) mount_sample_facts(4) this(2,3) mount_sample_facts(3) this(4-7),
      of "W 2" "W 3" "W 4" "\<lambda>f a b m. Some (f, m)"]
  show ?thesis by blast
qed

theorem fs_open_refused_witness:
  "\<exists>p m'. fs_open (\<lambda>f a b m. None) 9 (cellp 1) mount_sample = Some (p, m') \<and> streams m' = streams mount_sample"
proof -
  have "0 < cells_left mount_sample" using mount_sample_facts(2) by simp
  moreover have "length ([] :: (cstr \<times> val) list) < 9" "\<forall>(mp, f) \<in> set ([] :: (cstr \<times> val) list). \<not> prefix mp [97, 98]" by simp_all
  ultimately show ?thesis
    using fs_open_refused [OF mount_sample_facts(1), of "cellp 1" 9 "\<lambda>f a b m. None"] mount_sample_facts(3,4) by blast
qed

end
