(* ===== verification/Repl.thy ===== *)
theory Repl
  imports Arith Environment Roundtrip FileStream
begin

text \<open>
  The interactive loop (\<open>main\<close> and \<open>platform_eval\<close> of \<^verbatim>\<open>src/sledge/sledge.c\<close>) and the driver that compiles
  and runs one expression (\<^verbatim>\<open>src/sledge/compiler_x64_hosted.c\<close>), composed of the reader, the compiler, the x64
  machine and the printer. The external assembler is not modelled: the instructions a listing stands for
  are executed directly, and the size of the binary is a parameter. The lemmas follow an integer expression from the bytes of the standard input to
  the bytes that the loop and the driver print. The diagnostics that \<open>compile_expr\<close> prints before it fails are not followed; on the
  expressions of the theorems it prints nothing.
\<close>

section \<open>The system\<close>

text \<open>
  What persists between top-level expressions: the memory, the global environment, the prototypes, the machine code loaded so
  far and the label counter.
\<close>

record sys =
  sys_mem :: mem
  sys_env :: "val strmap"
  sys_protos :: prototypes
  sys_code :: "insn list"
  sys_labels :: nat

text \<open>
  What the code relies on from its host: the C functions compiled code calls, the machine at the call of the code (registers,
  stack), the text of a pointer and its inverse (\<open>%p\<close>, \<open>strtoul\<close>), the size of the binary the assembler makes of a listing, the address of the
  environment table and of the stack, the uninitialised field of the reader, and whether \<open>mprotect\<close> succeeds. The commands of the assembler, the
  files they exchange and \<open>mmap\<close> are taken to succeed.
\<close>

record platform =
  pl_host :: host
  pl_mach :: mach
  pl_format :: "val \<Rightarrow> byte list"
  pl_parse :: "byte list \<Rightarrow> val"
  pl_size :: "insn list \<Rightarrow> nat"
  pl_genv :: val
  pl_stack :: val
  pl_valuestate :: vst
  pl_mprotect :: bool

definition BUFSZ :: nat where "BUFSZ = 2048"

section \<open>Compiling and running an expression\<close>

text \<open>
  The loop over the output of \<open>nm\<close>: a label \<open>L0_\<close> followed by the address of a lambda is the entry point of its function.
  \<open>k\<close> is the index of the first instruction of the list. The first component of the result is what is printed. (\<open>nm\<close> sorts its lines;
  the labels are different, so that the order matters for the order of the messages only.)
\<close>

fun link_lambdas :: "(val \<Rightarrow> byte list) \<Rightarrow> (byte list \<Rightarrow> val) \<Rightarrow> nat \<Rightarrow> insn list \<Rightarrow> mem \<Rightarrow> (byte list \<times> mem) option" where
  "link_lambdas fmt parse k [] m = Some ([], m)"
| "link_lambdas fmt parse k (i # is) m =
     do {
       (out, m) \<leftarrow> (case i of
          Label l \<Rightarrow>
            if take 3 l = bs ''L0_''
            then do {
              let lambda = parse (drop 3 l);
              c \<leftarrow> get_cell m lambda;
              if c_tag c = TAG_LAMBDA
              then do { m \<leftarrow> upd_cell lambda (\<lambda>c. c\<lparr>c_dr := P (OCode k) 0\<rparr>) m; Some ([], m) }
              else Some (bs ''fatal error: no lambda found at '' @ fmt lambda @ bs ''!'' @ [10], m)
            }
            else Some ([], m)
        | _ \<Rightarrow> Some ([], m));
       (rest, m) \<leftarrow> link_lambdas fmt parse (Suc k) is m;
       Some (out @ rest, m)
     }"

text \<open>The loop that doubles the size of the code block until the binary fits; \<open>codesz\<close> is an \<open>int\<close>, whose overflow is undefined.\<close>

definition doubling_notice :: "nat \<Rightarrow> byte list" where
  "doubling_notice codesz = bs ''<compiler: doubling code block size to '' @ show_nat codesz @ bs ''>'' @ [13, 10]"

function doubling :: "nat \<Rightarrow> nat \<Rightarrow> byte list option" where
  "doubling generated_sz codesz =
     (if generated_sz \<le> codesz then Some []
      else if 0 < codesz \<and> 2 * codesz < 2 ^ 31
      then map_option (\<lambda>out. doubling_notice (2 * codesz) @ out) (doubling generated_sz (2 * codesz))
      else None)"
  by pat_completeness auto
termination by (relation "measure (\<lambda>(generated_sz, codesz). generated_sz - codesz)") auto

declare doubling.simps [simp del]

text \<open>The report on a definition. A list whose first element is missing makes the code read through NULL.\<close>

definition compiled_def :: "mem \<Rightarrow> val \<Rightarrow> byte list option" where
  "compiled_def m expr =
     (if expr = NULL then Some []
      else do {
        x \<leftarrow> get_cell m expr;
        if c_tag x \<noteq> TAG_CONS then Some []
        else do {
          p \<leftarrow> car m expr;
          op \<leftarrow> get_cell m p;
          if c_tag op \<noteq> TAG_SYM then Some []
          else do {
            name \<leftarrow> read_cstr m (c_ar op);
            if name \<noteq> bs ''def'' then Some []
            else do {
              d \<leftarrow> cdr m expr;
              q \<leftarrow> car m d;
              s \<leftarrow> get_cell m q;
              defsym \<leftarrow> read_cstr m (c_ar s);
              Some (bs ''compiled def '' @ defsym @ [13, 10])
            }
          }
        }
      })"

text \<open>The call of the code from C: the return address is pushed.\<close>

definition execute_jitted :: "platform \<Rightarrow> nat \<Rightarrow> nat \<Rightarrow> sys \<Rightarrow> (val \<times> sys) option" where
  "execute_jitted pl steps entry y =
     do {
       st \<leftarrow> push_word HOST_RETURN ((pl_mach pl)\<lparr>m_mem := sys_mem y, m_env := sys_env y\<rparr>);
       st \<leftarrow> run steps (pl_host pl) (sys_code y) entry st;
       Some (regs st 0, y\<lparr>sys_mem := m_mem st, sys_env := m_env st\<rparr>)
     }"

text \<open>
  How the driver ends: the return value is 1 for \<open>Ran\<close>, which also gives \<open>*res\<close>, else 0; \<open>Not_compiled\<close> leaves \<open>*res\<close> alone and
  \<open>Not_executable\<close> sets it to NULL.
\<close>

datatype compiled = Not_compiled | Not_executable | Ran val

text \<open>
  The result is what the driver itself prints, how it ends and the new system. The assembler is not part of the
  model: the instructions are what the text of the code generator says, loaded behind the code that is already there. (The test
  \<open>bytes_read>codesz\<close> never holds, since \<open>fread\<close> reads at most \<open>codesz\<close> bytes.)
\<close>

definition compile_for_platform :: "platform \<Rightarrow> nat \<Rightarrow> nat \<Rightarrow> val \<Rightarrow> sys \<Rightarrow> (byte list \<times> compiled \<times> sys) option" where
  "compile_for_platform pl fuel steps expr y =
     do {
       let s = (initial_state (pl_stack pl) (sys_protos y) (sys_env y) (sys_mem y))\<lparr>c_labels := sys_labels y\<rparr>;
       (success, s) \<leftarrow> compile_expr fuel (pl_format pl) (pl_genv pl) expr (prototype_any (sys_protos y)) s;
       let code = insns (c_code s @ [JRet]);
       let y = y\<lparr>sys_mem := c_mem s, sys_env := c_env s, sys_labels := c_labels s\<rparr>;
       if success = NULL then Some (bs ''<compile_expr failed: '' @ pl_format pl success @ bs ''>'' @ [13, 10], Not_compiled, y)
       else do {
         out1 \<leftarrow> compiled_def (sys_mem y) expr;
         out2 \<leftarrow> doubling (pl_size pl code) 1024;
         let entry = length (sys_code y);
         (out3, m) \<leftarrow> link_lambdas (pl_format pl) (pl_parse pl) entry code (sys_mem y);
         let y = y\<lparr>sys_mem := m, sys_code := sys_code y @ code\<rparr>;
         let out = out1 @ out2 @ out3;
         if pl_mprotect pl then map_option (\<lambda>(v, y). (out, Ran v, y)) (execute_jitted pl steps entry y)
         else Some (out @ bs ''<mprotect result: -1'' @ [10] @ bs ''>'', Not_executable, y)
       }
     }"

text \<open>The loop of \<open>platform_eval\<close>, with the number \<open>i\<close> of the expression; the fuel \<open>n\<close> bounds the length of the list. The result is what is printed, what
  is returned and the new system.\<close>

fun platform_eval_from :: "platform \<Rightarrow> nat \<Rightarrow> nat \<Rightarrow> nat \<Rightarrow> nat \<Rightarrow> val \<Rightarrow> val \<Rightarrow> sys \<Rightarrow> (byte list \<times> val \<times> sys) option" where
  "platform_eval_from pl fuel steps 0 i expr res y = None"
| "platform_eval_from pl fuel steps (Suc n) i expr res y =
     (if expr = NULL then Some ([], res, y)
      else do {
        c \<leftarrow> car (sys_mem y) expr;
        if c = NULL then Some ([], res, y)
        else do {
          (out, tag, y) \<leftarrow> compile_for_platform pl fuel steps c y;
          (case tag of
             Ran v \<Rightarrow>
               do {
                 expr \<leftarrow> cdr (sys_mem y) expr;
                 (rest, res, y) \<leftarrow> platform_eval_from pl fuel steps n (Suc i) expr v y;
                 Some (out @ rest, res, y)
               }
           | _ \<Rightarrow>
               do {
                 buf \<leftarrow> lisp_write fuel (sys_mem y) c BUFSZ (int BUFSZ);
                 Some (out @ bs ''[platform_eval] stopped at expression '' @ show_nat i @ bs '': '' @ buf @ [13, 10],
                   if tag = Not_compiled then res else NULL, y)
               })
        }
      })"

definition platform_eval :: "platform \<Rightarrow> nat \<Rightarrow> nat \<Rightarrow> val \<Rightarrow> sys \<Rightarrow> (byte list \<times> val \<times> sys) option" where
  "platform_eval pl fuel steps expr y =
     do {
       (res, m) \<leftarrow> alloc_nil (sys_mem y);
       let y = y\<lparr>sys_mem := m\<rparr>;
       let refused = Some (bs ''[platform_eval] error: no expr given.'' @ [13, 10], NULL, y);
       if expr = NULL then refused
       else do {
         x \<leftarrow> get_cell m expr;
         if c_tag x \<noteq> TAG_CONS then refused else platform_eval_from pl fuel steps fuel 0 expr res y
       }
     }"

section \<open>The loop\<close>

text \<open>The state of \<open>main\<close>: the string in the line buffer, the offset of the next line in it, the balance of parentheses, whether lines are
  taken from the standard input (\<open>in_f == stdin\<close>), and what is left to read of the input file and of the standard input.\<close>

record repl =
  in_buffer :: "byte list"
  in_offset :: nat
  parens :: int
  from_stdin :: bool
  in_file :: "byte list"
  in_stdin :: "byte list"
  rsys :: sys

text \<open>\<open>fgets\<close> with room for \<open>n\<close> characters: what it reads, the rest of the stream and whether it met the end of the file. It returns NULL
  when it reads nothing.\<close>

fun fgets :: "nat \<Rightarrow> byte list \<Rightarrow> byte list \<times> byte list \<times> bool" where
  "fgets 0 inp = ([], inp, False)"
| "fgets (Suc n) [] = ([], [], True)"
| "fgets (Suc n) (c # inp) = (if c = 10 then ([c], inp, False) else case fgets n inp of (l, rest, eof) \<Rightarrow> (c # l, rest, eof))"

text \<open>The call in the loop: the string in \<open>in_line\<close> (up to a zero byte; empty for NULL), \<open>feof(in_f)\<close> and \<open>feof(stdin)\<close>.\<close>

definition read_line :: "repl \<Rightarrow> cstr \<times> bool \<times> bool \<times> repl" where
  "read_line r =
     (case fgets (BUFSZ - 1) (if from_stdin r then in_stdin r else in_file r) of (l, rest, eof) \<Rightarrow>
        (takeWhile (\<lambda>c. c \<noteq> 0) l, eof, from_stdin r \<and> eof, if from_stdin r then r\<lparr>in_stdin := rest\<rparr> else r\<lparr>in_file := rest\<rparr>))"

text \<open>The loop that counts parentheses up to a comment; the result is the index where it stops.\<close>

fun scan_parens :: "byte list \<Rightarrow> nat \<Rightarrow> int \<Rightarrow> nat \<times> int" where
  "scan_parens [] i n = (i, n)"
| "scan_parens (c # cs) i n =
     (if c = 59 then (i, n) else scan_parens cs (Suc i) (if c = 40 then n + 1 else if c = 41 then n - 1 else n))"

text \<open>The part of a round that takes the line into the buffer and reads a complete expression; what it prints, the expression
  or NULL, and the new state. Writing past the end of \<open>in_buffer\<close> is stuck.\<close>

definition repl_input :: "platform \<Rightarrow> cstr \<Rightarrow> repl \<Rightarrow> (byte list \<times> val \<times> repl) option" where
  "repl_input pl line r =
     (if line = [] then Some ([], NULL, r)
      else do {
        let (i, n) = scan_parens line 0 (parens r);
        if in_offset r + i + 1 < 64 * BUFSZ
        then do {
          let buf = take (in_offset r) (in_buffer r) @ take i line @ [10];
          let r = r\<lparr>parens := n, in_buffer := buf\<rparr>;
          if n > 0
          then Some (if from_stdin r then bs [CHR ''.'', CHR ''.'', CHR ''.'', CHR 0x0D, CHR 0x0A] else [], NULL, r\<lparr>in_offset := in_offset r + i\<rparr>)
          else do {
            let r = r\<lparr>in_offset := 0\<rparr>;
            if length line > 1
            then do {
              (expr, m) \<leftarrow> read_string (pl_valuestate pl) buf (sys_mem (rsys r));
              Some ([], expr, r\<lparr>rsys := (rsys r)\<lparr>sys_mem := m\<rparr>\<rparr>)
            }
            else Some ([], NULL, r)
          }
        }
        else None
      })"

text \<open>The part of a round that compiles, runs and prints.\<close>

definition repl_eval :: "platform \<Rightarrow> nat \<Rightarrow> nat \<Rightarrow> val \<Rightarrow> repl \<Rightarrow> (byte list \<times> repl) option" where
  "repl_eval pl fuel steps expr r =
     (if expr = NULL then Some ([], r)
      else do {
        (out, success, y) \<leftarrow> compile_for_platform pl fuel steps expr (rsys r);
        let r = r\<lparr>rsys := y\<rparr>;
        (case success of
           Ran res \<Rightarrow>
             if \<not> from_stdin r then Some (out, r)
             else if res = NULL then Some (out @ bs ''invalid cell ('' @ pl_format pl res @ bs [CHR '')'', CHR 0x0D, CHR 0x0A], r)
             else do { t \<leftarrow> lisp_write fuel (sys_mem y) res BUFSZ 1024; Some (out @ t @ [13, 10], r) }
         | _ \<Rightarrow> Some (out @ bs ''<compilation failed>'' @ [10], r))
      })"

datatype round = Continue "byte list" repl | Exit "byte list"

text \<open>One round of the loop, and what it prints.\<close>

definition repl_round :: "platform \<Rightarrow> nat \<Rightarrow> nat \<Rightarrow> repl \<Rightarrow> round option" where
  "repl_round pl fuel steps r =
     do {
       let prompt = (if from_stdin r then bs ''interim> '' else []);
       let (line, eof, stdin_eof, r) = read_line r;
       (out1, expr, r) \<leftarrow> repl_input pl line r;
       let over = (eof \<or> line = []);
       let r = (if over then r\<lparr>from_stdin := True, in_offset := 0\<rparr> else r);
       if over \<and> stdin_eof then Some (Exit (prompt @ out1 @ [10]))
       else do {
         (out2, r) \<leftarrow> repl_eval pl fuel steps expr r;
         Some (Continue (prompt @ out1 @ out2) r)
       }
     }"

text \<open>What is left to do: every round takes a byte from the input, ends the file or ends the program.\<close>

definition input_left :: "repl \<Rightarrow> nat" where
  "input_left r = (if from_stdin r then 0 else Suc (length (in_file r))) + length (in_stdin r)"

lemma fgets_shorter: "fgets (Suc n) inp = (l, rest, eof) \<Longrightarrow> eof \<or> length rest < length inp"
proof (induction n arbitrary: inp l)
  case 0
  then show ?case by (cases inp) (auto split: if_splits)
next
  case (Suc n)
  show ?case
  proof (cases inp)
    case (Cons c cs)
    then show ?thesis using Suc by (fastforce split: if_splits prod.splits)
  qed (use Suc.prems in simp)
qed

lemma read_line_shorter:
  assumes "read_line r = (line, eof, stdin_eof, r')"
  shows "from_stdin r' = from_stdin r" "stdin_eof = (from_stdin r \<and> eof)" "eof \<or> input_left r' < input_left r"
    "\<not> from_stdin r \<Longrightarrow> in_stdin r' = in_stdin r"
proof -
  obtain l rest e where f: "fgets (BUFSZ - 1) (if from_stdin r then in_stdin r else in_file r) = (l, rest, e)" by (metis prod.exhaust)
  then have "e \<or> length rest < length (if from_stdin r then in_stdin r else in_file r)"
    using fgets_shorter [of "BUFSZ - 2"] by (simp add: BUFSZ_def numeral_eq_Suc)
  then show "from_stdin r' = from_stdin r" "stdin_eof = (from_stdin r \<and> eof)" "eof \<or> input_left r' < input_left r"
    "\<not> from_stdin r \<Longrightarrow> in_stdin r' = in_stdin r"
    using assms f by (auto simp: read_line_def input_left_def split: if_splits)
qed

lemma repl_input_streams:
  "repl_input pl line r = Some (out, expr, r') \<Longrightarrow> from_stdin r' = from_stdin r \<and> in_file r' = in_file r \<and> in_stdin r' = in_stdin r"
  by (auto simp: repl_input_def Let_def split: if_splits prod.splits bind_splits)

lemma repl_eval_streams:
  "repl_eval pl fuel steps expr r = Some (out, r') \<Longrightarrow> from_stdin r' = from_stdin r \<and> in_file r' = in_file r \<and> in_stdin r' = in_stdin r"
  by (auto simp: repl_eval_def Let_def split: if_splits bind_splits compiled.splits)

lemma repl_round_shorter:
  assumes "repl_round pl fuel steps r = Some (Continue out r')"
  shows "input_left r' < input_left r"
proof -
  obtain line eof se r0 where l: "read_line r = (line, eof, se, r0)" by (metis prod.exhaust)
  then obtain out1 expr r1 where i: "repl_input pl line r0 = Some (out1, expr, r1)" using assms by (auto simp: repl_round_def Let_def split: bind_splits)
  let ?r = "if eof \<or> line = [] then r1\<lparr>from_stdin := True, in_offset := 0\<rparr> else r1"
  have c: "\<not> ((eof \<or> line = []) \<and> se)" "\<exists>out2. repl_eval pl fuel steps expr ?r = Some (out2, r')"
    using assms l i by (auto simp: repl_round_def Let_def split: if_splits bind_splits)
  note s = read_line_shorter [OF l] repl_input_streams [OF i]
  have "from_stdin r' = from_stdin ?r" "in_file r' = in_file r0" "in_stdin r' = in_stdin r0"
    using c(2) repl_eval_streams [of pl fuel steps expr ?r] s(5) by (auto split: if_splits)
  then show ?thesis using c(1) s by (auto simp: input_left_def split: if_splits)
qed

text \<open>The loop, which ends at the end of the standard input; what it prints.\<close>

function repl_run :: "platform \<Rightarrow> nat \<Rightarrow> nat \<Rightarrow> repl \<Rightarrow> byte list option" where
  "repl_run pl fuel steps r =
     (case repl_round pl fuel steps r of
        None \<Rightarrow> None
      | Some (Exit out) \<Rightarrow> Some out
      | Some (Continue out r) \<Rightarrow> map_option (\<lambda>rest. out @ rest) (repl_run pl fuel steps r))"
  by pat_completeness auto
termination by (relation "measure (\<lambda>(_, _, _, r). input_left r)") (auto dest: repl_round_shorter)

declare repl_run.simps [simp del]

text \<open>The start of \<open>main\<close>, without device drivers and without the greeting of \<open>init_compiler\<close>; \<open>file\<close> is the contents of the input file, if one was named and opened, \<open>inp\<close> the standard input.\<close>

definition repl_start :: "byte list option \<Rightarrow> byte list \<Rightarrow> mem \<Rightarrow> repl option" where
  "repl_start file inp m =
     do {
       (p, env, m) \<leftarrow> init_compiler m;
       (_, m) \<leftarrow> filesystems_init m;
       Some \<lparr>in_buffer = [], in_offset = 0, parens = 0, from_stdin = (file = None), in_file = (case file of None \<Rightarrow> [] | Some t \<Rightarrow> t), in_stdin = inp,
         rsys = \<lparr>sys_mem = m, sys_env = env, sys_protos = p, sys_code = [], sys_labels = 0\<rparr>\<rparr>
     }"

section \<open>An invariant of the system\<close>

definition sys_ok :: "sys \<Rightarrow> bool" where
  "sys_ok y \<longleftrightarrow> env_inv (sys_env y) (sys_mem y) \<and> alloc_inv (sys_mem y) \<and> protos_ok (sys_mem y) (sys_protos y)
     \<and> (\<forall>d \<in> set (builtin_table (sys_protos y)). installed (sys_env y) (sys_mem y) d)"

text \<open>It survives everything that keeps the cells in use and the entries of the environment.\<close>

lemma sys_ok_grows:
  assumes "sys_ok y" "mem_grows (sys_mem y) m" "alloc_inv m" "envs m = envs (sys_mem y)"
    "sys_mem y' = m" "sys_env y' = sys_env y" "sys_protos y' = sys_protos y"
  shows "sys_ok y'"
  using assms installed_frame [OF _ assms(2)] env_abs_envs [OF assms(4)] env_inv_envs [OF assms(4)] protos_ok_grows [OF _ assms(2)]
  unfolding sys_ok_def by metis

lemma initial_arith_ready:
  assumes "env_inv env m" "protos_ok m p" "\<forall>d \<in> set (builtin_table p). installed env m d"
  shows "arith_ready (initial_state se p env m)"
proof -
  have "int_builtin (initial_state se p env m) name b n"
    if t: "(name, b, Some (replicate n (prototype_int p))) \<in> set (builtin_table p)" for name b n
  proof -
    obtain c sig where c: "env_abs env m (bs name) = Some c" "get_cell m c = Some \<lparr>c_ar = W (ucast (BUILTIN b)), c_dr = sig, c_tag = TAG_BUILTIN\<rparr>"
      "list_at m sig (replicate n (prototype_int p))"
      using assms(3) [rule_format, OF t] by (auto simp: installed_def)
    then show ?thesis using lookup_global_abs [OF assms(1) c(1)] by (auto simp: int_builtin_def initial_state_def)
  qed
  moreover have "(op_name op, op_builtin op, Some (replicate 2 (prototype_int p))) \<in> set (builtin_table p)" for op
    by (cases op) (simp_all add: builtin_table_def Let_def numeral_2_eq_2)
  moreover have "(''bitnot'', ''BITNOT'', Some (replicate 1 (prototype_int p))) \<in> set (builtin_table p)"
    by (simp add: builtin_table_def Let_def)
  ultimately show ?thesis
    using assms(2) by (auto simp: arith_ready_def protos_ok_def has_def initial_state_def tag_of_def)
qed

lemma initial_state_simps [simp]:
  "c_mem (initial_state se p env m) = m" "c_env (initial_state se p env m) = env" "c_protos (initial_state se p env m) = p"
  "c_code (initial_state se p env m) = []"
  by (simp_all add: initial_state_def)

lemma arith_ready_labels [simp]: "arith_ready (s\<lparr>c_labels := n\<rparr>) = arith_ready s"
  by (simp add: arith_ready_def int_builtin_def tag_of_def)

text \<open>The value of a global variable.\<close>

definition global_int :: "sys \<Rightarrow> cstr \<Rightarrow> u64 \<Rightarrow> bool" where
  "global_int y x v \<longleftrightarrow> (\<exists>c cell. env_abs (sys_env y) (sys_mem y) x = Some c \<and> c \<in> live (sys_mem y) \<and> get_cell (sys_mem y) c = Some cell
     \<and> c_ar cell = W v)"

lemma load8_cell: "get_cell m p = Some c \<Longrightarrow> load8 m p = Some (c_ar c)"
  by (auto simp: get_cell_Some_iff as_cell_Some_iff)

lemma ready_initial:
  assumes "sys_ok y" "\<forall>x \<in> xs. global_int y x (\<rho> x)" "m_mem st = sys_mem y"
  shows "ready \<rho> xs ((initial_state se (sys_protos y) (sys_env y) (sys_mem y))\<lparr>c_labels := n\<rparr>) st" (is "ready \<rho> xs ?s st")
proof -
  have "var_is ?s st x (\<rho> x)" if x: "x \<in> xs" for x
  proof -
    obtain c cell where c: "env_abs (sys_env y) (sys_mem y) x = Some c" "get_cell (sys_mem y) c = Some cell" "c_ar cell = W (\<rho> x)"
      using assms(2) x by (auto simp: global_int_def)
    obtain e ent where e: "lookup_global_symbol (sys_env y) x = Some e" "e \<noteq> NULL" "as_env (sys_mem y) e = Some ent" "e_cell ent = c"
      using lookup_global_abs [OF _ c(1)] assms(1) by (auto simp: sys_ok_def)
    have "load8 (sys_mem y) e = Some c" using e(3,4) by (cases "(sys_mem y, e)" rule: as_env.cases) (auto split: if_splits)
    then have "arg_val (c_mem ?s) (f_sp (c_frame ?s)) st (arg0\<lparr>a_type := Some ARGT_ENV, a_env := Some e\<rparr>) (\<rho> x)"
      using load8_cell [OF c(2)] c(3) assms(3) by (simp add: arg_val_def int_at_def)
    moreover have "var_desc ?s x (arg0\<lparr>a_type := Some ARGT_ENV, a_env := Some e\<rparr>)"
      using e(1,2) by (simp add: var_desc_def initial_state_def)
    ultimately show ?thesis unfolding var_is_def by blast
  qed
  moreover have "frame_ok ?s" by (simp add: frame_ok_def initial_state_def)
  moreover have "arith_ready ?s" using initial_arith_ready assms(1) by (simp add: sys_ok_def)
  ultimately show ?thesis by (simp add: ready_def)
qed

lemma link_no_labels: "\<forall>l. Label l \<notin> set is \<Longrightarrow> link_lambdas fmt parse k is m = Some ([], m)"
proof (induction "is" arbitrary: k)
  case (Cons i "is")
  then show ?case by (cases i) auto
qed simp

text \<open>The messages of \<open>k\<close> doublings.\<close>

fun notices :: "nat \<Rightarrow> nat \<Rightarrow> byte list" where
  "notices c 0 = []"
| "notices c (Suc k) = doubling_notice (2 * c) @ notices (2 * c) k"

lemma doubling_ok: "sz \<le> c * 2 ^ k \<Longrightarrow> 0 < c \<Longrightarrow> c * 2 ^ k < 2 ^ 31 \<Longrightarrow> \<exists>j \<le> k. doubling sz c = Some (notices c j)"
proof (induction k arbitrary: c)
  case 0
  then show ?case by (simp add: doubling.simps)
next
  case (Suc k)
  show ?case
  proof (cases "sz \<le> c")
    case True
    then show ?thesis by (intro exI [of _ 0]) (simp add: doubling.simps)
  next
    case False
    have "2 * c * 1 \<le> 2 * c * 2 ^ k" by (rule mult_le_mono2) simp
    also have "\<dots> = c * 2 ^ Suc k" by simp
    finally have "2 * c \<le> c * 2 ^ Suc k" unfolding mult_1_right .
    with Suc.prems(3) have "2 * c < 2 ^ 31" by (rule le_less_trans [rotated])
    moreover obtain j where "j \<le> k" "doubling sz (2 * c) = Some (notices (2 * c) j)"
      using Suc.IH [of "2 * c"] Suc.prems by (auto simp: mult.assoc mult.left_commute)
    ultimately show ?thesis using False Suc.prems(2) by (intro exI [of _ "Suc j"]) (simp add: doubling.simps [of sz c])
  qed
qed

text \<open>The listing of an expression assembles to at most \<open>2 ^ k\<close> times the initial size of the code block.\<close>

definition assembles :: "platform \<Rightarrow> nat \<Rightarrow> nat \<Rightarrow> aexp \<Rightarrow> bool" where
  "assembles pl fuel k e \<longleftrightarrow>
     (\<forall>s p t s'. c_code s = [] \<and> sexp_at (c_mem s) p (sexp_of e)
        \<and> compile_expr fuel (pl_format pl) (pl_genv pl) p (prototype_any (c_protos s)) s = Some (t, s')
        \<longrightarrow> pl_size pl (insns (c_code s' @ [JRet])) \<le> 1024 * 2 ^ k)"

lemma compiled_def_arith:
  assumes "sexp_on D nb m p (sexp_of e)" "is_form e"
  shows "compiled_def m p = Some []"
proof -
  obtain name as where e: "sexp_of e = SCons (SSym name) as" "name \<noteq> bs ''def''"
  proof (cases e)
    case (ABin op a b)
    have "bs (op_name op) \<noteq> bs ''def''" by (cases op) simp_all
    then show ?thesis using that ABin by simp
  qed (use assms(2) that in auto)
  obtain q d where p: "get_cell m p = Some \<lparr>c_ar = q, c_dr = d, c_tag = TAG_CONS\<rparr>" "p \<noteq> NULL" "text_on D nb m q TAG_SYM name"
    using assms(1) sexp_on_mem e(1) by fastforce
  obtain c where "get_cell m q = Some c" "c_tag c = TAG_SYM" "read_cstr m (c_ar c) = Some name" using text_on_read [OF p(3)] by blast
  then show ?thesis using p(1,2) e(2) by (simp add: compiled_def_def car_def)
qed

definition boxed :: "mem \<Rightarrow> val \<Rightarrow> u64 \<Rightarrow> mem \<Rightarrow> bool" where
  "boxed m p v m' \<longleftrightarrow> (\<exists>d. fresh_cell m p \<lparr>c_ar = W (scast (ucast v :: u32)), c_dr = d, c_tag = TAG_INT\<rparr> m')"

lemma platform_arith:
  assumes "sys_ok y" "sexp_at (sys_mem y) p (sexp_of e)" "\<forall>x \<in> avars e. global_int y x (\<rho> x)" "code_value \<rho> e = Some v" "is_form e"
    "sdepth (sexp_of e) < fuel" "adepth e < rsp (pl_mach pl)" "0 < cells_left (sys_mem y)" "pl_mprotect pl" "assembles pl fuel k e" "k \<le> 20"
  shows "\<exists>steps j q y'. compile_for_platform pl fuel steps p y = Some (notices 1024 j, Ran q, y') \<and> j \<le> k
    \<and> boxed (sys_mem y) q v (sys_mem y') \<and> sys_env y' = sys_env y \<and> sys_protos y' = sys_protos y"
proof -
  let ?s = "(initial_state (pl_stack pl) (sys_protos y) (sys_env y) (sys_mem y))\<lparr>c_labels := sys_labels y\<rparr>"
  let ?st = "(pl_mach pl)\<lparr>rsp := rsp (pl_mach pl) - 1, stk := (stk (pl_mach pl))(rsp (pl_mach pl) - 1 := HOST_RETURN),
    m_mem := sys_mem y, m_env := sys_env y\<rparr>"
  have s: "c_mem ?s = sys_mem y" "c_protos ?s = sys_protos y" by (simp_all add: initial_state_def)
  have nn: "prototype_any (sys_protos y) \<noteq> NULL" using assms(1) by (auto simp: sys_ok_def protos_ok_def has_def)
  have "sexp_at (c_mem ?s) p (sexp_of e)" "ready \<rho> (avars e) ?s ?st" "adepth e \<le> rsp ?st" "alloc_inv (m_mem ?st)"
    "0 < cells_left (m_mem ?st)" "stk ?st (rsp ?st) = HOST_RETURN"
    using assms s ready_initial [OF assms(1,3), of ?st] by (simp_all add: sys_ok_def)
  from compiled_arith_runs [OF this(1,2) assms(4,6) this(3) assms(5) this(4-6), of "pl_format pl" "pl_genv pl" "pl_host pl" "sys_code y"]
  obtain cd n st' where c: "compile_expr fuel (pl_format pl) (pl_genv pl) p (prototype_any (sys_protos y)) ?s
      = Some (prototype_any (sys_protos y), emit cd ?s)"
    "run n (pl_host pl) (sys_code y @ insns (cd @ [JRet])) (length (sys_code y)) ?st = Some st'" "returned ?st st' v"
    "\<forall>l. Label l \<notin> set (insns cd)" unfolding s by blast
  have l: "link_lambdas (pl_format pl) (pl_parse pl) (length (sys_code y)) (insns (cd @ [JRet])) (sys_mem y) = Some ([], sys_mem y)"
    by (rule link_no_labels) (use c(4) in simp)
  have push: "push_word HOST_RETURN ((pl_mach pl)\<lparr>m_mem := sys_mem y, m_env := sys_env y\<rparr>) = Some ?st"
    using assms(7) by (simp add: push_word_def)
  have code: "c_code (emit cd ?s) = cd" "c_mem (emit cd ?s) = sys_mem y" "c_env (emit cd ?s) = sys_env y" "c_labels (emit cd ?s) = sys_labels y"
    by (simp_all add: emit_def initial_state_def)
  have "pl_size pl (insns (cd @ [JRet])) \<le> 1024 * 2 ^ k"
    using assms(10) [unfolded assembles_def, rule_format, of ?s p "prototype_any (sys_protos y)" "emit cd ?s"] assms(2) c(1) code(1)
    by (simp add: initial_state_def)
  moreover have "1024 * 2 ^ k < (2 :: nat) ^ 31"
    using power_increasing [OF assms(11), of "2 :: nat"] by simp
  ultimately obtain j where j: "j \<le> k" "doubling (pl_size pl (insns (cd @ [JRet]))) 1024 = Some (notices 1024 j)"
    using doubling_ok [of _ 1024 k] by auto
  have "compile_for_platform pl fuel n p y = Some (notices 1024 j, Ran (regs st' 0), y\<lparr>sys_mem := m_mem st', sys_env := m_env st',
      sys_labels := sys_labels y, sys_code := sys_code y @ insns (cd @ [JRet])\<rparr>)"
    using c(1,2) nn l push assms(9) j(2) compiled_def_arith [OF assms(2,5)] unfolding compile_for_platform_def Let_def execute_jitted_def
    by (simp add: code del: insns_append)
  then show ?thesis using c(3) j(1) by (fastforce simp: returned_def boxed_def)
qed

section \<open>From the typed line to the printed line\<close>

lemma scan_parens_count:
  "59 \<notin> set cs \<Longrightarrow> scan_parens cs i n = (i + length cs, n + int (count_list cs 40) - int (count_list cs 41))"
  by (induction cs arbitrary: i n) auto

lemma sint_scast_up: "sint (scast (w :: u32) :: u64) = sint w"
proof -
  have "- (2 ^ 63) \<le> sint w" "sint w < 2 ^ 63" using sint_ge [of w] sint_lt [of w] by simp_all
  then have "signed_take_bit 63 (sint w) = sint w" by (rule signed_take_bit_int_eq_self)
  then show ?thesis using sint_sbintrunc' [of "sint w", where 'a = 64] by (simp only: scast_eq) simp
qed

lemma length_show_nat: "n < 10 ^ k \<Longrightarrow> 0 < k \<Longrightarrow> length (show_nat n) \<le> k"
proof (induction n arbitrary: k rule: show_nat.induct)
  case (1 n)
  show ?case
  proof (cases "n < 10")
    case True
    then show ?thesis using "1.prems" by (subst show_nat.simps) simp
  next
    case False
    then obtain j where j: "k = Suc j" "0 < j" using "1.prems" by (cases k) (auto, cases "k - 1", auto)
    then have "length (show_nat (n div 10)) \<le> j" using "1.IH" [OF False, of j] "1.prems" by (simp add: less_mult_imp_div_less mult.commute)
    then show ?thesis using False j by (subst show_nat.simps) simp
  qed
qed

lemma length_show_word: "length (show_int (sint (w :: u64))) \<le> 20"
proof -
  have "\<bar>sint w\<bar> \<le> 2 ^ 63" using sint_ge [of w] sint_lt [of w] by simp
  then have "nat \<bar>sint w\<bar> < 10 ^ 19" by simp
  from length_show_nat [OF this] show ?thesis by (auto simp: show_int_def)
qed

text \<open>The text of one expression on a line: no comment, no line break, no zero byte, as many closing parentheses as opening ones.\<close>

definition types :: "byte list \<Rightarrow> aexp \<Rightarrow> bool" where
  "types t e \<longleftrightarrow> reads t [sexp_of e] \<and> set t \<inter> {0, 10, 59} = {} \<and> count_list t 40 = count_list t 41"

lemma fgets_line: "10 \<notin> set t \<Longrightarrow> length t < n \<Longrightarrow> fgets n (t @ 10 # rest) = (t @ [10], rest, False)"
proof (induction t arbitrary: n)
  case Nil
  then show ?case by (cases n) simp_all
next
  case (Cons c t)
  then show ?case by (cases n) auto
qed

lemma base_ok_line: "vs = VST_DEFAULT \<or> neg_free t \<Longrightarrow> base_ok vs ((t @ [10]) @ [10])"
  unfolding base_ok_def using neg_free_snoc [of t 10] neg_free_snoc [of "t @ [10]" 10] by (auto simp: is_digit_def)

text \<open>The loop waits for an expression.\<close>

definition idle :: "repl \<Rightarrow> bool" where
  "idle r \<longleftrightarrow> from_stdin r \<and> parens r = 0 \<and> in_offset r = 0 \<and> sys_ok (rsys r)"

lemma idle_in_stdin [simp]: "idle (r\<lparr>in_stdin := x\<rparr>) = idle r"
  by (simp add: idle_def)

lemma repl_input_arith:
  assumes "types t e" "idle r" "pl_valuestate pl = VST_DEFAULT \<or> neg_free t" "2 * length t + 8 \<le> cells_left (sys_mem (rsys r))"
    "length t + 2 < 64 * BUFSZ" "nest (sexp_of e) \<le> stack_slots"
  shows "\<exists>p m r'. repl_input pl (t @ [10]) r = Some ([], p, r') \<and> sexp_at m p (sexp_of e) \<and> p \<noteq> NULL \<and> from_stdin r' \<and> parens r' = 0 \<and> in_offset r' = 0
    \<and> in_stdin r' = in_stdin r \<and> rsys r' = (rsys r)\<lparr>sys_mem := m\<rparr> \<and> alloc_inv m \<and> mem_grows (sys_mem (rsys r)) m \<and> envs m = envs (sys_mem (rsys r))
    \<and> cells_left (sys_mem (rsys r)) \<le> cells_left m + 2 * length t + 6"
proof -
  have "reads (t @ [10, 10]) ([sexp_of e] @ [])"
    by (rule reads_append) (use assms(1) in \<open>auto simp: types_def is_white_def intro!: reads.intros\<close>)
  then have one: "reads_one ((t @ [10]) @ [10]) (sexp_of e)" by (simp add: reads_one_def)
  have sc: "scan_parens (t @ [10]) 0 (parens r) = (length t + 1, 0)"
    using assms(1,2) scan_parens_count [of "t @ [10]" 0 0] by (simp add: types_def idle_def)
  have inv: "alloc_inv (sys_mem (rsys r))" using assms(2) by (simp add: idle_def sys_ok_def)
  have len: "2 * length ((t @ [10]) @ [10]) + 2 \<le> cells_left (sys_mem (rsys r))" "length ((t @ [10]) @ [10]) < 2 ^ 28"
    using assms(4,5) by (auto simp: BUFSZ_def)
  obtain p m where p: "read_string (pl_valuestate pl) ((t @ [10]) @ [10]) (sys_mem (rsys r)) = Some (p, m)"
    "sexp_on (live m - live (sys_mem (rsys r))) (length (blocks (sys_mem (rsys r)))) m p (sexp_of e)" "alloc_inv m"
    "mem_grows (sys_mem (rsys r)) m" "envs m = envs (sys_mem (rsys r))" "cells_left (sys_mem (rsys r)) \<le> cells_left m + 2 * length ((t @ [10]) @ [10]) + 2"
    using read_string_ok [OF one inv len assms(6) base_ok_line [OF assms(3)]] by blast
  have "sexp_at m p (sexp_of e)" by (rule sexp_on_mono [OF p(2)]) auto
  moreover have "p \<noteq> NULL" using sexp_on_mem [OF p(2)] by simp
  moreover have "t \<noteq> []" using assms(1) by (auto simp: types_def elim: reads.cases)
  ultimately show ?thesis
    using p assms(2,5) sc by (auto simp: repl_input_def Let_def idle_def)
qed

lemma write_boxed:
  assumes "boxed m p v m'" "0 < fuel"
  shows "lisp_write fuel m' p BUFSZ 1024 = Some (show_int (sint (ucast v :: u32)))"
proof -
  have "sexp_at m' p (SInt (scast (ucast v :: u32)))" using assms(1) by (auto simp: boxed_def fresh_cell_def)
  from write_cell_prints [OF this, of fuel 1024 BUFSZ False] show ?thesis
    using assms(2) length_show_word [of "scast (ucast v :: u32)"] by (auto simp: lisp_write_def printed_def TMP_BUF_SIZE_def BUFSZ_def sint_scast_up)
qed

lemma global_int_grows:
  assumes "global_int y x v" "mem_grows (sys_mem y) m" "envs m = envs (sys_mem y)" "sys_env y' = sys_env y" "sys_mem y' = m"
  shows "global_int y' x v"
proof -
  obtain c cell where c: "env_abs (sys_env y) (sys_mem y) x = Some c" "c \<in> live (sys_mem y)" "get_cell (sys_mem y) c = Some cell" "c_ar cell = W v"
    using assms(1) by (auto simp: global_int_def)
  have "c \<in> live m" "get_cell m c = Some cell" using c(2,3) assms(2) by (auto simp: mem_grows_def)
  then show ?thesis using c(1,4) env_abs_envs [OF assms(3)] assms(4,5) by (auto simp: global_int_def)
qed

text \<open>The prompt, the messages about the size of the code block, and the value in decimal.\<close>

definition answer :: "nat \<Rightarrow> u64 \<Rightarrow> byte list" where
  "answer j v = bs ''interim> '' @ notices 1024 j @ show_int (sint (ucast v :: u32)) @ [13, 10]"

lemma read_line_typed:
  assumes "types t e" "from_stdin r" "in_stdin r = t @ 10 # rest" "length t + 1 < BUFSZ"
  shows "read_line r = (t @ [10], False, False, r\<lparr>in_stdin := rest\<rparr>)"
proof -
  have "takeWhile (\<lambda>c. c \<noteq> 0) (t @ [10]) = t @ [10]" using assms(1) by (auto simp: types_def takeWhile_eq_all_conv)
  then show ?thesis using fgets_line [of t "BUFSZ - 1" rest] assms by (simp add: read_line_def types_def)
qed

lemma repl_arith_round:
  assumes "types t e" "idle r" "in_stdin r = t @ 10 # rest" "\<forall>x \<in> avars e. global_int (rsys r) x (\<rho> x)" "code_value \<rho> e = Some v" "is_form e"
    "pl_valuestate pl = VST_DEFAULT \<or> neg_free t" "pl_mprotect pl" "2 * length t + 8 \<le> cells_left (sys_mem (rsys r))" "length t + 1 < BUFSZ"
    "nest (sexp_of e) \<le> stack_slots" "sdepth (sexp_of e) < fuel" "adepth e < rsp (pl_mach pl)" "assembles pl fuel k e" "k \<le> 20"
  shows "\<exists>steps j r'. repl_round pl fuel steps r = Some (Continue (answer j v) r') \<and> j \<le> k
    \<and> idle r' \<and> in_stdin r' = rest \<and> cells_left (sys_mem (rsys r)) \<le> cells_left (sys_mem (rsys r')) + 2 * length t + 7
    \<and> (\<forall>x w. global_int (rsys r) x w \<longrightarrow> global_int (rsys r') x w)"
proof -
  let ?y = "rsys r" and ?r = "r\<lparr>in_stdin := rest\<rparr>"
  have l: "read_line r = (t @ [10], False, False, ?r)" using read_line_typed [OF assms(1) _ assms(3,10)] assms(2) by (simp add: idle_def)
  have "length t + 2 < 64 * BUFSZ" using assms(10) by (simp add: BUFSZ_def)
  with repl_input_arith [OF assms(1), of ?r pl] assms(2,7,9,11)
  obtain p m r1 where 1: "repl_input pl (t @ [10]) ?r = Some ([], p, r1)" "sexp_at m p (sexp_of e)" "p \<noteq> NULL" "from_stdin r1" "parens r1 = 0"
    "in_offset r1 = 0" "in_stdin r1 = rest" "rsys r1 = ?y\<lparr>sys_mem := m\<rparr>" "alloc_inv m" "mem_grows (sys_mem ?y) m" "envs m = envs (sys_mem ?y)"
    "cells_left (sys_mem ?y) \<le> cells_left m + 2 * length t + 6" by auto
  have y: "sys_ok ?y" using assms(2) by (simp add: idle_def)
  have y1: "sys_ok (rsys r1)" by (rule sys_ok_grows [OF y 1(10,9,11)]) (simp_all add: 1(8))
  have g1: "global_int (rsys r1) x w" if "global_int ?y x w" for x w
    by (rule global_int_grows [OF that 1(10,11)]) (simp_all add: 1(8))
  have "\<forall>x \<in> avars e. global_int (rsys r1) x (\<rho> x)" using g1 assms(4) by blast
  moreover have "sexp_at (sys_mem (rsys r1)) p (sexp_of e)" "0 < cells_left (sys_mem (rsys r1))" using 1(2,8,12) assms(9) by auto
  ultimately obtain steps j q y' where 2: "compile_for_platform pl fuel steps p (rsys r1) = Some (notices 1024 j, Ran q, y')" "j \<le> k"
    "boxed (sys_mem (rsys r1)) q v (sys_mem y')" "sys_env y' = sys_env (rsys r1)" "sys_protos y' = sys_protos (rsys r1)"
    using platform_arith [OF y1 _ _ assms(5,6,12,13) _ assms(8,14,15), of p] by blast
  obtain c where c: "fresh_cell (sys_mem (rsys r1)) q c (sys_mem y')" using 2(3) by (auto simp: boxed_def)
  note f = fresh_cell_steady [OF c]
  have qn: "q \<noteq> NULL" using f by auto
  have m2: "mem_grows (sys_mem (rsys r1)) (sys_mem y')" "alloc_inv (sys_mem y')" "envs (sys_mem y') = envs (sys_mem (rsys r1))"
    "cells_left (sys_mem (rsys r1)) \<le> cells_left (sys_mem y') + 1" using f by (auto simp: steady_def)
  have "repl_eval pl fuel steps p r1 = Some (notices 1024 j @ show_int (sint (ucast v :: u32)) @ [13, 10], r1\<lparr>rsys := y'\<rparr>)"
    using 1(3,4) 2(1) qn write_boxed [OF 2(3), of fuel] assms(12) by (auto simp: repl_eval_def Let_def)
  then have "repl_round pl fuel steps r = Some (Continue (answer j v) (r1\<lparr>rsys := y'\<rparr>))"
    using 1(1) l assms(2) by (simp add: repl_round_def answer_def Let_def idle_def)
  moreover have "idle (r1\<lparr>rsys := y'\<rparr>)"
    using 1(4-6) sys_ok_grows [OF y1 m2(1-3) refl 2(4,5)] by (simp add: idle_def)
  moreover have "global_int y' x w" if "global_int ?y x w" for x w
    by (rule global_int_grows [OF g1 [OF that] m2(1,3) 2(4) refl])
  moreover have "cells_left (sys_mem ?y) \<le> cells_left (sys_mem y') + 2 * length t + 7" using 1(8,12) m2(4) by simp
  ultimately show ?thesis using 1(7) 2(2) by (intro exI [of _ steps] exI [of _ j] exI [of _ "r1\<lparr>rsys := y'\<rparr>"]) simp
qed

lemma repl_start_idle:
  "\<exists>r. repl_start None inp m = Some r \<and> idle r \<and> in_stdin r = inp \<and> MAX_CELLS \<le> cells_left (sys_mem (rsys r)) + 336"
proof -
  obtain p env m1 where 1: "init_compiler m = Some (p, env, m1)" "env_inv env m1" "alloc_inv m1" "protos_ok m1 p" "MAX_CELLS \<le> cells_left m1 + 335"
    "\<forall>d \<in> set (builtin_table p). installed env m1 d" using init_compiler_ok [of m] by blast
  obtain l m2 where 2: "alloc_nil m1 = Some (l, m2)" "fresh_cell m1 l \<lparr>c_ar = NULL, c_dr = NULL, c_tag = TAG_CONS\<rparr> m2"
    using alloc_nil_ok [OF 1(3)] 1(5) by (auto simp: MAX_CELLS_def)
  let ?y = "\<lparr>sys_mem = m1, sys_env = env, sys_protos = p, sys_code = [], sys_labels = 0\<rparr>"
  let ?m = "m2\<lparr>fs_list := l\<rparr>"
  have irr: "live ?m = live m2" "alloc_inv ?m = alloc_inv m2" "cells_left ?m = cells_left m2" "\<And>p. get_cell ?m p = get_cell m2 p"
    by (simp_all add: live_def alloc_inv_def cells_left_def free_ptrs_def free_slots_def get_cell_def)
  have f: "steady 1 m1 m2" "envs m2 = envs m1" using fresh_cell_steady [OF 2(2)] by blast+
  then have "mem_grows m1 ?m" "alloc_inv ?m" "envs ?m = envs m1" by (simp_all add: steady_def mem_grows_def irr)
  then have "sys_ok (?y\<lparr>sys_mem := ?m\<rparr>)" using sys_ok_grows [of ?y ?m "?y\<lparr>sys_mem := ?m\<rparr>"] 1 by (simp add: sys_ok_def)
  moreover have "MAX_CELLS \<le> cells_left ?m + 336" using f(1) 1(5) by (simp add: steady_def irr)
  ultimately show ?thesis using 1(1) 2(1) by (simp add: repl_start_def filesystems_init_def idle_def)
qed

section \<open>More steps change nothing\<close>

lemma run_mono: "run n h code pc st = Some st' \<Longrightarrow> n \<le> k \<Longrightarrow> run k h code pc st = Some st'"
proof (induction n arbitrary: k pc st)
  case (Suc n)
  then obtain j where "k = Suc j" "n \<le> j" by (cases k) auto
  moreover obtain x where x: "step h code pc st = Some x" using Suc.prems(1) by (auto split: bind_splits)
  ultimately show ?case using Suc by (cases x) simp_all
qed simp

lemma bind_mono: "Option.bind x f = Some r \<Longrightarrow> (\<And>a. f a = Some r \<Longrightarrow> g a = Some r) \<Longrightarrow> Option.bind x g = Some r"
  by (cases x) auto

lemma execute_jitted_mono: "execute_jitted pl n entry y = Some r \<Longrightarrow> n \<le> k \<Longrightarrow> execute_jitted pl k entry y = Some r"
  by (auto simp: execute_jitted_def bind_eq_Some_conv dest: run_mono)

lemma compile_for_platform_mono:
  "compile_for_platform pl fuel n p y = Some r \<Longrightarrow> n \<le> k \<Longrightarrow> compile_for_platform pl fuel k p y = Some r"
  unfolding compile_for_platform_def Let_def
  by (erule bind_mono) (auto split: if_splits elim!: bind_mono, erule execute_jitted_mono, assumption)

lemma bind_mono2: "Option.bind x f = Some r \<Longrightarrow> (\<And>a. x = Some a \<Longrightarrow> x' = Some a) \<Longrightarrow> Option.bind x' f = Some r"
  by (cases x) auto

lemma repl_eval_mono: "repl_eval pl fuel n e r = Some x \<Longrightarrow> n \<le> k \<Longrightarrow> repl_eval pl fuel k e r = Some x"
  unfolding repl_eval_def by (auto split: if_splits elim!: bind_mono2 intro: compile_for_platform_mono [of pl fuel n _ _ _ k])

lemma repl_round_mono: "repl_round pl fuel n r = Some x \<Longrightarrow> n \<le> k \<Longrightarrow> repl_round pl fuel k r = Some x"
proof -
  assume a: "repl_round pl fuel n r = Some x" "n \<le> k"
  obtain line eof se r0 where l: "read_line r = (line, eof, se, r0)" by (metis prod.exhaust)
  show ?thesis
    using a(1) unfolding repl_round_def Let_def l prod.case
    by (elim bind_mono) (auto split: if_splits elim!: bind_mono2 intro: repl_eval_mono [OF _ a(2)])
qed

section \<open>A session\<close>

text \<open>A line of a session: its text, the expression and the documented value, under \<open>k\<close> doublings of the code block. Comparisons with \<open>gt\<close> and
  \<open>lt\<close> are left out, since their code computes another value.\<close>

definition can_type :: "platform \<Rightarrow> nat \<Rightarrow> nat \<Rightarrow> byte list \<times> aexp \<times> u64 \<Rightarrow> bool" where
  "can_type pl fuel k x = (case x of (t, e, v) \<Rightarrow>
     types t e \<and> no_cmp e \<and> avars e = {} \<and> eval (\<lambda>_. 0) e = Some v \<and> is_form e \<and> length t + 1 < BUFSZ
     \<and> (pl_valuestate pl = VST_DEFAULT \<or> neg_free t)
     \<and> nest (sexp_of e) \<le> stack_slots \<and> sdepth (sexp_of e) < fuel \<and> adepth e < rsp (pl_mach pl) \<and> assembles pl fuel k e)"

definition cells_for :: "(byte list \<times> aexp \<times> u64) list \<Rightarrow> nat" where
  "cells_for xs = (\<Sum>x \<leftarrow> xs. 2 * length (fst x) + 8)"

definition lines :: "(byte list \<times> aexp \<times> u64) list \<Rightarrow> byte list" where
  "lines xs = concat (map (\<lambda>x. fst x @ [10]) xs)"

definition answers :: "nat list \<Rightarrow> (byte list \<times> aexp \<times> u64) list \<Rightarrow> byte list" where
  "answers js xs = concat (map (\<lambda>(j, x). answer j (snd (snd x))) (zip js xs))"

lemma repl_session:
  assumes "idle r" "in_stdin r = lines xs @ rest" "\<forall>x \<in> set xs. can_type pl fuel k x" "cells_for xs \<le> cells_left (sys_mem (rsys r))"
    "pl_mprotect pl" "k \<le> 20"
  shows "\<exists>n js r'. length js = length xs \<and> (\<forall>j \<in> set js. j \<le> k) \<and> idle r' \<and> in_stdin r' = rest
    \<and> (\<forall>steps \<ge> n. repl_run pl fuel steps r = map_option (\<lambda>out. answers js xs @ out) (repl_run pl fuel steps r'))"
  using assms(1-4)
proof (induction xs arbitrary: r)
  case Nil
  then show ?case by (intro exI [of _ 0] exI [of _ "[]"] exI [of _ r]) (simp add: lines_def answers_def option.map_ident)
next
  case (Cons x xs)
  obtain t e v where x: "x = (t, e, v)" by (cases x)
  have t: "types t e" "no_cmp e" "avars e = {}" "eval (\<lambda>_. 0) e = Some v" "is_form e" "length t + 1 < BUFSZ"
    "pl_valuestate pl = VST_DEFAULT \<or> neg_free t" "nest (sexp_of e) \<le> stack_slots"
    "sdepth (sexp_of e) < fuel" "adepth e < rsp (pl_mach pl)" "assembles pl fuel k e" using Cons.prems(3) by (simp_all add: can_type_def x)
  have c: "code_value (\<lambda>_. 0) e = Some v" using t(2,4) by (simp add: code_value_eval)
  have l: "2 * length t + 8 \<le> cells_left (sys_mem (rsys r))" using Cons.prems(4) by (simp add: cells_for_def x)
  have "in_stdin r = t @ 10 # lines xs @ rest" "\<forall>x \<in> avars e. global_int (rsys r) x 0" using Cons.prems(2) t(3) by (simp_all add: lines_def x)
  from repl_arith_round [OF t(1) Cons.prems(1) this c t(5,7) assms(5) l t(6,8-11) assms(6)]
  obtain n j r1 where 1: "repl_round pl fuel n r = Some (Continue (answer j v) r1)" "j \<le> k" "idle r1" "in_stdin r1 = lines xs @ rest"
    "cells_left (sys_mem (rsys r)) \<le> cells_left (sys_mem (rsys r1)) + 2 * length t + 7" by blast
  have "cells_for xs \<le> cells_left (sys_mem (rsys r1))" "\<forall>x \<in> set xs. can_type pl fuel k x" using Cons.prems(3,4) 1(5) by (simp_all add: cells_for_def x)
  then obtain n' js r' where 2: "length js = length xs" "\<forall>j \<in> set js. j \<le> k" "idle r'" "in_stdin r' = rest"
    "\<forall>steps \<ge> n'. repl_run pl fuel steps r1 = map_option (\<lambda>out. answers js xs @ out) (repl_run pl fuel steps r')"
    using Cons.IH [OF 1(3,4)] by blast
  have "repl_run pl fuel steps r = map_option (\<lambda>out. answers (j # js) (x # xs) @ out) (repl_run pl fuel steps r')"
    if "max n n' \<le> steps" for steps
    using repl_round_mono [OF 1(1), of steps] 2(5) that
    by (subst repl_run.simps) (cases "repl_run pl fuel steps r'", simp_all add: answers_def x)
  then show ?case using 1(2) 2(1-4) by (intro exI [of _ "max n n'"] exI [of _ "j # js"] exI [of _ r']) simp
qed

text \<open>At the end of the input the loop prints a last prompt and ends.\<close>

lemma repl_run_end: "idle r \<Longrightarrow> in_stdin r = [] \<Longrightarrow> repl_run pl fuel steps r = Some (bs ''interim> '' @ [10])"
  by (subst repl_run.simps) (simp add: repl_round_def read_line_def repl_input_def idle_def BUFSZ_def numeral_eq_Suc)

section \<open>Evaluating a list of expressions\<close>

lemma boxed_value: "boxed m p v m' \<Longrightarrow> sexp_at m' p (SInt (scast (ucast v :: u32)))"
  by (auto simp: boxed_def fresh_cell_def)

definition evals :: "platform \<Rightarrow> nat \<Rightarrow> nat \<Rightarrow> aexp \<times> u64 \<Rightarrow> bool" where
  "evals pl fuel k x \<longleftrightarrow> no_cmp (fst x) \<and> avars (fst x) = {} \<and> eval (\<lambda>_. 0) (fst x) = Some (snd x) \<and> is_form (fst x) \<and> sdepth (sexp_of (fst x)) < fuel
     \<and> adepth (fst x) < rsp (pl_mach pl) \<and> assembles pl fuel k (fst x)"

text \<open>What \<open>platform_eval\<close> returns: the value of the last expression, or what it started with.\<close>

definition last_value :: "mem \<Rightarrow> val \<Rightarrow> val \<Rightarrow> (aexp \<times> u64) list \<Rightarrow> bool" where
  "last_value m res q xs \<longleftrightarrow> (if xs = [] then q = res else sexp_at m q (SInt (scast (ucast (snd (last xs)) :: u32))))"

lemma platform_eval_from_mono:
  "platform_eval_from pl fuel j n i p res y = Some x \<Longrightarrow> j \<le> k \<Longrightarrow> platform_eval_from pl fuel k n i p res y = Some x"
proof (induction n arbitrary: i p res y x)
  case (Suc n)
  then show ?case
  proof (cases "p = NULL \<or> car (sys_mem y) p = Some NULL")
    case False
    then obtain c out r y1 where c: "car (sys_mem y) p = Some c" "c \<noteq> NULL" "p \<noteq> NULL" "compile_for_platform pl fuel j c y = Some (out, r, y1)"
      using Suc.prems(1) by (auto split: bind_splits if_splits)
    note m = compile_for_platform_mono [OF c(4) Suc.prems(2)]
    show ?thesis
    proof (cases r)
      case (Ran v)
      then obtain d z where "cdr (sys_mem y1) p = Some d" "platform_eval_from pl fuel j n (Suc i) d v y1 = Some z"
        using Suc.prems(1) c by (auto split: bind_splits)
      then show ?thesis using Suc.IH [of "Suc i" d v y1 z] Suc.prems c m Ran by simp
    qed (use Suc.prems(1) c m in simp_all)
  qed (use Suc.prems in auto)
qed simp

lemma platform_eval_from_arith:
  assumes "sys_ok y" "sexp_at (sys_mem y) p (list_sexp (map (\<lambda>x. sexp_of (fst x)) xs))" "\<forall>x \<in> set xs. evals pl fuel k x"
    "length xs \<le> cells_left (sys_mem y)" "pl_mprotect pl" "length xs < n" "k \<le> 20"
  shows "\<exists>steps js q y'. platform_eval_from pl fuel steps n i p res y = Some (concat (map (notices 1024) js), q, y') \<and> length js = length xs
    \<and> (\<forall>j \<in> set js. j \<le> k) \<and> sys_ok y' \<and> last_value (sys_mem y') res q xs \<and> mem_grows (sys_mem y) (sys_mem y')"
  using assms
proof (induction xs arbitrary: y p res n i)
  case Nil
  then obtain k where "n = Suc k" by (cases n) auto
  moreover have "p \<noteq> NULL" "get_cell (sys_mem y) p = Some \<lparr>c_ar = NULL, c_dr = NULL, c_tag = TAG_CONS\<rparr>"
    using Nil.prems(2) sexp_on_mem by (auto simp: list_sexp_def)
  ultimately show ?case using Nil.prems(1) by (simp add: car_def last_value_def)
next
  case (Cons x xs)
  obtain l where l: "n = Suc l" "length xs < l" using Cons.prems(6) by (cases n) auto
  have e: "avars (fst x) = {}" "code_value (\<lambda>_. 0) (fst x) = Some (snd x)" "is_form (fst x)" "sdepth (sexp_of (fst x)) < fuel" "adepth (fst x) < rsp (pl_mach pl)"
    "assembles pl fuel k (fst x)" using Cons.prems(3) by (auto simp: evals_def code_value_eval)
  obtain a d where c: "get_cell (sys_mem y) p = Some \<lparr>c_ar = a, c_dr = d, c_tag = TAG_CONS\<rparr>" "sexp_at (sys_mem y) a (sexp_of (fst x))"
    "sexp_at (sys_mem y) d (list_sexp (map (\<lambda>x. sexp_of (fst x)) xs))" using Cons.prems(2) by (auto simp: list_sexp_def)
  have nn: "p \<noteq> NULL" "a \<noteq> NULL" "p \<in> live (sys_mem y)" using c(2) sexp_on_mem [OF Cons.prems(2)] sexp_on_mem by blast+
  obtain s1 j q1 y1 where 1: "compile_for_platform pl fuel s1 a y = Some (notices 1024 j, Ran q1, y1)" "j \<le> k" "boxed (sys_mem y) q1 (snd x) (sys_mem y1)"
    "sys_env y1 = sys_env y" "sys_protos y1 = sys_protos y"
    using platform_arith [OF Cons.prems(1) c(2) _ e(2-5) _ Cons.prems(5) e(6) Cons.prems(7)] e(1) Cons.prems(4) by auto
  then obtain cc where f: "fresh_cell (sys_mem y) q1 cc (sys_mem y1)" by (auto simp: boxed_def)
  have g: "mem_grows (sys_mem y) (sys_mem y1)" "alloc_inv (sys_mem y1)" "envs (sys_mem y1) = envs (sys_mem y)"
    "cells_left (sys_mem y) \<le> cells_left (sys_mem y1) + 1" using fresh_cell_steady [OF f] by (auto simp: steady_def)
  have "sys_ok y1" by (rule sys_ok_grows [OF Cons.prems(1) g(1-3) refl 1(4,5)])
  moreover have "sexp_at (sys_mem y1) d (list_sexp (map (\<lambda>x. sexp_of (fst x)) xs))" by (rule sexp_at_ext [OF g(1) c(3)])
  ultimately obtain s2 js q y' where 2: "platform_eval_from pl fuel s2 l (Suc i) d q1 y1 = Some (concat (map (notices 1024) js), q, y')"
    "length js = length xs" "\<forall>j \<in> set js. j \<le> k" "sys_ok y'" "last_value (sys_mem y') q1 q xs" "mem_grows (sys_mem y1) (sys_mem y')"
    using Cons.IH [of y1 d l "Suc i" q1] Cons.prems(3-7) g(4) l(2) by auto
  have "compile_for_platform pl fuel (max s1 s2) a y = Some (notices 1024 j, Ran q1, y1)" by (rule compile_for_platform_mono [OF 1(1)]) simp
  moreover have "platform_eval_from pl fuel (max s1 s2) l (Suc i) d q1 y1 = Some (concat (map (notices 1024) js), q, y')"
    by (rule platform_eval_from_mono [OF 2(1)]) simp
  moreover have "get_cell (sys_mem y1) p = get_cell (sys_mem y) p" using g(1) nn(3) by (simp add: mem_grows_def)
  ultimately have "platform_eval_from pl fuel (max s1 s2) n i p res y = Some (concat (map (notices 1024) (j # js)), q, y')"
    using c(1) nn l(1) by (simp add: car_def cdr_def)
  moreover have "last_value (sys_mem y') res q (x # xs)"
    using 2(5) sexp_at_ext [OF 2(6) boxed_value [OF 1(3)]] by (cases "xs = []") (simp_all add: last_value_def)
  ultimately show ?case using 1(2) 2(2-4) mem_grows_trans [OF g(1) 2(6)]
    by (intro exI [of _ "max s1 s2"] exI [of _ "j # js"] exI [of _ q] exI [of _ y']) simp
qed

section \<open>Properties\<close>


definition sample_platform :: platform where
  "sample_platform = \<lparr>pl_host = \<lparr>h_junk = \<lambda>_ _. NULL, h_below = \<lambda>_ _. NULL, h_high = \<lambda>_. 0, h_ext = \<lambda>_ _. None\<rparr>,
     pl_mach = \<lparr>regs = \<lambda>_. NULL, rsp = 100, stk = \<lambda>_. NULL, zf = None, sf = None, lt = None, m_mem = mem0, m_env = empty_env\<rparr>,
     pl_format = \<lambda>_. [], pl_parse = \<lambda>_. NULL, pl_size = \<lambda>is. min 1024 (15 * length is), pl_genv = NULL, pl_stack = NULL, pl_valuestate = VST_DEFAULT, pl_mprotect = True\<rparr>"

definition sample_expr :: aexp where
  "sample_expr = ABin OAdd (ANum 1) (ABin OMul (ANum 2) (ANum 3))"

lemma sample_text: "print_sexp False (sexp_of sample_expr) = bs ''(+ 1 (* 2 3))''"
  by (simp add: sample_expr_def Let_def show_int_def show_nat.simps digit_char_def)

lemma sample_types: "types (bs ''(+ 1 (* 2 3))'') sample_expr"
proof -
  have "readable (sexp_of sample_expr)" by (simp add: sample_expr_def sym_start_def is_white_def is_digit_def)
  then have "reads_elem (bs ''(+ 1 (* 2 3))'') (sexp_of sample_expr)" using print_reads sample_text by metis
  then show ?thesis by (auto simp: types_def reads_elem_def sample_expr_def elim: atom_text.cases)
qed

lemma sample_assembles: "assembles sample_platform fuel 0 e"
  by (simp add: assembles_def sample_platform_def)

lemma sample_can_type: "can_type sample_platform 10 0 (bs ''(+ 1 (* 2 3))'', sample_expr, 7)"
  using sample_types sample_assembles [of 10 sample_expr] by (simp add: can_type_def sample_expr_def sample_platform_def BUFSZ_def stack_slots_def)




text \<open>
  C35. A comment inside an expression that spans lines removes the line break: the text before the semicolon and the next line
  are joined without a separator before they are read, so that tokens on both sides merge.
\<close>

theorem comment_joins_lines:
  assumes "59 \<notin> set a" "0 < parens r + int (count_list a 40) - int (count_list a 41)" "59 \<notin> set b"
    "parens r + int (count_list (a @ b) 40) - int (count_list (a @ b) 41) \<le> 0" "1 < length b" "in_offset r = 0"
    "length a + length b + 1 < 64 * BUFSZ"
  shows "\<exists>out r1. repl_input pl (a @ 59 # c) r = Some (out, NULL, r1)
    \<and> repl_input pl b r1 = (do {
        (expr, m) \<leftarrow> read_string (pl_valuestate pl) (a @ b @ [10]) (sys_mem (rsys r));
        Some ([], expr, r1\<lparr>parens := parens r + int (count_list (a @ b) 40) - int (count_list (a @ b) 41), in_buffer := a @ b @ [10],
          in_offset := 0, rsys := (rsys r)\<lparr>sys_mem := m\<rparr>\<rparr>) })"
proof -
  have scan: "scan_parens (a @ 59 # c) i n = (i + length a, n + int (count_list a 40) - int (count_list a 41))" for i n
    using assms(1) by (induction a arbitrary: i n) auto
  let ?n = "parens r + int (count_list a 40) - int (count_list a 41)"
  let ?r = "r\<lparr>parens := ?n, in_buffer := a @ [10], in_offset := length a\<rparr>"
  have "\<exists>out. repl_input pl (a @ 59 # c) r = Some (out, NULL, ?r)"
    using assms(2,6,7) scan [of 0 "parens r"] by (auto simp: repl_input_def)
  moreover have "repl_input pl b ?r = (do {
        (expr, m) \<leftarrow> read_string (pl_valuestate pl) (a @ b @ [10]) (sys_mem (rsys r));
        Some ([], expr, ?r\<lparr>parens := parens r + int (count_list (a @ b) 40) - int (count_list (a @ b) 41), in_buffer := a @ b @ [10],
          in_offset := 0, rsys := (rsys r)\<lparr>sys_mem := m\<rparr>\<rparr>) })"
    using assms(3-5,7) scan_parens_count [OF assms(3), of 0 ?n] by (auto simp: repl_input_def Let_def algebra_simps)
  ultimately show ?thesis by blast
qed

theorem comment_joins_lines_witness:
  "\<exists>r out r1. repl_start None [] mem0 = Some r \<and> repl_input sample_platform (bs ''(+ 1;one'' @ [10]) r = Some (out, NULL, r1)
     \<and> (\<exists>p r2. repl_input sample_platform (bs ''2 3)'' @ [10]) r1 = Some ([], p, r2) \<and> in_buffer r2 = bs ''(+ 12 3)'' @ [10, 10])"
proof -
  obtain r where r: "repl_start None [] mem0 = Some r" "idle r" "MAX_CELLS \<le> cells_left (sys_mem (rsys r)) + 336"
    using repl_start_idle [of "[]" mem0] by blast
  let ?e = "ABin OAdd (ANum 12) (ANum 3)"
  have "print_sexp False (sexp_of ?e) = bs ''(+ 12 3)''" by (simp add: Let_def show_int_def show_nat.simps digit_char_def)
  moreover have "readable (sexp_of ?e)" by (simp add: sym_start_def is_white_def is_digit_def)
  ultimately have "reads_elem (bs ''(+ 12 3)'') (sexp_of ?e)" using print_reads by metis
  then have "reads (bs ''(+ 12 3)'') [sexp_of ?e]" by (auto simp: reads_elem_def elim: atom_text.cases)
  then have "reads (bs ''(+ 12 3)'' @ [10, 10]) ([sexp_of ?e] @ [])" by (rule reads_append) (auto simp: is_white_def intro!: reads.intros)
  then have t: "reads_one (bs ''(+ 12 3)'' @ [10, 10]) (sexp_of ?e)" by (simp add: reads_one_def)
  have "alloc_inv (sys_mem (rsys r))" "parens r = 0" "in_offset r = 0" using r(2) by (simp_all add: idle_def sys_ok_def)
  moreover from read_string_ok [OF t this(1), of VST_DEFAULT] r(3) obtain p m where
    "read_string VST_DEFAULT (bs ''(+ 12 3)'' @ [10, 10]) (sys_mem (rsys r)) = Some (p, m)" by (auto simp: MAX_CELLS_def stack_slots_def base_ok_def)
  ultimately show ?thesis
    using comment_joins_lines [of "bs ''(+ 1''" r "bs ''2 3)'' @ [10]" sample_platform "bs ''one'' @ [10]"] r(1)
    by (auto simp: BUFSZ_def sample_platform_def)
qed

text \<open>How a value \<open>w\<close> of a static type is represented at run time: an integer is a raw word; where any value may occur it is a cell.\<close>

definition represents :: "mem \<Rightarrow> u64 \<Rightarrow> val \<Rightarrow> u64 \<Rightarrow> bool" where
  "represents m tg x w \<longleftrightarrow>
     (if tg = TAG_INT then x = W w
      else tg = TAG_ANY \<and> x \<in> live m \<and> (\<exists>d. get_cell m x = Some \<lparr>c_ar = W (scast (ucast w :: u32)), c_dr = d, c_tag = TAG_INT\<rparr>))"

text \<open>The code of any integer expression in a context that wants an integer.\<close>

lemma arith_in_r0:
  assumes "sexp_on D nb (c_mem s) p (sexp_of e)" "arith_ready s" "frame_ok s" "\<forall>x \<in> avars e. var_is s st x (\<rho> x)" "code_value \<rho> e = Some v"
    "is_form e" "sdepth (sexp_of e) < fuel" "adepth e \<le> rsp st"
  shows "\<exists>cd st'. compile_expr fuel pfmt genv p (prototype_int (c_protos s)) s = Some (prototype_int (c_protos s), emit cd s)
    \<and> exec h (insns cd) st = Some st' \<and> regs st' 0 = W v \<and> rsp st' = rsp st \<and> (\<forall>i \<ge> rsp st. stk st' i = stk st i)
    \<and> (\<forall>r. callee_saved r \<longrightarrow> regs st' r = regs st r) \<and> m_mem st' = m_mem st \<and> m_env st' = m_env st"
proof -
  have r: "ready \<rho> (avars e) s st" "tag_of s (prototype_int (c_protos s)) = Some TAG_INT"
    using assms(2-4) by (simp_all add: ready_def arith_ready_def)
  obtain cd st' where "compile_expr fuel pfmt genv p (prototype_int (c_protos s)) s = Some (prototype_int (c_protos s), emit cd s)"
    "exec h (insns cd) st = Some st'" "regs st' 0 = W v" "pushes 0 st st'"
    using arith_yields [OF assms(1) r(1) assms(5,7,8,6), of h "prototype_int (c_protos s)" pfmt genv] r(2) unfolding yields_def by blast
  then show ?thesis by (intro exI [of _ cd] exI [of _ st']) (simp add: pushes_def)
qed


text \<open>The initialised system that has read the text of an expression.\<close>

lemma sample_compilation:
  assumes "reads t [sexp_of e]" "length t < 1000" "nest (sexp_of e) \<le> stack_slots"
  shows "\<exists>r p m s D nb. repl_start None [] mem0 = Some r \<and> read_string VST_DEFAULT t (sys_mem (rsys r)) = Some (p, m)
     \<and> s = initial_state NULL (sys_protos (rsys r)) (sys_env (rsys r)) m
     \<and> sexp_on D nb (c_mem s) p (sexp_of e) \<and> arith_ready s \<and> frame_ok s \<and> alloc_inv m \<and> 0 < cells_left m"
proof -
  obtain r where r: "repl_start None [] mem0 = Some r" "idle r" "MAX_CELLS \<le> cells_left (sys_mem (rsys r)) + 336"
    using repl_start_idle [of "[]" mem0] by blast
  have y: "sys_ok (rsys r)" "alloc_inv (sys_mem (rsys r))" using r(2) by (simp_all add: idle_def sys_ok_def)
  have t: "reads_one t (sexp_of e)" using assms(1) by (simp add: reads_one_def)
  obtain p m where p: "read_string VST_DEFAULT t (sys_mem (rsys r)) = Some (p, m)"
    "sexp_on (live m - live (sys_mem (rsys r))) (length (blocks (sys_mem (rsys r)))) m p (sexp_of e)"
    "alloc_inv m" "mem_grows (sys_mem (rsys r)) m" "envs m = envs (sys_mem (rsys r))" "0 < cells_left m"
    using read_string_ok [OF t y(2) _ _ assms(3), of VST_DEFAULT] r(3) assms(2) by (auto simp: MAX_CELLS_def base_ok_def)
  have "sys_ok ((rsys r)\<lparr>sys_mem := m\<rparr>)" by (rule sys_ok_grows [OF y(1) p(4,3,5)]) simp_all
  then have "arith_ready (initial_state NULL (sys_protos (rsys r)) (sys_env (rsys r)) m)"
    by (intro initial_arith_ready) (simp_all add: sys_ok_def)
  moreover have "frame_ok (initial_state NULL (sys_protos (rsys r)) (sys_env (rsys r)) m)" by (simp add: frame_ok_def initial_state_def)
  moreover have "c_mem (initial_state NULL (sys_protos (rsys r)) (sys_env (rsys r)) m) = m" by simp
  ultimately show ?thesis using r(1) p(1,2,3,6) by metis
qed

lemma sample_reads: "reads (bs ''(+ 1 (* 2 3))'') [sexp_of sample_expr]" "length (bs ''(+ 1 (* 2 3))'') < 1000" "nest (sexp_of sample_expr) \<le> stack_slots"
  using sample_types by (simp_all add: types_def sample_expr_def stack_slots_def)

lemma sample_expr_facts:
  "\<forall>x \<in> avars sample_expr. var_is s st x 0" "eval (\<lambda>_. 0) sample_expr = Some 7" "no_cmp sample_expr" "is_form sample_expr" "sdepth (sexp_of sample_expr) < 10"
  "adepth sample_expr \<le> rsp (pl_mach sample_platform)"
  by (simp_all add: sample_expr_def sample_platform_def)




text \<open>
  C18. The comparisons do not return the documented 1 or 0. The code of \<open>(gt a b)\<close>, and of \<open>(lt b a)\<close>, leaves a word that is exactly the positive part of the
  difference of the operands when that difference fits 64 bits: then it is a truth value for the comparison (it is not 0 just when the documented value is 1), and it
  is the documented value just when the first operand exceeds the second by at most 1. When the difference overflows, the answer is wrong:
  the word is not 0 just when the documented value is 0. The operands are nested expressions; stack, memory and the registers of the caller are unchanged.
\<close>

theorem compiled_comparison:
  assumes "sexp_on D nb (c_mem s) p (sexp_of (ABin op ea eb))" "arith_ready s" "frame_ok s" "\<forall>x \<in> avars ea \<union> avars eb. var_is s st x (\<rho> x)"
    "eval \<rho> ea = Some a" "eval \<rho> eb = Some b" "no_cmp ea" "no_cmp eb" "op = OGt \<and> x = a \<and> y = b \<or> op = OLt \<and> x = b \<and> y = a"
    "sdepth (sexp_of (ABin op ea eb)) < fuel" "adepth (ABin op ea eb) \<le> rsp st"
  shows "\<exists>cd st' d. compile_expr fuel pfmt genv p (prototype_int (c_protos s)) s = Some (prototype_int (c_protos s), emit cd s)
    \<and> exec h (insns cd) st = Some st' \<and> regs st' 0 = W d
    \<and> (if in_range x y
       then sint d = max 0 (sint x - sint y) \<and> (d \<noteq> 0 \<longleftrightarrow> eval \<rho> (ABin op ea eb) = Some 1)
         \<and> (eval \<rho> (ABin op ea eb) = Some d \<longleftrightarrow> sint x \<le> sint y + 1)
       else d \<noteq> 0 \<longleftrightarrow> eval \<rho> (ABin op ea eb) = Some 0)
    \<and> rsp st' = rsp st \<and> (\<forall>i \<ge> rsp st. stk st' i = stk st i) \<and> (\<forall>r. callee_saved r \<longrightarrow> regs st' r = regs st r)
    \<and> m_mem st' = m_mem st \<and> m_env st' = m_env st"
proof -
  let ?e = "ABin op ea eb"
  have v: "code_value \<rho> ?e = Some (gt_word x y)" "eval \<rho> ?e = Some (if sint y < sint x then 1 else 0)"
    using assms(5-9) by (auto simp: code_value_eval)
  have "\<not> in_range x y \<Longrightarrow> sint x \<noteq> sint y" by (auto simp: in_range_def)
  then have d: "if in_range x y
       then sint (gt_word x y) = max 0 (sint x - sint y) \<and> (gt_word x y \<noteq> 0 \<longleftrightarrow> eval \<rho> ?e = Some 1) \<and> (eval \<rho> ?e = Some (gt_word x y) \<longleftrightarrow> sint x \<le> sint y + 1)
       else gt_word x y \<noteq> 0 \<longleftrightarrow> eval \<rho> ?e = Some 0"
    using gt_word_in_range [of x y] gt_word_truth [of x y] gt_word_documented [of x y] gt_word_over [of x y] unfolding v(2)
    by (auto simp: eq_commute [of _ "gt_word x y"])
  have vars: "\<forall>x \<in> avars ?e. var_is s st x (\<rho> x)" using assms(4) by simp
  obtain cd st' where "compile_expr fuel pfmt genv p (prototype_int (c_protos s)) s = Some (prototype_int (c_protos s), emit cd s)"
    "exec h (insns cd) st = Some st'" "regs st' 0 = W (gt_word x y)" "rsp st' = rsp st" "\<forall>i \<ge> rsp st. stk st' i = stk st i"
    "\<forall>r. callee_saved r \<longrightarrow> regs st' r = regs st r" "m_mem st' = m_mem st" "m_env st' = m_env st"
    using arith_in_r0 [OF assms(1-3) vars v(1) _ assms(10,11), of pfmt genv h] by auto
  then show ?thesis using d by (intro exI [of _ cd] exI [of _ st'] exI [of _ "gt_word x y"]) simp
qed

text \<open>\<open>(gt 5 3)\<close> is 2.\<close>

theorem compiled_comparison_witness:
  "\<exists>r p m s cd st'. repl_start None [] mem0 = Some r \<and> read_string VST_DEFAULT (bs ''(gt 5 3)'') (sys_mem (rsys r)) = Some (p, m)
     \<and> s = initial_state NULL (sys_protos (rsys r)) (sys_env (rsys r)) m
     \<and> compile_expr 10 (\<lambda>_. []) NULL p (prototype_int (c_protos s)) s = Some (prototype_int (c_protos s), emit cd s)
     \<and> exec (pl_host sample_platform) (insns cd) (pl_mach sample_platform) = Some st' \<and> regs st' 0 = W 2"
proof -
  let ?e = "ABin OGt (ANum 5) (ANum 3)"
  have "print_sexp False (sexp_of ?e) = bs ''(gt 5 3)''" by (simp add: Let_def show_int_def show_nat.simps digit_char_def)
  moreover have "readable (sexp_of ?e)" by (simp add: sym_start_def sym_char_def is_white_def is_digit_def)
  ultimately have "reads_elem (bs ''(gt 5 3)'') (sexp_of ?e)" using print_reads by metis
  then have "reads (bs ''(gt 5 3)'') [sexp_of ?e]" by (auto simp: reads_elem_def elim: atom_text.cases)
  moreover have "length (bs ''(gt 5 3)'') < 1000" "nest (sexp_of ?e) \<le> stack_slots" by (simp_all add: stack_slots_def)
  ultimately obtain r p m s D nb where s: "repl_start None [] mem0 = Some r" "read_string VST_DEFAULT (bs ''(gt 5 3)'') (sys_mem (rsys r)) = Some (p, m)"
    "s = initial_state NULL (sys_protos (rsys r)) (sys_env (rsys r)) m" "sexp_on D nb (c_mem s) p (sexp_of ?e)" "arith_ready s" "frame_ok s"
    using sample_compilation by blast
  have side: "\<forall>x \<in> avars (ANum 5) \<union> avars (ANum 3). var_is s (pl_mach sample_platform) x 0" "eval (\<lambda>_. 0) (ANum 5) = Some 5" "eval (\<lambda>_. 0) (ANum 3) = Some 3"
    "no_cmp (ANum 5)" "no_cmp (ANum 3)" "OGt = OGt \<and> (5 :: u64) = 5 \<and> (3 :: u64) = 3 \<or> OGt = OLt \<and> (5 :: u64) = 3 \<and> (3 :: u64) = 5"
    "sdepth (sexp_of ?e) < 10" "adepth ?e \<le> rsp (pl_mach sample_platform)"
    by (simp_all add: sample_platform_def)
  have rng: "in_range 5 3" "max 0 (sint (5 :: u64) - sint (3 :: u64)) = sint (2 :: u64)" by (simp_all add: in_range_def)
  obtain cd st' d where c: "compile_expr 10 (\<lambda>_. []) NULL p (prototype_int (c_protos s)) s = Some (prototype_int (c_protos s), emit cd s)"
    "exec (pl_host sample_platform) (insns cd) (pl_mach sample_platform) = Some st'" "regs st' 0 = W d" "sint d = sint (2 :: u64)"
    using compiled_comparison [OF s(4-6) side, of "\<lambda>_. []" NULL "pl_host sample_platform"] rng by auto
  have "d = 2" by (rule signed_word_eqI [OF c(4)])
  then show ?thesis using s(1-3) c(1-3) by blast
qed

end
