(* ===== verification/GC.thy ===== *)
theory GC
  imports Alloc
begin

text \<open>
  The mark-and-sweep collector of \<^verbatim>\<open>src/sledge/alloc.c\<close> (\<open>mark_tree\<close>, the stack walk,
  \<open>collect_garbage_iter\<close>, \<open>collect_garbage\<close>). Marking is compared with a depth-first search on
  the graph of cells; \<open>mark_tree\<close> sets the mark bit after the recursive calls, so it returns
  exactly when no cycle is reachable, and the fuel \<open>MAX_CELLS + 1\<close> is then enough.
\<close>

section \<open>Marking\<close>

text \<open>The words \<open>mark_tree\<close> recurses on for a cell that is not marked, in the order of the calls.\<close>

definition mark_children :: "mem \<Rightarrow> cell \<Rightarrow> val list option" where
  "mark_children m c =
     (if c_tag c = TAG_CONS then
        Some ((if c_ar c \<noteq> NULL then [c_ar c] else []) @ (if c_dr c \<noteq> NULL then [c_dr c] else []))
      else if c_tag c = TAG_SYM then Some []
      else if c_tag c = TAG_LAMBDA then Some [c_ar c]
      else if c_tag c = TAG_BUILTIN then Some [c_dr c]
      else if c_tag c = TAG_STREAM then
        (if c_ar c \<noteq> NULL then do { s \<leftarrow> as_stream m (c_ar c); Some [s_path s] } else Some [])
      else if c_tag c = TAG_FS then
        (if c_dr c \<noteq> NULL
         then do {
           fs \<leftarrow> as_fs m (c_dr c);
           Some [mount_point fs, open_fn fs, close_fn fs, read_fn fs, write_fn fs, delete_fn fs, mmap_fn fs]
         }
         else Some [])
      else if c_tag c = TAG_VEC \<or> c_tag c = TAG_STRUCT \<or> c_tag c = TAG_STRUCT_DEF then
        do {
          size \<leftarrow> as_word (c_dr c);
          those (map (vec_get m (c_ar c)) [0..<nat (sint (ucast size :: u32))])
        }
      else Some [])"

fun mark_seq :: "(val \<Rightarrow> mem \<Rightarrow> mem option) \<Rightarrow> val list \<Rightarrow> mem \<Rightarrow> mem option" where
  "mark_seq f [] m = Some m"
| "mark_seq f (c # cs) m = do { m \<leftarrow> f c m; mark_seq f cs m }"

fun mark_tree :: "nat \<Rightarrow> val \<Rightarrow> mem \<Rightarrow> mem option" where
  "mark_tree 0 c m = (if c = NULL then Some m else None)"
| "mark_tree (Suc fuel) c m =
     (if c = NULL then Some m
      else do {
        x \<leftarrow> get_cell m c;
        if c_tag x AND TAG_MARK = 0
        then do {
          cs \<leftarrow> mark_children m x;
          m \<leftarrow> mark_seq (mark_tree fuel) cs m;
          upd_cell c (\<lambda>x. x\<lparr>c_tag := c_tag x OR TAG_MARK\<rparr>) m
        }
        else Some m
      })"

section \<open>Roots\<close>

text \<open>
  The stack walk looks at the words from \<open>stack_end\<close> down to \<open>stack_pointer\<close>; the last element of
  the list is the word below the stack pointer, which is only read as \<open>next_item\<close>.
  Whether a word that is not a pointer to a cell compares greater than \<open>cell_heap\<close> depends on
  where the host has put the heap: that is the parameter \<open>heap_above\<close>.
\<close>

definition gt_cell_heap :: "(val \<Rightarrow> bool) \<Rightarrow> val \<Rightarrow> bool" where
  "gt_cell_heap heap_above item = (case item of P (OCell i) off \<Rightarrow> 0 < i \<or> 0 < off | _ \<Rightarrow> heap_above item)"

fun scan_stack :: "(val \<Rightarrow> mem \<Rightarrow> mem option) \<Rightarrow> (val \<Rightarrow> bool) \<Rightarrow> nat \<Rightarrow> val list \<Rightarrow> mem \<Rightarrow> mem option" where
  "scan_stack mark heap_above sw_state (item # next_item # rest) m =
     (if next_item = W STACK_FRAME_MARKER then scan_stack mark heap_above 2 (next_item # rest) m
      else if sw_state = 2 then scan_stack mark heap_above 1 (next_item # rest) m
      else if sw_state = 1 \<and> gt_cell_heap heap_above item then
        do { m \<leftarrow> mark item m; scan_stack mark heap_above sw_state (next_item # rest) m }
      else scan_stack mark heap_above sw_state (next_item # rest) m)"
| "scan_stack mark heap_above sw_state _ m = Some m"

definition collect_garbage_iter :: "nat \<Rightarrow> cstr option \<Rightarrow> val option \<Rightarrow> mem \<Rightarrow> mem option" where
  "collect_garbage_iter fuel key value m =
     do { v \<leftarrow> value; e \<leftarrow> as_env m v; mark_tree fuel (e_cell e) m }"

section \<open>Sweeping\<close>

text \<open>One round of the sweep loop, on the pair of \<open>gc\<close> and the memory.\<close>

definition sweep_step :: "nat \<Rightarrow> nat \<times> mem \<Rightarrow> nat \<times> mem" where
  "sweep_step i st =
     (let (gc, m) = st;
          c = cell_heap m i;
          (gc, m) =
            (if c_tag c AND TAG_MARK = 0 \<and> c_tag c \<noteq> TAG_LAMBDA
             then (gc + 1,
                   m\<lparr>cell_heap := (cell_heap m)(i := c\<lparr>c_tag := TAG_FREED\<rparr>),
                     free_list := (free_list m)(free_list_avail m := cellp i),
                     free_list_avail := free_list_avail m + 1\<rparr>)
             else (gc, m));
          c = cell_heap m i
      in (gc, m\<lparr>cell_heap := (cell_heap m)(i := c\<lparr>c_tag := c_tag c AND NOT TAG_MARK\<rparr>)\<rparr>))"

definition sweep :: "mem \<Rightarrow> nat \<times> mem" where
  "sweep m = fold sweep_step [0..<cells_used m] (0, m\<lparr>free_list_avail := 0, free_list_consumed := 0\<rparr>)"

definition collect_garbage ::
  "nat \<Rightarrow> (val \<Rightarrow> bool) \<Rightarrow> val strmap option \<Rightarrow> val list \<Rightarrow> mem \<Rightarrow> (val \<times> mem) option"
where
  "collect_garbage fuel heap_above global_env stack m =
     do {
       m \<leftarrow> scan_stack (mark_tree fuel) heap_above 0 stack m;
       (_, m) \<leftarrow> sm_enum global_env (Some (collect_garbage_iter fuel)) m;
       m \<leftarrow> mark_tree fuel (fs_list m) m;
       let (gc, m) = sweep m;
       alloc_int (of_nat gc) m
     }"

section \<open>Depth-first search on sets\<close>

text \<open>The search that \<open>mark_tree\<close> performs, on the set of marked nodes.\<close>

fun dfs_seq :: "('n \<Rightarrow> 'n set \<Rightarrow> 'n set option) \<Rightarrow> 'n list \<Rightarrow> 'n set \<Rightarrow> 'n set option" where
  "dfs_seq f [] S = Some S"
| "dfs_seq f (p # ps) S = do { S \<leftarrow> f p S; dfs_seq f ps S }"

fun dfs :: "('n \<Rightarrow> 'n list option) \<Rightarrow> nat \<Rightarrow> 'n \<Rightarrow> 'n set \<Rightarrow> 'n set option" where
  "dfs succs 0 p S = None"
| "dfs succs (Suc fuel) p S =
     (if p \<in> S then Some S
      else do { ps \<leftarrow> succs p; S \<leftarrow> dfs_seq (dfs succs fuel) ps S; Some (insert p S) })"

definition edge :: "('n \<Rightarrow> 'n list option) \<Rightarrow> 'n \<Rightarrow> 'n \<Rightarrow> bool" where
  "edge succs p q \<longleftrightarrow> (\<exists>ps. succs p = Some ps \<and> q \<in> set ps)"

definition reach :: "('n \<Rightarrow> 'n list option) \<Rightarrow> 'n set \<Rightarrow> 'n set" where
  "reach succs R = {q. \<exists>p \<in> R. (edge succs)\<^sup>*\<^sup>* p q}"

definition closed :: "('n \<Rightarrow> 'n list option) \<Rightarrow> 'n set \<Rightarrow> bool" where
  "closed succs S \<longleftrightarrow> (\<forall>p \<in> S. \<exists>ps. succs p = Some ps \<and> set ps \<subseteq> S)"

lemma reach_Un: "reach succs (A \<union> B) = reach succs A \<union> reach succs B"
  by (auto simp: reach_def)

lemma reach_empty [simp]: "reach succs {} = {}"
  by (simp add: reach_def)

lemma reach_refl: "p \<in> R \<Longrightarrow> p \<in> reach succs R"
  by (auto simp: reach_def)

lemma reach_edge: "p \<in> reach succs R \<Longrightarrow> edge succs p q \<Longrightarrow> q \<in> reach succs R"
  unfolding reach_def by (blast intro: rtranclp.rtrancl_into_rtrancl)

lemma reach_succs: "succs p = Some ps \<Longrightarrow> reach succs {p} = insert p (reach succs (set ps))"
proof -
  assume s: "succs p = Some ps"
  have "(edge succs)\<^sup>*\<^sup>* p q \<longleftrightarrow> q = p \<or> (\<exists>r. edge succs p r \<and> (edge succs)\<^sup>*\<^sup>* r q)" for q
    by (auto elim: converse_rtranclpE intro: converse_rtranclp_into_rtranclp)
  with s show ?thesis by (auto simp: reach_def edge_def)
qed

lemma closed_edge: "closed succs S \<Longrightarrow> p \<in> S \<Longrightarrow> edge succs p q \<Longrightarrow> q \<in> S"
  by (fastforce simp: closed_def edge_def)

lemma closed_insert: "closed succs S \<Longrightarrow> succs p = Some ps \<Longrightarrow> set ps \<subseteq> S \<Longrightarrow> closed succs (insert p S)"
  by (fastforce simp: closed_def)

lemma closed_reach:
  assumes "closed succs S" "R \<subseteq> S"
  shows "reach succs R \<subseteq> S"
proof -
  have "q \<in> S" if "(edge succs)\<^sup>*\<^sup>* p q" "p \<in> S" for p q
    using that by (induction rule: rtranclp_induct) (use closed_edge [OF assms(1)] in auto)
  with assms(2) show ?thesis by (auto simp: reach_def)
qed

lemma dfs_seq_closed:
  assumes "\<And>p S S'. f p S = Some S' \<Longrightarrow> closed succs S \<Longrightarrow> closed succs S' \<and> insert p S \<subseteq> S'"
    and "dfs_seq f ps S = Some S'" "closed succs S"
  shows "closed succs S' \<and> set ps \<union> S \<subseteq> S'"
  using assms(2,3)
proof (induction ps arbitrary: S)
  case (Cons p ps)
  then obtain S1 where "f p S = Some S1" "dfs_seq f ps S1 = Some S'" by (auto split: Option.bind_splits)
  with Cons assms(1) [of p S S1] show ?case by fastforce
qed auto

lemma dfs_closed: "dfs succs fuel p S = Some S' \<Longrightarrow> closed succs S \<Longrightarrow> closed succs S' \<and> insert p S \<subseteq> S'"
proof (induction fuel arbitrary: p S S')
  case (Suc fuel)
  show ?case
  proof (cases "p \<in> S")
    case False
    then obtain ps S1 where s: "succs p = Some ps" "dfs_seq (dfs succs fuel) ps S = Some S1" "S' = insert p S1"
      using Suc.prems by (auto split: Option.bind_splits)
    then have "closed succs S1 \<and> set ps \<union> S \<subseteq> S1" using dfs_seq_closed [OF Suc.IH] Suc.prems by blast
    with s closed_insert show ?thesis by fastforce
  qed (use Suc.prems in auto)
qed simp

lemma dfs_seq_sound:
  assumes "\<And>p S S'. f p S = Some S' \<Longrightarrow> S \<subseteq> S' \<and> S' \<subseteq> S \<union> reach succs {p}"
    and "dfs_seq f ps S = Some S'"
  shows "S \<subseteq> S' \<and> S' \<subseteq> S \<union> reach succs (set ps)"
  using assms(2)
proof (induction ps arbitrary: S)
  case (Cons p ps)
  then obtain S1 where "f p S = Some S1" "dfs_seq f ps S1 = Some S'" by (auto split: Option.bind_splits)
  moreover have "reach succs (set (p # ps)) = reach succs {p} \<union> reach succs (set ps)"
    by (simp flip: reach_Un)
  ultimately show ?case using Cons.IH [of S1] assms(1) [of p S S1] by auto
qed simp

lemma dfs_sound: "dfs succs fuel p S = Some S' \<Longrightarrow> S \<subseteq> S' \<and> S' \<subseteq> S \<union> reach succs {p}"
proof (induction fuel arbitrary: p S S')
  case (Suc fuel)
  show ?case
  proof (cases "p \<in> S")
    case False
    then obtain ps S1 where s: "succs p = Some ps" "dfs_seq (dfs succs fuel) ps S = Some S1" "S' = insert p S1"
      using Suc.prems by (auto split: Option.bind_splits)
    then show ?thesis using dfs_seq_sound [OF Suc.IH s(2)] reach_succs [of succs p ps] by auto
  qed (use Suc.prems in auto)
qed simp

lemma dfs_reach:
  assumes "dfs succs fuel p S = Some S'" "closed succs S"
  shows "S' = S \<union> reach succs {p}"
  using dfs_sound [OF assms(1)] dfs_closed [OF assms] closed_reach [of succs S' "{p}"] by auto

text \<open>Without a cycle below \<open>p\<close> the search ends.\<close>

definition acyclic_from :: "('n \<Rightarrow> 'n list option) \<Rightarrow> 'n set \<Rightarrow> bool" where
  "acyclic_from succs G \<longleftrightarrow> (\<forall>p \<in> G. \<not> (edge succs)\<^sup>+\<^sup>+ p p)"

definition rank :: "('n \<Rightarrow> 'n list option) \<Rightarrow> 'n \<Rightarrow> nat" where
  "rank succs p = card {q. (edge succs)\<^sup>+\<^sup>+ p q}"

lemma tranclp_closed:
  assumes "closed succs G" "p \<in> G"
  shows "{q. (edge succs)\<^sup>+\<^sup>+ p q} \<subseteq> G"
proof
  fix q assume "q \<in> {q. (edge succs)\<^sup>+\<^sup>+ p q}"
  then have "(edge succs)\<^sup>+\<^sup>+ p q" by simp
  then show "q \<in> G"
    by (induction rule: tranclp_induct) (use closed_edge [OF assms(1)] assms(2) in auto)
qed

lemma rank_less:
  assumes "closed succs G" "finite G" "acyclic_from succs G" "p \<in> G" "edge succs p q"
  shows "rank succs q < rank succs p"
proof -
  have q: "q \<in> G" using closed_edge [OF assms(1,4,5)] .
  have "{r. (edge succs)\<^sup>+\<^sup>+ q r} \<subseteq> {r. (edge succs)\<^sup>+\<^sup>+ p r}"
    using assms(5) by (auto intro: tranclp_into_tranclp2)
  moreover have "q \<in> {r. (edge succs)\<^sup>+\<^sup>+ p r}" "q \<notin> {r. (edge succs)\<^sup>+\<^sup>+ q r}"
    using assms(3,5) q by (auto simp: acyclic_from_def)
  ultimately have "{r. (edge succs)\<^sup>+\<^sup>+ q r} \<subset> {r. (edge succs)\<^sup>+\<^sup>+ p r}" by blast
  then show ?thesis
    unfolding rank_def using psubset_card_mono finite_subset [OF tranclp_closed [OF assms(1,4)] assms(2)] by blast
qed

lemma rank_le: "closed succs G \<Longrightarrow> finite G \<Longrightarrow> p \<in> G \<Longrightarrow> rank succs p \<le> card G"
  unfolding rank_def by (rule card_mono) (auto dest: tranclp_closed)

lemma dfs_total:
  assumes "closed succs G" "finite G" "acyclic_from succs G" "p \<in> G" "rank succs p < fuel"
  shows "\<exists>S'. dfs succs fuel p S = Some S'"
  using assms(4,5)
proof (induction fuel arbitrary: p S)
  case (Suc fuel)
  obtain ps where ps: "succs p = Some ps" "set ps \<subseteq> G" using assms(1) Suc.prems(1) by (auto simp: closed_def)
  have "\<exists>S'. dfs_seq (dfs succs fuel) qs S = Some S'" if "set qs \<subseteq> set ps" for qs
    using that
  proof (induction qs arbitrary: S)
    case (Cons q qs)
    have "rank succs q < fuel"
      using rank_less [OF assms(1-3) Suc.prems(1), of q] Cons.prems ps(1) Suc.prems(2) by (auto simp: edge_def)
    then obtain S1 where "dfs succs fuel q S = Some S1" using Suc.IH [of q S] Cons.prems ps(2) by auto
    with Cons show ?case by auto
  qed simp
  then obtain S1 where "dfs_seq (dfs succs fuel) ps S = Some S1" by blast
  with ps show ?case by auto
qed simp

text \<open>A node from which a cycle of unvisited nodes is reachable is never finished.\<close>

definition cycles :: "('n \<Rightarrow> 'n list option) \<Rightarrow> 'n set" where
  "cycles succs = {p. \<exists>q. (edge succs)\<^sup>*\<^sup>* p q \<and> (edge succs)\<^sup>+\<^sup>+ q q}"

lemma cycles_succ: "p \<in> cycles succs \<Longrightarrow> \<exists>q. edge succs p q \<and> q \<in> cycles succs"
proof -
  assume "p \<in> cycles succs"
  then obtain q where q: "(edge succs)\<^sup>*\<^sup>* p q" "(edge succs)\<^sup>+\<^sup>+ q q" by (auto simp: cycles_def)
  then have "(edge succs)\<^sup>+\<^sup>+ p q" by (rule rtranclp_tranclp_tranclp)
  then obtain r where "edge succs p r" "(edge succs)\<^sup>*\<^sup>* r q" by (meson tranclpD)
  with q(2) show ?thesis by (auto simp: cycles_def)
qed

lemma not_cycles_reach: "p \<notin> cycles succs \<Longrightarrow> reach succs {p} \<inter> cycles succs = {}"
  unfolding cycles_def reach_def by (auto dest: rtranclp_trans)

lemma dfs_seq_diverges:
  assumes "\<And>p S. p \<in> cycles succs \<Longrightarrow> S \<inter> cycles succs = {} \<Longrightarrow> dfs succs fuel p S = None"
    and "q \<in> set ps" "q \<in> cycles succs" "S \<inter> cycles succs = {}"
  shows "dfs_seq (dfs succs fuel) ps S = None"
  using assms(2,4)
proof (induction ps arbitrary: S)
  case (Cons p ps)
  show ?case
  proof (cases "p \<in> cycles succs")
    case True
    with Cons assms(1) show ?thesis by simp
  next
    case False
    have "S1 \<inter> cycles succs = {}" if "dfs succs fuel p S = Some S1" for S1
      using dfs_sound [OF that] not_cycles_reach [OF False] Cons.prems(2) by auto
    with Cons assms(3) False show ?thesis by (cases "dfs succs fuel p S") auto
  qed
qed simp

lemma dfs_diverges: "p \<in> cycles succs \<Longrightarrow> S \<inter> cycles succs = {} \<Longrightarrow> dfs succs fuel p S = None"
proof (induction fuel arbitrary: p S)
  case (Suc fuel)
  obtain q where "edge succs p q" "q \<in> cycles succs" using cycles_succ [OF Suc.prems(1)] by blast
  then obtain ps where "succs p = Some ps" "q \<in> set ps" by (auto simp: edge_def)
  moreover have "dfs_seq (dfs succs fuel) ps S = None"
    by (rule dfs_seq_diverges [OF Suc.IH]) (use calculation \<open>q \<in> cycles succs\<close> Suc.prems in auto)
  ultimately show ?case using Suc.prems by auto
qed simp

section \<open>Marking is a depth-first search\<close>

definition gsuccs :: "mem \<Rightarrow> val \<Rightarrow> val list option" where
  "gsuccs m p = map_option (filter (\<lambda>q. q \<noteq> NULL)) (Option.bind (get_cell m p) (mark_children m))"

text \<open>The memory with the cells of \<open>S\<close> marked.\<close>

definition paint :: "val set \<Rightarrow> mem \<Rightarrow> mem" where
  "paint S m = m\<lparr>cell_heap := (\<lambda>i. if cellp i \<in> S
     then (cell_heap m i)\<lparr>c_tag := c_tag (cell_heap m i) OR TAG_MARK\<rparr> else cell_heap m i)\<rparr>"

definition unmarked :: "mem \<Rightarrow> bool" where
  "unmarked m \<longleftrightarrow> (\<forall>i < MAX_CELLS. c_tag (cell_heap m i) AND TAG_MARK = 0)"

definition is_cell :: "mem \<Rightarrow> val \<Rightarrow> bool" where
  "is_cell m p \<longleftrightarrow> get_cell m p \<noteq> None"

lemma as_obj_cell_heap [simp]:
  "as_stream (m\<lparr>cell_heap := h\<rparr>) x = as_stream m x"
  "as_fs (m\<lparr>cell_heap := h\<rparr>) x = as_fs m x"
  "as_env (m\<lparr>cell_heap := h\<rparr>) x = as_env m x"
  "as_vec (m\<lparr>cell_heap := h\<rparr>) x = as_vec m x"
     apply (cases "(m, x)" rule: as_stream.cases, simp_all)
    apply (cases "(m, x)" rule: as_fs.cases, simp_all)
   apply (cases "(m, x)" rule: as_env.cases, simp_all)
  apply (cases "(m, x)" rule: as_vec.cases, simp_all)
  done

lemma mark_children_paint [simp]: "mark_children (paint S m) c = mark_children m c"
proof -
  have "vec_get (m\<lparr>cell_heap := h\<rparr>) x i = vec_get m x i" for h x i by (simp add: vec_get_def)
  then have "vec_get (m\<lparr>cell_heap := h\<rparr>) = vec_get m" for h by (intro ext)
  then show ?thesis unfolding paint_def mark_children_def by simp
qed

lemma paint_empty [simp]: "paint {} m = m"
  by (simp add: paint_def)

lemma is_cell_cases: "is_cell m p \<longleftrightarrow> (\<exists>i. p = cellp i \<and> i < MAX_CELLS)"
  unfolding is_cell_def by (metis get_cell_Some_iff not_None_eq)

lemma or_mark [simp]: "(t OR TAG_MARK) AND TAG_MARK = TAG_MARK" "TAG_MARK \<noteq> 0"
  by (rule word64_eqI, simp add: all_less_numeral bit_simps TAG_MARK_def) (simp add: TAG_MARK_def)

lemma or_mark_idem [simp]: "(t OR TAG_MARK) OR TAG_MARK = t OR TAG_MARK"
  by (simp add: or.assoc)

lemma upd_paint:
  "is_cell m p \<Longrightarrow> upd_cell p (\<lambda>x. x\<lparr>c_tag := c_tag x OR TAG_MARK\<rparr>) (paint S m) = Some (paint (insert p S) m)"
  by (auto simp: is_cell_cases paint_def fun_eq_iff)

lemma mark_seq_refine:
  assumes "\<And>p S. p \<noteq> NULL \<Longrightarrow> S \<subseteq> Collect (is_cell m) \<Longrightarrow> mark p (paint S m) = map_option (\<lambda>S. paint S m) (d p S)"
    and "\<And>p S S'. p \<noteq> NULL \<Longrightarrow> d p S = Some S' \<Longrightarrow> S \<subseteq> Collect (is_cell m) \<Longrightarrow> S' \<subseteq> Collect (is_cell m)"
    and "\<And>m. mark NULL m = Some m"
    and "S \<subseteq> Collect (is_cell m)"
  shows "mark_seq mark ks (paint S m) = map_option (\<lambda>S. paint S m) (dfs_seq d (filter (\<lambda>q. q \<noteq> NULL) ks) S)"
  using assms(4)
proof (induction ks arbitrary: S)
  case (Cons k ks)
  show ?case
  proof (cases "k = NULL")
    case True
    with Cons assms(3) show ?thesis by simp
  next
    case False
    with Cons assms(1) [OF False Cons.prems] assms(2) [OF False _ Cons.prems] show ?thesis by (cases "d k S") auto
  qed
qed simp

lemma mark_tree_NULL [simp]: "mark_tree fuel NULL m = Some m"
  by (cases fuel) auto

lemma gsuccs_None: "\<not> is_cell m p \<Longrightarrow> gsuccs m p = None"
  by (simp add: gsuccs_def is_cell_def)

lemma dfs_seq_cells:
  assumes "\<And>p S S'. d p S = Some S' \<Longrightarrow> S \<subseteq> A \<Longrightarrow> S' \<subseteq> A"
  shows "dfs_seq d ps S = Some S' \<Longrightarrow> S \<subseteq> A \<Longrightarrow> S' \<subseteq> A"
proof (induction ps arbitrary: S)
  case (Cons p ps)
  then obtain S1 where "d p S = Some S1" "dfs_seq d ps S1 = Some S'" by (auto split: Option.bind_splits)
  with Cons assms [of p S S1] show ?case by blast
qed simp

lemma dfs_cells:
  "dfs (gsuccs m) fuel p S = Some S' \<Longrightarrow> S \<subseteq> Collect (is_cell m) \<Longrightarrow> S' \<subseteq> Collect (is_cell m)"
proof (induction fuel arbitrary: p S S')
  case (Suc fuel)
  show ?case
  proof (cases "p \<in> S")
    case False
    then obtain ps S1 where s: "gsuccs m p = Some ps" "dfs_seq (dfs (gsuccs m) fuel) ps S = Some S1" "S' = insert p S1"
      using Suc.prems by (auto split: Option.bind_splits)
    then show ?thesis
      using dfs_seq_cells [OF Suc.IH s(2) Suc.prems(2)] gsuccs_None [of m p] by auto
  qed (use Suc.prems in auto)
qed simp

lemma mark_tree_refine:
  assumes "unmarked m"
  shows "p \<noteq> NULL \<Longrightarrow> S \<subseteq> Collect (is_cell m) \<Longrightarrow>
    mark_tree fuel p (paint S m) = map_option (\<lambda>S. paint S m) (dfs (gsuccs m) fuel p S)"
proof (induction fuel arbitrary: p S)
  case (Suc fuel)
  show ?case
  proof (cases "is_cell m p")
    case False
    moreover from this have "get_cell (paint S m) p = None" by (auto simp: is_cell_def get_cell_def)
    ultimately show ?thesis using Suc.prems gsuccs_None [OF False] by auto
  next
    case True
    then obtain i where i: "p = cellp i" "i < MAX_CELLS" by (auto simp: is_cell_cases)
    show ?thesis
    proof (cases "p \<in> S")
      case True
      with i show ?thesis by (simp add: paint_def)
    next
      case False
      have g: "get_cell (paint S m) p = Some (cell_heap m i)" "get_cell m p = Some (cell_heap m i)"
        using i False by (simp_all add: paint_def)
      have um: "c_tag (cell_heap m i) AND TAG_MARK = 0" using assms i by (simp add: unmarked_def)
      have 1: "mark_tree (Suc fuel) p (paint S m) = do {
          cs \<leftarrow> mark_children m (cell_heap m i);
          m' \<leftarrow> mark_seq (mark_tree fuel) cs (paint S m);
          upd_cell p (\<lambda>x. x\<lparr>c_tag := c_tag x OR TAG_MARK\<rparr>) m' }"
        using g(1) um Suc.prems(1) by simp
      have 2: "mark_seq (mark_tree fuel) cs (paint S m)
          = map_option (\<lambda>S. paint S m) (dfs_seq (dfs (gsuccs m) fuel) (filter (\<lambda>q. q \<noteq> NULL) cs) S)" for cs
        by (rule mark_seq_refine) (use Suc dfs_cells in auto)
      have 3: "gsuccs m p = map_option (filter (\<lambda>q. q \<noteq> NULL)) (mark_children m (cell_heap m i))"
        using g(2) by (simp add: gsuccs_def)
      show ?thesis
      proof (cases "mark_children m (cell_heap m i)")
        case None
        with 1 3 False show ?thesis by simp
      next
        case (Some cs)
        with 1 2 3 False upd_paint [OF \<open>is_cell m p\<close>] show ?thesis
          by (cases "dfs_seq (dfs (gsuccs m) fuel) (filter (\<lambda>q. q \<noteq> NULL) cs) S") simp_all
      qed
    qed
  qed
qed simp

section \<open>Marking from the roots\<close>

text \<open>The words the stack walk hands to \<open>mark_tree\<close>.\<close>

fun stack_roots :: "(val \<Rightarrow> bool) \<Rightarrow> nat \<Rightarrow> val list \<Rightarrow> val list" where
  "stack_roots heap_above sw_state (item # next_item # rest) =
     (if next_item = W STACK_FRAME_MARKER then stack_roots heap_above 2 (next_item # rest)
      else if sw_state = 2 then stack_roots heap_above 1 (next_item # rest)
      else (if sw_state = 1 \<and> gt_cell_heap heap_above item then [item] else [])
             @ stack_roots heap_above sw_state (next_item # rest))"
| "stack_roots heap_above sw_state _ = []"

lemma mark_seq_append: "mark_seq f (xs @ ys) m = Option.bind (mark_seq f xs m) (mark_seq f ys)"
  by (induction xs arbitrary: m) (auto split: Option.bind_splits)

lemma scan_stack_roots:
  "scan_stack mark heap_above st ws m = mark_seq mark (stack_roots heap_above st ws) m"
  by (induction mark heap_above st ws m rule: scan_stack.induct) (auto split: Option.bind_splits)

text \<open>The cells the environment points to, in the order of the enumeration.\<close>

definition env_cells :: "mem \<Rightarrow> val strmap \<Rightarrow> val list option" where
  "env_cells m env = those (map (\<lambda>(k, v). map_option e_cell (as_env m v)) (sm_bindings env))"

lemma enum_pairs_mark:
  assumes "\<forall>p \<in> set b. pair_ok p" "those (map (\<lambda>(k, v). map_option e_cell (as_env m (v :: val))) (map binding b)) = Some cs"
    and "envs m' = envs m"
    and "\<And>p m m'. mark_tree fuel p m = Some m' \<Longrightarrow> envs m' = envs m"
  shows "enum_pairs (collect_garbage_iter fuel) b m' = mark_seq (mark_tree fuel) cs m'"
  using assms(1-3)
proof (induction b arbitrary: cs m')
  case (Cons p b)
  have "pvalue p \<noteq> None" using Cons.prems(1) by (simp add: pair_ok_def)
  then obtain v where v: "pvalue p = Some v" "binding p = (the (pkey p), v)" by (auto simp: binding_def)
  then obtain e cs' where e: "as_env m v = Some e" "cs = e_cell e # cs'"
    "those (map (\<lambda>(k, v). map_option e_cell (as_env m v)) (map binding b)) = Some cs'"
    using Cons.prems(2) by (auto split: option.splits)
  have "as_env m' v = as_env m v" using Cons.prems(3) by (cases "(m, v)" rule: as_env.cases) auto
  with e v Cons assms(4) [of "e_cell e" m'] show ?case
    by (auto simp: collect_garbage_iter_def split: Option.bind_splits)
qed simp


lemma mark_seq_heap_only:
  assumes "\<And>p m m'. f p m = Some m' \<Longrightarrow> \<exists>h. m' = m\<lparr>cell_heap := h\<rparr>" "mark_seq f ps m = Some m'"
  shows "\<exists>h. m' = m\<lparr>cell_heap := h\<rparr>"
  using assms(2)
proof (induction ps arbitrary: m)
  case Nil
  then show ?case by (intro exI [of _ "cell_heap m"]) simp
next
  case (Cons p ps)
  then obtain m1 where "f p m = Some m1" "mark_seq f ps m1 = Some m'" by (auto split: Option.bind_splits)
  with Cons.IH assms(1) [of p m m1] show ?case by fastforce
qed

lemma mark_tree_heap_only: "mark_tree fuel p m = Some m' \<Longrightarrow> \<exists>h. m' = m\<lparr>cell_heap := h\<rparr>"
proof (induction fuel arbitrary: p m m')
  case 0
  then show ?case by (intro exI [of _ "cell_heap m"]) (simp split: if_splits)
next
  case (Suc fuel)
  show ?case
  proof (cases "m' = m")
    case True
    then show ?thesis by (intro exI [of _ "cell_heap m"]) simp
  next
    case False
    then obtain cs m1 where "mark_seq (mark_tree fuel) cs m = Some m1"
      "upd_cell p (\<lambda>x. x\<lparr>c_tag := c_tag x OR TAG_MARK\<rparr>) m1 = Some m'"
      using Suc.prems by (auto split: Option.bind_splits if_splits)
    moreover have "\<exists>h. m1 = m\<lparr>cell_heap := h\<rparr>"
      by (rule mark_seq_heap_only [OF _ calculation(1)]) (rule Suc.IH)
    ultimately show ?thesis by (auto simp: upd_cell_Some_iff)
  qed
qed

lemma mark_trees_heap_only: "mark_seq (mark_tree fuel) ps m = Some m' \<Longrightarrow> \<exists>h. m' = m\<lparr>cell_heap := h\<rparr>"
  by (erule mark_seq_heap_only [rotated]) (rule mark_tree_heap_only)

lemma mark_tree_envs: "mark_tree fuel p m = Some m' \<Longrightarrow> envs m' = envs m"
  using mark_tree_heap_only by fastforce

lemma those_append_eq_Some:
  "those (xs @ ys) = Some zs \<longleftrightarrow> (\<exists>as bs. those xs = Some as \<and> those ys = Some bs \<and> zs = as @ bs)"
  by (induction xs arbitrary: zs) (auto split: option.splits)

lemma enum_buckets_mark:
  assumes "\<forall>b \<in> set bss. \<forall>p \<in> set b. pair_ok p"
    and "those (map (\<lambda>(k, v). map_option e_cell (as_env m (v :: val))) (concat (map (map binding) bss))) = Some cs"
    and "envs m' = envs m"
  shows "enum_buckets (collect_garbage_iter fuel) bss m' = mark_seq (mark_tree fuel) cs m'"
  using assms
proof (induction bss arbitrary: cs m')
  case (Cons b bss)
  obtain c1 c2 where c: "those (map (\<lambda>(k, v). map_option e_cell (as_env m v)) (map binding b)) = Some c1"
    "those (map (\<lambda>(k, v). map_option e_cell (as_env m v)) (concat (map (map binding) bss))) = Some c2" "cs = c1 @ c2"
    using Cons.prems(2) by (auto simp: those_append_eq_Some)
  have "enum_pairs (collect_garbage_iter fuel) b m' = mark_seq (mark_tree fuel) c1 m'"
    by (rule enum_pairs_mark [OF _ c(1) Cons.prems(3) mark_tree_envs]) (use Cons.prems(1) in auto)
  moreover have "enum_buckets (collect_garbage_iter fuel) bss m1 = mark_seq (mark_tree fuel) c2 m1"
    if "mark_seq (mark_tree fuel) c1 m' = Some m1" for m1
    using Cons.IH [OF _ c(2)] Cons.prems(1,3) mark_trees_heap_only [OF that] by fastforce
  ultimately show ?case by (cases "mark_seq (mark_tree fuel) c1 m'") (simp_all add: c(3) mark_seq_append)
qed simp

lemma sm_inv_pairs: "sm_inv env \<Longrightarrow> \<forall>b \<in> set (buckets env). \<forall>p \<in> set b. pair_ok p"
  using sm_inv_bucket_pairs by (metis in_set_conv_nth)

text \<open>All roots of a collection, in the order in which they are marked.\<close>

definition gc_roots :: "mem \<Rightarrow> (val \<Rightarrow> bool) \<Rightarrow> val strmap \<Rightarrow> val list \<Rightarrow> val list option" where
  "gc_roots m heap_above env stack =
     map_option (\<lambda>cs. stack_roots heap_above 0 stack @ cs @ [fs_list m]) (env_cells m env)"

lemma collect_garbage_phases:
  assumes "sm_inv env" "gc_roots m heap_above env stack = Some rs"
  shows "collect_garbage fuel heap_above (Some env) stack m =
    do { m \<leftarrow> mark_seq (mark_tree fuel) rs m; let (gc, m) = sweep m; alloc_int (of_nat gc) m }"
proof -
  obtain cs where cs: "env_cells m env = Some cs" "rs = stack_roots heap_above 0 stack @ cs @ [fs_list m]"
    using assms(2) by (auto simp: gc_roots_def)
  have e: "sm_enum (Some env) (Some (collect_garbage_iter fuel)) m1 = map_option (Pair 1) (mark_seq (mark_tree fuel) cs m1)"
    if "envs m1 = envs m" for m1
    using enum_buckets_mark [OF sm_inv_pairs [OF assms(1)] _ that] cs(1)
    by (simp add: sm_enum_def env_cells_def sm_bindings_def)
  show ?thesis
  proof (cases "mark_seq (mark_tree fuel) (stack_roots heap_above 0 stack) m")
    case None
    then show ?thesis by (simp add: collect_garbage_def scan_stack_roots cs(2) mark_seq_append)
  next
    case (Some m1)
    then have m1: "envs m1 = envs m" "fs_list m1 = fs_list m"
      using mark_trees_heap_only [OF Some] by auto
    show ?thesis
    proof (cases "mark_seq (mark_tree fuel) cs m1")
      case None
      with Some e [OF m1(1)] show ?thesis by (simp add: collect_garbage_def scan_stack_roots cs(2) mark_seq_append)
    next
      case (Some m2)
      then have "fs_list m2 = fs_list m" using mark_trees_heap_only [OF Some] m1 by auto
      with Some e [OF m1(1)] \<open>mark_seq (mark_tree fuel) (stack_roots heap_above 0 stack) m = Some m1\<close> show ?thesis
        by (cases "mark_tree fuel (fs_list m) m2") (simp_all add: collect_garbage_def scan_stack_roots cs(2) mark_seq_append)
    qed
  qed
qed

section \<open>What a cell refers to\<close>

text \<open>
  The references between cells, read off the data types (\<^verbatim>\<open>minilisp.h\<close>, \<^verbatim>\<open>stream.h\<close>) and not off the code that marks: both
  fields of a cons, the arguments of a lambda (its other field is the address of machine code), the signature of a builtin, the path of a
  stream, the mount point and the handlers of a filesystem, and the elements of vectors, structs and struct definitions. Integers, strings,
  bytes, symbols and errors refer to no cell.
\<close>

definition fs_fields :: "filesystem \<Rightarrow> val set" where
  "fs_fields fs = {mount_point fs, open_fn fs, close_fn fs, read_fn fs, write_fn fs, delete_fn fs, mmap_fn fs}"

inductive holds :: "mem \<Rightarrow> val \<Rightarrow> val \<Rightarrow> bool" for m where
  car: "get_cell m p = Some c \<Longrightarrow> c_tag c = TAG_CONS \<Longrightarrow> holds m p (c_ar c)"
| cdr: "get_cell m p = Some c \<Longrightarrow> c_tag c = TAG_CONS \<Longrightarrow> holds m p (c_dr c)"
| arguments: "get_cell m p = Some c \<Longrightarrow> c_tag c = TAG_LAMBDA \<Longrightarrow> holds m p (c_ar c)"
| signature: "get_cell m p = Some c \<Longrightarrow> c_tag c = TAG_BUILTIN \<Longrightarrow> holds m p (c_dr c)"
| path: "get_cell m p = Some c \<Longrightarrow> c_tag c = TAG_STREAM \<Longrightarrow> as_stream m (c_ar c) = Some s \<Longrightarrow> holds m p (s_path s)"
| handler: "get_cell m p = Some c \<Longrightarrow> c_tag c = TAG_FS \<Longrightarrow> as_fs m (c_dr c) = Some fs \<Longrightarrow> q \<in> fs_fields fs \<Longrightarrow> holds m p q"
| element: "get_cell m p = Some c \<Longrightarrow> c_tag c \<in> {TAG_VEC, TAG_STRUCT, TAG_STRUCT_DEF} \<Longrightarrow> c_dr c = W n \<Longrightarrow> i < unat n
    \<Longrightarrow> vec_get m (c_ar c) i = Some q \<Longrightarrow> holds m p q"

inductive_cases holdsE: "holds m p q"

definition refers :: "mem \<Rightarrow> val \<Rightarrow> val \<Rightarrow> bool" where
  "refers m p q \<longleftrightarrow> holds m p q \<and> q \<noteq> NULL"

text \<open>
  A stream also names its filesystem, a structure that belongs to a cell of the list of mounted filesystems. The cells of that structure
  are in use as long as the stream is.
\<close>

definition borrows :: "mem \<Rightarrow> val \<Rightarrow> val \<Rightarrow> bool" where
  "borrows m p q \<longleftrightarrow> (\<exists>c s fs. get_cell m p = Some c \<and> c_tag c = TAG_STREAM \<and> as_stream m (c_ar c) = Some s
     \<and> as_fs m (s_fs s) = Some fs \<and> q \<in> fs_fields fs \<and> q \<noteq> NULL)"

text \<open>The cells that can be reached from the roots: what the program can still use.\<close>

definition reachable :: "mem \<Rightarrow> val list \<Rightarrow> val set" where
  "reachable m rs = {q. \<exists>r \<in> set rs - {NULL}. (\<lambda>p q. refers m p q \<or> borrows m p q)\<^sup>*\<^sup>* r q}"

text \<open>The structures that a cell points to are there, and every element of a vector is initialised.\<close>

definition well_formed_cell :: "mem \<Rightarrow> val \<Rightarrow> bool" where
  "well_formed_cell m p \<longleftrightarrow> (\<exists>c. get_cell m p = Some c
     \<and> (c_tag c = TAG_STREAM \<longrightarrow> c_ar c = NULL \<or> as_stream m (c_ar c) \<noteq> None)
     \<and> (c_tag c = TAG_FS \<longrightarrow> c_dr c = NULL \<or> as_fs m (c_dr c) \<noteq> None)
     \<and> (c_tag c \<in> {TAG_VEC, TAG_STRUCT, TAG_STRUCT_DEF} \<longrightarrow>
         (\<exists>n. c_dr c = W n \<and> unat n < 2 ^ 31 \<and> (\<forall>i < unat n. vec_get m (c_ar c) i \<noteq> None))))"

lemma those_map_Some:
  assumes "\<forall>x \<in> set xs. f x \<noteq> None"
  shows "\<exists>ys. those (map f xs) = Some ys \<and> set ys = {y. \<exists>x \<in> set xs. f x = Some y}"
  using assms by (induction xs) auto

lemma vec_count: "unat n < 2 ^ 31 \<Longrightarrow> nat (sint (ucast (n :: u64) :: u32)) = unat n"
proof -
  assume n: "unat n < 2 ^ 31"
  then have "unat (ucast n :: u32) = unat n" by (intro unat_ucast_down) simp
  then show ?thesis using sint_small [of "ucast n :: u32"] n by simp
qed

lemma holds_fields:
  assumes "get_cell m p = Some c"
  shows "holds m p q \<longleftrightarrow>
    (c_tag c = TAG_CONS \<and> (q = c_ar c \<or> q = c_dr c)) \<or> (c_tag c = TAG_LAMBDA \<and> q = c_ar c) \<or> (c_tag c = TAG_BUILTIN \<and> q = c_dr c)
    \<or> (c_tag c = TAG_STREAM \<and> (\<exists>s. as_stream m (c_ar c) = Some s \<and> q = s_path s))
    \<or> (c_tag c = TAG_FS \<and> (\<exists>fs. as_fs m (c_dr c) = Some fs \<and> q \<in> fs_fields fs))
    \<or> (c_tag c \<in> {TAG_VEC, TAG_STRUCT, TAG_STRUCT_DEF} \<and> (\<exists>n i. c_dr c = W n \<and> i < unat n \<and> vec_get m (c_ar c) i = Some q))"
  (is "_ \<longleftrightarrow> ?R")
proof
  show ?R if "holds m p q" using that assms by (elim holdsE) auto
  show "holds m p q" if ?R
    using that assms by (elim disjE conjE exE) (auto intro: holds.intros)
qed

text \<open>\<open>mark_tree\<close> recurses on exactly the cells that a cell refers to.\<close>

lemma mark_children_refers:
  assumes "well_formed_cell m p"
  shows "\<exists>ps. gsuccs m p = Some ps \<and> set ps = {q. refers m p q}"
proof -
  obtain c where c: "get_cell m p = Some c"
    and st: "c_tag c = TAG_STREAM \<Longrightarrow> c_ar c = NULL \<or> as_stream m (c_ar c) \<noteq> None"
    and fs: "c_tag c = TAG_FS \<Longrightarrow> c_dr c = NULL \<or> as_fs m (c_dr c) \<noteq> None"
    and ve: "c_tag c \<in> {TAG_VEC, TAG_STRUCT, TAG_STRUCT_DEF} \<Longrightarrow>
      \<exists>n. c_dr c = W n \<and> unat n < 2 ^ 31 \<and> (\<forall>i < unat n. vec_get m (c_ar c) i \<noteq> None)"
    using assms by (auto simp: well_formed_cell_def)
  have "\<exists>cs. mark_children m c = Some cs \<and> set cs - {NULL} = {q. refers m p q}"
  proof (cases "c_tag c \<in> {TAG_VEC, TAG_STRUCT, TAG_STRUCT_DEF}")
    case True
    then obtain n where n: "c_dr c = W n" "unat n < 2 ^ 31" "\<forall>i < unat n. vec_get m (c_ar c) i \<noteq> None" using ve by blast
    obtain ys where "those (map (vec_get m (c_ar c)) [0..<unat n]) = Some ys" "set ys = {y. \<exists>i < unat n. vec_get m (c_ar c) i = Some y}"
      using those_map_Some [of "[0..<unat n]" "vec_get m (c_ar c)"] n(3) by (simp only: set_upt Bex_def atLeastLessThan_iff) auto
    with True n(1) vec_count [OF n(2)] show ?thesis
      by (auto simp: mark_children_def refers_def holds_fields [OF c] tag_defs)
  next
    case False
    have nn: "as_stream m NULL = None" "as_fs m NULL = None" by simp_all
    from False c st fs nn show ?thesis
      by (auto simp: mark_children_def refers_def holds_fields [OF c] fs_fields_def tag_defs)
  qed
  then show ?thesis using c by (auto simp: gsuccs_def)
qed

lemma edge_refers: "well_formed_cell m p \<Longrightarrow> edge (gsuccs m) p q \<longleftrightarrow> refers m p q"
  using mark_children_refers [of m p] by (auto simp: edge_def)

text \<open>On a set of well-formed cells closed under references, the search walks the references.\<close>

definition ref_closed :: "mem \<Rightarrow> val set \<Rightarrow> bool" where
  "ref_closed m G \<longleftrightarrow> (\<forall>p \<in> G. well_formed_cell m p \<and> (\<forall>q. refers m p q \<longrightarrow> q \<in> G))"

lemma ref_closed_graph: "ref_closed m G \<Longrightarrow> closed (gsuccs m) G"
  using mark_children_refers by (fastforce simp: ref_closed_def closed_def)

lemma refers_paths:
  assumes "ref_closed m G" "p \<in> G"
  shows "(edge (gsuccs m))\<^sup>*\<^sup>* p q \<longleftrightarrow> (refers m)\<^sup>*\<^sup>* p q" "(edge (gsuccs m))\<^sup>+\<^sup>+ p q \<longleftrightarrow> (refers m)\<^sup>+\<^sup>+ p q"
proof -
  have e: "edge (gsuccs m) x y \<longleftrightarrow> refers m x y" "refers m x y \<Longrightarrow> y \<in> G" if "x \<in> G" for x y
    using that assms(1) edge_refers by (auto simp: ref_closed_def)
  have r: "(refers m)\<^sup>*\<^sup>* p q \<and> q \<in> G" if "(edge (gsuccs m))\<^sup>*\<^sup>* p q" for q
    using that assms(2) by (induction rule: rtranclp_induct) (use e in \<open>auto intro: rtranclp.rtrancl_into_rtrancl\<close>)
  have r': "(edge (gsuccs m))\<^sup>*\<^sup>* p q \<and> q \<in> G" if "(refers m)\<^sup>*\<^sup>* p q" for q
    using that assms(2) by (induction rule: rtranclp_induct) (use e in \<open>auto intro: rtranclp.rtrancl_into_rtrancl\<close>)
  show "(edge (gsuccs m))\<^sup>*\<^sup>* p q \<longleftrightarrow> (refers m)\<^sup>*\<^sup>* p q" using r r' by blast
  have t: "R\<^sup>+\<^sup>+ p q \<longleftrightarrow> (\<exists>x. R\<^sup>*\<^sup>* p x \<and> R x q)" for R :: "val \<Rightarrow> val \<Rightarrow> bool"
    by (auto elim: tranclp.cases intro: rtranclp_into_tranclp1 tranclp_into_rtranclp)
  show "(edge (gsuccs m))\<^sup>+\<^sup>+ p q \<longleftrightarrow> (refers m)\<^sup>+\<^sup>+ p q"
    unfolding t using r r' e by blast
qed

text \<open>What the search needs to hold of the graph it walks: \<open>G\<close> is a set of cells in use closed under the
  edges, and no cell of it is on a cycle.\<close>

definition graph_ok :: "mem \<Rightarrow> val set \<Rightarrow> bool" where
  "graph_ok m G \<longleftrightarrow> unmarked m \<and> cells_used m \<le> MAX_CELLS \<and> G \<subseteq> cellp ` {..<cells_used m}
     \<and> closed (gsuccs m) G \<and> acyclic_from (gsuccs m) G"

lemma graph_ok_card: "graph_ok m G \<Longrightarrow> finite G \<and> card G \<le> MAX_CELLS"
proof -
  assume h: "graph_ok m G"
  have "card G \<le> card (cellp ` {..<cells_used m})" using h by (intro card_mono) (auto simp: graph_ok_def)
  also have "\<dots> \<le> cells_used m" using card_image_le [of "{..<cells_used m}" cellp] by simp
  finally show ?thesis using h finite_subset [of G] by (auto simp: graph_ok_def)
qed

lemma dfs_seq_reach:
  assumes "closed succs G" "finite G" "acyclic_from succs G" "card G < fuel" "set ps \<subseteq> G" "closed succs S"
  shows "dfs_seq (dfs succs fuel) ps S = Some (S \<union> reach succs (set ps))"
  using assms(5,6)
proof (induction ps arbitrary: S)
  case (Cons p ps)
  have "rank succs p < fuel" using rank_le [OF assms(1,2)] Cons.prems(1) assms(4) by fastforce
  then obtain S1 where S1: "dfs succs fuel p S = Some S1" using dfs_total [OF assms(1-3)] Cons.prems(1) by fastforce
  moreover have "S1 = S \<union> reach succs {p}" using dfs_reach [OF S1 Cons.prems(2)] .
  moreover have "closed succs S1" using dfs_closed [OF S1 Cons.prems(2)] by simp
  moreover have "reach succs (set (p # ps)) = reach succs {p} \<union> reach succs (set ps)" by (simp flip: reach_Un)
  ultimately show ?case using Cons by auto
qed simp

definition marked_set :: "mem \<Rightarrow> val list \<Rightarrow> val set" where
  "marked_set m rs = reach (gsuccs m) (set rs - {NULL})"

lemma mark_roots:
  assumes "graph_ok m G" "set rs \<subseteq> insert NULL G" "MAX_CELLS < fuel"
  shows "mark_seq (mark_tree fuel) rs m = Some (paint (marked_set m rs) m)"
proof -
  have um: "unmarked m" using assms(1) by (simp add: graph_ok_def)
  have "mark_seq (mark_tree fuel) rs (paint {} m)
      = map_option (\<lambda>S. paint S m) (dfs_seq (dfs (gsuccs m) fuel) (filter (\<lambda>q. q \<noteq> NULL) rs) {})"
    by (rule mark_seq_refine) (use mark_tree_refine [OF um] dfs_cells in auto)
  also have "dfs_seq (dfs (gsuccs m) fuel) (filter (\<lambda>q. q \<noteq> NULL) rs) {} = Some ({} \<union> reach (gsuccs m) (set (filter (\<lambda>q. q \<noteq> NULL) rs)))"
    by (rule dfs_seq_reach [where G = G]) (use assms graph_ok_card [OF assms(1)] in \<open>auto simp: graph_ok_def closed_def\<close>)
  also have "set (filter (\<lambda>q. q \<noteq> NULL) rs) = set rs - {NULL}" by auto
  finally show ?thesis by (simp add: marked_set_def)
qed

lemma marked_subset: "graph_ok m G \<Longrightarrow> set rs \<subseteq> insert NULL G \<Longrightarrow> marked_set m rs \<subseteq> G"
  unfolding marked_set_def by (rule closed_reach) (auto simp: graph_ok_def)

text \<open>
  What a collection needs to hold of the heap: no mark is left over, every reachable cell is in use, well formed and on no cycle, and the
  filesystem of a reachable stream is that of a mounted filesystem, as \<open>fs_open\<close> leaves it.
\<close>

definition stream_mounted :: "mem \<Rightarrow> val \<Rightarrow> bool" where
  "stream_mounted m p \<longleftrightarrow> (\<forall>c s. get_cell m p = Some c \<and> c_tag c = TAG_STREAM \<and> as_stream m (c_ar c) = Some s \<longrightarrow>
     (\<exists>f d. (refers m)\<^sup>*\<^sup>* (fs_list m) f \<and> get_cell m f = Some d \<and> c_tag d = TAG_FS \<and> c_dr d = s_fs s))"

definition heap_ok :: "mem \<Rightarrow> val list \<Rightarrow> bool" where
  "heap_ok m rs \<longleftrightarrow> unmarked m \<and> cells_used m \<le> MAX_CELLS \<and>
     (\<forall>p \<in> reachable m rs. p \<in> cellp ` {..<cells_used m} \<and> well_formed_cell m p \<and> \<not> (refers m)\<^sup>+\<^sup>+ p p \<and> stream_mounted m p)"

lemma reachable_step:
  "p \<in> reachable m rs \<Longrightarrow> refers m p q \<or> borrows m p q \<Longrightarrow> q \<in> reachable m rs"
  unfolding reachable_def by (blast intro: rtranclp.rtrancl_into_rtrancl)

lemma reachable_root: "r \<in> set rs \<Longrightarrow> r \<noteq> NULL \<Longrightarrow> r \<in> reachable m rs"
  by (auto simp: reachable_def)

lemma heap_ok_closed: "heap_ok m rs \<Longrightarrow> ref_closed m (reachable m rs)"
  using reachable_step by (auto simp: heap_ok_def ref_closed_def)

lemma heap_ok_graph:
  assumes "heap_ok m rs"
  shows "graph_ok m (reachable m rs)"
proof -
  note c = heap_ok_closed [OF assms]
  have "acyclic_from (gsuccs m) (reachable m rs)"
    using assms refers_paths(2) [OF c] by (auto simp: acyclic_from_def heap_ok_def)
  then show ?thesis using assms ref_closed_graph [OF c] by (auto simp: graph_ok_def heap_ok_def)
qed

text \<open>The filesystem of a stream is marked with the mount list, so the marked cells are the reachable ones.\<close>

lemma marked_reachable:
  assumes "heap_ok m rs" "fs_list m \<in> set rs"
  shows "marked_set m rs = reachable m rs"
proof
  note g = heap_ok_graph [OF assms(1)] and c = heap_ok_closed [OF assms(1)]
  have sub: "marked_set m rs \<subseteq> reachable m rs" by (rule marked_subset [OF g]) (auto intro: reachable_root)
  then show "marked_set m rs \<subseteq> reachable m rs" .
  have root: "r \<in> set rs \<Longrightarrow> r \<noteq> NULL \<Longrightarrow> r \<in> marked_set m rs" for r by (simp add: marked_set_def reach_refl)
  have ref: "q \<in> marked_set m rs" if "p \<in> marked_set m rs" "refers m p q" for p q
    using that sub edge_refers [of m p q] c reach_edge [of p "gsuccs m" _ q] by (auto simp: marked_set_def ref_closed_def)
  have mounts: "f \<in> marked_set m rs" if "(refers m)\<^sup>*\<^sup>* (fs_list m) f" "get_cell m f \<noteq> None" for f
  proof (cases "fs_list m = NULL")
    case True
    from that(1) have "f = NULL" unfolding True by (rule converse_rtranclpE) (auto simp: refers_def elim: holdsE)
    with that(2) show ?thesis by simp
  next
    case False
    from that(1) root [OF assms(2) False] show ?thesis by (induction rule: rtranclp_induct) (auto intro: ref)
  qed
  have bor: "q \<in> marked_set m rs" if pq: "p \<in> marked_set m rs" "borrows m p q" for p q
  proof -
    obtain c s fs where b: "get_cell m p = Some c" "c_tag c = TAG_STREAM" "as_stream m (c_ar c) = Some s" "as_fs m (s_fs s) = Some fs"
      "q \<in> fs_fields fs" "q \<noteq> NULL" using pq(2) by (auto simp: borrows_def)
    have "stream_mounted m p" using pq(1) sub assms(1) by (auto simp: heap_ok_def)
    then obtain f d where f: "(refers m)\<^sup>*\<^sup>* (fs_list m) f" "get_cell m f = Some d" "c_tag d = TAG_FS" "c_dr d = s_fs s"
      using b(1-3) unfolding stream_mounted_def by blast
    then have "refers m f q" using b(4-6) by (auto simp: refers_def intro: holds.handler)
    then show ?thesis using ref mounts [OF f(1)] f(2) by simp
  qed
  show "reachable m rs \<subseteq> marked_set m rs"
  proof
    fix q assume "q \<in> reachable m rs"
    then obtain r where "r \<in> set rs" "r \<noteq> NULL" "(\<lambda>p q. refers m p q \<or> borrows m p q)\<^sup>*\<^sup>* r q" by (auto simp: reachable_def)
    from this(3) root [OF this(1,2)] show "q \<in> marked_set m rs"
      by (induction rule: rtranclp_induct) (auto intro: ref bor)
  qed
qed

section \<open>Sweeping\<close>

definition garbage :: "mem \<Rightarrow> nat \<Rightarrow> bool" where
  "garbage m i \<longleftrightarrow> c_tag (cell_heap m i) AND TAG_MARK = 0 \<and> c_tag (cell_heap m i) \<noteq> TAG_LAMBDA"

definition swept :: "mem \<Rightarrow> nat \<Rightarrow> nat \<Rightarrow> cell" where
  "swept m n i =
     (if i < n then
        (if garbage m i then (cell_heap m i)\<lparr>c_tag := TAG_FREED\<rparr>
         else (cell_heap m i)\<lparr>c_tag := c_tag (cell_heap m i) AND NOT TAG_MARK\<rparr>)
      else cell_heap m i)"

lemma freed_unmark [simp]: "TAG_FREED AND NOT TAG_MARK = TAG_FREED"
  by (simp add: TAG_FREED_def)

lemma sweep_step_simps:
  "garbage m i \<Longrightarrow> sweep_step i (gc, m) =
     (gc + 1, m\<lparr>cell_heap := (cell_heap m)(i := (cell_heap m i)\<lparr>c_tag := TAG_FREED\<rparr>),
        free_list := (free_list m)(free_list_avail m := cellp i), free_list_avail := free_list_avail m + 1\<rparr>)"
  "\<not> garbage m i \<Longrightarrow> sweep_step i (gc, m) =
     (gc, m\<lparr>cell_heap := (cell_heap m)(i := (cell_heap m i)\<lparr>c_tag := c_tag (cell_heap m i) AND NOT TAG_MARK\<rparr>)\<rparr>)"
  by (auto simp: sweep_step_def garbage_def Let_def)

lemma sweep_loop:
  "\<exists>fl. fold sweep_step [0..<n] (0, m\<lparr>free_list_avail := 0, free_list_consumed := 0\<rparr>) =
     (length (filter (garbage m) [0..<n]),
      m\<lparr>cell_heap := swept m n, free_list := fl, free_list_avail := length (filter (garbage m) [0..<n]), free_list_consumed := 0\<rparr>)
   \<and> (\<forall>k < length (filter (garbage m) [0..<n]). fl k = cellp (filter (garbage m) [0..<n] ! k))"
proof (induction n)
  case 0
  have "swept m 0 = cell_heap m" by (simp add: swept_def fun_eq_iff)
  then show ?case by (intro exI [of _ "free_list m"]) simp
next
  case (Suc n)
  let ?gs = "filter (garbage m) [0..<n]"
  obtain fl where fl: "fold sweep_step [0..<n] (0, m\<lparr>free_list_avail := 0, free_list_consumed := 0\<rparr>) =
     (length ?gs, m\<lparr>cell_heap := swept m n, free_list := fl, free_list_avail := length ?gs, free_list_consumed := 0\<rparr>)"
    "\<forall>k < length ?gs. fl k = cellp (?gs ! k)"
    using Suc.IH by blast
  define m' where "m' = m\<lparr>cell_heap := swept m n, free_list := fl, free_list_avail := length ?gs, free_list_consumed := 0\<rparr>"
  have s: "cell_heap m' = swept m n" "swept m n n = cell_heap m n" "free_list m' = fl" "free_list_avail m' = length ?gs"
    by (simp_all add: m'_def swept_def)
  then have g: "garbage m' n = garbage m n" by (simp add: garbage_def)
  have f: "fold sweep_step [0..<Suc n] (0, m\<lparr>free_list_avail := 0, free_list_consumed := 0\<rparr>) = sweep_step n (length ?gs, m')"
    using fl(1) by (simp add: m'_def)
  show ?case
  proof (cases "garbage m n")
    case True
    have "swept m (Suc n) = (swept m n)(n := (cell_heap m n)\<lparr>c_tag := TAG_FREED\<rparr>)"
      using True by (auto simp: swept_def fun_eq_iff)
    with True fl s show ?thesis
      by (intro exI [of _ "fl(length ?gs := cellp n)"] conjI, unfold f)
        (simp_all add: sweep_step_simps g nth_append less_Suc_eq, simp add: m'_def fun_upd_def)
  next
    case False
    have "swept m (Suc n) = (swept m n)(n := (cell_heap m n)\<lparr>c_tag := c_tag (cell_heap m n) AND NOT TAG_MARK\<rparr>)"
      using False by (auto simp: swept_def fun_eq_iff)
    with False fl s show ?thesis
      by (intro exI [of _ fl] conjI, unfold f) (simp_all add: sweep_step_simps g, simp add: m'_def fun_upd_def)
  qed
qed

lemma sweep_spec:
  obtains fl where "sweep m = (length (filter (garbage m) [0..<cells_used m]),
      m\<lparr>cell_heap := swept m (cells_used m), free_list := fl, free_list_avail := length (filter (garbage m) [0..<cells_used m]),
        free_list_consumed := 0\<rparr>)"
    "\<forall>k < length (filter (garbage m) [0..<cells_used m]). fl k = cellp (filter (garbage m) [0..<cells_used m] ! k)"
  using sweep_loop [of "cells_used m" m] by (auto simp: sweep_def)

text \<open>What a collection keeps: what is reachable from the roots, and every lambda.\<close>

definition kept :: "mem \<Rightarrow> val list \<Rightarrow> val set" where
  "kept m rs = {cellp i | i. i < cells_used m \<and> (cellp i \<in> reachable m rs \<or> c_tag (cell_heap m i) = TAG_LAMBDA)}"

lemma lambda_mark: "TAG_LAMBDA AND TAG_MARK = 0"
  by (simp add: TAG_LAMBDA_def TAG_MARK_def)

lemma unmark_or: "t AND TAG_MARK = 0 \<Longrightarrow> (t OR TAG_MARK) AND NOT TAG_MARK = t" "t AND TAG_MARK = 0 \<Longrightarrow> t AND NOT TAG_MARK = t"
  for t :: u64
proof -
  assume t: "t AND TAG_MARK = 0"
  have b: "\<not> bit t 16"
    using arg_cong [OF t, of "\<lambda>w. bit w 16"] by (simp add: TAG_MARK_def bit_simps)
  show "(t OR TAG_MARK) AND NOT TAG_MARK = t"
    by (rule word64_eqI) (use b in \<open>simp add: all_less_numeral bit_simps TAG_MARK_def\<close>)
next
  assume t: "t AND TAG_MARK = 0"
  have b: "\<not> bit t 16"
    using arg_cong [OF t, of "\<lambda>w. bit w 16"] by (simp add: TAG_MARK_def bit_simps)
  show "t AND NOT TAG_MARK = t"
    by (rule word64_eqI) (use b in \<open>simp add: all_less_numeral bit_simps TAG_MARK_def\<close>)
qed

lemma garbage_paint:
  assumes "unmarked m" "i < MAX_CELLS"
  shows "garbage (paint S m) i \<longleftrightarrow> cellp i \<notin> S \<and> c_tag (cell_heap m i) \<noteq> TAG_LAMBDA"
  using assms by (auto simp: garbage_def paint_def unmarked_def)

lemma swept_paint:
  assumes "unmarked m" "cells_used m \<le> MAX_CELLS" "S \<subseteq> cellp ` {..<cells_used m}"
  shows "swept (paint S m) (cells_used m) i =
    (if i < cells_used m \<and> cellp i \<notin> S \<and> c_tag (cell_heap m i) \<noteq> TAG_LAMBDA
     then (cell_heap m i)\<lparr>c_tag := TAG_FREED\<rparr> else cell_heap m i)"
proof (cases "i < cells_used m")
  case True
  then have u: "c_tag (cell_heap m i) AND TAG_MARK = 0" "i < MAX_CELLS" using assms by (auto simp: unmarked_def)
  then show ?thesis
    using True garbage_paint [OF assms(1) u(2), of S] unmark_or [OF u(1)]
    by (auto simp: swept_def paint_def)
next
  case False
  then have "cellp i \<notin> S" using assms(3) by auto
  with False show ?thesis by (simp add: swept_def paint_def)
qed

text \<open>The memory after the sweep, before the result is allocated.\<close>

definition collected :: "mem \<Rightarrow> val set \<Rightarrow> mem \<Rightarrow> bool" where
  "collected m K m' \<longleftrightarrow> alloc_inv m' \<and> live m' = K \<and> unmarked m' \<and> cells_used m' = cells_used m
     \<and> (\<forall>q \<in> K. get_cell m' q = get_cell m q)
     \<and> cells_left m' = card (cellp ` {..<cells_used m} - K) + (MAX_CELLS - cells_used m)"

lemma sweep_collected:
  assumes "unmarked m" "cells_used m \<le> MAX_CELLS" "S \<subseteq> cellp ` {..<cells_used m}"
  defines "K \<equiv> {cellp i | i. i < cells_used m \<and> (cellp i \<in> S \<or> c_tag (cell_heap m i) = TAG_LAMBDA)}"
  shows "\<exists>m'. sweep (paint S m) = (card (cellp ` {..<cells_used m} - K), m') \<and> collected m K m'"
proof -
  let ?m = "paint S m" and ?n = "cells_used m"
  define gs where "gs = filter (garbage ?m) [0..<?n]"
  have n: "cells_used ?m = ?n" by (simp add: paint_def)
  obtain fl where sw: "sweep ?m = (length gs, ?m\<lparr>cell_heap := swept ?m ?n, free_list := fl, free_list_avail := length gs, free_list_consumed := 0\<rparr>)"
    and fl: "\<forall>k < length gs. fl k = cellp (gs ! k)"
    using sweep_spec [of ?m] unfolding n gs_def by blast
  define m' where "m' = ?m\<lparr>cell_heap := swept ?m ?n, free_list := fl, free_list_avail := length gs, free_list_consumed := 0\<rparr>"
  have gs: "set gs = {i. i < ?n \<and> cellp i \<notin> S \<and> c_tag (cell_heap m i) \<noteq> TAG_LAMBDA}" "distinct gs"
    using garbage_paint [OF assms(1), of _ S] assms(2) by (auto simp: gs_def)
  have flg: "fl ` {..<length gs} = cellp ` set gs"
  proof -
    have "fl ` {..<length gs} = (\<lambda>k. cellp (gs ! k)) ` {..<length gs}" using fl by (intro image_cong) auto
    also have "\<dots> = cellp ` ((!) gs ` {..<length gs})" by (simp add: image_image)
    also have "(!) gs ` {..<length gs} = set gs" by (auto simp: in_set_conv_nth)
    finally show ?thesis .
  qed
  have K: "cellp ` {..<?n} - K = cellp ` set gs" "K = cellp ` {..<?n} - cellp ` set gs"
    by (auto simp: K_def gs(1))
  have card: "card (cellp ` set gs) = length gs"
    using distinct_card [OF gs(2)] by (subst card_image) (auto simp: inj_on_def)
  have inj: "inj_on fl {0..<length gs}"
    using fl gs(2) by (auto simp: inj_on_def nth_eq_iff_index_eq)
  have fields: "free_slots m' = {0..<length gs}" "free_list m' = fl" "cells_used m' = ?n" "free_list_avail m' = length gs" "free_list_consumed m' = 0"
    by (simp_all add: m'_def n free_slots_def)
  then have ptrs: "free_ptrs m' = cellp ` set gs" using flg by (simp add: free_ptrs_def lessThan_atLeast0)
  have cell: "cell_heap m' i = (if i \<in> set gs then (cell_heap m i)\<lparr>c_tag := TAG_FREED\<rparr> else cell_heap m i)" for i
    using swept_paint [OF assms(1-3), of i] by (simp add: m'_def gs(1))
  have "alloc_inv m'" "live m' = K" "cells_left m' = length gs + (MAX_CELLS - ?n)"
    unfolding alloc_inv_def live_def cells_left_def ptrs unfolding fields K(2) using inj assms(2) gs(1) by auto
  moreover have "unmarked m'" using assms(1) by (auto simp: unmarked_def cell TAG_FREED_def)
  moreover have "get_cell m' q = get_cell m q" if "q \<in> K" for q
    using that assms(2) by (auto simp: K(2) cell)
  ultimately have "collected m K m'" unfolding collected_def K(1) card fields by blast
  then show ?thesis using sw unfolding K(1) card m'_def by blast
qed

lemma kept_eq: "kept m rs = {cellp i | i. i < cells_used m \<and> (cellp i \<in> reachable m rs \<or> c_tag (cell_heap m i) = TAG_LAMBDA)}"
  by (simp add: kept_def)

lemma alloc_int_unmarked:
  assumes "alloc_int i m = Some (p, m')" "unmarked m"
  shows "unmarked m'"
proof -
  obtain m1 where "cell_alloc m = Some (p, m1)" "upd_cell p (\<lambda>c. c\<lparr>c_tag := TAG_INT, c_ar := W (scast i)\<rparr>) m1 = Some m'"
    using assms(1) by (auto simp: alloc_int_def split: Option.bind_splits)
  with cell_alloc_other [of m p m1] assms(2) show ?thesis
    by (auto simp: upd_cell_Some_iff unmarked_def TAG_INT_def TAG_MARK_def)
qed

section \<open>Properties of the collector\<close>

text \<open>
  C3. A collection in a well-formed heap (the cells that can be reached from the roots through the fields of cells, streams, filesystems
  and vectors are in use and on no cycle) returns, with the number of cells freed as its result, and is exact: the cells in use
  afterwards are those reachable from the roots, the lambdas, and the cell of the result; every kept cell has its old contents
  and no mark; every other cell is on the free list. The roots are the global environment, the list of mounted filesystems and
  what the stack walk finds.
\<close>

theorem collect_garbage_correct:
  assumes "sm_inv env" "gc_roots m heap_above env stack = Some rs" "heap_ok m rs"
    and "MAX_CELLS < fuel" and "kept m rs \<noteq> cellp ` {..<MAX_CELLS}"
  shows "\<exists>p m' d. collect_garbage fuel heap_above (Some env) stack m = Some (p, m')
    \<and> live m' = insert p (kept m rs) \<and> p \<notin> kept m rs
    \<and> (\<forall>q \<in> kept m rs. get_cell m' q = get_cell m q)
    \<and> get_cell m' p = Some \<lparr>c_ar = W (of_nat (card (cellp ` {..<cells_used m} - kept m rs))), c_dr = d, c_tag = TAG_INT\<rparr>
    \<and> alloc_inv m' \<and> unmarked m'"
proof -
  have h: "unmarked m" "cells_used m \<le> MAX_CELLS" "reachable m rs \<subseteq> cellp ` {..<cells_used m}"
    using assms(3) by (auto simp: heap_ok_def)
  have "fs_list m \<in> set rs" using assms(2) by (auto simp: gc_roots_def)
  note mr = marked_reachable [OF assms(3) this]
  have roots: "set rs \<subseteq> insert NULL (reachable m rs)" by (auto intro: reachable_root)
  let ?n = "card (cellp ` {..<cells_used m} - kept m rs)"
  obtain m1 where m1: "sweep (paint (reachable m rs) m) = (?n, m1)" "collected m (kept m rs) m1"
    using sweep_collected [OF h] unfolding kept_eq by blast
  have cg: "collect_garbage fuel heap_above (Some env) stack m = alloc_int (of_nat ?n) m1"
    using collect_garbage_phases [OF assms(1,2)] mark_roots [OF heap_ok_graph [OF assms(3)] roots assms(4)] m1(1) mr by simp
  have "0 < cells_left m1"
  proof (rule ccontr)
    assume "\<not> 0 < cells_left m1"
    moreover have "cells_left m1 = ?n + (MAX_CELLS - cells_used m)" using m1(2) by (simp add: collected_def)
    ultimately have "?n = 0" "cells_used m = MAX_CELLS" using h(2) by linarith+
    then have "cellp ` {..<MAX_CELLS} \<subseteq> kept m rs" by simp
    with assms(5) \<open>cells_used m = MAX_CELLS\<close> show False by (auto simp: kept_def)
  qed
  then obtain p m' d where p: "alloc_int (of_nat ?n) m1 = Some (p, m')"
    "fresh_cell m1 p \<lparr>c_ar = W (scast (of_nat ?n :: u32)), c_dr = d, c_tag = TAG_INT\<rparr> m'"
    using alloc_int_ok [of m1 "of_nat ?n"] m1(2) by (auto simp: collected_def)
  have "?n \<le> card (cellp ` {..<cells_used m})" by (intro card_mono) auto
  also have "\<dots> \<le> MAX_CELLS" using card_image_le [of "{..<cells_used m}" cellp] h(2) by simp
  finally have n: "scast (of_nat ?n :: u32) = (of_nat ?n :: u64)" by (intro scast_of_nat) (simp add: MAX_CELLS_def)
  have "unmarked m'" using alloc_int_unmarked [OF p(1)] m1(2) by (simp add: collected_def)
  then show ?thesis
    using p m1(2) unfolding cg n collected_def fresh_cell_def by (intro exI [of _ p] exI [of _ m'] exI [of _ d]) simp
qed

text \<open>A heap with the list \<open>("ab")\<close> bound to the symbol \<open>a\<close> and one unused cell.\<close>

definition gc_sample :: mem where
  "gc_sample = sample_mem\<lparr>cells_used := 4, envs := [\<lparr>e_cell = cellp 0, e_name = bs ''a''\<rparr>]\<rparr>"

definition gc_sample_env :: "val strmap" where
  "gc_sample_env = \<lparr>buckets = [[\<lparr>pkey = Some (bs ''a''), pvalue = Some (P (OEnv 0) 0)\<rparr>]]\<rparr>"

lemma reachable_least:
  assumes "set rs \<subseteq> insert NULL S" "\<And>p q. p \<in> S \<Longrightarrow> refers m p q \<or> borrows m p q \<Longrightarrow> q \<in> S"
  shows "reachable m rs \<subseteq> S"
proof
  fix q assume "q \<in> reachable m rs"
  then obtain r where "r \<in> S" "(\<lambda>p q. refers m p q \<or> borrows m p q)\<^sup>*\<^sup>* r q" using assms(1) by (auto simp: reachable_def)
  from this(2,1) show "q \<in> S" by (induction rule: rtranclp_induct) (auto dest: assms(2))
qed

lemma gc_sample_cells:
  "get_cell gc_sample (cellp 0) = Some \<lparr>c_ar = cellp (Suc 0), c_dr = cellp 2, c_tag = TAG_CONS\<rparr>"
  "get_cell gc_sample (cellp (Suc 0)) = Some \<lparr>c_ar = bytesp 0, c_dr = W 3, c_tag = TAG_STR\<rparr>"
  "get_cell gc_sample (cellp 2) = Some \<lparr>c_ar = NULL, c_dr = NULL, c_tag = TAG_CONS\<rparr>"
  by (simp_all add: gc_sample_def sample_mem_def mem0_def get_cell_def MAX_CELLS_def)

lemma gc_sample_refers:
  "refers gc_sample (cellp 0) q \<longleftrightarrow> q = cellp (Suc 0) \<or> q = cellp 2" "\<not> refers gc_sample (cellp (Suc 0)) q" "\<not> refers gc_sample (cellp 2) q"
  "p \<in> {cellp 0, cellp (Suc 0), cellp 2} \<Longrightarrow> \<not> borrows gc_sample p q"
  using gc_sample_cells by (auto simp: refers_def borrows_def holds_fields [OF gc_sample_cells(1)] holds_fields [OF gc_sample_cells(2)]
    holds_fields [OF gc_sample_cells(3)] tag_defs)

lemma gc_sample_roots:
  "gc_roots gc_sample (\<lambda>_. False) gc_sample_env [] = Some [cellp 0, NULL]"
  "reachable gc_sample [cellp 0, NULL] = {cellp 0, cellp 1, cellp 2}"
  "kept gc_sample [cellp 0, NULL] = {cellp 0, cellp 1, cellp 2}"
proof -
  show "gc_roots gc_sample (\<lambda>_. False) gc_sample_env [] = Some [cellp 0, NULL]"
    by (simp add: gc_roots_def env_cells_def gc_sample_env_def sm_bindings_def binding_def gc_sample_def sample_mem_def mem0_def)
  show r: "reachable gc_sample [cellp 0, NULL] = {cellp 0, cellp 1, cellp 2}"
  proof (rule equalityI)
    show "reachable gc_sample [cellp 0, NULL] \<subseteq> {cellp 0, cellp 1, cellp 2}"
      by (rule reachable_least) (use gc_sample_refers in auto)
    have "cellp 0 \<in> reachable gc_sample [cellp 0, NULL]" by (rule reachable_root) simp_all
    moreover from this have "cellp 1 \<in> reachable gc_sample [cellp 0, NULL]" "cellp 2 \<in> reachable gc_sample [cellp 0, NULL]"
      by (auto intro: reachable_step simp: gc_sample_refers(1))
    ultimately show "{cellp 0, cellp 1, cellp 2} \<subseteq> reachable gc_sample [cellp 0, NULL]" by simp
  qed
  show "kept gc_sample [cellp 0, NULL] = {cellp 0, cellp 1, cellp 2}"
    unfolding kept_def r by (auto simp: gc_sample_def sample_mem_def mem0_def zero_cell_def tag_defs)
qed

lemma gc_sample_ok: "heap_ok gc_sample [cellp 0, NULL]"
proof -
  have "\<not> (refers gc_sample)\<^sup>+\<^sup>+ p p" if "p \<in> {cellp 0, cellp 1, cellp 2}" for p
  proof
    assume "(refers gc_sample)\<^sup>+\<^sup>+ p p"
    then obtain q where q: "refers gc_sample p q" "(refers gc_sample)\<^sup>*\<^sup>* q p" by (meson tranclpD)
    then have "p = cellp 0" "q = cellp 1 \<or> q = cellp 2" using that gc_sample_refers by auto
    with q(2) show False using gc_sample_refers(2,3) by (auto elim: converse_rtranclpE)
  qed
  moreover have "well_formed_cell gc_sample p \<and> stream_mounted gc_sample p" if "p \<in> {cellp 0, cellp 1, cellp 2}" for p
    using that gc_sample_cells by (auto simp: well_formed_cell_def stream_mounted_def tag_defs)
  moreover have "cellp i \<in> cellp ` {..<cells_used gc_sample}" if "i < 4" for i using that by (simp add: gc_sample_def)
  moreover have "unmarked gc_sample" by (simp add: unmarked_def gc_sample_def sample_mem_def mem0_def zero_cell_def tag_defs TAG_MARK_def)
  moreover have "cells_used gc_sample \<le> MAX_CELLS" by (simp add: gc_sample_def MAX_CELLS_def)
  ultimately show ?thesis unfolding heap_ok_def gc_sample_roots(2) by simp
qed

theorem collect_garbage_correct_witness:
  "\<exists>p m'. collect_garbage 100001 (\<lambda>_. False) (Some gc_sample_env) [] gc_sample = Some (p, m')
     \<and> live m' = insert p {cellp 0, cellp 1, cellp 2}"
proof -
  have "sm_inv gc_sample_env" by (simp add: sm_inv_def gc_sample_env_def pair_ok_def)
  moreover have "cellp 3 \<notin> kept gc_sample [cellp 0, NULL]" "cellp 3 \<in> cellp ` {..<MAX_CELLS}"
    by (simp_all add: gc_sample_roots(3) MAX_CELLS_def image_iff)
  moreover have "MAX_CELLS < 100001" by (simp add: MAX_CELLS_def)
  ultimately have "\<exists>p m' d. collect_garbage 100001 (\<lambda>_. False) (Some gc_sample_env) [] gc_sample = Some (p, m')
    \<and> live m' = insert p (kept gc_sample [cellp 0, NULL]) \<and> p \<notin> kept gc_sample [cellp 0, NULL]
    \<and> (\<forall>q \<in> kept gc_sample [cellp 0, NULL]. get_cell m' q = get_cell gc_sample q)
    \<and> get_cell m' p = Some \<lparr>c_ar = W (of_nat (card (cellp ` {..<cells_used gc_sample} - kept gc_sample [cellp 0, NULL]))), c_dr = d, c_tag = TAG_INT\<rparr>
    \<and> alloc_inv m' \<and> unmarked m'"
    by (intro collect_garbage_correct [OF _ gc_sample_roots(1) gc_sample_ok]) blast+
  then show ?thesis unfolding gc_sample_roots(3) by blast
qed

text \<open>
  C28. Marking from a cell in an unmarked heap, where every cell that can be reached through references is well formed and in use:
  \<open>mark_tree\<close> returns if and only if no cell on a cycle can be reached, and when it returns it has set the mark bit of exactly
  the cells that can be reached and has changed nothing else. (The mark bit is set after the recursive calls, so it does not cut a cycle.)
\<close>

theorem mark_tree_returns_iff_acyclic:
  assumes "unmarked m" "\<forall>q. (refers m)\<^sup>*\<^sup>* p q \<longrightarrow> well_formed_cell m q \<and> q \<in> cellp ` {..<cells_used m}"
  shows "((\<exists>fuel m'. mark_tree fuel p m = Some m') \<longleftrightarrow> \<not> (\<exists>q. (refers m)\<^sup>*\<^sup>* p q \<and> (refers m)\<^sup>+\<^sup>+ q q))
    \<and> (\<forall>fuel m'. mark_tree fuel p m = Some m' \<longrightarrow> m' = paint {q. (refers m)\<^sup>*\<^sup>* p q} m)"
proof -
  define R where "R = {q. (refers m)\<^sup>*\<^sup>* p q}"
  have p: "p \<in> R" "p \<noteq> NULL" using assms(2) by (auto simp: R_def)
  have c: "ref_closed m R"
    using assms(2) by (auto simp: ref_closed_def R_def intro: rtranclp.rtrancl_into_rtrancl)
  have fin: "finite R" by (rule finite_subset [of _ "cellp ` {..<cells_used m}"]) (use assms(2) in \<open>auto simp: R_def\<close>)
  have reach: "reach (gsuccs m) {p} = R" using refers_paths(1) [OF c p(1)] by (simp add: reach_def R_def)
  have cyc: "(edge (gsuccs m))\<^sup>+\<^sup>+ q q \<longleftrightarrow> (refers m)\<^sup>+\<^sup>+ q q" if "q \<in> R" for q by (rule refers_paths(2) [OF c that])
  have r: "mark_tree fuel p m = map_option (\<lambda>S. paint S m) (dfs (gsuccs m) fuel p {})" for fuel
    using mark_tree_refine [OF assms(1) p(2), of "{}"] by simp
  have "closed (gsuccs m) {}" by (simp add: closed_def)
  then have res: "m' = paint R m" if "mark_tree fuel p m = Some m'" for fuel m'
    using that r dfs_reach [of "gsuccs m" fuel p "{}"] reach by fastforce
  have ret: "\<exists>fuel m'. mark_tree fuel p m = Some m'" if "\<forall>q \<in> R. \<not> (refers m)\<^sup>+\<^sup>+ q q"
  proof -
    have "acyclic_from (gsuccs m) R" using that cyc by (simp add: acyclic_from_def)
    from dfs_total [OF ref_closed_graph [OF c] fin this p(1), of "Suc (rank (gsuccs m) p)" "{}"] show ?thesis
      using r [of "Suc (rank (gsuccs m) p)"] by (metis lessI option.simps(9))
  qed
  have "\<not> (\<exists>fuel m'. mark_tree fuel p m = Some m')" if "q \<in> R" "(refers m)\<^sup>+\<^sup>+ q q" for q
  proof -
    have "p \<in> cycles (gsuccs m)" using that cyc reach by (auto simp: cycles_def reach_def)
    then show ?thesis using r dfs_diverges [of p "gsuccs m" "{}"] by auto
  qed
  with ret res show ?thesis unfolding R_def by blast
qed

text \<open>A cons cell whose second field points to itself.\<close>

definition knot :: mem where
  "knot = mem0\<lparr>cell_heap := (\<lambda>_. zero_cell)(0 := \<lparr>c_ar = NULL, c_dr = cellp 0, c_tag = TAG_CONS\<rparr>), cells_used := 1\<rparr>"

theorem mark_tree_returns_iff_acyclic_witness:
  "\<forall>fuel. mark_tree fuel (cellp 0) knot = None"
proof -
  have c: "get_cell knot (cellp 0) = Some \<lparr>c_ar = NULL, c_dr = cellp 0, c_tag = TAG_CONS\<rparr>"
    by (simp add: knot_def mem0_def get_cell_def MAX_CELLS_def)
  have r: "refers knot (cellp 0) q \<longleftrightarrow> q = cellp 0" for q by (auto simp: refers_def holds_fields [OF c] tag_defs)
  have "q = cellp 0" if "(refers knot)\<^sup>*\<^sup>* (cellp 0) q" for q using that by (induction rule: rtranclp_induct) (use r in auto)
  then have "\<forall>q. (refers knot)\<^sup>*\<^sup>* (cellp 0) q \<longrightarrow> well_formed_cell knot q \<and> q \<in> cellp ` {..<cells_used knot}"
    using c by (fastforce simp: well_formed_cell_def tag_defs knot_def)
  moreover have "unmarked knot" by (auto simp: knot_def mem0_def unmarked_def zero_cell_def tag_defs TAG_MARK_def)
  moreover have "(refers knot)\<^sup>+\<^sup>+ (cellp 0) (cellp 0)" using r by blast
  ultimately show ?thesis using mark_tree_returns_iff_acyclic [of knot "cellp 0"] by (metis not_Some_eq rtranclp.rtrancl_refl)
qed

text \<open>
  C29. The stack walk recognises a frame only by a word equal to \<open>STACK_FRAME_MARKER\<close>. A stack
  without such a word has no roots: in particular the frames of compiled functions, which are
  tagged with the marker or-ed into the address of the function, are skipped.
\<close>

theorem scan_stack_needs_exact_marker:
  assumes "W STACK_FRAME_MARKER \<notin> set stack"
  shows "scan_stack (mark_tree fuel) heap_above 0 stack m = Some m"
proof -
  have "stack_roots heap_above 0 stack = []"
    using assms by (induction heap_above "0::nat" stack rule: stack_roots.induct) auto
  then show ?thesis by (simp add: scan_stack_roots)
qed

theorem scan_stack_needs_exact_marker_witness:
  "scan_stack (mark_tree 5) (\<lambda>_. True) 0 [cellp 1, cellp 2, F (OCell 7), cellp 3] sample_mem = Some sample_mem"
  by (rule scan_stack_needs_exact_marker) simp

end
