(* ===== verification/Utf8.thy ===== *)
theory Utf8
  imports Prelude
begin

text \<open>
  The UTF-8 helpers of \<^verbatim>\<open>src/sledge/utf8.c\<close>. A \<open>char*\<close> argument is the byte block it
  points into; a read past the end of the block makes the result \<open>None\<close>. Runes are
  \<open>unsigned int\<close> (32 bits), the argument of the encoder is a \<open>jit_word_t\<close> (64 bits).
\<close>

section \<open>Operations\<close>

definition utf8_rune_len :: "byte \<Rightarrow> nat" where
  "utf8_rune_len b =
     (if b AND 0x80 = 0 then 1
      else if b AND 0xe0 = 0xc0 then 2
      else if b AND 0xf0 = 0xe0 then 3
      else if b AND 0xf8 = 0xf0 then 4
      else 1)"

text \<open>The loop of \<open>utf8_strlen\<close>: \<open>rest\<close> is the block from \<open>s + i\<close> on, \<open>n\<close> is \<open>len - i\<close>.\<close>

fun utf8_strlen_from :: "byte list \<Rightarrow> int \<Rightarrow> nat \<Rightarrow> nat option" where
  "utf8_strlen_from [] n j = None"
| "utf8_strlen_from (b # rest) n j =
     (if b \<noteq> 0 \<and> 0 < n
      then utf8_strlen_from rest (n - 1) (if b AND 0xc0 \<noteq> 0x80 then Suc j else j)
      else Some j)"

definition utf8_strlen :: "byte list \<Rightarrow> int \<Rightarrow> nat option" where
  "utf8_strlen s len = utf8_strlen_from s len 0"

text \<open>One byte of the decoder that \<open>utf8_rune_at\<close> and \<open>utf8_str_to_runestr\<close> share.\<close>

definition utf8_step :: "byte \<Rightarrow> u32 \<times> nat \<Rightarrow> u32 \<times> nat" where
  "utf8_step b1 rs =
     (let (rune, state) = rs in
      if b1 AND 0x80 = 0 then (ucast b1, 0)
      else if state > 0 then (push_bit 6 rune OR (ucast b1 AND 0x3f), state - 1)
      else if b1 AND 0xe0 = 0xc0 then (ucast b1 AND 0x1f, 1)
      else if b1 AND 0xf0 = 0xe0 then (ucast b1 AND 0x0f, 2)
      else if b1 AND 0xf8 = 0xf0 then (ucast b1 AND 0x07, 3)
      else (rune, state))"

fun utf8_rune_at_from :: "byte list \<Rightarrow> nat \<Rightarrow> nat \<Rightarrow> u32 \<times> nat \<Rightarrow> u32 option" where
  "utf8_rune_at_from [] idx j rs = None"
| "utf8_rune_at_from (b1 # rest) idx j rs =
     (if b1 = 0 then Some 0
      else let (rune, state) = utf8_step b1 rs in
        if state = 0
        then (if idx = j then Some rune else utf8_rune_at_from rest idx (Suc j) (rune, state))
        else utf8_rune_at_from rest idx j (rune, state))"

definition utf8_rune_at :: "byte list \<Rightarrow> nat \<Rightarrow> u32 option" where
  "utf8_rune_at s idx = utf8_rune_at_from s idx 0 (0, 0)"

text \<open>
  The encoder returns its status and the bytes it writes; \<open>*count\<close> is their number. The
  five-byte form does not mask the second byte, as in the source.
\<close>

definition rune_to_utf8 :: "u64 \<Rightarrow> int \<times> byte list" where
  "rune_to_utf8 c =
     (if c \<le> 0x7F then (0, [ucast c])
      else if c \<le> 0x7FF then
        (0, [ucast (0xC0 OR drop_bit 6 c), ucast (0x80 OR (c AND 0x3F))])
      else if c \<le> 0xFFFF then
        (0, [ucast (0xE0 OR drop_bit 12 c), ucast (0x80 OR (drop_bit 6 c AND 0x3F)),
             ucast (0x80 OR (c AND 0x3F))])
      else if c \<le> 0x1FFFFF then
        (0, [ucast (0xF0 OR drop_bit 18 c), ucast (0x80 OR (drop_bit 12 c AND 0x3F)),
             ucast (0x80 OR (drop_bit 6 c AND 0x3F)), ucast (0x80 OR (c AND 0x3F))])
      else if c \<le> 0x3FFFFFF then
        (-1, [ucast (0xF8 OR drop_bit 24 c), ucast (0x80 OR drop_bit 18 c),
              ucast (0x80 OR (drop_bit 12 c AND 0x3F)), ucast (0x80 OR (drop_bit 6 c AND 0x3F)),
              ucast (0x80 OR (c AND 0x3F))])
      else if c \<le> 0x7FFFFFFF then
        (-1, [ucast (0xFC OR drop_bit 30 c), ucast (0x80 OR (drop_bit 24 c AND 0x3F)),
              ucast (0x80 OR (drop_bit 18 c AND 0x3F)), ucast (0x80 OR (drop_bit 12 c AND 0x3F)),
              ucast (0x80 OR (drop_bit 6 c AND 0x3F)), ucast (0x80 OR (c AND 0x3F))])
      else (-1, []))"

text \<open>
  The loop of \<open>utf8_str_to_runestr\<close> over the first \<open>len_bytes\<close> bytes; \<open>cap\<close> is the number
  of runes that fit into \<open>dest\<close>, \<open>out\<close> what has been stored there so far.
\<close>

fun utf8_runestr_from :: "byte list \<Rightarrow> nat \<Rightarrow> u32 \<times> nat \<Rightarrow> u32 list \<Rightarrow> u32 list option" where
  "utf8_runestr_from [] cap rs out = Some out"
| "utf8_runestr_from (b1 # rest) cap rs out =
     (let (rune, state) = utf8_step b1 rs in
      if state = 0
      then (if length out < cap then utf8_runestr_from rest cap (rune, state) (out @ [rune]) else None)
      else utf8_runestr_from rest cap (rune, state) out)"

definition utf8_str_to_runestr :: "byte list \<Rightarrow> int \<Rightarrow> nat \<Rightarrow> (nat \<times> u32 list) option" where
  "utf8_str_to_runestr ustr len_bytes cap =
     (if len_bytes \<le> int (length ustr)
      then do {
        out \<leftarrow> utf8_runestr_from (take (nat len_bytes) ustr) cap (0, 0) [];
        Some (length out, out)
      }
      else None)"

section \<open>Single bytes of an encoded rune\<close>

abbreviation cont_byte :: "u64 \<Rightarrow> byte" where
  "cont_byte x \<equiv> ucast (0x80 OR (x AND 0x3F))"

lemma cont_byte_bits [simp]:
  "cont_byte x AND 0x80 \<noteq> 0"
  "cont_byte x AND 0xc0 = 0x80"
  "cont_byte x \<noteq> 0"
proof -
  have bit7: "bit (cont_byte x) 7" by (simp add: bit_simps)
  then show "cont_byte x AND 0x80 \<noteq> 0"
    using bit_and_iff [of "cont_byte x" "0x80" 7] by fastforce
  show "cont_byte x AND 0xc0 = 0x80"
    by (rule word8_eqI) (simp add: all_less_numeral bit_simps)
  show "cont_byte x \<noteq> 0"
    using bit7 by (metis bit_0_eq bot_apply bot_bool_def)
qed

lemma utf8_step_cont [simp]:
  "utf8_step (cont_byte x) (r, Suc n) = (push_bit 6 r OR (ucast (cont_byte x) AND 0x3f), n)"
  by (simp add: utf8_step_def)

lemma lead2_bits:
  assumes "c \<le> 0x7FF"
  defines "b \<equiv> ucast (0xC0 OR drop_bit 6 (c :: u64)) :: byte"
  shows "b AND 0x80 = 0x80" "b AND 0xe0 = 0xc0" "b AND 0xc0 = 0xc0"
proof -
  have "unat c < 2 ^ 11" using assms(1) by (simp add: word_le_nat_alt)
  then have c: "\<not> bit c n" if "11 \<le> n" for n using that by (rule unat_less_not_bit)
  show "b AND 0x80 = 0x80" "b AND 0xe0 = 0xc0" "b AND 0xc0 = 0xc0"
    by (rule word8_eqI, simp add: b_def all_less_numeral bit_simps c)+
qed

lemma lead3_bits:
  assumes "c \<le> 0xFFFF"
  defines "b \<equiv> ucast (0xE0 OR drop_bit 12 (c :: u64)) :: byte"
  shows "b AND 0x80 = 0x80" "b AND 0xe0 = 0xe0" "b AND 0xf0 = 0xe0" "b AND 0xc0 = 0xc0"
proof -
  have "unat c < 2 ^ 16" using assms(1) by (simp add: word_le_nat_alt)
  then have c: "\<not> bit c n" if "16 \<le> n" for n using that by (rule unat_less_not_bit)
  show "b AND 0x80 = 0x80" "b AND 0xe0 = 0xe0" "b AND 0xf0 = 0xe0" "b AND 0xc0 = 0xc0"
    by (rule word8_eqI, simp add: b_def all_less_numeral bit_simps c)+
qed

lemma lead4_bits:
  assumes "c \<le> 0x1FFFFF"
  defines "b \<equiv> ucast (0xF0 OR drop_bit 18 (c :: u64)) :: byte"
  shows "b AND 0x80 = 0x80" "b AND 0xe0 = 0xe0" "b AND 0xf0 = 0xf0" "b AND 0xf8 = 0xf0" "b AND 0xc0 = 0xc0"
proof -
  have "unat c < 2 ^ 21" using assms(1) by (simp add: word_le_nat_alt)
  then have c: "\<not> bit c n" if "21 \<le> n" for n using that by (rule unat_less_not_bit)
  show "b AND 0x80 = 0x80" "b AND 0xe0 = 0xe0" "b AND 0xf0 = 0xf0" "b AND 0xf8 = 0xf0" "b AND 0xc0 = 0xc0"
    by (rule word8_eqI, simp add: b_def all_less_numeral bit_simps c)+
qed

section \<open>Decoding one encoded rune\<close>

lemma rune2_value:
  assumes "c \<le> 0x7FF"
  shows "push_bit 6 (ucast (ucast (0xC0 OR drop_bit 6 c) :: byte) AND 0x1f) OR (ucast (cont_byte c) AND 0x3f)
     = (ucast c :: u32)"
proof -
  have "unat c < 2 ^ 11" using assms by (simp add: word_le_nat_alt)
  then have c: "\<not> bit c n" if "11 \<le> n" for n using that by (rule unat_less_not_bit)
  show ?thesis by (rule word32_eqI) (simp add: all_less_numeral bit_simps c)
qed

lemma rune3_value:
  assumes "c \<le> 0xFFFF"
  shows "push_bit 6 (push_bit 6 (ucast (ucast (0xE0 OR drop_bit 12 c) :: byte) AND 0x0f)
        OR (ucast (cont_byte (drop_bit 6 c)) AND 0x3f)) OR (ucast (cont_byte c) AND 0x3f)
     = (ucast c :: u32)"
proof -
  have "unat c < 2 ^ 16" using assms by (simp add: word_le_nat_alt)
  then have c: "\<not> bit c n" if "16 \<le> n" for n using that by (rule unat_less_not_bit)
  show ?thesis by (rule word32_eqI) (simp add: all_less_numeral bit_simps c)
qed

lemma rune4_value:
  assumes "c \<le> 0x1FFFFF"
  shows "push_bit 6 (push_bit 6 (push_bit 6 (ucast (ucast (0xF0 OR drop_bit 18 c) :: byte) AND 0x07)
        OR (ucast (cont_byte (drop_bit 12 c)) AND 0x3f))
        OR (ucast (cont_byte (drop_bit 6 c)) AND 0x3f)) OR (ucast (cont_byte c) AND 0x3f)
     = (ucast c :: u32)"
proof -
  have "unat c < 2 ^ 21" using assms by (simp add: word_le_nat_alt)
  then have c: "\<not> bit c n" if "21 \<le> n" for n using that by (rule unat_less_not_bit)
  show ?thesis by (rule word32_eqI) (simp add: all_less_numeral bit_simps c)
qed

lemma ascii_byte:
  assumes "c \<le> (0x7F :: u64)"
  shows "(ucast c :: byte) AND 0x80 = 0" "ucast (ucast c :: byte) = (ucast c :: u32)"
    "(ucast c :: byte) AND 0xc0 \<noteq> 0x80" "(ucast c :: byte) = 0 \<longleftrightarrow> c = 0"
proof -
  have "unat c < 2 ^ 7" using assms by (simp add: word_le_nat_alt)
  then have c: "\<not> bit c n" if "7 \<le> n" for n using that by (rule unat_less_not_bit)
  show *: "(ucast c :: byte) AND 0x80 = 0"
    by (rule word8_eqI) (simp add: all_less_numeral bit_simps c)
  show "ucast (ucast c :: byte) = (ucast c :: u32)"
    by (rule word32_eqI) (simp add: all_less_numeral bit_simps c)
  have "\<not> bit ((ucast c :: byte) AND 0xc0) 7" by (simp add: bit_simps c)
  then show "(ucast c :: byte) AND 0xc0 \<noteq> 0x80"
    using bit_numeral_simps by fastforce
  have "unat (ucast c :: byte) = unat c"
    using \<open>unat c < 2 ^ 7\<close> by (simp add: unsigned_ucast_eq take_bit_nat_eq_self)
  then show "(ucast c :: byte) = 0 \<longleftrightarrow> c = 0"
    by (metis unat_eq_zero)
qed

text \<open>An encoded rune is a lead byte and continuation bytes; the lead byte fixes their number.\<close>

definition decodes_to :: "byte list \<Rightarrow> u32 \<Rightarrow> bool" where
  "decodes_to e r \<longleftrightarrow>
     e \<noteq> []
     \<and> (\<forall>r0. fold utf8_step e (r0, 0) = (r, 0))
     \<and> (\<forall>r0. \<forall>k < length e - 1. snd (fold utf8_step (take (Suc k) e) (r0, 0)) \<noteq> 0)
     \<and> hd e AND 0xc0 \<noteq> 0x80 \<and> (\<forall>x \<in> set (tl e). x AND 0xc0 = 0x80)
     \<and> length e = utf8_rune_len (hd e)"

lemma rune_to_utf8_decodes:
  assumes "c \<le> 0x1FFFFF"
  shows "decodes_to (snd (rune_to_utf8 c)) (ucast c)"
proof -
  consider (one) "c \<le> 0x7F" | (two) "\<not> c \<le> 0x7F" "c \<le> 0x7FF" | (three) "\<not> c \<le> 0x7F" "\<not> c \<le> 0x7FF" "c \<le> 0xFFFF"
    | (four) "\<not> c \<le> 0x7F" "\<not> c \<le> 0x7FF" "\<not> c \<le> 0xFFFF" using assms by blast
  then show ?thesis
  proof cases
    case one
    then show ?thesis
      by (simp add: decodes_to_def rune_to_utf8_def ascii_byte utf8_step_def utf8_rune_len_def)
  next
    case two
    then show ?thesis
      by (simp add: decodes_to_def rune_to_utf8_def lead2_bits rune2_value utf8_step_def utf8_rune_len_def less_Suc_eq del: push_bit_and push_bit_or)
  next
    case three
    then show ?thesis
      by (simp add: decodes_to_def rune_to_utf8_def lead3_bits rune3_value utf8_step_def utf8_rune_len_def less_Suc_eq del: push_bit_and push_bit_or)
  next
    case four
    then show ?thesis using assms
      by (simp add: decodes_to_def rune_to_utf8_def lead4_bits rune4_value utf8_step_def utf8_rune_len_def less_Suc_eq del: push_bit_and push_bit_or)
  qed
qed

lemma runestr_run:
  assumes "e \<noteq> []" "fold utf8_step e rs = (r, 0)"
    and "\<forall>k < length e - 1. snd (fold utf8_step (take (Suc k) e) rs) \<noteq> 0"
  shows "utf8_runestr_from (e @ rest) cap rs out =
     (if length out < cap then utf8_runestr_from rest cap (r, 0) (out @ [r]) else None)"
  using assms
proof (induction e arbitrary: rs)
  case (Cons b e)
  show ?case
  proof (cases "e = []")
    case True
    with Cons.prems show ?thesis by simp
  next
    case False
    have "snd (utf8_step b rs) \<noteq> 0"
      using Cons.prems(3) [rule_format, of 0] False by (cases e) simp_all
    moreover have "\<forall>k < length e - 1. snd (fold utf8_step (take (Suc k) e) (utf8_step b rs)) \<noteq> 0"
      using Cons.prems(3) [rule_format, of "Suc _"] by auto
    ultimately show ?thesis
      using Cons.IH [OF False, of "utf8_step b rs"] Cons.prems(2) by (auto split: prod.splits)
  qed
qed simp

lemma rune_at_run:
  assumes "e \<noteq> []" "0 \<notin> set e" "fold utf8_step e rs = (r, 0)"
    and "\<forall>k < length e - 1. snd (fold utf8_step (take (Suc k) e) rs) \<noteq> 0"
  shows "utf8_rune_at_from (e @ rest) idx j rs =
     (if idx = j then Some r else utf8_rune_at_from rest idx (Suc j) (r, 0))"
  using assms
proof (induction e arbitrary: rs)
  case (Cons b e)
  show ?case
  proof (cases "e = []")
    case True
    with Cons.prems show ?thesis by auto
  next
    case False
    have "snd (utf8_step b rs) \<noteq> 0"
      using Cons.prems(4) [rule_format, of 0] False by (cases e) simp_all
    moreover have "\<forall>k < length e - 1. snd (fold utf8_step (take (Suc k) e) (utf8_step b rs)) \<noteq> 0"
      using Cons.prems(4) [rule_format, of "Suc _"] by auto
    ultimately show ?thesis
      using Cons.IH [OF False, of "utf8_step b rs"] Cons.prems(2,3) by (auto split: prod.splits)
  qed
qed simp

lemma strlen_conts:
  "0 \<notin> set cs \<Longrightarrow> \<forall>x \<in> set cs. x AND 0xc0 = 0x80 \<Longrightarrow> int (length cs) \<le> n \<Longrightarrow>
   utf8_strlen_from (cs @ rest) n j = utf8_strlen_from rest (n - int (length cs)) j"
  by (induction cs arbitrary: n) (auto simp: algebra_simps)

lemma strlen_run:
  assumes "decodes_to e r" "0 \<notin> set e" "int (length e) \<le> n"
  shows "utf8_strlen_from (e @ rest) n j = utf8_strlen_from rest (n - int (length e)) (Suc j)"
proof -
  obtain b cs where e: "e = b # cs" using assms(1) by (cases e) (auto simp: decodes_to_def)
  then have "b AND 0xc0 \<noteq> 0x80" "\<forall>x \<in> set cs. x AND 0xc0 = 0x80"
    using assms(1) by (simp_all add: decodes_to_def)
  then show ?thesis
    using assms(2,3) e strlen_conts [of cs "n - 1" rest "Suc j"] by (auto simp: algebra_simps)
qed

section \<open>Encoded strings\<close>

definition enc :: "u64 \<Rightarrow> byte list" where
  "enc c = snd (rune_to_utf8 c)"

definition enc_str :: "u64 list \<Rightarrow> byte list" where
  "enc_str cs = concat (map enc cs)"

lemma enc_decodes: "c \<le> 0x1FFFFF \<Longrightarrow> decodes_to (enc c) (ucast c)"
  by (simp add: enc_def rune_to_utf8_decodes)

lemma enc_no_nul: "c \<le> 0x1FFFFF \<Longrightarrow> c \<noteq> 0 \<Longrightarrow> 0 \<notin> set (enc c)"
proof -
  assume c: "c \<le> 0x1FFFFF" "c \<noteq> 0"
  have lead: "x \<noteq> 0" if "x AND m = m'" "m' \<noteq> 0" for x m m' :: byte using that by auto
  consider (one) "c \<le> 0x7F" | (two) "\<not> c \<le> 0x7F" "c \<le> 0x7FF" | (three) "\<not> c \<le> 0x7F" "\<not> c \<le> 0x7FF" "c \<le> 0xFFFF"
    | (four) "\<not> c \<le> 0x7F" "\<not> c \<le> 0x7FF" "\<not> c \<le> 0xFFFF" using c by blast
  then show ?thesis
  proof cases
    case one
    then have "(ucast c :: byte) \<noteq> 0" using ascii_byte(4) c(2) by blast
    with one show ?thesis by (simp add: enc_def rune_to_utf8_def)
  next
    case two
    then show ?thesis using lead [OF lead2_bits(1)] cont_byte_bits(3)
      by (simp add: enc_def rune_to_utf8_def)
  next
    case three
    then show ?thesis using lead [OF lead3_bits(1)] cont_byte_bits(3)
      by (simp add: enc_def rune_to_utf8_def)
  next
    case four
    then show ?thesis using lead [OF lead4_bits(1)] cont_byte_bits(3) c
      by (simp add: enc_def rune_to_utf8_def)
  qed
qed

lemma runestr_enc_str:
  assumes "\<forall>c \<in> set cs. c \<le> 0x1FFFFF" "length out + length cs \<le> cap"
  shows "utf8_runestr_from (enc_str cs) cap (r0, 0) out = Some (out @ map ucast cs)"
  using assms
proof (induction cs arbitrary: r0 out)
  case (Cons c cs)
  have "decodes_to (enc c) (ucast c)" using Cons.prems by (simp add: enc_decodes)
  then have "utf8_runestr_from (enc c @ enc_str cs) cap (r0, 0) out =
      utf8_runestr_from (enc_str cs) cap (ucast c, 0) (out @ [ucast c])"
    using Cons.prems by (subst runestr_run [where r = "ucast c"]) (auto simp: decodes_to_def)
  with Cons show ?case by (simp add: enc_str_def)
qed (simp add: enc_str_def)

lemma rune_at_enc_str:
  assumes "\<forall>c \<in> set cs. c \<noteq> 0 \<and> c \<le> 0x1FFFFF"
  shows "utf8_rune_at_from (enc_str cs @ [0]) (j + i) j (r0, 0) = Some (if i < length cs then ucast (cs ! i) else 0)"
  using assms
proof (induction cs arbitrary: r0 i j)
  case (Cons c cs)
  have "decodes_to (enc c) (ucast c)" "0 \<notin> set (enc c)"
    using Cons.prems by (simp_all add: enc_decodes enc_no_nul)
  then have "utf8_rune_at_from (enc c @ enc_str cs @ [0]) (j + i) j (r0, 0) =
      (if j + i = j then Some (ucast c) else utf8_rune_at_from (enc_str cs @ [0]) (j + i) (Suc j) (ucast c, 0))"
    by (intro rune_at_run) (auto simp: decodes_to_def)
  with Cons.prems Cons.IH [of "Suc j" "i - 1" "ucast c"] show ?case
    by (cases i) (auto simp: enc_str_def)
qed (simp add: enc_str_def)

lemma strlen_enc_str:
  assumes "\<forall>c \<in> set cs. c \<noteq> 0 \<and> c \<le> 0x1FFFFF" "int (length (enc_str cs)) \<le> n"
  shows "utf8_strlen_from (enc_str cs @ [0]) n j = Some (j + length cs)"
  using assms
proof (induction cs arbitrary: n j)
  case (Cons c cs)
  have "decodes_to (enc c) (ucast c)" "0 \<notin> set (enc c)"
    using Cons.prems by (simp_all add: enc_decodes enc_no_nul)
  then have "utf8_strlen_from (enc c @ enc_str cs @ [0]) n j
      = utf8_strlen_from (enc_str cs @ [0]) (n - int (length (enc c))) (Suc j)"
    using Cons.prems(2) by (intro strlen_run) (auto simp: enc_str_def)
  with Cons.prems Cons.IH [of "n - int (length (enc c))" "Suc j"] show ?case
    by (simp add: enc_str_def)
qed (simp add: enc_str_def)

section \<open>Properties\<close>

text \<open>
  C21: decoding is a left inverse of encoding. A sequence of runes below 0x200000, each written by
  \<open>rune_to_utf8\<close>, is read back rune by rune by \<open>utf8_str_to_runestr\<close>, whose return value
  is the number of runes, provided the destination holds that many.
\<close>

theorem utf8_roundtrip:
  assumes "\<forall>c \<in> set cs. c \<le> 0x1FFFFF" and "length cs \<le> cap"
  shows "utf8_str_to_runestr (concat (map (\<lambda>c. snd (rune_to_utf8 c)) cs))
      (int (length (concat (map (\<lambda>c. snd (rune_to_utf8 c)) cs)))) cap
    = Some (length cs, map ucast cs)"
proof -
  have "utf8_runestr_from (enc_str cs) cap (0, 0) [] = Some ([] @ map ucast cs)"
    using assms by (intro runestr_enc_str) auto
  moreover have "enc_str cs = concat (map (\<lambda>c. snd (rune_to_utf8 c)) cs)"
    by (simp add: enc_str_def enc_def [abs_def])
  ultimately show ?thesis
    by (simp add: utf8_str_to_runestr_def)
qed

theorem utf8_roundtrip_witness:
  "utf8_str_to_runestr (concat (map (\<lambda>c. snd (rune_to_utf8 c)) [0x41, 0xE9, 0x20AC, 0x1F600]))
      (int (length (concat (map (\<lambda>c. snd (rune_to_utf8 c)) [0x41, 0xE9, 0x20AC, 0x1F600])))) 4
    = Some (4, [0x41, 0xE9, 0x20AC, 0x1F600])"
  using utf8_roundtrip [of "[0x41, 0xE9, 0x20AC, 0x1F600]" 4] by simp

text \<open>
  C22: in a NUL-terminated encoded string, \<open>utf8_rune_at\<close> returns the rune at every index and 0
  past the end, and \<open>utf8_strlen\<close> counts the runes.
\<close>

theorem utf8_indexing:
  assumes "\<forall>c \<in> set cs. c \<noteq> 0 \<and> c \<le> 0x1FFFFF"
  shows "utf8_rune_at (enc_str cs @ [0]) i = Some (if i < length cs then ucast (cs ! i) else 0)
    \<and> utf8_strlen (enc_str cs @ [0]) (int (length (enc_str cs))) = Some (length cs)"
  using rune_at_enc_str [OF assms, of 0 i 0] strlen_enc_str [OF assms, of _ 0]
  by (simp add: utf8_rune_at_def utf8_strlen_def)

theorem utf8_indexing_witness:
  "utf8_rune_at (enc_str [0x41, 0x20AC] @ [0]) 1 = Some 0x20AC
   \<and> utf8_strlen (enc_str [0x41, 0x20AC] @ [0]) (int (length (enc_str [0x41, 0x20AC]))) = Some 2"
  using utf8_indexing [of "[0x41, 0x20AC]" 1] by simp

text \<open>
  \<open>rune_to_utf8\<close> reports success exactly for the runes below 0x200000, writes at most six
  bytes, and for those runes \<open>utf8_rune_len\<close> reads the number of bytes back off the first
  byte.
\<close>

theorem rune_to_utf8_length:
  "(fst (rune_to_utf8 c) = 0 \<longleftrightarrow> c \<le> 0x1FFFFF)
   \<and> length (snd (rune_to_utf8 c)) \<le> 6
   \<and> (c \<le> 0x1FFFFF \<longrightarrow> length (snd (rune_to_utf8 c)) = utf8_rune_len (hd (snd (rune_to_utf8 c))))"
proof (intro conjI impI)
  show "fst (rune_to_utf8 c) = 0 \<longleftrightarrow> c \<le> 0x1FFFFF"
    by (simp add: rune_to_utf8_def word_le_nat_alt)
  show "length (snd (rune_to_utf8 c)) \<le> 6"
    by (simp add: rune_to_utf8_def)
  show "length (snd (rune_to_utf8 c)) = utf8_rune_len (hd (snd (rune_to_utf8 c)))" if "c \<le> 0x1FFFFF"
    using rune_to_utf8_decodes [OF that] by (simp add: decodes_to_def)
qed

theorem rune_to_utf8_length_witness:
  "length (snd (rune_to_utf8 0x20AC)) = utf8_rune_len (hd (snd (rune_to_utf8 0x20AC)))"
  using rune_to_utf8_length [of "0x20AC"] by simp

end
