(* ===== verification/Jit_Arm.thy ===== *)
theory Jit_Arm
  imports Jit
begin

unbundle bit_operations_syntax

text \<open>
  The code generator for ARM (\<^verbatim>\<open>src/sledge/jit_arm_raw.c\<close>): each function writes machine words into the array
  \<open>code\<close>, constants go to a pool behind the instructions, and a branch to a label that is not yet defined is patched when
  the label is.
\<close>

section \<open>State of the generator\<close>

text \<open>
  The array \<open>code\<close> has \<open>CODESZ\<close> bytes, that is 2048 words: instructions from the start, constants from \<open>gap\<close> on. The
  labels that are defined and the branches that wait for a label are lists as long as \<open>label_idx\<close> and
  \<open>unres_labels\<close>; a branch that is resolved keeps its place with the name NULL.
\<close>

record arm =
  arm_code :: "nat \<Rightarrow> u32"
  code_idx :: nat
  cpool_idx :: nat
  jit_labels :: "(cstr \<times> nat) list"
  jit_labels_unres :: "(cstr option \<times> nat) list"

definition JIT_MAX_LABELS :: nat where "JIT_MAX_LABELS = 32"
definition CODE_WORDS :: nat where "CODE_WORDS = 2048"

definition jit_init_arm :: "nat \<Rightarrow> arm" where
  "jit_init_arm gap = \<lparr>arm_code = \<lambda>_. 0, code_idx = 0, cpool_idx = gap, jit_labels = [], jit_labels_unres = []\<rparr>"

text \<open>\<open>code[code_idx++] = op\<close>; a write outside of the array is stuck.\<close>

definition put_arm :: "u32 \<Rightarrow> arm \<Rightarrow> arm option" where
  "put_arm op s = (if code_idx s < CODE_WORDS
     then Some (s\<lparr>arm_code := (arm_code s)(code_idx s := op), code_idx := code_idx s + 1\<rparr>) else None)"

text \<open>A register number shifted into a field of the instruction.\<close>

definition reg_at :: "nat \<Rightarrow> nat \<Rightarrow> u32" where
  "reg_at k r = push_bit k (of_nat r)"

section \<open>Moves, loads and stores\<close>

definition jit_movi_arm :: "nat \<Rightarrow> u32 \<Rightarrow> arm \<Rightarrow> arm option" where
  "jit_movi_arm r imm s =
     (if cpool_idx s < CODE_WORDS
      then let op = 0xe5900000 OR push_bit 16 15 OR reg_at 12 r OR (of_nat (cpool_idx s) - of_nat (code_idx s) - 2) * 4 in
           put_arm op (s\<lparr>arm_code := (arm_code s)(cpool_idx s := imm), cpool_idx := cpool_idx s + 1\<rparr>)
      else None)"

definition jit_movr_arm :: "nat \<Rightarrow> nat \<Rightarrow> arm \<Rightarrow> arm option" where
  "jit_movr_arm d r = put_arm (0xe1a00000 OR reg_at 0 r OR reg_at 12 d)"

definition jit_movneg_arm :: "nat \<Rightarrow> nat \<Rightarrow> arm \<Rightarrow> arm option" where
  "jit_movneg_arm d r = put_arm (0x41a00000 OR reg_at 0 r OR reg_at 12 d)"

definition jit_movne_arm :: "nat \<Rightarrow> nat \<Rightarrow> arm \<Rightarrow> arm option" where
  "jit_movne_arm d r = put_arm (0x11a00000 OR reg_at 0 r OR reg_at 12 d)"

definition jit_moveq_arm :: "nat \<Rightarrow> nat \<Rightarrow> arm \<Rightarrow> arm option" where
  "jit_moveq_arm d r = put_arm (0x01a00000 OR reg_at 0 r OR reg_at 12 d)"

definition jit_lea_arm :: "nat \<Rightarrow> u32 \<Rightarrow> arm \<Rightarrow> arm option" where
  "jit_lea_arm = jit_movi_arm"

definition jit_ldr_arm :: "nat \<Rightarrow> arm \<Rightarrow> arm option" where
  "jit_ldr_arm r = put_arm (0xe5900000 OR reg_at 16 r OR reg_at 12 r)"

definition jit_ldr_stack_arm :: "nat \<Rightarrow> int \<Rightarrow> arm \<Rightarrow> arm option" where
  "jit_ldr_stack_arm d offset =
     put_arm ((if offset < 0 then 0xe51d0000 else 0xe59d0000) OR (word_of_int \<bar>offset\<bar> AND 0xfff) OR reg_at 12 d)"

definition jit_str_stack_arm :: "nat \<Rightarrow> int \<Rightarrow> arm \<Rightarrow> arm option" where
  "jit_str_stack_arm r offset =
     put_arm ((if offset < 0 then 0xe51d0000 else 0xe58d0000) OR (word_of_int \<bar>offset\<bar> AND 0xfff) OR reg_at 12 r)"

definition jit_inc_stack_arm :: "int \<Rightarrow> arm \<Rightarrow> arm option" where
  "jit_inc_stack_arm offset = put_arm (0xe28dd000 OR (word_of_int offset AND 0xfff))"

definition jit_dec_stack_arm :: "int \<Rightarrow> arm \<Rightarrow> arm option" where
  "jit_dec_stack_arm offset = put_arm (0xe24dd000 OR (word_of_int offset AND 0xfff))"

definition jit_ldrw_arm :: "nat \<Rightarrow> arm \<Rightarrow> arm option" where
  "jit_ldrw_arm = jit_ldr_arm"

definition jit_ldrb_arm :: "nat \<Rightarrow> arm \<Rightarrow> arm option" where
  "jit_ldrb_arm r = put_arm (0xe5900000 OR push_bit 22 1 OR reg_at 16 r OR reg_at 12 3)"

definition jit_ldrs_arm :: "nat \<Rightarrow> arm \<Rightarrow> arm option" where
  "jit_ldrs_arm r = put_arm (0xe1d000b0 OR push_bit 22 1 OR reg_at 16 r OR reg_at 12 3)"

definition jit_strb_arm :: "nat \<Rightarrow> arm \<Rightarrow> arm option" where
  "jit_strb_arm r = put_arm (0xe5800000 OR push_bit 22 1 OR reg_at 16 r OR reg_at 12 3)"

definition jit_strs_arm :: "nat \<Rightarrow> arm \<Rightarrow> arm option" where
  "jit_strs_arm r = put_arm (0xe1c000b0 OR push_bit 22 1 OR reg_at 16 r OR reg_at 12 3)"

definition jit_strw_arm :: "nat \<Rightarrow> arm \<Rightarrow> arm option" where
  "jit_strw_arm r = put_arm (0xe5800000 OR reg_at 16 r OR reg_at 12 3)"

definition jit_stra_arm :: "nat \<Rightarrow> arm \<Rightarrow> arm option" where
  "jit_stra_arm = jit_strw_arm"

section \<open>Arithmetic\<close>

definition jit_addr_arm :: "nat \<Rightarrow> nat \<Rightarrow> arm \<Rightarrow> arm option" where
  "jit_addr_arm d r = put_arm (0xe0900000 OR reg_at 0 r OR reg_at 12 d OR reg_at 16 d)"

definition jit_addi_arm :: "nat \<Rightarrow> int \<Rightarrow> arm \<Rightarrow> arm option" where
  "jit_addi_arm d imm s = Option.bind (jit_movi_arm 9 (word_of_int imm) s) (jit_addr_arm d 9)"

definition jit_subr_arm :: "nat \<Rightarrow> nat \<Rightarrow> arm \<Rightarrow> arm option" where
  "jit_subr_arm d r = put_arm (0xe0500000 OR reg_at 0 r OR reg_at 12 d OR reg_at 16 d)"

definition jit_mulr_arm :: "nat \<Rightarrow> nat \<Rightarrow> arm \<Rightarrow> arm option" where
  "jit_mulr_arm d r = put_arm (0xe0100090 OR reg_at 8 r OR reg_at 0 d OR reg_at 16 d)"

definition jit_andr_arm :: "nat \<Rightarrow> nat \<Rightarrow> arm \<Rightarrow> arm option" where
  "jit_andr_arm d r = put_arm (0xe0000000 OR reg_at 0 r OR reg_at 12 d OR reg_at 16 d)"

definition jit_notr_arm :: "nat \<Rightarrow> arm \<Rightarrow> arm option" where
  "jit_notr_arm d = put_arm (0xe1e00000 OR reg_at 0 d OR reg_at 12 d)"

definition jit_orr_arm :: "nat \<Rightarrow> nat \<Rightarrow> arm \<Rightarrow> arm option" where
  "jit_orr_arm d r = put_arm (0xe1800000 OR reg_at 0 r OR reg_at 12 d OR reg_at 16 d)"

definition jit_xorr_arm :: "nat \<Rightarrow> nat \<Rightarrow> arm \<Rightarrow> arm option" where
  "jit_xorr_arm d r = put_arm (0xe0200000 OR reg_at 0 r OR reg_at 12 d OR reg_at 16 d)"

definition jit_shlr_arm :: "nat \<Rightarrow> nat \<Rightarrow> arm \<Rightarrow> arm option" where
  "jit_shlr_arm d r = put_arm (0xe1a00010 OR reg_at 8 r OR reg_at 12 d OR reg_at 0 d)"

definition jit_shrr_arm :: "nat \<Rightarrow> nat \<Rightarrow> arm \<Rightarrow> arm option" where
  "jit_shrr_arm d r = put_arm (0xe1a00030 OR reg_at 8 r OR reg_at 12 d OR reg_at 0 d)"

section \<open>Calls and comparisons\<close>

text \<open>\<open>func\<close> is the address of the C function.\<close>

definition jit_call_arm :: "u32 \<Rightarrow> arm \<Rightarrow> arm option" where
  "jit_call_arm func s =
     do {
       s \<leftarrow> put_arm 0xe92d4000 s;
       s \<leftarrow> jit_movr_arm 14 15 s;
       s \<leftarrow> jit_lea_arm 15 func s;
       put_arm 0xe8bd4000 s
     }"

definition jit_callr_arm :: "nat \<Rightarrow> arm \<Rightarrow> arm option" where
  "jit_callr_arm r s =
     do {
       s \<leftarrow> put_arm 0xe92d4000 s;
       s \<leftarrow> jit_movr_arm 14 15 s;
       s \<leftarrow> jit_movr_arm 15 r s;
       put_arm 0xe8bd4000 s
     }"

text \<open>Division and remainder are calls of C functions (\<open>inline_div\<close>, \<open>inline_mod\<close>).\<close>

definition jit_divr_arm :: "u32 \<Rightarrow> nat \<Rightarrow> nat \<Rightarrow> arm \<Rightarrow> arm option" where
  "jit_divr_arm func d r s =
     do {
       s \<leftarrow> jit_movr_arm 0 d s;
       s \<leftarrow> jit_movr_arm 1 r s;
       s \<leftarrow> jit_call_arm func s;
       if d \<noteq> 0 then jit_movr_arm d 0 s else Some s
     }"

definition jit_modr_arm :: "u32 \<Rightarrow> nat \<Rightarrow> nat \<Rightarrow> arm \<Rightarrow> arm option" where
  "jit_modr_arm = jit_divr_arm"

definition jit_cmpr_arm :: "nat \<Rightarrow> nat \<Rightarrow> arm \<Rightarrow> arm option" where
  "jit_cmpr_arm r d = put_arm (0xe1500000 OR reg_at 0 r OR reg_at 16 d)"

definition jit_cmpi_arm :: "nat \<Rightarrow> int \<Rightarrow> arm \<Rightarrow> arm option" where
  "jit_cmpi_arm r imm = put_arm (0xe3500000 OR (word_of_int imm AND 0xffff) OR reg_at 16 r)"

section \<open>Labels and branches\<close>

definition find_label :: "cstr \<Rightarrow> arm \<Rightarrow> nat option" where
  "find_label l s = map_option snd (find (\<lambda>x. fst x = l) (jit_labels s))"

definition jit_emit_branch :: "u32 \<Rightarrow> cstr \<Rightarrow> arm \<Rightarrow> arm option" where
  "jit_emit_branch op l s =
     (case find_label l s of
        Some t \<Rightarrow>
          (let offset = int t - int (code_idx s) - 2 in
           if offset < 0 then put_arm (op OR word_of_int (0x1000000 - (- offset))) s else Some s)
      | None \<Rightarrow>
          if length (jit_labels_unres s) < JIT_MAX_LABELS
          then put_arm op (s\<lparr>jit_labels_unres := jit_labels_unres s @ [(Some l, code_idx s)]\<rparr>)
          else None)"

definition jit_je_arm :: "cstr \<Rightarrow> arm \<Rightarrow> arm option" where
  "jit_je_arm = jit_emit_branch 0x0a000000"

definition jit_jge_arm :: "cstr \<Rightarrow> arm \<Rightarrow> arm option" where
  "jit_jge_arm = jit_emit_branch 0xaa000000"

definition jit_jne_arm :: "cstr \<Rightarrow> arm \<Rightarrow> arm option" where
  "jit_jne_arm = jit_emit_branch 0x1a000000"

definition jit_jneg_arm :: "cstr \<Rightarrow> arm \<Rightarrow> arm option" where
  "jit_jneg_arm = jit_emit_branch 0x4a000000"

definition jit_jmp_arm :: "cstr \<Rightarrow> arm \<Rightarrow> arm option" where
  "jit_jmp_arm = jit_emit_branch 0xea000000"

text \<open>The loop of \<open>jit_label\<close> over the branches that wait for the label: \<open>t\<close> is its index.\<close>

fun resolve_branches :: "cstr \<Rightarrow> nat \<Rightarrow> (cstr option \<times> nat) list \<Rightarrow> (nat \<Rightarrow> u32) \<Rightarrow> (cstr option \<times> nat) list \<times> (nat \<Rightarrow> u32)" where
  "resolve_branches l t [] code = ([], code)"
| "resolve_branches l t ((name, i) # us) code =
     (if name = Some l
      then let (us, code) = resolve_branches l t us (code(i := code i OR (of_nat t - of_nat i - 2))) in ((None, 0) # us, code)
      else let (us, code) = resolve_branches l t us code in ((name, i) # us, code))"

definition jit_label_arm :: "cstr \<Rightarrow> arm \<Rightarrow> arm option" where
  "jit_label_arm l s =
     (if length (jit_labels s) < JIT_MAX_LABELS
      then let (us, code) = resolve_branches l (code_idx s) (jit_labels_unres s) (arm_code s) in
           Some (s\<lparr>jit_labels := jit_labels s @ [(l, code_idx s)], jit_labels_unres := us, arm_code := code\<rparr>)
      else None)"

section \<open>Return and register lists\<close>

definition jit_ret_arm :: "arm \<Rightarrow> arm option" where
  "jit_ret_arm = jit_movr_arm 15 14"

text \<open>The bit pattern of the registers \<open>a\<close> to \<open>b\<close>.\<close>

definition reg_list :: "nat \<Rightarrow> nat \<Rightarrow> u32 \<Rightarrow> u32" where
  "reg_list a b op = fold (\<lambda>i op. op OR push_bit i 1) [a..<Suc b] op"

definition jit_push_arm :: "nat \<Rightarrow> nat \<Rightarrow> arm \<Rightarrow> arm option" where
  "jit_push_arm a b = put_arm (reg_list a b 0xe92d0000)"

definition jit_pop_arm :: "nat \<Rightarrow> nat \<Rightarrow> arm \<Rightarrow> arm option" where
  "jit_pop_arm a b = put_arm (reg_list a b 0xe8bd0000)"

text \<open>\<open>jit_host_call_enter\<close>, \<open>jit_host_call_exit\<close> and \<open>jit_comment\<close> have empty bodies.\<close>

definition jit_nothing_arm :: "arm \<Rightarrow> arm option" where
  "jit_nothing_arm = Some"

section \<open>All operations\<close>

text \<open>\<open>addr\<close> and \<open>fn\<close> are the addresses of objects and of C functions, \<open>div_fn\<close> that of \<open>inline_div\<close>.\<close>

fun emit_arm :: "(val \<Rightarrow> u32) \<Rightarrow> (hostfn \<Rightarrow> u32) \<Rightarrow> u32 \<Rightarrow> jit \<Rightarrow> arm \<Rightarrow> arm option" where
  "emit_arm addr fn div_fn (JMovi r v) = jit_movi_arm r (addr v)"
| "emit_arm addr fn div_fn (JMovr d r) = jit_movr_arm d r"
| "emit_arm addr fn div_fn (JMovneg d r) = jit_movneg_arm d r"
| "emit_arm addr fn div_fn (JMovne d r) = jit_movne_arm d r"
| "emit_arm addr fn div_fn (JMoveq d r) = jit_moveq_arm d r"
| "emit_arm addr fn div_fn (JLea r v) = jit_lea_arm r (addr v)"
| "emit_arm addr fn div_fn (JLdr r) = jit_ldr_arm r"
| "emit_arm addr fn div_fn (JLdr_stack r i) = jit_ldr_stack_arm r i"
| "emit_arm addr fn div_fn (JStr_stack r i) = jit_str_stack_arm r i"
| "emit_arm addr fn div_fn (JInc_stack i) = jit_inc_stack_arm i"
| "emit_arm addr fn div_fn (JDec_stack i) = jit_dec_stack_arm i"
| "emit_arm addr fn div_fn (JLdrb r) = jit_ldrb_arm r"
| "emit_arm addr fn div_fn (JLdrs r) = jit_ldrs_arm r"
| "emit_arm addr fn div_fn (JLdrw r) = jit_ldrw_arm r"
| "emit_arm addr fn div_fn (JStrb r) = jit_strb_arm r"
| "emit_arm addr fn div_fn (JStrs r) = jit_strs_arm r"
| "emit_arm addr fn div_fn (JStrw r) = jit_strw_arm r"
| "emit_arm addr fn div_fn (JStra r) = jit_stra_arm r"
| "emit_arm addr fn div_fn (JAddr d r) = jit_addr_arm d r"
| "emit_arm addr fn div_fn (JAddi d i) = jit_addi_arm d i"
| "emit_arm addr fn div_fn (JAndr d r) = jit_andr_arm d r"
| "emit_arm addr fn div_fn (JNotr d) = jit_notr_arm d"
| "emit_arm addr fn div_fn (JOrr d r) = jit_orr_arm d r"
| "emit_arm addr fn div_fn (JXorr d r) = jit_xorr_arm d r"
| "emit_arm addr fn div_fn (JShrr d r) = jit_shrr_arm d r"
| "emit_arm addr fn div_fn (JShlr d r) = jit_shlr_arm d r"
| "emit_arm addr fn div_fn (JSubr d r) = jit_subr_arm d r"
| "emit_arm addr fn div_fn (JMulr d r) = jit_mulr_arm d r"
| "emit_arm addr fn div_fn (JDivr d r) = jit_divr_arm div_fn d r"
| "emit_arm addr fn div_fn (JModr d r) = jit_modr_arm (fn Host_inline_mod) d r"
| "emit_arm addr fn div_fn JHost_call_enter = jit_nothing_arm"
| "emit_arm addr fn div_fn JHost_call_exit = jit_nothing_arm"
| "emit_arm addr fn div_fn (JCall f note) = jit_call_arm (fn f)"
| "emit_arm addr fn div_fn (JCallr r) = jit_callr_arm r"
| "emit_arm addr fn div_fn (JCmpi r i) = jit_cmpi_arm r i"
| "emit_arm addr fn div_fn (JCmpr r d) = jit_cmpr_arm r d"
| "emit_arm addr fn div_fn (JJe l) = jit_je_arm l"
| "emit_arm addr fn div_fn (JJne l) = jit_jne_arm l"
| "emit_arm addr fn div_fn (JJge l) = jit_jge_arm l"
| "emit_arm addr fn div_fn (JJneg l) = jit_jneg_arm l"
| "emit_arm addr fn div_fn (JJmp l) = jit_jmp_arm l"
| "emit_arm addr fn div_fn (JLabel l) = jit_label_arm l"
| "emit_arm addr fn div_fn JRet = jit_ret_arm"
| "emit_arm addr fn div_fn (JPush a b) = jit_push_arm a b"
| "emit_arm addr fn div_fn (JPop a b) = jit_pop_arm a b"
| "emit_arm addr fn div_fn (JComment c) = jit_nothing_arm"

fun emits_arm :: "(val \<Rightarrow> u32) \<Rightarrow> (hostfn \<Rightarrow> u32) \<Rightarrow> u32 \<Rightarrow> jit list \<Rightarrow> arm \<Rightarrow> arm option" where
  "emits_arm addr fn div_fn [] s = Some s"
| "emits_arm addr fn div_fn (j # js) s = Option.bind (emit_arm addr fn div_fn j s) (emits_arm addr fn div_fn js)"

end
