(* ===== verification/Arm.thy ===== *)
theory Arm
  imports Jit_Arm
begin

unbundle bit_operations_syntax

text \<open>
  The words that \<^verbatim>\<open>src/sledge/jit_arm_raw.c\<close> writes, read back as instructions. \<open>decode_arm\<close> is the encoding of the ARM
  architecture for the instructions the generator uses; \<open>assemble_arm\<close> is the two-pass assembler that knows the position of every label
  beforehand. The theorem of this theory says that the generator, which makes one pass and patches branches as their labels appear,
  leaves exactly the assembled program in the array, with the constants in the pool.
\<close>

section \<open>Decoding of instructions\<close>

text \<open>
  Conditions, operations and instructions. \<open>Data c op flags d n x\<close> puts \<open>op\<close> of register \<open>n\<close> and \<open>x\<close> into register \<open>d\<close>;
  \<open>Single c load byte n d i\<close> moves between register \<open>d\<close> and the address \<open>i\<close> bytes after register \<open>n\<close>, and \<open>Half\<close> does that for 16 bits;
  \<open>Block c load n rs\<close> pops or pushes registers; \<open>Branch c i\<close> continues \<open>i\<close> words after the instruction after the next.
\<close>

datatype acond = EQ | NE | MI | GE | AL
datatype aop = AND_op | EOR_op | SUB_op | ADD_op | CMP_op | ORR_op | MOV_op | MVN_op
datatype shift = LSL | LSR
datatype operand = Imm nat | Reg nat | Shifted nat shift nat

datatype arm_insn =
  Data acond aop bool nat nat operand
  | Mul acond bool nat nat nat
  | Single acond bool bool nat nat int
  | Half acond bool nat nat nat
  | Block acond bool nat "nat list"
  | Branch acond int

definition fld :: "nat \<Rightarrow> nat \<Rightarrow> u32 \<Rightarrow> u32" where
  "fld a n w = take_bit n (drop_bit a w)"

definition reg :: "nat \<Rightarrow> u32 \<Rightarrow> nat" where
  "reg a w = unat (fld a 4 w)"

definition decode_cond :: "u32 \<Rightarrow> acond option" where
  "decode_cond w = (if w = 0 then Some EQ else if w = 1 then Some NE else if w = 4 then Some MI
     else if w = 10 then Some GE else if w = 14 then Some AL else None)"

definition decode_op :: "u32 \<Rightarrow> aop option" where
  "decode_op w = (if w = 0 then Some AND_op else if w = 1 then Some EOR_op else if w = 2 then Some SUB_op
     else if w = 4 then Some ADD_op else if w = 10 then Some CMP_op else if w = 12 then Some ORR_op
     else if w = 13 then Some MOV_op else if w = 15 then Some MVN_op else None)"

definition decode_operand :: "u32 \<Rightarrow> operand option" where
  "decode_operand w =
     (if fld 25 1 w = 1 then if fld 8 4 w = 0 then Some (Imm (unat (fld 0 8 w))) else None
      else if fld 4 4 w = 0 then if fld 8 4 w = 0 then Some (Reg (reg 0 w)) else None
      else if fld 4 4 w = 1 then Some (Shifted (reg 0 w) LSL (reg 8 w))
      else if fld 4 4 w = 3 then Some (Shifted (reg 0 w) LSR (reg 8 w))
      else None)"

definition signed24 :: "u32 \<Rightarrow> int" where
  "signed24 w = (if uint w < 0x800000 then uint w else uint w - 0x1000000)"

definition decode_body :: "acond \<Rightarrow> u32 \<Rightarrow> arm_insn option" where
  "decode_body c w =
     (if fld 24 4 w = 10 then Some (Branch c (signed24 (fld 0 24 w)))
      else if fld 20 8 w = 0x92 then Some (Block c False (reg 16 w) (filter (bit w) [0..<16]))
      else if fld 20 8 w = 0x8b then Some (Block c True (reg 16 w) (filter (bit w) [0..<16]))
      else if fld 24 4 w = 5 \<and> fld 21 1 w = 0
        then Some (Single c (fld 20 1 w = 1) (fld 22 1 w = 1) (reg 16 w) (reg 12 w)
                     (if fld 23 1 w = 1 then uint (fld 0 12 w) else - uint (fld 0 12 w)))
      else if fld 21 7 w = 0 \<and> fld 4 4 w = 9 then Some (Mul c (fld 20 1 w = 1) (reg 16 w) (reg 0 w) (reg 8 w))
      else if fld 21 7 w = 0xe \<and> fld 4 4 w = 0xb \<and> fld 8 4 w = 0 then Some (Half c (fld 20 1 w = 1) (reg 16 w) (reg 12 w) (reg 0 w))
      else if fld 26 2 w = 0
        then do { op \<leftarrow> decode_op (fld 21 4 w); x \<leftarrow> decode_operand w; Some (Data c op (fld 20 1 w = 1) (reg 12 w) (reg 16 w) x) }
      else None)"

definition decode_arm :: "u32 \<Rightarrow> arm_insn option" where
  "decode_arm w = Option.bind (decode_cond (fld 28 4 w)) (\<lambda>c. decode_body c w)"


lemma fld_or [simp]: "fld a n (x OR y) = fld a n x OR fld a n y"
  by (simp add: fld_def)

lemma bit_reg_at: "bit (reg_at k r) i \<longleftrightarrow> k \<le> i \<and> i < 32 \<and> bit r (i - k)"
  by (auto simp: reg_at_def bit_simps)

lemma bit_fld: "bit (fld a n w) i \<longleftrightarrow> i < n \<and> bit w (a + i)"
  by (simp add: fld_def bit_simps)

lemma below_bit: "x < 2 ^ k \<Longrightarrow> bit (x :: nat) i \<Longrightarrow> i < k"
  using power_increasing [of k i "2 :: nat"] less_le_trans [of x "2 ^ k" "2 ^ i"] by (cases "i < k") (simp_all add: bit_iff_odd)

lemmas small_bit = below_bit [where k = 4, simplified]

lemma fld_reg_at_same [simp]: "r < 16 \<Longrightarrow> k + 4 \<le> 32 \<Longrightarrow> fld k 4 (reg_at k r) = of_nat r"
  by (rule bit_word_eqI) (auto simp: bit_fld bit_reg_at bit_simps dest: small_bit)

lemma fld_reg_at_disjoint [simp]: "r < 16 \<Longrightarrow> k + 4 \<le> a \<or> a + n \<le> k \<Longrightarrow> fld a n (reg_at k r) = 0"
  by (rule bit_word_eqI) (auto simp: bit_fld bit_reg_at dest: small_bit)

lemma fld_numeral [simp]:
  "fld a (numeral n) (numeral w) = take_bit (numeral n) (drop_bit a (numeral w))"
  "fld a (Suc 0) (numeral w) = take_bit (Suc 0) (drop_bit a (numeral w))"
  by (simp_all add: fld_def)

lemma unat_reg [simp]: "r < 16 \<Longrightarrow> unat (of_nat r :: u32) = r"
  by (simp add: unat_of_nat take_bit_nat_eq_self)

lemmas decode_simps = decode_arm_def decode_body_def decode_cond_def decode_op_def decode_operand_def reg_def

lemma fld_of_nat_high: "x < 2 ^ k \<Longrightarrow> k \<le> a \<Longrightarrow> fld a n (of_nat x) = 0"
  by (rule bit_word_eqI) (auto simp: bit_fld bit_simps dest: below_bit)

lemma fld_of_nat_low: "x < 2 ^ k \<Longrightarrow> k \<le> n \<Longrightarrow> fld 0 n (of_nat x) = of_nat x"
  by (rule bit_word_eqI) (auto simp: bit_fld bit_simps dest: below_bit)

lemma fld_imm8 [simp]:
  "x < 256 \<Longrightarrow> 8 \<le> a \<Longrightarrow> fld a n (of_nat x) = 0" "x < 256 \<Longrightarrow> 8 \<le> n \<Longrightarrow> fld 0 n (of_nat x) = of_nat x"
  using fld_of_nat_high [of x 8] fld_of_nat_low [of x 8] by simp_all

lemma fld_imm12 [simp]:
  "x < 4096 \<Longrightarrow> 12 \<le> a \<Longrightarrow> fld a n (of_nat x) = 0" "x < 4096 \<Longrightarrow> 12 \<le> n \<Longrightarrow> fld 0 n (of_nat x) = of_nat x"
  using fld_of_nat_high [of x 12] fld_of_nat_low [of x 12] by simp_all

lemma unat_imm [simp]: "x < 4096 \<Longrightarrow> unat (of_nat x :: u32) = x"
  by (simp add: unat_of_nat take_bit_nat_eq_self)

lemma uint_imm [simp]: "x < 4096 \<Longrightarrow> uint (of_nat x :: u32) = int x"
  by (simp add: uint_nat)

lemma and_mask_of_nat: "x < 2 ^ k \<Longrightarrow> of_nat x AND mask k = (of_nat x :: u32)"
  by (simp add: take_bit_eq_mask [symmetric] take_bit_of_nat take_bit_nat_eq_self)

lemma and_imm [simp]:
  "x < 4096 \<Longrightarrow> of_nat x AND 0xfff = (of_nat x :: u32)" "x < 65536 \<Longrightarrow> of_nat x AND 0xffff = (of_nat x :: u32)"
  using and_mask_of_nat [of x 12] and_mask_of_nat [of x 16] by (simp_all add: mask_eq_exp_minus_1)

section \<open>The instructions of an operation\<close>

text \<open>The branches, with opcode and condition.\<close>

fun branch_arm :: "jit \<Rightarrow> (u32 \<times> acond \<times> label) option" where
  "branch_arm (JJe l) = Some (0x0a000000, EQ, l)"
| "branch_arm (JJne l) = Some (0x1a000000, NE, l)"
| "branch_arm (JJge l) = Some (0xaa000000, GE, l)"
| "branch_arm (JJneg l) = Some (0x4a000000, MI, l)"
| "branch_arm (JJmp l) = Some (0xea000000, AL, l)"
| "branch_arm _ = None"

definition lit :: "nat \<Rightarrow> nat \<Rightarrow> nat \<Rightarrow> arm_insn" where
  "lit p q r = Single AL True False 15 r (4 * (int q - int p - 2))"

definition mov :: "acond \<Rightarrow> nat \<Rightarrow> nat \<Rightarrow> arm_insn" where
  "mov c d r = Data c MOV_op False d 0 (Reg r)"

definition call_arm :: "arm_insn \<Rightarrow> arm_insn list" where
  "call_arm i = [Block AL False 13 [14], mov AL 14 15, i, Block AL True 13 [14]]"

definition divide_arm :: "nat \<Rightarrow> nat \<Rightarrow> nat \<Rightarrow> nat \<Rightarrow> arm_insn list" where
  "divide_arm p q d r =
     [mov AL 0 d, mov AL 1 r] @ call_arm (lit (p + 4) q 15) @ (if d = 0 then [] else [mov AL d 0])"

text \<open>
  The instructions of the other operations, at the word \<open>p\<close> when the next constant goes to the word \<open>q\<close>; \<open>lit p q r\<close> loads that
  constant into register \<open>r\<close>.
\<close>

fun insns_arm :: "nat \<Rightarrow> nat \<Rightarrow> jit \<Rightarrow> arm_insn list" where
  "insns_arm p q (JMovi r v) = [lit p q r]"
| "insns_arm p q (JLea r v) = [lit p q r]"
| "insns_arm p q (JMovr d r) = [mov AL d r]"
| "insns_arm p q (JMovneg d r) = [mov MI d r]"
| "insns_arm p q (JMovne d r) = [mov NE d r]"
| "insns_arm p q (JMoveq d r) = [mov EQ d r]"
| "insns_arm p q (JLdr r) = [Single AL True False r r 0]"
| "insns_arm p q (JLdrw r) = [Single AL True False r r 0]"
| "insns_arm p q (JLdr_stack r i) = [Single AL True False 13 r i]"
| "insns_arm p q (JStr_stack r i) = [Single AL False False 13 r i]"
| "insns_arm p q (JInc_stack i) = [Data AL ADD_op False 13 13 (Imm (nat i))]"
| "insns_arm p q (JDec_stack i) = [Data AL SUB_op False 13 13 (Imm (nat i))]"
| "insns_arm p q (JLdrb r) = [Single AL True True r 3 0]"
| "insns_arm p q (JLdrs r) = [Half AL True r 3 0]"
| "insns_arm p q (JStrb r) = [Single AL False True r 3 0]"
| "insns_arm p q (JStrs r) = [Half AL False r 3 0]"
| "insns_arm p q (JStrw r) = [Single AL False False r 3 0]"
| "insns_arm p q (JStra r) = [Single AL False False r 3 0]"
| "insns_arm p q (JAddr d r) = [Data AL ADD_op True d d (Reg r)]"
| "insns_arm p q (JAddi d i) = [lit p q 9, Data AL ADD_op True d d (Reg 9)]"
| "insns_arm p q (JAndr d r) = [Data AL AND_op False d d (Reg r)]"
| "insns_arm p q (JNotr d) = [Data AL MVN_op False d 0 (Reg d)]"
| "insns_arm p q (JOrr d r) = [Data AL ORR_op False d d (Reg r)]"
| "insns_arm p q (JXorr d r) = [Data AL EOR_op False d d (Reg r)]"
| "insns_arm p q (JShlr d r) = [Data AL MOV_op False d 0 (Shifted d LSL r)]"
| "insns_arm p q (JShrr d r) = [Data AL MOV_op False d 0 (Shifted d LSR r)]"
| "insns_arm p q (JSubr d r) = [Data AL SUB_op True d d (Reg r)]"
| "insns_arm p q (JMulr d r) = [Mul AL True d d r]"
| "insns_arm p q (JDivr d r) = divide_arm p q d r"
| "insns_arm p q (JModr d r) = divide_arm p q d r"
| "insns_arm p q (JCall f note) = call_arm (lit (p + 2) q 15)"
| "insns_arm p q (JCallr r) = call_arm (mov AL 15 r)"
| "insns_arm p q (JCmpi r i) = [Data AL CMP_op True 0 r (Imm (nat i))]"
| "insns_arm p q (JCmpr r d) = [Data AL CMP_op True 0 d (Reg r)]"
| "insns_arm p q JRet = [mov AL 15 14]"
| "insns_arm p q (JPush a b) = [Block AL False 13 [a..<Suc b]]"
| "insns_arm p q (JPop a b) = [Block AL True 13 [a..<Suc b]]"
| "insns_arm p q j = []"

text \<open>
  What the fields of the instructions can hold: registers below 16, offsets of 12 bits, immediates of 8 bits. A store below the stack
  pointer is excluded, since the generator encodes it as a load.
\<close>

fun arm_ok :: "jit \<Rightarrow> bool" where
  "arm_ok (JMovi r v) = (r < 16)"
| "arm_ok (JLea r v) = (r < 16)"
| "arm_ok (JMovr d r) = (d < 16 \<and> r < 16)"
| "arm_ok (JMovneg d r) = (d < 16 \<and> r < 16)"
| "arm_ok (JMovne d r) = (d < 16 \<and> r < 16)"
| "arm_ok (JMoveq d r) = (d < 16 \<and> r < 16)"
| "arm_ok (JLdr r) = (r < 16)"
| "arm_ok (JLdrw r) = (r < 16)"
| "arm_ok (JLdr_stack r i) = (r < 16 \<and> \<bar>i\<bar> < 4096)"
| "arm_ok (JStr_stack r i) = (r < 16 \<and> 0 \<le> i \<and> i < 4096)"
| "arm_ok (JInc_stack i) = (0 \<le> i \<and> i < 256)"
| "arm_ok (JDec_stack i) = (0 \<le> i \<and> i < 256)"
| "arm_ok (JLdrb r) = (r < 16)"
| "arm_ok (JLdrs r) = (r < 16)"
| "arm_ok (JStrb r) = (r < 16)"
| "arm_ok (JStrs r) = (r < 16)"
| "arm_ok (JStrw r) = (r < 16)"
| "arm_ok (JStra r) = (r < 16)"
| "arm_ok (JAddr d r) = (d < 16 \<and> r < 16)"
| "arm_ok (JAddi d i) = (d < 16)"
| "arm_ok (JAndr d r) = (d < 16 \<and> r < 16)"
| "arm_ok (JNotr d) = (d < 16)"
| "arm_ok (JOrr d r) = (d < 16 \<and> r < 16)"
| "arm_ok (JXorr d r) = (d < 16 \<and> r < 16)"
| "arm_ok (JShlr d r) = (d < 16 \<and> r < 16)"
| "arm_ok (JShrr d r) = (d < 16 \<and> r < 16)"
| "arm_ok (JSubr d r) = (d < 16 \<and> r < 16)"
| "arm_ok (JMulr d r) = (d < 16 \<and> r < 16)"
| "arm_ok (JDivr d r) = (d < 16 \<and> r < 16)"
| "arm_ok (JModr d r) = (d < 16 \<and> r < 16)"
| "arm_ok (JCallr r) = (r < 16)"
| "arm_ok (JCmpi r i) = (r < 16 \<and> 0 \<le> i \<and> i < 256)"
| "arm_ok (JCmpr r d) = (d < 16 \<and> r < 16)"
| "arm_ok (JPush a b) = (b < 16)"
| "arm_ok (JPop a b) = (b < 16)"
| "arm_ok j = True"

fun consts_arm :: "(val \<Rightarrow> u32) \<Rightarrow> (hostfn \<Rightarrow> u32) \<Rightarrow> u32 \<Rightarrow> jit \<Rightarrow> u32 list" where
  "consts_arm addr fn div_fn (JMovi r v) = [addr v]"
| "consts_arm addr fn div_fn (JLea r v) = [addr v]"
| "consts_arm addr fn div_fn (JAddi d i) = [word_of_int i]"
| "consts_arm addr fn div_fn (JDivr d r) = [div_fn]"
| "consts_arm addr fn div_fn (JModr d r) = [fn Host_inline_mod]"
| "consts_arm addr fn div_fn (JCall f note) = [fn f]"
| "consts_arm addr fn div_fn j = []"

lemmas insn_words = lit_def mov_def call_arm_def divide_arm_def

lemma decode_mov [simp]: "d < 16 \<Longrightarrow> r < 16 \<Longrightarrow> decode_arm (0xe1a00000 OR reg_at 0 r OR reg_at 12 d) = Some (mov AL d r)"
  by (simp add: decode_simps mov_def)

section \<open>What one operation writes\<close>

text \<open>
  \<open>wrote s s' is cs\<close>: the words that decode to \<open>is\<close> were appended to the code and \<open>cs\<close> to the pool, and nothing else changed.
\<close>

definition wrote :: "arm \<Rightarrow> arm \<Rightarrow> arm_insn list \<Rightarrow> u32 list \<Rightarrow> bool" where
  "wrote s s' is cs \<longleftrightarrow>
     jit_labels s' = jit_labels s \<and> jit_labels_unres s' = jit_labels_unres s \<and>
     code_idx s' = code_idx s + length is \<and> cpool_idx s' = cpool_idx s + length cs \<and>
     (\<forall>i < length is. decode_arm (arm_code s' (code_idx s + i)) = Some (is ! i)) \<and>
     (\<forall>i < length cs. arm_code s' (cpool_idx s + i) = cs ! i) \<and>
     (\<forall>i. i < code_idx s \<or> code_idx s' \<le> i \<and> i < cpool_idx s \<longrightarrow> arm_code s' i = arm_code s i)"

definition writes :: "(arm \<Rightarrow> arm option) \<Rightarrow> arm \<Rightarrow> arm_insn list \<Rightarrow> u32 list \<Rightarrow> bool" where
  "writes m s is cs \<longleftrightarrow> (\<exists>s'. m s = Some s' \<and> wrote s s' is cs)"

definition room :: "nat \<Rightarrow> arm \<Rightarrow> bool" where
  "room n s \<longleftrightarrow> code_idx s + n < cpool_idx s \<and> cpool_idx s \<le> code_idx s + 1024 \<and> cpool_idx s + n \<le> CODE_WORDS"

lemma writes_put: "decode_arm w = Some i \<Longrightarrow> room 1 s \<Longrightarrow> writes (put_arm w) s [i] []"
  by (auto simp: writes_def wrote_def put_arm_def room_def)

lemma wrote_trans:
  assumes 1: "wrote s s1 is cs" and 2: "wrote s1 s2 js ds" and r: "room (length is + length js) s"
  shows "wrote s s2 (is @ js) (cs @ ds)"
proof -
  note w = 1 [unfolded wrote_def] 2 [unfolded wrote_def]
  have le: "code_idx s2 < cpool_idx s" "code_idx s1 \<le> code_idx s2" "cpool_idx s \<le> cpool_idx s1"
    using w r by (auto simp: room_def)
  have keep: "i < code_idx s1 \<or> code_idx s2 \<le> i \<and> i < cpool_idx s1 \<Longrightarrow> arm_code s2 i = arm_code s1 i" for i using w by blast
  have "decode_arm (arm_code s2 (code_idx s + i)) = Some ((is @ js) ! i)" if "i < length is + length js" for i
  proof (cases "i < length is")
    case True
    then show ?thesis using w keep [of "code_idx s + i"] by (simp add: nth_append)
  next
    case False
    then obtain k where "i = length is + k" using le_Suc_ex not_less by blast
    then show ?thesis using w that by (simp add: add.assoc)
  qed
  moreover have "arm_code s2 (cpool_idx s + i) = (cs @ ds) ! i" if "i < length cs + length ds" for i
  proof (cases "i < length cs")
    case True
    then show ?thesis using w le keep [of "cpool_idx s + i"] by (simp add: nth_append)
  next
    case False
    then obtain k where "i = length cs + k" using le_Suc_ex not_less by blast
    then show ?thesis using w that by (simp add: add.assoc)
  qed
  moreover have "arm_code s2 i = arm_code s i" if "i < code_idx s \<or> code_idx s2 \<le> i \<and> i < cpool_idx s" for i
    using that w le keep [of i] by auto
  ultimately show ?thesis using w by (simp add: wrote_def)
qed

lemma decode_load_pc:
  "x < 4096 \<Longrightarrow> r < 16 \<Longrightarrow>
   decode_arm (0xe5900000 OR push_bit 16 15 OR reg_at 12 r OR of_nat x) = Some (Single AL True False 15 r (int x))"
  by (simp add: decode_simps)

lemma decode_lit:
  assumes "p + 2 \<le> q" "q < p + 1026" "r < 16"
  shows "decode_arm (0xe5900000 OR push_bit 16 15 OR reg_at 12 r OR (of_nat q - of_nat p - 2) * 4) = Some (lit p q r)"
proof -
  obtain k where k: "q = p + 2 + k" using assms(1) le_Suc_ex by blast
  have eq: "(of_nat q - of_nat p - 2) * 4 = (of_nat (4 * k) :: u32)" by (simp add: k)
  have "4 * k < 4096" using assms(2) k by simp
  from decode_load_pc [OF this assms(3)] show ?thesis
    unfolding eq lit_def by (simp add: k)
qed

lemma writes_movi: "room 1 s \<Longrightarrow> r < 16 \<Longrightarrow> writes (jit_movi_arm r imm) s [lit (code_idx s) (cpool_idx s) r] [imm]"
  using decode_lit [of "code_idx s" "cpool_idx s" r]
  by (auto simp: writes_def wrote_def put_arm_def room_def jit_movi_arm_def)


lemma writes_bind:
  assumes "writes m s is cs" "\<And>s'. wrote s s' is cs \<Longrightarrow> writes n s' js ds" "room (length is + length js) s"
  shows "writes (\<lambda>s. Option.bind (m s) n) s (is @ js) (cs @ ds)"
  using assms wrote_trans unfolding writes_def by fastforce

lemma wrote_room: "wrote s s' is cs \<Longrightarrow> length cs \<le> length is \<Longrightarrow> room (length is + n) s \<Longrightarrow> room n s'"
  by (auto simp: wrote_def room_def)

lemma wrote_idx: "wrote s s' is cs \<Longrightarrow> code_idx s' = code_idx s + length is \<and> cpool_idx s' = cpool_idx s + length cs"
  by (simp add: wrote_def)

lemma room_mono: "room n s \<Longrightarrow> m \<le> n \<Longrightarrow> room m s"
  by (auto simp: room_def)

lemma writes_movr: "d < 16 \<Longrightarrow> r < 16 \<Longrightarrow> room 1 s \<Longrightarrow> writes (jit_movr_arm d r) s [mov AL d r] []"
  by (simp add: jit_movr_arm_def writes_put)

lemma bit_reg_list: "bit (reg_list a b w) i \<longleftrightarrow> bit w i \<or> a \<le> i \<and> i \<le> b \<and> i < 32"
proof -
  have "bit (fold (\<lambda>i op. op OR push_bit i 1) is w :: u32) i \<longleftrightarrow> bit w i \<or> i \<in> set is \<and> i < 32" for "is"
    by (induction "is" arbitrary: w) (auto simp: bit_simps)
  then show ?thesis by (auto simp: reg_list_def)
qed

lemma reg_list_high: "16 \<le> k \<Longrightarrow> b < 16 \<Longrightarrow> fld k n (reg_list a b w) = fld k n w"
  by (rule bit_word_eqI) (auto simp: bit_fld bit_reg_list)

lemma filter_between: "b < n \<Longrightarrow> filter (\<lambda>i. a \<le> i \<and> i \<le> b) [0..<n] = [a..<Suc b]"
  by (rule sorted_distinct_set_unique) (auto intro: sorted_wrt_filter simp del: upt_Suc)

lemma reg_list_bits:
  assumes "b < 16" "take_bit 16 w = 0"
  shows "filter (bit (reg_list a b w)) [0..<16] = [a..<Suc b]"
proof -
  have "\<not> bit w i" if "i < 16" for i
    using assms(2) that by (metis bit_0_eq bit_take_bit_iff bot_apply bot_bool_def)
  then have "filter (bit (reg_list a b w)) [0..<16] = filter (\<lambda>i. a \<le> i \<and> i \<le> b) [0..<16]"
    by (intro filter_cong) (auto simp: bit_reg_list)
  then show ?thesis using assms(1) by (simp only: filter_between)
qed

lemma decode_block:
  "b < 16 \<Longrightarrow> decode_arm (reg_list a b 0xe92d0000) = Some (Block AL False 13 [a..<Suc b])"
  "b < 16 \<Longrightarrow> decode_arm (reg_list a b 0xe8bd0000) = Some (Block AL True 13 [a..<Suc b])"
  by (simp_all add: decode_simps reg_list_high reg_list_bits del: upt_Suc)

lemma decode_lr: "decode_arm 0xe92d4000 = Some (Block AL False 13 [14])" "decode_arm 0xe8bd4000 = Some (Block AL True 13 [14])"
  using decode_block [of 14 14] by (simp_all add: reg_list_def)

lemma writes_call:
  assumes r: "room 4 s" and m: "\<And>s. room 1 s \<Longrightarrow> writes m s [i (code_idx s) (cpool_idx s)] cs" and cs: "length cs \<le> 1"
  shows "writes (\<lambda>s. do { s \<leftarrow> put_arm 0xe92d4000 s; s \<leftarrow> jit_movr_arm 14 15 s; s \<leftarrow> m s; put_arm 0xe8bd4000 s }) s
           (call_arm (i (code_idx s + 2) (cpool_idx s))) cs"
proof -
  have 3: "writes (\<lambda>s. do { s \<leftarrow> m s; put_arm 0xe8bd4000 s }) s ([i (code_idx s) (cpool_idx s)] @ [Block AL True 13 [14]]) (cs @ [])"
    if "room 2 s" for s
    using that cs by (intro writes_bind m writes_put decode_lr) (auto dest: wrote_room [where n = 1] simp: room_mono)
  have 2: "writes (\<lambda>s. do { s \<leftarrow> jit_movr_arm 14 15 s; s \<leftarrow> m s; put_arm 0xe8bd4000 s }) s
      ([mov AL 14 15] @ [i (code_idx s + 1) (cpool_idx s)] @ [Block AL True 13 [14]]) ([] @ cs @ [])" if "room 3 s" for s
  proof (rule writes_bind [OF writes_movr])
    fix s' assume w: "wrote s s' [mov AL 14 15] []"
    show "writes (\<lambda>s. do { s \<leftarrow> m s; put_arm 0xe8bd4000 s }) s' ([i (code_idx s + 1) (cpool_idx s)] @ [Block AL True 13 [14]]) (cs @ [])"
      using 3 [OF wrote_room [OF w]] that wrote_idx [OF w] by (simp add: numeral_3_eq_3)
  qed (use that room_mono in auto)
  have "writes (\<lambda>s. do { s \<leftarrow> put_arm 0xe92d4000 s; s \<leftarrow> jit_movr_arm 14 15 s; s \<leftarrow> m s; put_arm 0xe8bd4000 s }) s
      ([Block AL False 13 [14]] @ [mov AL 14 15] @ [i (code_idx s + 2) (cpool_idx s)] @ [Block AL True 13 [14]]) ([] @ [] @ cs @ [])"
  proof (rule writes_bind [OF writes_put [OF decode_lr(1)]])
    fix s' assume w: "wrote s s' [Block AL False 13 [14]] []"
    show "writes (\<lambda>s. do { s \<leftarrow> jit_movr_arm 14 15 s; s \<leftarrow> m s; put_arm 0xe8bd4000 s }) s'
        ([mov AL 14 15] @ [i (code_idx s + 2) (cpool_idx s)] @ [Block AL True 13 [14]]) ([] @ cs @ [])"
      using 2 [OF wrote_room [OF w]] r wrote_idx [OF w] by simp
  qed (use r room_mono in auto)
  then show ?thesis by (simp add: call_arm_def)
qed


lemma writes_call_lit:
  "room 4 s \<Longrightarrow> writes (jit_call_arm f) s (call_arm (lit (code_idx s + 2) (cpool_idx s) 15)) [f]"
  using writes_call [of s "jit_lea_arm 15 f" "\<lambda>p q. lit p q 15" "[f]"]
  by (simp add: jit_lea_arm_def writes_movi jit_call_arm_def [abs_def])

lemma writes_callr:
  "r < 16 \<Longrightarrow> room 4 s \<Longrightarrow> writes (jit_callr_arm r) s (call_arm (mov AL 15 r)) []"
  using writes_call [of s "jit_movr_arm 15 r" "\<lambda>p q. mov AL 15 r" "[]"]
  by (simp add: writes_movr jit_callr_arm_def [abs_def])

lemma writes_addi:
  assumes "d < 16" "room 2 s"
  shows "writes (jit_addi_arm d i) s [lit (code_idx s) (cpool_idx s) 9, Data AL ADD_op True d d (Reg 9)] [word_of_int i]"
proof -
  have "writes (jit_addr_arm d 9) s' [Data AL ADD_op True d d (Reg 9)] []" if "room 1 s'" for s'
    unfolding jit_addr_arm_def using assms that by (intro writes_put) (simp_all add: decode_simps)
  then have "writes (\<lambda>s. Option.bind (jit_movi_arm 9 (word_of_int i) s) (jit_addr_arm d 9)) s
    ([lit (code_idx s) (cpool_idx s) 9] @ [Data AL ADD_op True d d (Reg 9)]) ([word_of_int i] @ [])"
    using assms by (intro writes_bind writes_movi) (auto dest: wrote_room [where n = 1] room_mono simp: numeral_2_eq_2)
  then show ?thesis by (simp add: jit_addi_arm_def [abs_def])
qed

lemma writes_nothing: "writes Some s [] []"
  by (simp add: writes_def wrote_def)

lemma writes_divr:
  assumes "d < 16" "r < 16" "room (length (divide_arm 0 0 d r)) s"
  shows "writes (jit_divr_arm f d r) s (divide_arm (code_idx s) (cpool_idx s) d r) [f]"
proof -
  define last where "last = (\<lambda>s. if d \<noteq> 0 then jit_movr_arm d 0 s else Some s)"
  define li where "li = (if d = 0 then [] else [mov AL d 0])"
  have r: "room (6 + length li) s" using assms(3) by (simp add: divide_arm_def call_arm_def li_def eval_nat_numeral split: if_splits)
  have 4: "writes last s li []" if "room (length li) s" for s
    using that assms by (cases "d = 0") (simp_all add: last_def li_def writes_movr writes_nothing)
  have 3: "writes (\<lambda>s. Option.bind (jit_call_arm f s) last) s (call_arm (lit p q 15) @ li) ([f] @ [])"
    if "room (4 + length li) s" "p = code_idx s + 2" "q = cpool_idx s" for s p q
    unfolding that(2, 3)
  proof (rule writes_bind [OF writes_call_lit])
    fix s' assume w: "wrote s s' (call_arm (lit (code_idx s + 2) (cpool_idx s) 15)) [f]"
    have "room (length (call_arm (lit (code_idx s + 2) (cpool_idx s) 15)) + length li) s"
      using that(1) by (simp add: call_arm_def eval_nat_numeral)
    then show "writes last s' li []" by (intro 4 wrote_room [OF w]) (simp_all add: call_arm_def)
  qed (use that(1) in \<open>auto simp: call_arm_def intro: room_mono\<close>)
  have 2: "writes (\<lambda>s. do { s \<leftarrow> jit_movr_arm 1 r s; s \<leftarrow> jit_call_arm f s; last s }) s ([mov AL 1 r] @ call_arm (lit p q 15) @ li) ([] @ [f] @ [])"
    if "room (5 + length li) s" "p = code_idx s + 3" "q = cpool_idx s" for s p q
  proof (rule writes_bind [OF writes_movr])
    fix s' assume w: "wrote s s' [mov AL 1 r] []"
    show "writes (\<lambda>s. Option.bind (jit_call_arm f s) last) s' (call_arm (lit p q 15) @ li) ([f] @ [])"
      using wrote_room [OF w, of "4 + length li"] that wrote_idx [OF w] by (intro 3) (simp_all add: eval_nat_numeral)
  qed (use that assms in \<open>auto simp: call_arm_def intro: room_mono\<close>)
  have "writes (\<lambda>s. do { s \<leftarrow> jit_movr_arm 0 d s; s \<leftarrow> jit_movr_arm 1 r s; s \<leftarrow> jit_call_arm f s; last s }) s
     ([mov AL 0 d] @ [mov AL 1 r] @ call_arm (lit (code_idx s + 4) (cpool_idx s) 15) @ li) ([] @ [] @ [f] @ [])"
  proof (rule writes_bind [OF writes_movr])
    fix s' assume w: "wrote s s' [mov AL 0 d] []"
    show "writes (\<lambda>s. do { s \<leftarrow> jit_movr_arm 1 r s; s \<leftarrow> jit_call_arm f s; last s }) s'
      ([mov AL 1 r] @ call_arm (lit (code_idx s + 4) (cpool_idx s) 15) @ li) ([] @ [f] @ [])"
      using wrote_room [OF w, of "5 + length li"] r wrote_idx [OF w] by (intro 2) (simp_all add: eval_nat_numeral)
  qed (use assms r in \<open>auto simp: call_arm_def intro: room_mono\<close>)
  then show ?thesis by (simp add: divide_arm_def jit_divr_arm_def [abs_def] last_def li_def)
qed

fun is_label :: "jit \<Rightarrow> bool" where
  "is_label (JLabel l) = True"
| "is_label _ = False"


lemma decode_stack:
  "x < 4096 \<Longrightarrow> r < 16 \<Longrightarrow> decode_arm (0xe51d0000 OR of_nat x OR reg_at 12 r) = Some (Single AL True False 13 r (- int x))"
  "x < 4096 \<Longrightarrow> r < 16 \<Longrightarrow> decode_arm (0xe59d0000 OR of_nat x OR reg_at 12 r) = Some (Single AL True False 13 r (int x))"
  "x < 4096 \<Longrightarrow> r < 16 \<Longrightarrow> decode_arm (0xe58d0000 OR of_nat x OR reg_at 12 r) = Some (Single AL False False 13 r (int x))"
  by (simp_all add: decode_simps)

lemma writes_stack_nat:
  assumes "x < 4096" "r < 16" "room 1 s"
  shows "0 < x \<Longrightarrow> writes (jit_ldr_stack_arm r (- int x)) s [Single AL True False 13 r (- int x)] []"
    and "writes (jit_ldr_stack_arm r (int x)) s [Single AL True False 13 r (int x)] []"
    and "writes (jit_str_stack_arm r (int x)) s [Single AL False False 13 r (int x)] []"
  using assms writes_put [OF decode_stack(1) assms(3), of x r] writes_put [OF decode_stack(2) assms(3), of x r] writes_put [OF decode_stack(3) assms(3), of x r]
  by (simp_all add: jit_ldr_stack_arm_def jit_str_stack_arm_def)

lemma writes_stack:
  assumes "r < 16" "room 1 s"
  shows "\<bar>i\<bar> < 4096 \<Longrightarrow> writes (jit_ldr_stack_arm r i) s [Single AL True False 13 r i] []"
    and "0 \<le> i \<Longrightarrow> i < 4096 \<Longrightarrow> writes (jit_str_stack_arm r i) s [Single AL False False 13 r i] []"
  using assms writes_stack_nat [of "nat \<bar>i\<bar>" r s] by (cases "i < 0"; simp)+

lemma decode_imm:
  "x < 256 \<Longrightarrow> decode_arm (0xe28dd000 OR of_nat x) = Some (Data AL ADD_op False 13 13 (Imm x))"
  "x < 256 \<Longrightarrow> decode_arm (0xe24dd000 OR of_nat x) = Some (Data AL SUB_op False 13 13 (Imm x))"
  "x < 256 \<Longrightarrow> r < 16 \<Longrightarrow> decode_arm (0xe3500000 OR of_nat x OR reg_at 16 r) = Some (Data AL CMP_op True 0 r (Imm x))"
  by (simp_all add: decode_simps)

lemma writes_imm_nat:
  assumes "room 1 s" "x < 256"
  shows "writes (jit_inc_stack_arm (int x)) s [Data AL ADD_op False 13 13 (Imm x)] []"
    and "writes (jit_dec_stack_arm (int x)) s [Data AL SUB_op False 13 13 (Imm x)] []"
    and "r < 16 \<Longrightarrow> writes (jit_cmpi_arm r (int x)) s [Data AL CMP_op True 0 r (Imm x)] []"
  using assms writes_put [OF decode_imm(1) assms(1), of x] writes_put [OF decode_imm(2) assms(1), of x] writes_put [OF decode_imm(3) assms(1), of x r]
  by (simp_all add: jit_inc_stack_arm_def jit_dec_stack_arm_def jit_cmpi_arm_def)

lemma writes_imm:
  assumes "room 1 s" "0 \<le> i" "i < 256"
  shows "writes (jit_inc_stack_arm i) s [Data AL ADD_op False 13 13 (Imm (nat i))] []"
    and "writes (jit_dec_stack_arm i) s [Data AL SUB_op False 13 13 (Imm (nat i))] []"
    and "r < 16 \<Longrightarrow> writes (jit_cmpi_arm r i) s [Data AL CMP_op True 0 r (Imm (nat i))] []"
  using assms writes_imm_nat [of s "nat i"] by simp_all

lemma writes_one:
  assumes "r < 16" "room 1 s"
  shows "writes (jit_ldr_arm r) s [Single AL True False r r 0] []"
    and "writes (jit_ldrb_arm r) s [Single AL True True r 3 0] []"
    and "writes (jit_ldrs_arm r) s [Half AL True r 3 0] []"
    and "writes (jit_strb_arm r) s [Single AL False True r 3 0] []"
    and "writes (jit_strs_arm r) s [Half AL False r 3 0] []"
    and "writes (jit_strw_arm r) s [Single AL False False r 3 0] []"
    and "writes (jit_notr_arm r) s [Data AL MVN_op False r 0 (Reg r)] []"
  using assms
  by (simp_all add: writes_put decode_simps jit_ldr_arm_def jit_ldrb_arm_def jit_ldrs_arm_def jit_strb_arm_def jit_strs_arm_def
    jit_strw_arm_def jit_notr_arm_def)

lemma writes_two:
  assumes "d < 16" "r < 16" "room 1 s"
  shows "writes (jit_movneg_arm d r) s [mov MI d r] []"
    and "writes (jit_movne_arm d r) s [mov NE d r] []"
    and "writes (jit_moveq_arm d r) s [mov EQ d r] []"
    and "writes (jit_addr_arm d r) s [Data AL ADD_op True d d (Reg r)] []"
    and "writes (jit_subr_arm d r) s [Data AL SUB_op True d d (Reg r)] []"
    and "writes (jit_mulr_arm d r) s [Mul AL True d d r] []"
    and "writes (jit_andr_arm d r) s [Data AL AND_op False d d (Reg r)] []"
    and "writes (jit_orr_arm d r) s [Data AL ORR_op False d d (Reg r)] []"
    and "writes (jit_xorr_arm d r) s [Data AL EOR_op False d d (Reg r)] []"
    and "writes (jit_shlr_arm d r) s [Data AL MOV_op False d 0 (Shifted d LSL r)] []"
    and "writes (jit_shrr_arm d r) s [Data AL MOV_op False d 0 (Shifted d LSR r)] []"
    and "writes (jit_cmpr_arm r d) s [Data AL CMP_op True 0 d (Reg r)] []"
  using assms
  by (simp_all add: writes_put decode_simps mov_def jit_movneg_arm_def jit_movne_arm_def jit_moveq_arm_def jit_addr_arm_def
    jit_subr_arm_def jit_mulr_arm_def jit_andr_arm_def jit_orr_arm_def jit_xorr_arm_def jit_shlr_arm_def jit_shrr_arm_def jit_cmpr_arm_def)

lemma writes_lists:
  assumes "b < 16" "room 1 s"
  shows "writes (jit_push_arm a b) s [Block AL False 13 [a..<Suc b]] []"
    and "writes (jit_pop_arm a b) s [Block AL True 13 [a..<Suc b]] []"
  using assms unfolding jit_push_arm_def jit_pop_arm_def by (auto intro!: writes_put decode_block simp del: upt_Suc)

lemmas arm_writes = writes_movi writes_movr writes_addi writes_call_lit writes_callr writes_nothing writes_stack writes_imm
  writes_one writes_two writes_lists

lemma emit_arm_writes:
  assumes "arm_ok j" "branch_arm j = None" "\<not> is_label j" "room (length (insns_arm 0 0 j)) s"
  shows "writes (emit_arm addr fn div_fn j) s (insns_arm (code_idx s) (cpool_idx s) j) (consts_arm addr fn div_fn j)"
proof (cases j)
  case (JAddi d i)
  then show ?thesis using assms writes_addi [of d s i] by (simp add: numeral_2_eq_2)
next
  case (JCall f n)
  then have "room 4 s" using assms(4) by (simp add: call_arm_def eval_nat_numeral)
  then show ?thesis using JCall writes_call_lit by simp
next
  case (JCallr r)
  then have "room 4 s" using assms(4) by (simp add: call_arm_def eval_nat_numeral)
  then show ?thesis using JCallr assms(1) writes_callr by simp
qed (use assms in \<open>simp_all add: arm_writes writes_divr jit_lea_arm_def jit_ldrw_arm_def jit_stra_arm_def jit_modr_arm_def
       jit_ret_arm_def jit_nothing_arm_def del: upt_Suc\<close>)

section \<open>Whole programs\<close>

text \<open>
  Sizes, the positions of the labels and of the branches, and the assembled program for a table \<open>T\<close> of label positions.
\<close>

definition size_arm :: "jit \<Rightarrow> nat" where
  "size_arm j = (if branch_arm j = None then length (insns_arm 0 0 j) else 1)"

fun labels_at :: "nat \<Rightarrow> jit list \<Rightarrow> (label \<times> nat) list" where
  "labels_at p [] = []"
| "labels_at p (j # js) = (case j of JLabel l \<Rightarrow> [(l, p)] | _ \<Rightarrow> []) @ labels_at (p + size_arm j) js"

fun branches_at :: "nat \<Rightarrow> jit list \<Rightarrow> (nat \<times> u32 \<times> acond \<times> label) list" where
  "branches_at p [] = []"
| "branches_at p (j # js) = (case branch_arm j of Some b \<Rightarrow> [(p, b)] | None \<Rightarrow> []) @ branches_at (p + size_arm j) js"

fun assemble_arm :: "(label \<Rightarrow> nat) \<Rightarrow> nat \<Rightarrow> nat \<Rightarrow> jit list \<Rightarrow> arm_insn list" where
  "assemble_arm T p q [] = []"
| "assemble_arm T p q (j # js) =
     (case branch_arm j of
        Some (op, c, l) \<Rightarrow> [Branch c (int (T l) - int p - 2)]
      | None \<Rightarrow> insns_arm p q j) @
     assemble_arm T (p + size_arm j) (q + length (consts_arm (\<lambda>_. 0) (\<lambda>_. 0) 0 j)) js"

definition sizes_arm :: "jit list \<Rightarrow> nat" where
  "sizes_arm js = sum_list (map size_arm js)"

definition pool_arm :: "(val \<Rightarrow> u32) \<Rightarrow> (hostfn \<Rightarrow> u32) \<Rightarrow> u32 \<Rightarrow> jit list \<Rightarrow> u32 list" where
  "pool_arm addr fn div_fn js = concat (map (consts_arm addr fn div_fn) js)"

lemma length_insns_arm: "length (insns_arm p q j) = length (insns_arm 0 0 j)"
  by (cases j) (simp_all add: call_arm_def divide_arm_def)

lemma size_arm_eq:
  "branch_arm j = None \<Longrightarrow> length (insns_arm p q j) = size_arm j" "branch_arm j = Some b \<Longrightarrow> size_arm j = 1"
  by (simp_all add: size_arm_def length_insns_arm [of p q])

lemma length_consts_arm: "length (consts_arm addr fn div_fn j) = length (consts_arm (\<lambda>_. 0) (\<lambda>_. 0) 0 j)"
  by (cases j) simp_all

lemma consts_le_size: "length (consts_arm addr fn div_fn j) \<le> size_arm j"
  by (cases j) (simp_all add: size_arm_def call_arm_def divide_arm_def)

lemma sizes_arm_simps [simp]: "sizes_arm [] = 0" "sizes_arm (j # js) = size_arm j + sizes_arm js" "sizes_arm (js @ ks) = sizes_arm js + sizes_arm ks"
  by (simp_all add: sizes_arm_def)

lemma pool_arm_simps [simp]:
  "pool_arm addr fn div_fn [] = []" "pool_arm addr fn div_fn (js @ ks) = pool_arm addr fn div_fn js @ pool_arm addr fn div_fn ks"
  "pool_arm addr fn div_fn (j # js) = consts_arm addr fn div_fn j @ pool_arm addr fn div_fn js"
  by (simp_all add: pool_arm_def)

lemma pool_le_sizes: "length (pool_arm addr fn div_fn js) \<le> sizes_arm js"
  by (induction js) (auto intro: add_mono consts_le_size)

lemma labels_at_append: "labels_at p (js @ ks) = labels_at p js @ labels_at (p + sizes_arm js) ks"
  by (induction js arbitrary: p) (simp_all add: add.assoc)

lemma branches_at_append: "branches_at p (js @ ks) = branches_at p js @ branches_at (p + sizes_arm js) ks"
  by (induction js arbitrary: p) (simp_all add: add.assoc)

lemma assemble_arm_append:
  "assemble_arm T p q (js @ ks) =
   assemble_arm T p q js @ assemble_arm T (p + sizes_arm js) (q + length (pool_arm addr fn div_fn js)) ks"
  by (induction js arbitrary: p q) (simp_all add: add.assoc length_consts_arm [of addr fn div_fn])

lemma length_assemble [simp]: "length (assemble_arm T p q js) = sizes_arm js"
  by (induction js arbitrary: p q) (auto simp: size_arm_eq split: option.splits)

lemma branches_at_range: "(i, b) \<in> set (branches_at p js) \<Longrightarrow> p \<le> i \<and> i < p + sizes_arm js"
proof (induction js arbitrary: p)
  case (Cons j js)
  show ?case using Cons.prems Cons.IH [of "p + size_arm j"] size_arm_eq(2) [of j] by (cases "branch_arm j") auto
qed simp

lemma labels_at_range: "(l, t) \<in> set (labels_at p js) \<Longrightarrow> p \<le> t \<and> t \<le> p + sizes_arm js"
  by (induction js arbitrary: p) (fastforce split: jit.splits)+

lemma branches_at_unique: "(i, b) \<in> set (branches_at p js) \<Longrightarrow> (i, b') \<in> set (branches_at p js) \<Longrightarrow> b = b'"
proof (induction js arbitrary: p)
  case (Cons j js)
  show ?case using Cons.prems Cons.IH [of "p + size_arm j"] size_arm_eq(2) [of j]
      branches_at_range [of i b "p + size_arm j" js] branches_at_range [of i b' "p + size_arm j" js]
    by (cases "branch_arm j") auto
qed simp

lemma assemble_branch:
  "(i, op, c, l) \<in> set (branches_at p js) \<Longrightarrow>
   assemble_arm T p q js ! (i - p) = Branch c (int (T l) - int i - 2)"
proof (induction js arbitrary: p q)
  case (Cons j js)
  show ?case
  proof (cases "(i, op, c, l) \<in> set (branches_at (p + size_arm j) js)")
    case True
    then show ?thesis using Cons.IH [OF True] branches_at_range [OF True]
      by (auto simp: nth_append size_arm_eq split: option.splits)
  next
    case False
    then show ?thesis using Cons.prems by (auto split: option.splits)
  qed
qed simp

lemma assemble_other:
  "i < sizes_arm js \<Longrightarrow> p + i \<notin> fst ` set (branches_at p js) \<Longrightarrow> assemble_arm T p q js ! i = assemble_arm T' p q js ! i"
proof (induction js arbitrary: p q i)
  case (Cons j js)
  show ?case
  proof (cases "i < size_arm j")
    case True
    then show ?thesis using Cons.prems by (auto simp: nth_append size_arm_eq split: option.splits if_splits)
  next
    case False
    then obtain k where "i = size_arm j + k" using le_Suc_ex not_less by blast
    then show ?thesis using Cons.prems Cons.IH [of k "p + size_arm j"]
      by (auto simp: nth_append size_arm_eq add.assoc split: option.splits if_splits)
  qed
qed simp

lemma emits_arm_append:
  "emits_arm addr fn div_fn (js @ ks) s = Option.bind (emits_arm addr fn div_fn js s) (emits_arm addr fn div_fn ks)"
  by (induction js arbitrary: s) (auto split: bind_splits)


section \<open>The invariant of the generator\<close>

text \<open>
  After the operations \<open>js\<close>: a branch whose label is defined has its offset, one whose label is not is listed as unresolved and has offset 0,
  and every other word is final.
\<close>

definition patch_arm :: "nat option \<Rightarrow> nat \<Rightarrow> u32" where
  "patch_arm t i =
     (case t of
        None \<Rightarrow> 0
      | Some t \<Rightarrow> if t \<le> i then word_of_int (0x1000000 - (int i + 2 - int t)) else of_nat t - of_nat i - 2)"

definition assembled :: "(val \<Rightarrow> u32) \<Rightarrow> (hostfn \<Rightarrow> u32) \<Rightarrow> u32 \<Rightarrow> nat \<Rightarrow> jit list \<Rightarrow> arm \<Rightarrow> bool" where
  "assembled addr fn div_fn gap js s \<longleftrightarrow>
     code_idx s = sizes_arm js \<and> cpool_idx s = gap + length (pool_arm addr fn div_fn js) \<and>
     jit_labels s = labels_at 0 js \<and> length (jit_labels_unres s) \<le> length (branches_at 0 js) \<and>
     (\<forall>i l. (Some l, i) \<in> set (jit_labels_unres s) \<longleftrightarrow>
        (\<exists>op c. (i, op, c, l) \<in> set (branches_at 0 js)) \<and> map_of (labels_at 0 js) l = None) \<and>
     (\<forall>i op c l. (i, op, c, l) \<in> set (branches_at 0 js) \<longrightarrow> arm_code s i = op OR patch_arm (map_of (labels_at 0 js) l) i) \<and>
     (\<forall>i < sizes_arm js. i \<notin> fst ` set (branches_at 0 js) \<longrightarrow> decode_arm (arm_code s i) = Some (assemble_arm (\<lambda>_. 0) 0 gap js ! i)) \<and>
     (\<forall>i < length (pool_arm addr fn div_fn js). arm_code s (gap + i) = pool_arm addr fn div_fn js ! i)"

lemma assembledI:
  assumes "code_idx s = sizes_arm js" "cpool_idx s = gap + length (pool_arm addr fn div_fn js)" "jit_labels s = labels_at 0 js"
    "length (jit_labels_unres s) \<le> length (branches_at 0 js)"
    "\<And>i l. (Some l, i) \<in> set (jit_labels_unres s) \<longleftrightarrow>
        (\<exists>op c. (i, op, c, l) \<in> set (branches_at 0 js)) \<and> map_of (labels_at 0 js) l = None"
    "\<And>i op c l. (i, op, c, l) \<in> set (branches_at 0 js) \<Longrightarrow> arm_code s i = op OR patch_arm (map_of (labels_at 0 js) l) i"
    "\<And>i. i < sizes_arm js \<Longrightarrow> i \<notin> fst ` set (branches_at 0 js) \<Longrightarrow> decode_arm (arm_code s i) = Some (assemble_arm (\<lambda>_. 0) 0 gap js ! i)"
    "\<And>i. i < length (pool_arm addr fn div_fn js) \<Longrightarrow> arm_code s (gap + i) = pool_arm addr fn div_fn js ! i"
  shows "assembled addr fn div_fn gap js s"
  using assms by (simp add: assembled_def)

lemma assembledD:
  assumes "assembled addr fn div_fn gap js s"
  shows "code_idx s = sizes_arm js" "cpool_idx s = gap + length (pool_arm addr fn div_fn js)" "jit_labels s = labels_at 0 js"
    "length (jit_labels_unres s) \<le> length (branches_at 0 js)"
    "\<And>i l. (Some l, i) \<in> set (jit_labels_unres s) \<longleftrightarrow>
        (\<exists>op c. (i, op, c, l) \<in> set (branches_at 0 js)) \<and> map_of (labels_at 0 js) l = None"
    "\<And>i op c l. (i, op, c, l) \<in> set (branches_at 0 js) \<Longrightarrow> arm_code s i = op OR patch_arm (map_of (labels_at 0 js) l) i"
    "\<And>i. i < sizes_arm js \<Longrightarrow> i \<notin> fst ` set (branches_at 0 js) \<Longrightarrow> decode_arm (arm_code s i) = Some (assemble_arm (\<lambda>_. 0) 0 gap js ! i)"
    "\<And>i. i < length (pool_arm addr fn div_fn js) \<Longrightarrow> arm_code s (gap + i) = pool_arm addr fn div_fn js ! i"
  using assms by (simp_all add: assembled_def)

lemma find_label_map_of: "find_label l s = map_of (jit_labels s) l"
proof -
  have "map_option snd (find (\<lambda>x. fst x = l) xs) = map_of xs l" for xs :: "(cstr \<times> nat) list"
    by (induction xs) auto
  then show ?thesis by (simp add: find_label_def)
qed

lemma resolve_branches_fst [simp]:
  "fst (resolve_branches l t us code) = map (\<lambda>u. if fst u = Some l then (None, 0) else u) us"
proof (induction us arbitrary: code)
  case (Cons u us)
  show ?case by (cases u) (simp add: Cons.IH case_prod_unfold Let_def)
qed simp

lemma resolve_branches_code:
  "snd (resolve_branches l t us code) i =
   (if (Some l, i) \<in> set us then code i OR (of_nat t - of_nat i - 2) else code i)"
proof (induction us arbitrary: code i)
  case (Cons u us)
  show ?case by (cases u) (simp add: Cons.IH case_prod_unfold Let_def or.assoc)
qed simp

lemma assembled_wrote:
  assumes a: "assembled addr fn div_fn gap js s" and j: "branch_arm j = None" "\<not> is_label j"
    and w: "wrote s s' (insns_arm (code_idx s) (cpool_idx s) j) (consts_arm addr fn div_fn j)"
    and gap: "sizes_arm (js @ [j]) < gap"
  shows "assembled addr fn div_fn gap (js @ [j]) s'"
proof -
  let ?n = "sizes_arm js" and ?pool = "pool_arm addr fn div_fn js"
  note idx = assembledD(1-3) [OF a]
  have "labels_at p [j] = []" for p using j(2) by (cases j) auto
  then have app: "labels_at 0 (js @ [j]) = labels_at 0 js" "branches_at 0 (js @ [j]) = branches_at 0 js"
    "assemble_arm (\<lambda>_. 0) 0 gap (js @ [j]) = assemble_arm (\<lambda>_. 0) 0 gap js @ insns_arm ?n (cpool_idx s) j"
    using j(1) by (simp_all add: labels_at_append branches_at_append assemble_arm_append [of _ _ _ js "[j]" addr fn div_fn] idx
      del: labels_at.simps(2))
  have len: "length (insns_arm ?n q j) = size_arm j" for q using j(1) by (simp add: size_arm_eq)
  have keep: "i < ?n \<or> ?n + size_arm j \<le> i \<and> i < cpool_idx s \<Longrightarrow> arm_code s' i = arm_code s i" for i
    using w by (auto simp: wrote_def idx len)
  show ?thesis
  proof (rule assembledI)
    fix i assume i: "i < sizes_arm (js @ [j])" "i \<notin> fst ` set (branches_at 0 (js @ [j]))"
    show "decode_arm (arm_code s' i) = Some (assemble_arm (\<lambda>_. 0) 0 gap (js @ [j]) ! i)"
    proof (cases "i < ?n")
      case True
      then show ?thesis using assembledD(7) [OF a, of i] i keep [of i] by (simp add: app nth_append)
    next
      case False
      then obtain k where "i = ?n + k" using le_Suc_ex not_less by blast
      then show ?thesis using w i len by (simp add: wrote_def app idx(1) nth_append)
    qed
  next
    fix i assume i: "i < length (pool_arm addr fn div_fn (js @ [j]))"
    show "arm_code s' (gap + i) = pool_arm addr fn div_fn (js @ [j]) ! i"
    proof (cases "i < length ?pool")
      case True
      then show ?thesis using assembledD(8) [OF a, of i] keep [of "gap + i"] gap by (simp add: nth_append idx)
    next
      case False
      then obtain k where "i = length ?pool + k" using le_Suc_ex not_less by blast
      then show ?thesis using w i by (simp add: wrote_def idx add.assoc)
    qed
  next
    fix i op c l assume i: "(i, op, c, l) \<in> set (branches_at 0 (js @ [j]))"
    then show "arm_code s' i = op OR patch_arm (map_of (labels_at 0 (js @ [j])) l) i"
      using assembledD(6) [OF a, of i op c l] keep [of i] branches_at_range [of i _ 0 js] by (auto simp: app)
  qed (use w assembledD(4, 5) [OF a] len in \<open>simp_all add: app wrote_def idx\<close>)
qed

lemma assembled_branch:
  assumes a: "assembled addr fn div_fn gap js s" and j: "branch_arm j = Some (op, c, l)"
    and len: "length (branches_at 0 (js @ [j])) \<le> JIT_MAX_LABELS"
    and gap: "sizes_arm (js @ [j]) < gap" "gap \<le> CODE_WORDS"
  shows "\<exists>s'. emit_arm addr fn div_fn j s = Some s' \<and> assembled addr fn div_fn gap (js @ [j]) s'"
proof -
  let ?n = "sizes_arm js" and ?T = "map_of (labels_at 0 js)"
  note idx = assembledD(1-3) [OF a]
  have sz: "size_arm j = 1" using j by (simp add: size_arm_eq)
  have emit: "emit_arm addr fn div_fn j = jit_emit_branch op l" and nol: "labels_at p [j] = []" "consts_arm addr fn div_fn j = []" for p
    using j by (cases j; auto simp: jit_je_arm_def jit_jne_arm_def jit_jge_arm_def jit_jneg_arm_def jit_jmp_arm_def)+
  have app: "labels_at 0 (js @ [j]) = labels_at 0 js" "branches_at 0 (js @ [j]) = branches_at 0 js @ [(?n, op, c, l)]"
    "assemble_arm (\<lambda>_. 0) 0 gap (js @ [j]) = assemble_arm (\<lambda>_. 0) 0 gap js @ [Branch c (- int ?n - 2)]"
    using j nol(1) [of ?n]
    by (simp_all add: labels_at_append branches_at_append assemble_arm_append [of _ _ _ js "[j]" addr fn div_fn] del: labels_at.simps(2))
  define us where "us = (if ?T l = None then [(Some l, ?n)] else [])"
  define s' where "s' = s\<lparr>arm_code := (arm_code s)(?n := op OR patch_arm (?T l) ?n), code_idx := Suc ?n,
    jit_labels_unres := jit_labels_unres s @ us\<rparr>"
  have range: "t \<le> ?n" if "?T l = Some t" for t l
    using labels_at_range [OF map_of_SomeD [OF that]] by simp
  have before: "i < ?n" if "(i, b) \<in> set (branches_at 0 js)" for i b
    using branches_at_range [OF that] by simp
  have "length (jit_labels_unres s) < JIT_MAX_LABELS" using assembledD(4) [OF a] len by (simp add: app)
  then have "jit_emit_branch op l s = Some s'" using gap sz range [of l]
    by (auto simp: jit_emit_branch_def find_label_map_of idx s'_def us_def put_arm_def patch_arm_def Let_def split: option.splits)
  moreover have "assembled addr fn div_fn gap (js @ [j]) s'"
  proof (rule assembledI)
    fix i op' c' l' assume "(i, op', c', l') \<in> set (branches_at 0 (js @ [j]))"
    then show "arm_code s' i = op' OR patch_arm (map_of (labels_at 0 (js @ [j])) l') i"
      using assembledD(6) [OF a, of i op' c' l'] before [of i] by (auto simp: app s'_def)
  next
    fix i assume "i < sizes_arm (js @ [j])" "i \<notin> fst ` set (branches_at 0 (js @ [j]))"
    then show "decode_arm (arm_code s' i) = Some (assemble_arm (\<lambda>_. 0) 0 gap (js @ [j]) ! i)"
      using assembledD(7) [OF a, of i] sz by (simp add: app s'_def nth_append)
  next
    fix i k
    show "((Some k, i) \<in> set (jit_labels_unres s')) =
      ((\<exists>op c. (i, op, c, k) \<in> set (branches_at 0 (js @ [j]))) \<and> map_of (labels_at 0 (js @ [j])) k = None)"
      using assembledD(5) [OF a, of k i] by (auto simp: app s'_def us_def)
  qed (use gap assembledD(4, 8) [OF a] in \<open>auto simp: app nol(2) s'_def us_def sz idx\<close>)
  ultimately show ?thesis by (simp add: emit)
qed

lemma assembled_label:
  assumes a: "assembled addr fn div_fn gap js s" and j: "j = JLabel l"
    and len: "length (labels_at 0 (js @ [j])) \<le> JIT_MAX_LABELS" and gap: "sizes_arm js < gap"
  shows "\<exists>s'. emit_arm addr fn div_fn j s = Some s' \<and> assembled addr fn div_fn gap (js @ [j]) s'"
proof -
  let ?n = "sizes_arm js" and ?us = "jit_labels_unres s"
  note idx = assembledD(1-3) [OF a]
  have sz: "size_arm j = 0" using j by (simp add: size_arm_def)
  have app: "labels_at 0 (js @ [j]) = labels_at 0 js @ [(l, ?n)]" "branches_at 0 (js @ [j]) = branches_at 0 js"
    "assemble_arm (\<lambda>_. 0) 0 gap (js @ [j]) = assemble_arm (\<lambda>_. 0) 0 gap js"
    using j by (simp_all add: labels_at_append branches_at_append assemble_arm_append [of _ _ _ js _ addr fn div_fn])
  define s' where "s' = s\<lparr>jit_labels := labels_at 0 js @ [(l, ?n)], jit_labels_unres := fst (resolve_branches l ?n ?us (arm_code s)),
     arm_code := snd (resolve_branches l ?n ?us (arm_code s))\<rparr>"
  have before: "i < ?n" if "(i, b) \<in> set (branches_at 0 js)" for i b
    using branches_at_range [OF that] by simp
  have "emit_arm addr fn div_fn j s = Some s'" using len app(1)
    by (simp add: j jit_label_arm_def s'_def idx case_prod_unfold)
  moreover have "assembled addr fn div_fn gap (js @ [j]) s'"
  proof (rule assembledI)
    fix i op c k assume i: "(i, op, c, k) \<in> set (branches_at 0 (js @ [j]))"
    have "(Some l, i) \<in> set ?us \<longleftrightarrow> k = l \<and> map_of (labels_at 0 js) l = None"
      using assembledD(5) [OF a, of l i] branches_at_unique [of i _ 0 js] i by (auto simp: app)
    moreover have "i < ?n" using before i by (simp add: app)
    ultimately show "arm_code s' i = op OR patch_arm (map_of (labels_at 0 (js @ [j])) k) i"
      using assembledD(6) [OF a, of i op c k] i
      by (auto simp: app s'_def resolve_branches_code patch_arm_def map_add_def split: option.splits)
  next
    fix i assume i: "i < sizes_arm (js @ [j])" "i \<notin> fst ` set (branches_at 0 (js @ [j]))"
    then have "(Some l, i) \<notin> set ?us" using assembledD(5) [OF a, of l i] by (force simp: app)
    then show "decode_arm (arm_code s' i) = Some (assemble_arm (\<lambda>_. 0) 0 gap (js @ [j]) ! i)"
      using assembledD(7) [OF a, of i] i sz by (simp add: app s'_def resolve_branches_code)
  next
    fix i k
    show "((Some k, i) \<in> set (jit_labels_unres s')) =
      ((\<exists>op c. (i, op, c, k) \<in> set (branches_at 0 (js @ [j]))) \<and> map_of (labels_at 0 (js @ [j])) k = None)"
      using assembledD(5) [OF a, of k i] by (force simp: app s'_def)
  next
    fix i assume "i < length (pool_arm addr fn div_fn (js @ [j]))"
    moreover have "(Some l, gap + i) \<notin> set ?us" using assembledD(5) [OF a, of l "gap + i"] before [of "gap + i"] gap by force
    ultimately show "arm_code s' (gap + i) = pool_arm addr fn div_fn (js @ [j]) ! i"
      using assembledD(8) [OF a, of i] j by (simp add: s'_def resolve_branches_code)
  qed (use gap assembledD(4) [OF a] in \<open>auto simp: j app [unfolded j] s'_def sz [unfolded j] idx\<close>)
  ultimately show ?thesis by blast
qed

lemma emits_assembled:
  assumes "list_all arm_ok js" "sizes_arm js < gap" "gap \<le> 1024"
    "length (labels_at 0 js) \<le> JIT_MAX_LABELS" "length (branches_at 0 js) \<le> JIT_MAX_LABELS"
  shows "\<exists>s. emits_arm addr fn div_fn js (jit_init_arm gap) = Some s \<and> assembled addr fn div_fn gap js s"
  using assms
proof (induction js rule: rev_induct)
  case Nil
  then show ?case by (simp add: assembled_def jit_init_arm_def)
next
  case (snoc j js)
  from snoc.prems have pre: "list_all arm_ok js" "sizes_arm js < gap" "length (labels_at 0 js) \<le> JIT_MAX_LABELS"
    "length (branches_at 0 js) \<le> JIT_MAX_LABELS" by (simp_all add: labels_at_append branches_at_append)
  obtain s where s: "emits_arm addr fn div_fn js (jit_init_arm gap) = Some s" and a: "assembled addr fn div_fn gap js s"
    using snoc.IH [OF pre(1, 2) snoc.prems(3) pre(3, 4)] by blast
  note idx = assembledD(1, 2) [OF a]
  have "\<exists>s'. emit_arm addr fn div_fn j s = Some s' \<and> assembled addr fn div_fn gap (js @ [j]) s'"
  proof (cases "branch_arm j")
    case None
    show ?thesis
    proof (cases "is_label j")
      case True
      then show ?thesis using assembled_label [OF a] snoc.prems pre by (cases j) auto
    next
      case False
      have "room (length (insns_arm 0 0 j)) s"
        using snoc.prems None pool_le_sizes [of addr fn div_fn js] idx by (simp add: room_def size_arm_def CODE_WORDS_def)
      from emit_arm_writes [OF _ None False this, of addr fn div_fn] snoc.prems
      obtain s' where "emit_arm addr fn div_fn j s = Some s'" "wrote s s' (insns_arm (code_idx s) (cpool_idx s) j) (consts_arm addr fn div_fn j)"
        by (auto simp: writes_def)
      then show ?thesis using assembled_wrote [OF a None False] snoc.prems by blast
    qed
  next
    case (Some b)
    obtain op c l where "b = (op, c, l)" by (cases b)
    then show ?thesis using assembled_branch [OF a] Some snoc.prems by (simp add: CODE_WORDS_def)
  qed
  then show ?case using s by (auto simp: emits_arm_append)
qed

section \<open>The program in the array\<close>

text \<open>
  Every branch has a label, and no branch goes to the instruction that follows it: for that one the generator would store a negative offset
  over the opcode.
\<close>

definition branches_ok :: "jit list \<Rightarrow> bool" where
  "branches_ok js = list_all (\<lambda>(i, op, c, l). case map_of (labels_at 0 js) l of None \<Rightarrow> False | Some t \<Rightarrow> t \<le> i \<or> i + 2 \<le> t) (branches_at 0 js)"

lemma branches_at_ops: "(i, op, c, l) \<in> set (branches_at p js) \<Longrightarrow>
  (op, c) \<in> {(0x0a000000, EQ), (0x1a000000, NE), (0xaa000000, GE), (0x4a000000, MI), (0xea000000, AL)}"
proof (induction js arbitrary: p)
  case (Cons j js)
  then show ?case by (cases j) auto
qed simp

lemma fld_imm24 [simp]:
  "x < 0x1000000 \<Longrightarrow> 24 \<le> a \<Longrightarrow> fld a n (of_nat x) = 0" "x < 0x1000000 \<Longrightarrow> fld 0 24 (of_nat x) = of_nat x"
  using fld_of_nat_high [of x 24] fld_of_nat_low [of x 24] by simp_all

lemma decode_branch_op:
  assumes "x < 0x1000000"
  shows "decode_arm (0x0a000000 OR of_nat x) = Some (Branch EQ (signed24 (of_nat x)))"
    and "decode_arm (0x1a000000 OR of_nat x) = Some (Branch NE (signed24 (of_nat x)))"
    and "decode_arm (0xaa000000 OR of_nat x) = Some (Branch GE (signed24 (of_nat x)))"
    and "decode_arm (0x4a000000 OR of_nat x) = Some (Branch MI (signed24 (of_nat x)))"
    and "decode_arm (0xea000000 OR of_nat x) = Some (Branch AL (signed24 (of_nat x)))"
  using assms by (simp_all add: decode_simps)

lemma decode_branch_word:
  assumes "(i, op, c, l) \<in> set (branches_at p js)" "x < 0x1000000"
  shows "decode_arm (op OR of_nat x) = Some (Branch c (signed24 (of_nat x)))"
  using branches_at_ops [OF assms(1)] decode_branch_op [OF assms(2)] by (elim insertE emptyE) simp_all

lemma signed24_of_nat: "x < 0x1000000 \<Longrightarrow> signed24 (of_nat x) = (if x < 0x800000 then int x else int x - 0x1000000)"
proof -
  assume "x < 0x1000000"
  then have "uint (of_nat x :: u32) = int x" by (simp add: uint_nat unat_of_nat take_bit_nat_eq_self)
  then show ?thesis by (simp add: signed24_def)
qed

lemma decode_branch:
  assumes "(i, op, c, l) \<in> set (branches_at p js)" "t \<le> i \<or> i + 2 \<le> t" "i < 2048" "t < 2048"
  shows "decode_arm (op OR patch_arm (Some t) i) = Some (Branch c (int t - int i - 2))"
proof (cases "t \<le> i")
  case True
  define x where "x = 0x1000000 + t - i - 2"
  have "int x = 0x1000000 - (int i + 2 - int t)" using assms True by (simp add: x_def of_nat_diff)
  then have "patch_arm (Some t) i = word_of_int (int x)" using True by (simp only: patch_arm_def option.case if_True)
  then have "patch_arm (Some t) i = of_nat x" by simp
  then show ?thesis using decode_branch_word [OF assms(1), of x] signed24_of_nat [of x] assms True
    by (simp add: x_def of_nat_diff)
next
  case False
  define x where "x = t - i - 2"
  have "patch_arm (Some t) i = of_nat x" using False assms(2) by (simp add: patch_arm_def x_def)
  then show ?thesis using decode_branch_word [OF assms(1), of x] signed24_of_nat [of x] assms False
    by (simp add: x_def of_nat_diff)
qed

text \<open>
  C12. Equivalence of the one-pass generator with a two-pass assembler. For a program whose operands fit their fields, whose branches have
  labels and which is shorter than the gap before the constant pool, the generator succeeds, the words it leaves decode to the assembled
  program, every branch offset leading to the position of its label, and the pool holds the constants the loads refer to.
\<close>

theorem arm_code_is_assembly:
  assumes "list_all arm_ok js" "branches_ok js" "sizes_arm js < gap" "gap \<le> 1024"
    "length (labels_at 0 js) \<le> JIT_MAX_LABELS" "length (branches_at 0 js) \<le> JIT_MAX_LABELS"
  shows "\<exists>s. emits_arm addr fn div_fn js (jit_init_arm gap) = Some s \<and> code_idx s = sizes_arm js \<and>
    map (\<lambda>i. decode_arm (arm_code s i)) [0..<sizes_arm js] =
      map Some (assemble_arm (\<lambda>l. the (map_of (labels_at 0 js) l)) 0 gap js) \<and>
    map (arm_code s) [gap..<cpool_idx s] = pool_arm addr fn div_fn js"
proof -
  let ?T = "\<lambda>l. the (map_of (labels_at 0 js) l)"
  obtain s where s: "emits_arm addr fn div_fn js (jit_init_arm gap) = Some s" and a: "assembled addr fn div_fn gap js s"
    using emits_assembled [OF assms(1, 3-6)] by blast
  have "decode_arm (arm_code s i) = Some (assemble_arm ?T 0 gap js ! i)" if "i < sizes_arm js" for i
  proof (cases "i \<in> fst ` set (branches_at 0 js)")
    case True
    then obtain op c l where b: "(i, op, c, l) \<in> set (branches_at 0 js)" by auto
    then obtain t where t: "map_of (labels_at 0 js) l = Some t" "t \<le> i \<or> i + 2 \<le> t"
      using assms(2) by (fastforce simp: branches_ok_def list_all_iff split: option.splits)
    have "t < 2048" "i < 2048" using labels_at_range [OF map_of_SomeD [OF t(1)]] that assms by simp_all
    then show ?thesis using assembledD(6) [OF a b] assemble_branch [OF b, of ?T gap] decode_branch [OF b t(2)] t(1) by simp
  next
    case False
    then show ?thesis using assembledD(7) [OF a that] assemble_other [OF that, of 0 ?T gap "\<lambda>_. 0"] by simp
  qed
  then have "map (\<lambda>i. decode_arm (arm_code s i)) [0..<sizes_arm js] = map Some (assemble_arm ?T 0 gap js)"
    by (intro nth_equalityI) simp_all
  moreover have "map (arm_code s) [gap..<cpool_idx s] = pool_arm addr fn div_fn js"
    using assembledD(2, 8) [OF a] by (intro nth_equalityI) simp_all
  ultimately show ?thesis using s assembledD(1) [OF a] by blast
qed

definition arm_loop :: "jit list" where
  "arm_loop = [JMovi 0 (W 5), JLabel [1], JCmpi 0 0, JJe [2], JMovi 1 (W 1), JSubr 0 1, JJmp [1], JLabel [2], JRet]"

theorem arm_code_is_assembly_witness:
  "\<exists>s. emits_arm (\<lambda>v. case v of W w \<Rightarrow> ucast w | _ \<Rightarrow> 0) (\<lambda>_. 0) 0 arm_loop (jit_init_arm 1024) = Some s \<and>
    map (\<lambda>i. decode_arm (arm_code s i)) [0..<7] =
      map Some [Single AL True False 15 0 4088, Data AL CMP_op True 0 0 (Imm 0), Branch EQ 2, Single AL True False 15 1 4080,
        Data AL SUB_op True 0 0 (Reg 1), Branch AL (- 6), Data AL MOV_op False 15 0 (Reg 14)] \<and>
    map (arm_code s) [1024..<cpool_idx s] = [5, 1]"
proof -
  have "list_all arm_ok arm_loop" "branches_ok arm_loop" "sizes_arm arm_loop = 7"
    "length (labels_at 0 arm_loop) \<le> JIT_MAX_LABELS" "length (branches_at 0 arm_loop) \<le> JIT_MAX_LABELS"
    "assemble_arm (\<lambda>l. the (map_of (labels_at 0 arm_loop) l)) 0 1024 arm_loop =
      [Single AL True False 15 0 4088, Data AL CMP_op True 0 0 (Imm 0), Branch EQ 2, Single AL True False 15 1 4080,
        Data AL SUB_op True 0 0 (Reg 1), Branch AL (- 6), Data AL MOV_op False 15 0 (Reg 14)]"
    by (simp_all add: arm_loop_def branches_ok_def size_arm_def JIT_MAX_LABELS_def lit_def mov_def)
  with arm_code_is_assembly [of arm_loop 1024 "\<lambda>v. case v of W w \<Rightarrow> ucast w | _ \<Rightarrow> 0" "\<lambda>_. 0" 0] show ?thesis
    by (auto simp: arm_loop_def)
qed

text \<open>
  The store that \<open>arm_ok\<close> excludes: for a negative offset, \<open>jit_str_stack\<close> writes an instruction that loads.
\<close>

lemma store_below_stack_is_load:
  "0 < x \<Longrightarrow> x < 4096 \<Longrightarrow> r < 16 \<Longrightarrow> room 1 s \<Longrightarrow>
   writes (jit_str_stack_arm r (- int x)) s [Single AL True False 13 r (- int x)] []"
  using writes_put [OF decode_stack(1), of x r s] by (simp add: jit_str_stack_arm_def)

text \<open>
  A branch to the instruction that follows it: the patch is \<open>-1\<close>, and the word becomes the same for every condition.
\<close>

lemma branch_to_next_corrupted: "op OR patch_arm (Some (i + 1)) i = 0xffffffff"
  by (simp add: patch_arm_def)

end
