(* ===== verification/Bytegen.thy ===== *)
theory Bytegen
  imports Jit
begin

text \<open>
  What the code generators for x86 (\<^verbatim>\<open>src/sledge/jit_x86.c\<close>) and m68k (\<^verbatim>\<open>src/sledge/jit_m68k.c\<close>) share: both append bytes to the array
  \<open>code\<close>, list the labels that are defined and the branches that wait for a label, and patch the branches when \<open>jit_label\<close> defines it.
  The locale \<open>branch_fixups\<close> states what their \<open>jit_emit_branch\<close> and \<open>jit_label\<close> do; in it the one pass with patches is proved to leave
  the bytes of a linker that knows every label beforehand. The locale \<open>assembler\<close> adds a decoder and gives the disassembly of a program.
\<close>

section \<open>State and output\<close>

record gen =
  g_code :: "nat \<Rightarrow> byte"
  g_idx :: nat
  g_labels :: "(cstr \<times> nat) list"
  g_unres :: "(cstr option \<times> nat) list"

definition codesz :: nat where "codesz = 8192"
definition MAX_LABELS :: nat where "MAX_LABELS = 32"

definition put_byte :: "byte \<Rightarrow> gen \<Rightarrow> gen option" where
  "put_byte b s = (if g_idx s < codesz then Some (s\<lparr>g_code := (g_code s)(g_idx s := b), g_idx := g_idx s + 1\<rparr>) else None)"

fun put_bytes :: "byte list \<Rightarrow> gen \<Rightarrow> gen option" where
  "put_bytes [] s = Some s"
| "put_bytes (b # ds) s = Option.bind (put_byte b s) (put_bytes ds)"

definition fill :: "nat \<Rightarrow> byte list \<Rightarrow> (nat \<Rightarrow> byte) \<Rightarrow> nat \<Rightarrow> byte" where
  "fill i ds code = (\<lambda>j. if i \<le> j \<and> j < i + length ds then ds ! (j - i) else code j)"

definition gen_init :: gen where
  "gen_init = \<lparr>g_code = \<lambda>_. 0, g_idx = 0, g_labels = [], g_unres = []\<rparr>"

text \<open>The loop of \<open>jit_label\<close>: \<open>f i\<close> are the bytes that are stored at the place \<open>i\<close> of a waiting branch.\<close>

fun resolve_slots :: "(nat \<Rightarrow> byte list) \<Rightarrow> cstr \<Rightarrow> (cstr option \<times> nat) list \<Rightarrow> (nat \<Rightarrow> byte) \<Rightarrow> (cstr option \<times> nat) list \<times> (nat \<Rightarrow> byte)" where
  "resolve_slots f l [] code = ([], code)"
| "resolve_slots f l ((name, i) # us) code =
     (if name = Some l
      then let (us, code) = resolve_slots f l us (fill i (f i) code) in ((None, 0) # us, code)
      else let (us, code) = resolve_slots f l us code in ((name, i) # us, code))"

text \<open>The number of arguments of a C function, by which the compiler chooses \<open>jit_call\<close>, \<open>jit_call2\<close> or \<open>jit_call3\<close>.\<close>

fun host_arity :: "hostfn \<Rightarrow> nat" where
  "host_arity Host_alloc_concat = 2"
| "host_arity Host_alloc_cons = 2"
| "host_arity Host_fs_mount = 2"
| "host_arity Host_insert_global_symbol = 2"
| "host_arity Host_lisp_write_to_cell = 2"
| "host_arity Host_stream_write = 2"
| "host_arity Host_alloc_substr = 3"
| "host_arity Host_collect_garbage = 3"
| "host_arity _ = 1"

section \<open>Programs with labels\<close>

datatype item = Bytes "byte list" | Jump "byte list" label | Mark label

fun run_item :: "(label \<Rightarrow> gen \<Rightarrow> gen option) \<Rightarrow> (label \<Rightarrow> gen \<Rightarrow> gen option) \<Rightarrow> item \<Rightarrow> gen \<Rightarrow> gen option" where
  "run_item branch label (Bytes ds) s = put_bytes ds s"
| "run_item branch label (Jump op l) s = Option.bind (put_bytes op s) (branch l)"
| "run_item branch label (Mark l) s = label l s"

fun run_items :: "(label \<Rightarrow> gen \<Rightarrow> gen option) \<Rightarrow> (label \<Rightarrow> gen \<Rightarrow> gen option) \<Rightarrow> item list \<Rightarrow> gen \<Rightarrow> gen option" where
  "run_items branch label [] s = Some s"
| "run_items branch label (x # xs) s = Option.bind (run_item branch label x s) (run_items branch label xs)"

fun item_size :: "nat \<Rightarrow> item \<Rightarrow> nat" where
  "item_size w (Bytes ds) = length ds"
| "item_size w (Jump op l) = length op + w"
| "item_size w (Mark l) = 0"

definition items_size :: "nat \<Rightarrow> item list \<Rightarrow> nat" where
  "items_size w xs = sum_list (map (item_size w) xs)"

fun marks_at :: "nat \<Rightarrow> nat \<Rightarrow> item list \<Rightarrow> (label \<times> nat) list" where
  "marks_at w p [] = []"
| "marks_at w p (x # xs) = (case x of Mark l \<Rightarrow> [(l, p)] | _ \<Rightarrow> []) @ marks_at w (p + item_size w x) xs"

fun slots_at :: "nat \<Rightarrow> nat \<Rightarrow> item list \<Rightarrow> (nat \<times> label) list" where
  "slots_at w p [] = []"
| "slots_at w p (x # xs) = (case x of Jump op l \<Rightarrow> [(p + length op, l)] | _ \<Rightarrow> []) @ slots_at w (p + item_size w x) xs"

definition slot :: "nat \<Rightarrow> (int \<Rightarrow> byte list) \<Rightarrow> nat option \<Rightarrow> nat \<Rightarrow> byte list" where
  "slot w enc t i = (case t of None \<Rightarrow> replicate w 0 | Some t \<Rightarrow> enc (int t - int i))"

fun link :: "nat \<Rightarrow> (int \<Rightarrow> byte list) \<Rightarrow> (label \<Rightarrow> nat option) \<Rightarrow> nat \<Rightarrow> item list \<Rightarrow> byte list" where
  "link w enc T p [] = []"
| "link w enc T p (x # xs) =
     (case x of Bytes ds \<Rightarrow> ds | Jump op l \<Rightarrow> op @ slot w enc (T l) (p + length op) | Mark l \<Rightarrow> []) @ link w enc T (p + item_size w x) xs"

section \<open>Output\<close>

lemma fill_Nil [simp]: "fill i [] code = code"
  by (auto simp: fill_def fun_eq_iff)

lemma fill_Cons: "fill i (b # ds) code = fill (Suc i) ds (code(i := b))"
  by (auto simp: fill_def fun_eq_iff nth_Cons')

lemma put_bytes_eq:
  "g_idx s + length ds \<le> codesz \<Longrightarrow> put_bytes ds s = Some (s\<lparr>g_code := fill (g_idx s) ds (g_code s), g_idx := g_idx s + length ds\<rparr>)"
proof (induction ds arbitrary: s)
  case (Cons b ds)
  show ?case using Cons.prems by (simp add: put_byte_def Cons.IH fill_Cons del: fun_upd_apply)
qed simp

lemma resolve_slots_fst [simp]:
  "fst (resolve_slots f l us code) = map (\<lambda>u. if fst u = Some l then (None, 0) else u) us"
proof (induction us arbitrary: code)
  case (Cons u us)
  show ?case by (cases u) (simp add: Cons.IH case_prod_unfold Let_def)
qed simp

lemma resolve_slots_other:
  "(\<And>i. (Some l, i) \<in> set us \<Longrightarrow> j < i \<or> i + length (f i) \<le> j) \<Longrightarrow> snd (resolve_slots f l us code) j = code j"
proof (induction us arbitrary: code)
  case (Cons u us)
  have IH: "snd (resolve_slots f l us c) j = c j" for c using Cons.IH Cons.prems by simp
  obtain name k where u: "u = (name, k)" by fastforce
  then show ?case using Cons.prems [of k] by (auto simp: IH case_prod_unfold Let_def fill_def)
qed simp

text \<open>The places of a label do not overlap.\<close>

lemma resolve_slots_at:
  assumes "(Some l, i) \<in> set us" "k < length (f i)" "\<And>i'. (Some l, i') \<in> set us \<Longrightarrow> i' \<noteq> i \<Longrightarrow> i + k < i' \<or> i' + length (f i') \<le> i + k"
  shows "snd (resolve_slots f l us code) (i + k) = f i ! k"
  using assms
proof (induction us arbitrary: code)
  case (Cons u us)
  obtain name j where u: "u = (name, j)" by fastforce
  show ?case
  proof (cases "(Some l, i) \<in> set us")
    case True
    have IH: "snd (resolve_slots f l us c) (i + k) = f i ! k" for c using Cons.IH [OF True Cons.prems(2)] Cons.prems(3) by simp
    show ?thesis by (auto simp: u IH case_prod_unfold Let_def)
  next
    case False
    then have "name = Some l" "j = i" using Cons.prems(1) u by auto
    moreover have "snd (resolve_slots f l us c) (i + k) = c (i + k)" for c
      using Cons.prems(3) False by (intro resolve_slots_other) auto
    ultimately show ?thesis using Cons.prems(2) by (simp add: u case_prod_unfold Let_def fill_def)
  qed
qed simp


lemma items_size_simps [simp]:
  "items_size w [] = 0" "items_size w (x # xs) = item_size w x + items_size w xs" "items_size w (xs @ ys) = items_size w xs + items_size w ys"
  by (simp_all add: items_size_def)

lemma marks_at_append: "marks_at w p (xs @ ys) = marks_at w p xs @ marks_at w (p + items_size w xs) ys"
  by (induction xs arbitrary: p) (simp_all add: add.assoc)

lemma slots_at_append: "slots_at w p (xs @ ys) = slots_at w p xs @ slots_at w (p + items_size w xs) ys"
  by (induction xs arbitrary: p) (simp_all add: add.assoc)

lemma link_append: "link w enc T p (xs @ ys) = link w enc T p xs @ link w enc T (p + items_size w xs) ys"
  by (induction xs arbitrary: p) (simp_all add: add.assoc)

lemma run_items_append: "run_items br lb (xs @ ys) s = Option.bind (run_items br lb xs s) (run_items br lb ys)"
  by (induction xs arbitrary: s) (auto split: bind_splits)

lemma marks_at_range: "(l, t) \<in> set (marks_at w p xs) \<Longrightarrow> p \<le> t \<and> t \<le> p + items_size w xs"
proof (induction xs arbitrary: p)
  case (Cons x xs)
  show ?case using Cons.prems Cons.IH [of "p + item_size w x"] by (cases x) auto
qed simp

lemma slots_at_range: "(i, l) \<in> set (slots_at w p xs) \<Longrightarrow> p \<le> i \<and> i + w \<le> p + items_size w xs"
proof (induction xs arbitrary: p)
  case (Cons x xs)
  show ?case using Cons.prems Cons.IH [of "p + item_size w x"] by (cases x) auto
qed simp

lemma slots_at_disjoint:
  "(i, l) \<in> set (slots_at w p xs) \<Longrightarrow> (j, k) \<in> set (slots_at w p xs) \<Longrightarrow> (i, l) = (j, k) \<or> i + w \<le> j \<or> j + w \<le> i"
proof (induction xs arbitrary: p)
  case (Cons x xs)
  show ?case using Cons.prems Cons.IH [of "p + item_size w x"]
      slots_at_range [of i l w "p + item_size w x" xs] slots_at_range [of j k w "p + item_size w x" xs]
    by (cases x) auto
qed simp

text \<open>The state of the generator after it has processed the items \<open>xs\<close>: what is known of the labels is resolved.\<close>

definition generated :: "nat \<Rightarrow> (int \<Rightarrow> byte list) \<Rightarrow> item list \<Rightarrow> gen \<Rightarrow> bool" where
  "generated w enc xs s \<longleftrightarrow>
     g_idx s = items_size w xs \<and> g_labels s = marks_at w 0 xs \<and>
     map (g_code s) [0..<items_size w xs] = link w enc (map_of (marks_at w 0 xs)) 0 xs \<and>
     length (g_unres s) \<le> length (slots_at w 0 xs) \<and>
     (\<forall>i l. (Some l, i) \<in> set (g_unres s) \<longleftrightarrow> (i, l) \<in> set (slots_at w 0 xs) \<and> map_of (marks_at w 0 xs) l = None)"

definition items_ok :: "nat \<Rightarrow> item list \<Rightarrow> bool" where
  "items_ok w xs \<longleftrightarrow> items_size w xs \<le> codesz \<and> length (marks_at w 0 xs) \<le> MAX_LABELS \<and> length (slots_at w 0 xs) \<le> MAX_LABELS \<and>
     (\<forall>x\<in>set xs. case x of Jump op l \<Rightarrow> op \<noteq> [] | _ \<Rightarrow> True)"

lemma items_ok_append: "items_ok w (xs @ ys) \<Longrightarrow> items_ok w xs"
  by (auto simp: items_ok_def marks_at_append slots_at_append)

lemma map_fill_below: "map (fill n ds code) [0..<n + length ds] = map code [0..<n] @ ds"
  by (rule nth_equalityI) (auto simp: fill_def nth_append)

locale branch_fixups =
  fixes w :: nat and enc :: "int \<Rightarrow> byte list"
    and branch :: "label \<Rightarrow> gen \<Rightarrow> gen option" and mark :: "label \<Rightarrow> gen \<Rightarrow> gen option"
  assumes enc_length: "length (enc k) = w" and width: "0 < w"
    and branch_back: "map_of (g_labels s) l = Some t \<Longrightarrow> t < g_idx s \<Longrightarrow> branch l s = put_bytes (enc (int t - int (g_idx s))) s"
    and branch_ahead: "map_of (g_labels s) l = None \<Longrightarrow> length (g_unres s) < MAX_LABELS \<Longrightarrow>
      branch l s = put_bytes (replicate w 0) (s\<lparr>g_unres := g_unres s @ [(Some l, g_idx s)]\<rparr>)"
    and mark_resolves: "length (g_labels s) < MAX_LABELS \<Longrightarrow>
      mark l s = Some (s\<lparr>g_labels := g_labels s @ [(l, g_idx s)],
        g_unres := fst (resolve_slots (\<lambda>i. enc (int (g_idx s) - int i)) l (g_unres s) (g_code s)),
        g_code := snd (resolve_slots (\<lambda>i. enc (int (g_idx s) - int i)) l (g_unres s) (g_code s))\<rparr>)"
begin

lemma slot_length [simp]: "length (slot w enc t i) = w"
  by (cases t) (simp_all add: slot_def enc_length)

lemma link_length [simp]: "length (link w enc T p xs) = items_size w xs"
  by (induction xs arbitrary: p) (auto split: item.splits)

lemma link_slot:
  "(i, l) \<in> set (slots_at w p xs) \<Longrightarrow> k < w \<Longrightarrow> link w enc T p xs ! (i - p + k) = slot w enc (T l) i ! k"
proof (induction xs arbitrary: p)
  case (Cons x xs)
  show ?case
  proof (cases "(i, l) \<in> set (slots_at w (p + item_size w x) xs)")
    case True
    then have "p + item_size w x \<le> i" using slots_at_range by blast
    then obtain d where d: "i = p + item_size w x + d" using le_Suc_ex by blast
    show ?thesis using Cons.IH [OF True Cons.prems(2)] by (cases x) (simp_all add: nth_append d)
  next
    case False
    then show ?thesis using Cons.prems by (cases x) (auto simp: nth_append)
  qed
qed simp

lemma link_other:
  assumes "\<And>k. k \<noteq> l \<Longrightarrow> T k = T' k"
  shows "j < items_size w xs \<Longrightarrow> (\<And>i. (i, l) \<in> set (slots_at w p xs) \<Longrightarrow> p + j < i \<or> i + w \<le> p + j) \<Longrightarrow>
    link w enc T p xs ! j = link w enc T' p xs ! j"
proof (induction xs arbitrary: p j)
  case (Cons x xs)
  show ?case
  proof (cases "j < item_size w x")
    case True
    show ?thesis
    proof (cases x)
      case (Jump op k)
      show ?thesis
      proof (cases "k = l")
        case True
        then show ?thesis using Cons.prems(2) [of "p + length op"] \<open>j < item_size w x\<close> Jump by (auto simp: nth_append)
      qed (use True Jump assms [of k] in \<open>auto simp: nth_append\<close>)
    qed (use True in \<open>simp_all add: nth_append\<close>)
  next
    case False
    then obtain d where d: "j = item_size w x + d" using le_Suc_ex not_less by blast
    have "link w enc T (p + item_size w x) xs ! d = link w enc T' (p + item_size w x) xs ! d"
      using Cons.prems unfolding d by (intro Cons.IH) (auto simp: add.assoc)
    then show ?thesis by (cases x) (simp_all add: nth_append d)
  qed
qed simp

lemma generated_bytes:
  assumes "generated w enc xs s" "items_size w xs + length ds \<le> codesz"
  shows "\<exists>s'. put_bytes ds s = Some s' \<and> g_idx s' = items_size w xs + length ds \<and> g_labels s' = g_labels s \<and> g_unres s' = g_unres s \<and>
    map (g_code s') [0..<items_size w xs + length ds] = map (g_code s) [0..<items_size w xs] @ ds"
  using assms by (simp add: generated_def put_bytes_eq map_fill_below)

lemma generated_Bytes:
  assumes "generated w enc xs s" "items_ok w (xs @ [Bytes ds])"
  shows "\<exists>s'. run_item branch mark (Bytes ds) s = Some s' \<and> generated w enc (xs @ [Bytes ds]) s'"
  using generated_bytes [OF assms(1), of ds] assms
  by (auto simp: generated_def items_ok_def marks_at_append slots_at_append link_append)

lemma generated_Jump:
  assumes "generated w enc xs s" "items_ok w (xs @ [Jump op l])"
  shows "\<exists>s'. run_item branch mark (Jump op l) s = Some s' \<and> generated w enc (xs @ [Jump op l]) s'"
proof -
  let ?T = "map_of (marks_at w 0 xs)" let ?n = "items_size w xs" let ?d = "slot w enc (?T l) (?n + length op)"
  have size: "?n + length op + w \<le> codesz" and unres: "length (slots_at w 0 xs) < MAX_LABELS" and op: "op \<noteq> []"
    using assms(2) by (auto simp: items_ok_def slots_at_append)
  have code: "map (g_code s) [0..<?n] = link w enc ?T 0 xs" using assms(1) by (simp add: generated_def)
  from generated_bytes [OF assms(1), of op] size code obtain s1 where s1: "put_bytes op s = Some s1" "g_idx s1 = ?n + length op"
    "g_labels s1 = g_labels s" "g_unres s1 = g_unres s" "map (g_code s1) [0..<?n + length op] = link w enc ?T 0 xs @ op"
    by auto
  define u where "u = (if ?T l = None then [(Some l, ?n + length op)] else [])"
  have labels: "g_labels s = marks_at w 0 xs" using assms(1) by (simp add: generated_def)
  have "branch l s1 = put_bytes ?d (s1\<lparr>g_unres := g_unres s @ u\<rparr>)"
  proof (cases "?T l")
    case None
    then show ?thesis using branch_ahead [of s1 l] assms(1) unres s1 by (simp add: generated_def u_def slot_def)
  next
    case (Some t)
    then have "t \<le> ?n" using marks_at_range [of l t w 0 xs] map_of_SomeD by fastforce
    moreover have "0 < length op" using op by simp
    ultimately have "t < ?n + length op" by linarith
    moreover have same: "s1\<lparr>g_unres := g_unres s\<rparr> = s1" using s1(4) by (cases s1) simp
    ultimately show ?thesis using branch_back [of s1 l t] Some s1 by (simp add: labels u_def slot_def same)
  qed
  then have br: "run_item branch mark (Jump op l) s = Some (s1\<lparr>g_unres := g_unres s @ u,
      g_code := fill (?n + length op) ?d (g_code s1), g_idx := ?n + length op + w\<rparr>)"
    using size s1 by (simp add: put_bytes_eq)
  show ?thesis unfolding br
    using assms(1) map_fill_below [of "?n + length op" ?d "g_code s1"]
    by (auto simp: generated_def marks_at_append slots_at_append link_append s1 u_def add.assoc)
qed

lemma generated_Mark:
  assumes "generated w enc xs s" "items_ok w (xs @ [Mark l])"
  shows "\<exists>s'. run_item branch mark (Mark l) s = Some s' \<and> generated w enc (xs @ [Mark l]) s'"
proof -
  let ?T = "map_of (marks_at w 0 xs)" let ?n = "items_size w xs" let ?f = "\<lambda>i. enc (int ?n - int i)"
  let ?T' = "map_of (marks_at w 0 xs @ [(l, ?n)])"
  let ?c = "snd (resolve_slots ?f l (g_unres s) (g_code s))"
  have gen: "g_idx s = ?n" "g_labels s = marks_at w 0 xs" "map (g_code s) [0..<?n] = link w enc ?T 0 xs"
    and un: "\<And>i l. (Some l, i) \<in> set (g_unres s) \<longleftrightarrow> (i, l) \<in> set (slots_at w 0 xs) \<and> ?T l = None"
    using assms(1) by (auto simp: generated_def)
  have T': "k \<noteq> l \<or> ?T l \<noteq> None \<Longrightarrow> ?T' k = ?T k" for k by (auto simp: map_add_def split: option.splits)
  have *: "?c j = link w enc ?T' 0 xs ! j" if "j < ?n" for j
  proof -
    have c: "g_code s j = link w enc ?T 0 xs ! j" using gen(3) that by (metis add_0 length_upt minus_nat.diff_0 nth_map nth_upt)
    show ?thesis
    proof (cases "\<exists>i. (Some l, i) \<in> set (g_unres s) \<and> i \<le> j \<and> j < i + w")
      case True
      then obtain i k where i: "(Some l, i) \<in> set (g_unres s)" "k < w" "j = i + k" by (metis le_Suc_ex nat_add_left_cancel_less)
      have "?c j = ?f i ! k" unfolding i(3)
        using i slots_at_disjoint by (intro resolve_slots_at) (fastforce simp: enc_length un)+
      moreover have "link w enc ?T' 0 xs ! j = slot w enc (?T' l) i ! k" using link_slot [of i l 0 xs k] i un by simp
      ultimately show ?thesis using i(1) un by (simp add: slot_def map_add_def)
    next
      case False
      then have "?c j = g_code s j" by (intro resolve_slots_other) (fastforce simp: enc_length)
      moreover have "link w enc ?T 0 xs ! j = link w enc ?T' 0 xs ! j"
      proof (cases "?T l")
        case None
        then show ?thesis using False that by (intro link_other [of l]) (auto simp: map_add_def un not_le split: option.splits)
      next
        case (Some t)
        then have "?T' = ?T" using T' by auto
        then show ?thesis by simp
      qed
      ultimately show ?thesis using c by simp
    qed
  qed
  have "length (g_labels s) < MAX_LABELS" using assms(2) by (simp add: gen items_ok_def marks_at_append)
  moreover have "map ?c [0..<?n] = link w enc ?T' 0 xs" by (rule nth_equalityI) (simp_all add: *)
  ultimately show ?thesis using assms(1) T'
    by (auto simp: mark_resolves generated_def marks_at_append slots_at_append link_append image_iff split: if_splits)
qed

theorem run_items_generated:
  assumes "items_ok w xs"
  shows "\<exists>s. run_items branch mark xs gen_init = Some s \<and> generated w enc xs s"
  using assms
proof (induction xs rule: rev_induct)
  case Nil
  then show ?case by (simp add: generated_def gen_init_def)
next
  case (snoc x xs)
  then obtain s where s: "run_items branch mark xs gen_init = Some s" "generated w enc xs s" using items_ok_append by blast
  then have "\<exists>s'. run_item branch mark x s = Some s' \<and> generated w enc (xs @ [x]) s'"
    using snoc.prems by (cases x) (auto intro: generated_Bytes generated_Jump generated_Mark simp del: run_item.simps)
  then show ?case using s by (auto simp: run_items_append)
qed

end

text \<open>Numbers of registers in fields of three bits.\<close>

lemma reg_cases: "(i :: byte) < 8 \<Longrightarrow> i = 0 \<or> i = 1 \<or> i = 2 \<or> i = 3 \<or> i = 4 \<or> i = 5 \<or> i = 6 \<or> i = 7"
proof -
  assume "i < 8"
  then have "unat i \<in> set [0..<8]" by (simp add: word_less_nat_alt)
  then have "(of_nat (unat i) :: byte) \<in> set (map of_nat [0..<8])" by (metis image_eqI set_map)
  then show ?thesis by (simp add: upt_rec)
qed

lemma reg_bits [simp]: "i < 8 \<Longrightarrow> drop_bit 3 i = (0 :: byte)" "i < 8 \<Longrightarrow> take_bit 3 i = (i :: byte)"
  by (drule reg_cases; elim disjE; simp)+

section \<open>Disassembly and assembly\<close>

text \<open>Disassembly: instruction after instruction to the last byte.\<close>

function disasm :: "(byte list \<Rightarrow> ('i \<times> byte list) option) \<Rightarrow> byte list \<Rightarrow> 'i list option" where
  "disasm decode ys =
     (if ys = [] then Some []
      else case decode ys of None \<Rightarrow> None
      | Some (i, rest) \<Rightarrow> if length rest < length ys then map_option ((#) i) (disasm decode rest) else None)"
  by pat_completeness auto
termination by (relation "measure (length \<circ> snd)") auto

declare disasm.simps [simp del]

text \<open>
  A target machine is given by the instructions \<open>insns j\<close> of an operation \<open>j\<close>, or, when \<open>j\<close> is a branch, by the bytes before the displacement, the
  instruction with a given displacement, and the label (\<open>br j\<close>); \<open>sz\<close> is the size of an instruction, \<open>w\<close> that of a displacement, and
  displacements count from \<open>base\<close> bytes after the place of the displacement.
\<close>

definition op_size :: "nat \<Rightarrow> ('i \<Rightarrow> nat) \<Rightarrow> (jit \<Rightarrow> 'i list) \<Rightarrow> (jit \<Rightarrow> (byte list \<times> (int \<Rightarrow> 'i) \<times> label) option) \<Rightarrow> jit \<Rightarrow> nat" where
  "op_size w sz insns br j = (case br j of Some (op, f, l) \<Rightarrow> length op + w | None \<Rightarrow> sum_list (map sz (insns j)))"

fun labels_of :: "(jit \<Rightarrow> nat) \<Rightarrow> nat \<Rightarrow> jit list \<Rightarrow> (label \<times> nat) list" where
  "labels_of osz p [] = []"
| "labels_of osz p (j # js) = (case j of JLabel l \<Rightarrow> [(l, p)] | _ \<Rightarrow> []) @ labels_of osz (p + osz j) js"

fun assemble :: "nat \<Rightarrow> (jit \<Rightarrow> nat) \<Rightarrow> (jit \<Rightarrow> 'i list) \<Rightarrow> (jit \<Rightarrow> (byte list \<times> (int \<Rightarrow> 'i) \<times> label) option) \<Rightarrow>
    (label \<Rightarrow> nat option) \<Rightarrow> nat \<Rightarrow> jit list \<Rightarrow> 'i list" where
  "assemble base osz insns br T p [] = []"
| "assemble base osz insns br T p (j # js) =
     (case br j of Some (op, f, l) \<Rightarrow> [f (int (the (T l)) - int (p + length op + base))] | None \<Rightarrow> insns j)
     @ assemble base osz insns br T (p + osz j) js"

fun emit_all :: "(jit \<Rightarrow> gen \<Rightarrow> gen option) \<Rightarrow> jit list \<Rightarrow> gen \<Rightarrow> gen option" where
  "emit_all emit [] s = Some s"
| "emit_all emit (j # js) s = Option.bind (emit j s) (emit_all emit js)"

text \<open>Programs that fit: into the array and into the tables of labels, and every label is defined.\<close>

definition fits :: "(jit \<Rightarrow> nat) \<Rightarrow> (jit \<Rightarrow> (byte list \<times> (int \<Rightarrow> 'i) \<times> label) option) \<Rightarrow> (jit \<Rightarrow> bool) \<Rightarrow> jit list \<Rightarrow> bool" where
  "fits osz br ok js \<longleftrightarrow> list_all ok js \<and> sum_list (map osz js) \<le> codesz \<and> length (labels_of osz 0 js) \<le> MAX_LABELS \<and>
     length (List.map_filter br js) \<le> MAX_LABELS \<and>
     (\<forall>(op, f, l) \<in> set (List.map_filter br js). l \<in> fst ` set (labels_of osz 0 js))"

text \<open>The bytes \<open>ds\<close> are the instructions \<open>is\<close>, whatever follows; \<open>f\<close> appends such bytes.\<close>

definition decodes :: "(byte list \<Rightarrow> ('i \<times> byte list) option) \<Rightarrow> ('i \<Rightarrow> nat) \<Rightarrow> byte list \<Rightarrow> 'i list \<Rightarrow> bool" where
  "decodes decode sz ds is \<longleftrightarrow>
     (\<forall>ys. disasm decode (ds @ ys) = map_option ((@) is) (disasm decode ys)) \<and> length ds = sum_list (map sz is)"

definition writes_insns :: "(byte list \<Rightarrow> ('i \<times> byte list) option) \<Rightarrow> ('i \<Rightarrow> nat) \<Rightarrow> (gen \<Rightarrow> gen option) \<Rightarrow> 'i list \<Rightarrow> bool" where
  "writes_insns decode sz f is \<longleftrightarrow> (\<exists>ds. f = put_bytes ds \<and> decodes decode sz ds is)"

lemma disasm_Nil [simp]: "disasm decode [] = Some []"
  by (simp add: disasm.simps)

lemma disasm_step: "decode (ds @ ys) = Some (i, ys) \<Longrightarrow> ds \<noteq> [] \<Longrightarrow> disasm decode (ds @ ys) = map_option ((#) i) (disasm decode ys)"
  by (subst disasm.simps) simp

lemma put_nothing [simp]: "put_bytes [] = Some"
  by (simp add: fun_eq_iff)

lemma put_bytes_append: "put_bytes (a @ b) s = Option.bind (put_bytes a s) (put_bytes b)"
  by (induction a arbitrary: s) (auto split: bind_splits)

lemma put_one:
  "(\<And>ys. decode (ds @ ys) = Some (i, ys)) \<Longrightarrow> length ds = sz i \<Longrightarrow> ds \<noteq> [] \<Longrightarrow> writes_insns decode sz (put_bytes ds) [i]"
  unfolding writes_insns_def decodes_def by (intro exI [of _ ds]) (auto simp: disasm_step intro: option.map_cong)

lemma put_none: "writes_insns decode sz Some []"
  unfolding writes_insns_def decodes_def by (intro exI [of _ "[]"]) (auto simp: map_option_idI option.map_id)

lemma put_bind:
  assumes "writes_insns decode sz f is" "writes_insns decode sz g js"
  shows "writes_insns decode sz (\<lambda>s. Option.bind (f s) g) (is @ js)"
proof -
  obtain a b where "f = put_bytes a" "g = put_bytes b" "decodes decode sz a is" "decodes decode sz b js"
    using assms unfolding writes_insns_def by blast
  then show ?thesis unfolding writes_insns_def decodes_def
    by (intro exI [of _ "a @ b"]) (auto simp: put_bytes_append option.map_comp comp_def intro: option.map_cong)
qed

lemma find_map_of: "map_option snd (find (\<lambda>x. fst x = l) xs) = map_of xs l"
  by (induction xs) auto

text \<open>The item that an operation contributes.\<close>

definition item_of :: "(byte list \<Rightarrow> ('i \<times> byte list) option) \<Rightarrow> ('i \<Rightarrow> nat) \<Rightarrow> (jit \<Rightarrow> 'i list) \<Rightarrow> (jit \<Rightarrow> (byte list \<times> (int \<Rightarrow> 'i) \<times> label) option)
    \<Rightarrow> (jit \<Rightarrow> gen \<Rightarrow> gen option) \<Rightarrow> (item \<Rightarrow> gen \<Rightarrow> gen option) \<Rightarrow> nat \<Rightarrow> jit \<Rightarrow> item \<Rightarrow> bool" where
  "item_of decode sz insns br emit run w j x \<longleftrightarrow> emit j = run x \<and> item_size w x = op_size w sz insns br j \<and>
     (case x of Bytes ds \<Rightarrow> br j = None \<and> (\<forall>l. j \<noteq> JLabel l) \<and> decodes decode sz ds (insns j)
      | Jump op l \<Rightarrow> \<exists>f. br j = Some (op, f, l) | Mark l \<Rightarrow> j = JLabel l)"

locale assembler = branch_fixups w enc branch mark
  for w enc branch mark +
  fixes decode :: "byte list \<Rightarrow> ('i \<times> byte list) option" and sz :: "'i \<Rightarrow> nat" and base :: nat
    and emit :: "jit \<Rightarrow> gen \<Rightarrow> gen option" and insns :: "jit \<Rightarrow> 'i list"
    and br :: "jit \<Rightarrow> (byte list \<times> (int \<Rightarrow> 'i) \<times> label) option" and ok :: "jit \<Rightarrow> bool"
  assumes emit_writes: "ok j \<Longrightarrow> br j = None \<Longrightarrow> (\<And>l. j \<noteq> JLabel l) \<Longrightarrow> writes_insns decode sz (emit j) (insns j)"
    and emit_label: "emit (JLabel l) = mark l" and label_empty: "br (JLabel l) = None \<and> insns (JLabel l) = []"
    and emit_branch: "br j = Some (op, f, l) \<Longrightarrow> emit j s = Option.bind (put_bytes op s) (branch l) \<and> op \<noteq> []"
    and decode_branch: "br j = Some (op, f, l) \<Longrightarrow> - 10000 \<le> k \<Longrightarrow> k \<le> 10000 \<Longrightarrow>
      decode (op @ enc k @ ys) = Some (f (k - int base), ys)"
    and opcode_short: "br j = Some (op, f, l) \<Longrightarrow> length op + w \<le> 8"
begin

abbreviation op_item :: "jit \<Rightarrow> item \<Rightarrow> bool" where
  "op_item \<equiv> item_of decode sz insns br emit (run_item branch mark) w"

abbreviation osz :: "jit \<Rightarrow> nat" where
  "osz \<equiv> op_size w sz insns br"

lemma item_exists:
  assumes "ok j"
  shows "\<exists>x. op_item j x"
proof -
  consider (label) l where "j = JLabel l" | (branch) op f l where "br j = Some (op, f, l)"
    | (bytes) "br j = None" "\<And>l. j \<noteq> JLabel l" by (cases "br j") auto
  then show ?thesis
  proof cases
    case label
    then show ?thesis using label_empty
      by (intro exI [of _ "Mark l"]) (simp add: item_of_def op_size_def emit_label fun_eq_iff)
  next
    case branch
    then show ?thesis using emit_branch [OF branch]
      by (intro exI [of _ "Jump op l"]) (simp add: item_of_def op_size_def fun_eq_iff [of "emit j"])
  next
    case bytes
    then obtain ds where "emit j = put_bytes ds" "decodes decode sz ds (insns j)"
      using emit_writes [OF assms] unfolding writes_insns_def by blast
    then show ?thesis using bytes
      by (intro exI [of _ "Bytes ds"]) (auto simp: item_of_def op_size_def decodes_def fun_eq_iff)
  qed
qed

lemma items_exist: "list_all ok js \<Longrightarrow> \<exists>xs. list_all2 op_item js xs"
  by (induction js) (use item_exists in \<open>fastforce simp: list_all2_Cons1\<close>)+

lemma items_emit: "list_all2 op_item js xs \<Longrightarrow> emit_all emit js s = run_items branch mark xs s"
  by (induction arbitrary: s rule: list_all2_induct) (auto simp: item_of_def split: bind_splits)

lemma items_osz: "list_all2 op_item js xs \<Longrightarrow> items_size w xs = sum_list (map osz js)"
  by (induction rule: list_all2_induct) (auto simp: item_of_def)

lemma items_marks: "list_all2 op_item js xs \<Longrightarrow> marks_at w p xs = labels_of osz p js"
proof (induction arbitrary: p rule: list_all2_induct)
  case (Cons j js x xs)
  then show ?case using label_empty by (cases x; cases j) (auto simp: item_of_def)
qed simp

lemma items_slots: "list_all2 op_item js xs \<Longrightarrow> map snd (slots_at w p xs) = map (snd \<circ> snd) (List.map_filter br js)"
proof (induction arbitrary: p rule: list_all2_induct)
  case (Cons j js x xs)
  then show ?case using label_empty by (cases x) (auto simp: item_of_def map_filter_simps)
qed (simp add: map_filter_simps)

lemma items_opcode: "list_all2 op_item js xs \<Longrightarrow> \<forall>x\<in>set xs. case x of Jump op l \<Rightarrow> op \<noteq> [] | _ \<Rightarrow> True"
proof (induction rule: list_all2_induct)
  case (Cons j js x xs)
  have "case x of Jump op l \<Rightarrow> op \<noteq> [] | _ \<Rightarrow> True" using Cons.hyps(1) emit_branch [of j] by (cases x) (auto simp: item_of_def)
  then show ?case using Cons.IH by simp
qed simp

lemma disasm_branch:
  assumes "br j = Some (op, f, l)" "t \<le> codesz" "p \<le> codesz"
  shows "disasm decode (op @ enc (int t - int (p + length op)) @ ys) = map_option ((#) (f (int t - int (p + length op + base)))) (disasm decode ys)"
proof -
  let ?k = "int t - int (p + length op)"
  have "decode ((op @ enc ?k) @ ys) = Some (f (?k - int base), ys)"
    using decode_branch [OF assms(1), of ?k ys] assms(2,3) opcode_short [OF assms(1)] by (simp add: codesz_def)
  from disasm_step [of decode "op @ enc ?k" ys, OF this] show ?thesis using emit_branch [OF assms(1)] by (simp add: algebra_simps)
qed

lemma disasm_link:
  assumes "list_all2 op_item js xs" "p + sum_list (map osz js) \<le> codesz"
    "\<forall>(op, f, l) \<in> set (List.map_filter br js). \<exists>t \<le> codesz. T l = Some t"
  shows "disasm decode (link w enc T p xs) = Some (assemble base osz insns br T p js)"
  using assms
proof (induction arbitrary: p rule: list_all2_induct)
  case (Cons j js x xs)
  have size: "item_size w x = osz j" using Cons.hyps by (simp add: item_of_def)
  have IH: "disasm decode (link w enc T (p + osz j) xs) = Some (assemble base osz insns br T (p + osz j) js)"
    using Cons.prems by (intro Cons.IH) (auto simp: map_filter_simps split: option.splits)
  show ?case
  proof (cases x)
    case (Jump op l)
    then obtain f where f: "br j = Some (op, f, l)" using Cons.hyps by (auto simp: item_of_def)
    then obtain t where "T l = Some t" "t \<le> codesz" using Cons.prems(2) by (auto simp: map_filter_simps)
    then show ?thesis using disasm_branch [OF f, of t p] Cons.prems(1) f IH Jump size by (simp add: slot_def)
  qed (use Cons.hyps IH size label_empty in \<open>simp_all add: item_of_def decodes_def\<close>)
qed simp

theorem code_is_assembly:
  assumes "fits osz br ok js"
  shows "\<exists>s. emit_all emit js gen_init = Some s \<and> g_idx s = sum_list (map osz js) \<and>
    disasm decode (map (g_code s) [0..<g_idx s]) = Some (assemble base osz insns br (map_of (labels_of osz 0 js)) 0 js)"
proof -
  let ?T = "map_of (labels_of osz 0 js)"
  obtain xs where xs: "list_all2 op_item js xs" using items_exist assms unfolding fits_def by blast
  note facts = items_osz [OF xs] items_marks [OF xs] items_slots [OF xs] items_opcode [OF xs]
  have "length (slots_at w 0 xs) = length (List.map_filter br js)" using facts(3) [of 0] by (metis length_map)
  with assms facts have "items_ok w xs" by (simp add: items_ok_def fits_def)
  then obtain s where s: "emit_all emit js gen_init = Some s" "generated w enc xs s"
    using run_items_generated items_emit [OF xs] by auto
  have "\<exists>t \<le> codesz. ?T l = Some t" if l: "l \<in> fst ` set (labels_of osz 0 js)" for l
  proof -
    obtain t where t: "?T l = Some t" using l by (cases "?T l") (auto simp: map_of_eq_None_iff)
    then have "t \<le> items_size w xs" using marks_at_range [of l t w 0 xs] facts(2) map_of_SomeD by fastforce
    then show ?thesis using t facts(1) assms by (auto simp: fits_def)
  qed
  then have "\<forall>(op, f, l) \<in> set (List.map_filter br js). \<exists>t \<le> codesz. ?T l = Some t"
    using assms unfolding fits_def by blast
  then have "disasm decode (link w enc ?T 0 xs) = Some (assemble base osz insns br ?T 0 js)"
    using assms by (intro disasm_link [OF xs]) (simp_all add: fits_def)
  then show ?thesis using s facts by (auto simp: generated_def)
qed

end

end
