(* ===== verification/Jit_X86.thy ===== *)
theory Jit_X86
  imports Bytegen
begin

unbundle bit_operations_syntax

text \<open>
  The code generator for x86 (\<^verbatim>\<open>src/sledge/jit_x86.c\<close>): each function appends machine code to the array \<open>code\<close>.
\<close>

section \<open>Immediates, labels and branches\<close>

text \<open>The numbers of the registers \<open>eax\<close>, \<open>edi\<close>, \<open>esi\<close>, \<open>edx\<close>, \<open>ecx\<close>, \<open>ebx\<close>, \<open>esp\<close>; the array has eight elements.\<close>

definition regi_x86 :: "nat \<Rightarrow> byte option" where
  "regi_x86 r = (if r < 8 then Some ([0, 7, 6, 2, 1, 3, 4, 0] ! r) else None)"

definition RSP_x86 :: nat where "RSP_x86 = 6"

definition jit_imm :: "u32 \<Rightarrow> byte list" where
  "jit_imm imm = [ucast imm, ucast (drop_bit 8 imm), ucast (drop_bit 16 imm), ucast (drop_bit 24 imm)]"

definition find_label_x86 :: "cstr \<Rightarrow> gen \<Rightarrow> nat option" where
  "find_label_x86 l s = map_option snd (find (\<lambda>x. fst x = l) (g_labels s))"

definition jit_emit_branch_x86 :: "cstr \<Rightarrow> gen \<Rightarrow> gen option" where
  "jit_emit_branch_x86 l s =
     (case find_label_x86 l s of
        Some t \<Rightarrow>
          (let offset = int t - int (g_idx s) in
           if offset < 0 then put_bytes (jit_imm (word_of_int (0xffffffff - (- offset) + 1 - 4))) s else Some s)
      | None \<Rightarrow>
          if length (g_unres s) < MAX_LABELS
          then put_bytes (jit_imm 0) (s\<lparr>g_unres := g_unres s @ [(Some l, g_idx s)]\<rparr>)
          else None)"

definition jit_label_x86 :: "cstr \<Rightarrow> gen \<Rightarrow> gen option" where
  "jit_label_x86 l s =
     (if length (g_labels s) < MAX_LABELS
      then let (us, code) = resolve_slots (\<lambda>i. jit_imm (of_nat (g_idx s) - of_nat i - 4)) l (g_unres s) (g_code s) in
           Some (s\<lparr>g_labels := g_labels s @ [(l, g_idx s)], g_unres := us, g_code := code\<rparr>)
      else None)"

section \<open>Moves and arithmetic\<close>

text \<open>The second byte of an instruction on two registers.\<close>

definition two_regs :: "byte \<Rightarrow> byte \<Rightarrow> byte" where
  "two_regs a b = 0xc0 OR push_bit 3 a OR b"

definition jit_movi_x86 :: "nat \<Rightarrow> u32 \<Rightarrow> gen \<Rightarrow> gen option" where
  "jit_movi_x86 r imm s = do { i \<leftarrow> regi_x86 r; put_bytes ((0xb8 OR i) # jit_imm imm) s }"

definition jit_movr_x86 :: "nat \<Rightarrow> nat \<Rightarrow> gen \<Rightarrow> gen option" where
  "jit_movr_x86 d r s =
     (if d = r then Some s else do { i \<leftarrow> regi_x86 d; j \<leftarrow> regi_x86 r; put_bytes [0x89, two_regs j i] s })"

definition jit_movneg_x86 :: "nat \<Rightarrow> nat \<Rightarrow> gen \<Rightarrow> gen option" where
  "jit_movneg_x86 d r s = do { i \<leftarrow> regi_x86 d; j \<leftarrow> regi_x86 r; put_bytes [0x0f, 0x48, two_regs i j] s }"

definition jit_movne_x86 :: "nat \<Rightarrow> nat \<Rightarrow> gen \<Rightarrow> gen option" where
  "jit_movne_x86 d r s = do { i \<leftarrow> regi_x86 d; j \<leftarrow> regi_x86 r; put_bytes [0x0f, 0x45, two_regs i j] s }"

definition jit_moveq_x86 :: "nat \<Rightarrow> nat \<Rightarrow> gen \<Rightarrow> gen option" where
  "jit_moveq_x86 d r s = do { i \<leftarrow> regi_x86 d; j \<leftarrow> regi_x86 r; put_bytes [0x0f, 0x44, two_regs i j] s }"

definition jit_lea_x86 :: "nat \<Rightarrow> u32 \<Rightarrow> gen \<Rightarrow> gen option" where
  "jit_lea_x86 = jit_movi_x86"

definition jit_addr_x86 :: "nat \<Rightarrow> nat \<Rightarrow> gen \<Rightarrow> gen option" where
  "jit_addr_x86 d r s = do { i \<leftarrow> regi_x86 d; j \<leftarrow> regi_x86 r; put_bytes [0x01, 0xc0 + push_bit 3 j + i] s }"

definition jit_addi_x86 :: "nat \<Rightarrow> int \<Rightarrow> gen \<Rightarrow> gen option" where
  "jit_addi_x86 d imm s =
     do { i \<leftarrow> regi_x86 d; put_bytes ((if d = R0 then [0x05] else [0x81, 0xc0 OR i]) @ jit_imm (word_of_int imm)) s }"

definition jit_subi_x86 :: "nat \<Rightarrow> int \<Rightarrow> gen \<Rightarrow> gen option" where
  "jit_subi_x86 d imm s =
     do { i \<leftarrow> regi_x86 d; put_bytes ((if d = R0 then [0x2d] else [0x81, 0xe8 OR i]) @ jit_imm (word_of_int imm)) s }"

definition jit_andr_x86 :: "nat \<Rightarrow> nat \<Rightarrow> gen \<Rightarrow> gen option" where
  "jit_andr_x86 d r s = do { i \<leftarrow> regi_x86 d; j \<leftarrow> regi_x86 r; put_bytes [0x21, two_regs j i] s }"

definition jit_andi_x86 :: "nat \<Rightarrow> int \<Rightarrow> gen \<Rightarrow> gen option" where
  "jit_andi_x86 d imm s =
     do { i \<leftarrow> regi_x86 d; put_bytes ((if d = R0 then [0x25] else [0x81, 0xe0 OR i]) @ jit_imm (word_of_int imm)) s }"

definition jit_notr_x86 :: "nat \<Rightarrow> gen \<Rightarrow> gen option" where
  "jit_notr_x86 d s = do { i \<leftarrow> regi_x86 d; put_bytes [0xf7, 0xd0 OR i] s }"

definition jit_orr_x86 :: "nat \<Rightarrow> nat \<Rightarrow> gen \<Rightarrow> gen option" where
  "jit_orr_x86 d r s = do { i \<leftarrow> regi_x86 d; j \<leftarrow> regi_x86 r; put_bytes [0x09, two_regs j i] s }"

definition jit_xorr_x86 :: "nat \<Rightarrow> nat \<Rightarrow> gen \<Rightarrow> gen option" where
  "jit_xorr_x86 d r s = do { i \<leftarrow> regi_x86 d; j \<leftarrow> regi_x86 r; put_bytes [0x31, two_regs j i] s }"

definition jit_shrr_x86 :: "nat \<Rightarrow> nat \<Rightarrow> gen \<Rightarrow> gen option" where
  "jit_shrr_x86 d r s =
     do { s \<leftarrow> jit_movr_x86 R3 R4 s; s \<leftarrow> jit_movr_x86 R4 r s;
          i \<leftarrow> regi_x86 d; s \<leftarrow> put_bytes [0xd3, 0xe8 OR i] s; jit_movr_x86 R4 R3 s }"

definition jit_shlr_x86 :: "nat \<Rightarrow> nat \<Rightarrow> gen \<Rightarrow> gen option" where
  "jit_shlr_x86 d r s =
     do { s \<leftarrow> jit_movr_x86 R3 R4 s; s \<leftarrow> jit_movr_x86 R4 r s;
          i \<leftarrow> regi_x86 d; s \<leftarrow> put_bytes [0xd3, 0xe0 OR i] s; jit_movr_x86 R4 R3 s }"

definition jit_subr_x86 :: "nat \<Rightarrow> nat \<Rightarrow> gen \<Rightarrow> gen option" where
  "jit_subr_x86 d r s = do { i \<leftarrow> regi_x86 d; j \<leftarrow> regi_x86 r; put_bytes [0x29, two_regs j i] s }"

definition jit_mulr_x86 :: "nat \<Rightarrow> nat \<Rightarrow> gen \<Rightarrow> gen option" where
  "jit_mulr_x86 d r s = do { i \<leftarrow> regi_x86 d; j \<leftarrow> regi_x86 r; put_bytes [0x0f, 0xaf, two_regs i j] s }"

definition jit_divr_x86 :: "nat \<Rightarrow> nat \<Rightarrow> gen \<Rightarrow> gen option" where
  "jit_divr_x86 d r s =
     do { s \<leftarrow> jit_movr_x86 R0 d s; j \<leftarrow> regi_x86 r; s \<leftarrow> put_bytes [0x99, 0xf7, 0xf8 OR j] s; jit_movr_x86 d R0 s }"

section \<open>Loads and stores\<close>

definition jit_ldr_x86 :: "nat \<Rightarrow> gen \<Rightarrow> gen option" where
  "jit_ldr_x86 r s = do { i \<leftarrow> regi_x86 r; put_bytes [0x8b, push_bit 3 i OR i] s }"

definition jit_ldr_stack_x86 :: "nat \<Rightarrow> int \<Rightarrow> gen \<Rightarrow> gen option" where
  "jit_ldr_stack_x86 d offset s = do { i \<leftarrow> regi_x86 d; put_bytes [0x8b, 0x44 OR push_bit 3 i, 0x24, word_of_int offset] s }"

definition jit_str_stack_x86 :: "nat \<Rightarrow> int \<Rightarrow> gen \<Rightarrow> gen option" where
  "jit_str_stack_x86 r offset s = do { i \<leftarrow> regi_x86 r; put_bytes [0x89, 0x44 OR push_bit 3 i, 0x24, word_of_int offset] s }"

definition jit_ldrb_x86 :: "nat \<Rightarrow> gen \<Rightarrow> gen option" where
  "jit_ldrb_x86 r s =
     do { i \<leftarrow> regi_x86 r; s \<leftarrow> put_bytes [0x8a, 0x10 OR i] s; s \<leftarrow> jit_andi_x86 R3 0xff s; jit_movr_x86 r R3 s }"

definition jit_ldrs_x86 :: "nat \<Rightarrow> gen \<Rightarrow> gen option" where
  "jit_ldrs_x86 r s =
     do { i \<leftarrow> regi_x86 r; s \<leftarrow> put_bytes [0x66, 0x8b, 0x10 OR i] s; s \<leftarrow> jit_andi_x86 R3 0xffff s; jit_movr_x86 r R3 s }"

definition jit_ldrw_x86 :: "nat \<Rightarrow> gen \<Rightarrow> gen option" where
  "jit_ldrw_x86 r s = do { i \<leftarrow> regi_x86 r; put_bytes [0x8b, 0x10 OR i] s }"

definition jit_strb_x86 :: "nat \<Rightarrow> gen \<Rightarrow> gen option" where
  "jit_strb_x86 r s = do { i \<leftarrow> regi_x86 r; put_bytes [0x88, 0x10 OR i] s }"

definition jit_strw_x86 :: "nat \<Rightarrow> gen \<Rightarrow> gen option" where
  "jit_strw_x86 r s = do { i \<leftarrow> regi_x86 r; put_bytes [0x89, 0x10 OR i] s }"

definition jit_strs_x86 :: "nat \<Rightarrow> gen \<Rightarrow> gen option" where
  "jit_strs_x86 r s = do { i \<leftarrow> regi_x86 r; put_bytes [0x66, 0x89, 0x10 OR i] s }"

definition jit_stra_x86 :: "nat \<Rightarrow> gen \<Rightarrow> gen option" where
  "jit_stra_x86 = jit_strw_x86"

section \<open>Calls, comparisons and jumps\<close>

text \<open>\<open>func\<close> is the address of the C function.\<close>

definition jit_call_x86 :: "u32 \<Rightarrow> gen \<Rightarrow> gen option" where
  "jit_call_x86 func s = do { s \<leftarrow> jit_lea_x86 R0 func s; put_bytes [0x57, 0xff, 0xd0, 0x83, 0xc4, 0x04] s }"

definition jit_call2_x86 :: "u32 \<Rightarrow> gen \<Rightarrow> gen option" where
  "jit_call2_x86 func s = do { s \<leftarrow> jit_lea_x86 R0 func s; put_bytes [0x56, 0x57, 0xff, 0xd0, 0x83, 0xc4, 0x08] s }"

definition jit_call3_x86 :: "u32 \<Rightarrow> gen \<Rightarrow> gen option" where
  "jit_call3_x86 func s = do { s \<leftarrow> jit_lea_x86 R0 func s; put_bytes [0x52, 0x56, 0x57, 0xff, 0xd0, 0x83, 0xc4, 12] s }"

definition jit_callr_x86 :: "nat \<Rightarrow> gen \<Rightarrow> gen option" where
  "jit_callr_x86 d s = do { i \<leftarrow> regi_x86 d; put_bytes [0xff, 0xd0 OR i] s }"

text \<open>The remainder is a call of the C function \<open>inline_mod\<close> with the address \<open>func\<close>.\<close>

definition jit_modr_x86 :: "u32 \<Rightarrow> nat \<Rightarrow> nat \<Rightarrow> gen \<Rightarrow> gen option" where
  "jit_modr_x86 func d r s =
     do { s \<leftarrow> jit_movr_x86 ARGR0 d s; s \<leftarrow> jit_movr_x86 ARGR1 r s; s \<leftarrow> jit_call2_x86 func s;
          if d \<noteq> 0 then jit_movr_x86 d 0 s else Some s }"

definition jit_cmpi_x86 :: "nat \<Rightarrow> int \<Rightarrow> gen \<Rightarrow> gen option" where
  "jit_cmpi_x86 d imm s =
     do { i \<leftarrow> regi_x86 d; put_bytes ((if d = R0 then [0x3d] else [0x81, 0xf8 OR i]) @ jit_imm (word_of_int imm)) s }"

definition jit_cmpr_x86 :: "nat \<Rightarrow> nat \<Rightarrow> gen \<Rightarrow> gen option" where
  "jit_cmpr_x86 r d s = do { i \<leftarrow> regi_x86 d; j \<leftarrow> regi_x86 r; put_bytes [0x39, two_regs j i] s }"

definition jit_je_x86 :: "cstr \<Rightarrow> gen \<Rightarrow> gen option" where
  "jit_je_x86 l s = do { s \<leftarrow> put_bytes [0x0f, 0x84] s; jit_emit_branch_x86 l s }"

definition jit_jne_x86 :: "cstr \<Rightarrow> gen \<Rightarrow> gen option" where
  "jit_jne_x86 l s = do { s \<leftarrow> put_bytes [0x0f, 0x85] s; jit_emit_branch_x86 l s }"

definition jit_jneg_x86 :: "cstr \<Rightarrow> gen \<Rightarrow> gen option" where
  "jit_jneg_x86 l s = do { s \<leftarrow> put_bytes [0x0f, 0x88] s; jit_emit_branch_x86 l s }"

definition jit_jmp_x86 :: "cstr \<Rightarrow> gen \<Rightarrow> gen option" where
  "jit_jmp_x86 l s = do { s \<leftarrow> put_bytes [0xe9] s; jit_emit_branch_x86 l s }"

definition jit_ret_x86 :: "gen \<Rightarrow> gen option" where
  "jit_ret_x86 = put_bytes [0xc3]"

text \<open>The loops over the registers \<open>a\<close> to \<open>b\<close>; the list holds them in the order of the loop.\<close>

fun put_regs_x86 :: "byte \<Rightarrow> nat list \<Rightarrow> gen \<Rightarrow> gen option" where
  "put_regs_x86 op [] s = Some s"
| "put_regs_x86 op (r # rs) s = do { i \<leftarrow> regi_x86 r; s \<leftarrow> put_byte (op OR i) s; put_regs_x86 op rs s }"

definition jit_push_x86 :: "nat \<Rightarrow> nat \<Rightarrow> gen \<Rightarrow> gen option" where
  "jit_push_x86 a b = put_regs_x86 0x50 [a..<Suc b]"

definition jit_pop_x86 :: "nat \<Rightarrow> nat \<Rightarrow> gen \<Rightarrow> gen option" where
  "jit_pop_x86 a b = put_regs_x86 0x58 (rev [a..<Suc b])"

definition jit_inc_stack_x86 :: "int \<Rightarrow> gen \<Rightarrow> gen option" where
  "jit_inc_stack_x86 = jit_addi_x86 RSP_x86"

definition jit_dec_stack_x86 :: "int \<Rightarrow> gen \<Rightarrow> gen option" where
  "jit_dec_stack_x86 = jit_subi_x86 RSP_x86"

text \<open>\<open>jit_host_call_enter\<close>, \<open>jit_host_call_exit\<close> and \<open>jit_comment\<close> have empty bodies.\<close>

definition jit_nothing_x86 :: "gen \<Rightarrow> gen option" where
  "jit_nothing_x86 = Some"

section \<open>All operations\<close>

text \<open>
  \<open>addr\<close> and \<open>fn\<close> are the addresses of objects and of C functions. The compiler calls \<open>jit_call2\<close> and \<open>jit_call3\<close> for the functions
  of two and of three arguments (\<open>host_arity\<close>). There is no \<open>jit_jge\<close>, which the compiler calls only when it checks bounds.
\<close>

fun emit_x86 :: "(val \<Rightarrow> u32) \<Rightarrow> (hostfn \<Rightarrow> u32) \<Rightarrow> jit \<Rightarrow> gen \<Rightarrow> gen option" where
  "emit_x86 addr fn (JMovi r v) = jit_movi_x86 r (addr v)"
| "emit_x86 addr fn (JMovr d r) = jit_movr_x86 d r"
| "emit_x86 addr fn (JMovneg d r) = jit_movneg_x86 d r"
| "emit_x86 addr fn (JMovne d r) = jit_movne_x86 d r"
| "emit_x86 addr fn (JMoveq d r) = jit_moveq_x86 d r"
| "emit_x86 addr fn (JLea r v) = jit_lea_x86 r (addr v)"
| "emit_x86 addr fn (JLdr r) = jit_ldr_x86 r"
| "emit_x86 addr fn (JLdr_stack r i) = jit_ldr_stack_x86 r i"
| "emit_x86 addr fn (JStr_stack r i) = jit_str_stack_x86 r i"
| "emit_x86 addr fn (JInc_stack i) = jit_inc_stack_x86 i"
| "emit_x86 addr fn (JDec_stack i) = jit_dec_stack_x86 i"
| "emit_x86 addr fn (JLdrb r) = jit_ldrb_x86 r"
| "emit_x86 addr fn (JLdrs r) = jit_ldrs_x86 r"
| "emit_x86 addr fn (JLdrw r) = jit_ldrw_x86 r"
| "emit_x86 addr fn (JStrb r) = jit_strb_x86 r"
| "emit_x86 addr fn (JStrs r) = jit_strs_x86 r"
| "emit_x86 addr fn (JStrw r) = jit_strw_x86 r"
| "emit_x86 addr fn (JStra r) = jit_stra_x86 r"
| "emit_x86 addr fn (JAddr d r) = jit_addr_x86 d r"
| "emit_x86 addr fn (JAddi d i) = jit_addi_x86 d i"
| "emit_x86 addr fn (JAndr d r) = jit_andr_x86 d r"
| "emit_x86 addr fn (JNotr d) = jit_notr_x86 d"
| "emit_x86 addr fn (JOrr d r) = jit_orr_x86 d r"
| "emit_x86 addr fn (JXorr d r) = jit_xorr_x86 d r"
| "emit_x86 addr fn (JShrr d r) = jit_shrr_x86 d r"
| "emit_x86 addr fn (JShlr d r) = jit_shlr_x86 d r"
| "emit_x86 addr fn (JSubr d r) = jit_subr_x86 d r"
| "emit_x86 addr fn (JMulr d r) = jit_mulr_x86 d r"
| "emit_x86 addr fn (JDivr d r) = jit_divr_x86 d r"
| "emit_x86 addr fn (JModr d r) = jit_modr_x86 (fn Host_inline_mod) d r"
| "emit_x86 addr fn JHost_call_enter = jit_nothing_x86"
| "emit_x86 addr fn JHost_call_exit = jit_nothing_x86"
| "emit_x86 addr fn (JCall f note) =
     (if host_arity f = 3 then jit_call3_x86 (fn f) else if host_arity f = 2 then jit_call2_x86 (fn f) else jit_call_x86 (fn f))"
| "emit_x86 addr fn (JCallr r) = jit_callr_x86 r"
| "emit_x86 addr fn (JCmpi r i) = jit_cmpi_x86 r i"
| "emit_x86 addr fn (JCmpr r d) = jit_cmpr_x86 r d"
| "emit_x86 addr fn (JJe l) = jit_je_x86 l"
| "emit_x86 addr fn (JJne l) = jit_jne_x86 l"
| "emit_x86 addr fn (JJge l) = (\<lambda>_. None)"
| "emit_x86 addr fn (JJneg l) = jit_jneg_x86 l"
| "emit_x86 addr fn (JJmp l) = jit_jmp_x86 l"
| "emit_x86 addr fn (JLabel l) = jit_label_x86 l"
| "emit_x86 addr fn JRet = jit_ret_x86"
| "emit_x86 addr fn (JPush a b) = jit_push_x86 a b"
| "emit_x86 addr fn (JPop a b) = jit_pop_x86 a b"
| "emit_x86 addr fn (JComment c) = jit_nothing_x86"

end
