(* ===== verification/X86.thy ===== *)
theory X86
  imports Jit_X86
begin

unbundle bit_operations_syntax

text \<open>
  The bytes that \<^verbatim>\<open>src/sledge/jit_x86.c\<close> writes, read back as instructions. \<open>decode_x86\<close> is the encoding of the x86 architecture for
  the instructions the generator uses, registers being the numbers of the encoding (0 is \<open>eax\<close>, 4 is \<open>esp\<close>).
\<close>

section \<open>Decoding of instructions\<close>

datatype xcond = XE | XNE | XS
datatype xop = Xadd | Xor | Xand | Xsub | Xxor | Xcmp
datatype xsize = B1 | B2 | B4

text \<open>
  The destination comes first. \<open>Xload n d b\<close> loads from the address in register \<open>b\<close>, \<open>Xstore n b r\<close> stores register \<open>r\<close> there; the stack forms
  are relative to \<open>esp\<close>; \<open>Xjcc\<close> and \<open>Xjmp\<close> continue that many bytes after the instruction.
\<close>

datatype x86_insn =
  Xmov_imm byte u32 | Xmov byte byte | Xcmov xcond byte byte | Xalu xop byte byte | Xalu_imm xop byte u32 | Xadd_imm8 byte int
  | Xnot byte | Xshl_cl byte | Xshr_cl byte | Ximul byte byte | Xcdq | Xidiv byte
  | Xload xsize byte byte | Xstore xsize byte byte | Xload_stack byte int | Xstore_stack byte int
  | Xpush byte | Xpop byte | Xcall byte | Xjcc xcond int | Xjmp int | Xret

datatype rm = Direct byte | At byte | At_sp int

fun decode_imm_x86 :: "byte list \<Rightarrow> (u32 \<times> byte list) option" where
  "decode_imm_x86 (a # b # c # d # ys) = Some (ucast a OR push_bit 8 (ucast b) OR push_bit 16 (ucast c) OR push_bit 24 (ucast d), ys)"
| "decode_imm_x86 _ = None"

text \<open>The byte that names a register and a second operand.\<close>

fun decode_rm :: "byte list \<Rightarrow> (byte \<times> rm \<times> byte list) option" where
  "decode_rm [] = None"
| "decode_rm (b # ys) =
     (let m = drop_bit 6 b; r = take_bit 3 (drop_bit 3 b); i = take_bit 3 b in
      if m = 3 then Some (r, Direct i, ys)
      else if m = 0 \<and> i \<noteq> 4 \<and> i \<noteq> 5 then Some (r, At i, ys)
      else if m = 1 \<and> i = 4 then (case ys of sib # d # ys \<Rightarrow> if sib = 0x24 then Some (r, At_sp (sint d), ys) else None | _ \<Rightarrow> None)
      else None)"

definition alu_op :: "byte \<Rightarrow> xop option" where
  "alu_op b = (if b = 0x01 then Some Xadd else if b = 0x09 then Some Xor else if b = 0x21 then Some Xand
     else if b = 0x29 then Some Xsub else if b = 0x31 then Some Xxor else if b = 0x39 then Some Xcmp else None)"

definition alu_digit :: "byte \<Rightarrow> xop option" where
  "alu_digit r = (if r = 0 then Some Xadd else if r = 4 then Some Xand else if r = 5 then Some Xsub else if r = 7 then Some Xcmp else None)"

definition decode_cc :: "byte \<Rightarrow> xcond option" where
  "decode_cc c = (if c = 4 then Some XE else if c = 5 then Some XNE else if c = 8 then Some XS else None)"

definition direct :: "(byte \<Rightarrow> byte \<Rightarrow> x86_insn option) \<Rightarrow> byte list \<Rightarrow> (x86_insn \<times> byte list) option" where
  "direct f ys = do { (r, x, ys) \<leftarrow> decode_rm ys; case x of Direct i \<Rightarrow> map_option (\<lambda>y. (y, ys)) (f r i) | _ \<Rightarrow> None }"

definition decode_0f :: "byte list \<Rightarrow> (x86_insn \<times> byte list) option" where
  "decode_0f ys =
     (case ys of [] \<Rightarrow> None
      | b # ys \<Rightarrow>
          if b = 0xaf then direct (\<lambda>r i. Some (Ximul r i)) ys
          else if drop_bit 4 b = 4 then direct (\<lambda>r i. map_option (\<lambda>c. Xcmov c r i) (decode_cc (take_bit 4 b))) ys
          else if drop_bit 4 b = 8 then do { c \<leftarrow> decode_cc (take_bit 4 b); (d, ys) \<leftarrow> decode_imm_x86 ys; Some (Xjcc c (sint d), ys) }
          else None)"

definition decode_load :: "xsize \<Rightarrow> byte list \<Rightarrow> (x86_insn \<times> byte list) option" where
  "decode_load n ys =
     do { (r, x, ys) \<leftarrow> decode_rm ys;
          case x of Direct i \<Rightarrow> None | At i \<Rightarrow> Some (Xload n r i, ys) | At_sp k \<Rightarrow> if n = B4 then Some (Xload_stack r k, ys) else None }"

definition decode_store :: "xsize \<Rightarrow> byte list \<Rightarrow> (x86_insn \<times> byte list) option" where
  "decode_store n ys =
     do { (r, x, ys) \<leftarrow> decode_rm ys;
          case x of Direct i \<Rightarrow> if n = B4 then Some (Xmov i r, ys) else None
          | At i \<Rightarrow> Some (Xstore n i r, ys) | At_sp k \<Rightarrow> if n = B4 then Some (Xstore_stack r k, ys) else None }"

definition decode_x86 :: "byte list \<Rightarrow> (x86_insn \<times> byte list) option" where
  "decode_x86 ys =
     (case ys of [] \<Rightarrow> None
      | b # ys \<Rightarrow>
          if drop_bit 3 b = 0x17 then map_option (\<lambda>(w, ys). (Xmov_imm (take_bit 3 b) w, ys)) (decode_imm_x86 ys)
          else if drop_bit 3 b = 0x0a then Some (Xpush (take_bit 3 b), ys)
          else if drop_bit 3 b = 0x0b then Some (Xpop (take_bit 3 b), ys)
          else if b = 0x0f then decode_0f ys
          else if b = 0x89 then decode_store B4 ys
          else if b = 0x88 then decode_store B1 ys
          else if b = 0x8b then decode_load B4 ys
          else if b = 0x8a then decode_load B1 ys
          else if b = 0x66 then (case ys of [] \<Rightarrow> None
            | b # ys \<Rightarrow> if b = 0x8b then decode_load B2 ys else if b = 0x89 then decode_store B2 ys else None)
          else if b = 0x81 then (case decode_rm ys of Some (r, Direct i, ys) \<Rightarrow>
              do { f \<leftarrow> alu_digit r; (w, ys) \<leftarrow> decode_imm_x86 ys; Some (Xalu_imm f i w, ys) } | _ \<Rightarrow> None)
          else if b = 0x83 then (case decode_rm ys of Some (r, Direct i, d # ys) \<Rightarrow>
              if r = 0 then Some (Xadd_imm8 i (sint d), ys) else None | _ \<Rightarrow> None)
          else if b = 0x99 then Some (Xcdq, ys)
          else if b = 0xc3 then Some (Xret, ys)
          else if b = 0xd3 then direct (\<lambda>r i. if r = 5 then Some (Xshr_cl i) else if r = 4 then Some (Xshl_cl i) else None) ys
          else if b = 0xe9 then map_option (\<lambda>(d, ys). (Xjmp (sint d), ys)) (decode_imm_x86 ys)
          else if b = 0xf7 then direct (\<lambda>r i. if r = 2 then Some (Xnot i) else if r = 7 then Some (Xidiv i) else None) ys
          else if b = 0xff then direct (\<lambda>r i. if r = 2 then Some (Xcall i) else None) ys
          else if take_bit 3 b = 5 then do { f \<leftarrow> alu_op (b - 4); (w, ys) \<leftarrow> decode_imm_x86 ys; Some (Xalu_imm f 0 w, ys) }
          else direct (\<lambda>r i. map_option (\<lambda>f. Xalu f i r) (alu_op b)) ys)"

lemma decode_imm_jit [simp]: "decode_imm_x86 (jit_imm w @ ys) = Some (w, ys)"
proof -
  have "ucast (ucast w :: byte) OR push_bit 8 (ucast (ucast (drop_bit 8 w) :: byte)) OR
    push_bit 16 (ucast (ucast (drop_bit 16 w) :: byte)) OR push_bit 24 (ucast (ucast (drop_bit 24 w) :: byte)) = (w :: u32)"
  proof (rule bit_word_eqI)
    fix n :: nat assume "n < LENGTH(32)"
    then consider "n < 8" | "8 \<le> n" "n < 16" | "16 \<le> n" "n < 24" | "24 \<le> n" "n < 32" by fastforce
    then show "bit (ucast (ucast w :: byte) OR push_bit 8 (ucast (ucast (drop_bit 8 w) :: byte)) OR
      push_bit 16 (ucast (ucast (drop_bit 16 w) :: byte)) OR push_bit 24 (ucast (ucast (drop_bit 24 w) :: byte)) :: u32) n = bit w n"
      by cases (auto simp: bit_simps)
  qed
  then show ?thesis by (simp add: jit_imm_def)
qed

lemma decode_two_regs [simp]:
  assumes "i < 8" "j < 8"
  shows "decode_rm (two_regs i j # ys) = Some (i, Direct j, ys)" "decode_rm ((0xc0 + push_bit 3 i + j) # ys) = Some (i, Direct j, ys)"
  using reg_cases [OF assms(1)] reg_cases [OF assms(2)] by (elim disjE; simp add: two_regs_def)+

lemma decode_one_reg [simp]:
  assumes "i < 8"
  shows "decode_rm ((0xc0 OR i) # ys) = Some (0, Direct i, ys)" "decode_rm ((0xd0 OR i) # ys) = Some (2, Direct i, ys)"
    "decode_rm ((0xe0 OR i) # ys) = Some (4, Direct i, ys)" "decode_rm ((0xe8 OR i) # ys) = Some (5, Direct i, ys)"
    "decode_rm ((0xf8 OR i) # ys) = Some (7, Direct i, ys)"
    "decode_rm ((0x44 OR push_bit 3 i) # 0x24 # k # ys) = Some (i, At_sp (sint k), ys)"
  using reg_cases [OF assms(1)] by (elim disjE; simp)+

lemma decode_at [simp]:
  assumes "i < 8" "i \<noteq> 4" "i \<noteq> 5"
  shows "decode_rm ((0x10 OR i) # ys) = Some (2, At i, ys)" "decode_rm ((push_bit 3 i OR i) # ys) = Some (i, At i, ys)"
  using reg_cases [OF assms(1)] assms(2,3) by (elim disjE; simp)+

section \<open>What the operations are to mean\<close>

definition hw :: "nat \<Rightarrow> byte" where
  "hw r = (if r < 8 then [0, 7, 6, 2, 1, 3, 4, 0] ! r else 0)"

definition mov_x86 :: "nat \<Rightarrow> nat \<Rightarrow> x86_insn list" where
  "mov_x86 d r = (if d = r then [] else [Xmov (hw d) (hw r)])"

definition call_x86 :: "byte list \<Rightarrow> u32 \<Rightarrow> x86_insn list" where
  "call_x86 args f = Xmov_imm 0 f # map Xpush args @ [Xcall 0, Xadd_imm8 4 (4 * int (length args))]"

fun insns_x86 :: "(val \<Rightarrow> u32) \<Rightarrow> (hostfn \<Rightarrow> u32) \<Rightarrow> jit \<Rightarrow> x86_insn list" where
  "insns_x86 addr fn (JMovi r v) = [Xmov_imm (hw r) (addr v)]"
| "insns_x86 addr fn (JMovr d r) = mov_x86 d r"
| "insns_x86 addr fn (JMovneg d r) = [Xcmov XS (hw d) (hw r)]"
| "insns_x86 addr fn (JMovne d r) = [Xcmov XNE (hw d) (hw r)]"
| "insns_x86 addr fn (JMoveq d r) = [Xcmov XE (hw d) (hw r)]"
| "insns_x86 addr fn (JLea r v) = [Xmov_imm (hw r) (addr v)]"
| "insns_x86 addr fn (JLdr r) = [Xload B4 (hw r) (hw r)]"
| "insns_x86 addr fn (JLdr_stack r i) = [Xload_stack (hw r) i]"
| "insns_x86 addr fn (JStr_stack r i) = [Xstore_stack (hw r) i]"
| "insns_x86 addr fn (JInc_stack i) = [Xalu_imm Xadd 4 (word_of_int i)]"
| "insns_x86 addr fn (JDec_stack i) = [Xalu_imm Xsub 4 (word_of_int i)]"
| "insns_x86 addr fn (JLdrb r) = [Xload B1 2 (hw r), Xalu_imm Xand 2 0xff] @ mov_x86 r 3"
| "insns_x86 addr fn (JLdrs r) = [Xload B2 2 (hw r), Xalu_imm Xand 2 0xffff] @ mov_x86 r 3"
| "insns_x86 addr fn (JLdrw r) = [Xload B4 2 (hw r)]"
| "insns_x86 addr fn (JStrb r) = [Xstore B1 (hw r) 2]"
| "insns_x86 addr fn (JStrs r) = [Xstore B2 (hw r) 2]"
| "insns_x86 addr fn (JStrw r) = [Xstore B4 (hw r) 2]"
| "insns_x86 addr fn (JStra r) = [Xstore B4 (hw r) 2]"
| "insns_x86 addr fn (JAddr d r) = [Xalu Xadd (hw d) (hw r)]"
| "insns_x86 addr fn (JAddi d i) = [Xalu_imm Xadd (hw d) (word_of_int i)]"
| "insns_x86 addr fn (JAndr d r) = [Xalu Xand (hw d) (hw r)]"
| "insns_x86 addr fn (JNotr d) = [Xnot (hw d)]"
| "insns_x86 addr fn (JOrr d r) = [Xalu Xor (hw d) (hw r)]"
| "insns_x86 addr fn (JXorr d r) = [Xalu Xxor (hw d) (hw r)]"
| "insns_x86 addr fn (JShrr d r) = mov_x86 3 4 @ mov_x86 4 r @ [Xshr_cl (hw d)] @ mov_x86 4 3"
| "insns_x86 addr fn (JShlr d r) = mov_x86 3 4 @ mov_x86 4 r @ [Xshl_cl (hw d)] @ mov_x86 4 3"
| "insns_x86 addr fn (JSubr d r) = [Xalu Xsub (hw d) (hw r)]"
| "insns_x86 addr fn (JMulr d r) = [Ximul (hw d) (hw r)]"
| "insns_x86 addr fn (JDivr d r) = mov_x86 0 d @ [Xcdq, Xidiv (hw r)] @ mov_x86 d 0"
| "insns_x86 addr fn (JModr d r) = mov_x86 1 d @ mov_x86 2 r @ call_x86 [6, 7] (fn Host_inline_mod) @ mov_x86 d 0"
| "insns_x86 addr fn (JCall f note) =
     call_x86 (if host_arity f = 3 then [2, 6, 7] else if host_arity f = 2 then [6, 7] else [7]) (fn f)"
| "insns_x86 addr fn (JCallr r) = [Xcall (hw r)]"
| "insns_x86 addr fn (JCmpi r i) = [Xalu_imm Xcmp (hw r) (word_of_int i)]"
| "insns_x86 addr fn (JCmpr r d) = [Xalu Xcmp (hw d) (hw r)]"
| "insns_x86 addr fn JRet = [Xret]"
| "insns_x86 addr fn (JPush a b) = map (Xpush \<circ> hw) [a..<Suc b]"
| "insns_x86 addr fn (JPop a b) = map (Xpop \<circ> hw) (rev [a..<Suc b])"
| "insns_x86 addr fn _ = []"

text \<open>Registers below \<open>esp\<close>, for an address too; offsets of the stack that fit into a byte; no \<open>jit_jge\<close>.\<close>

fun x86_ok :: "jit \<Rightarrow> bool" where
  "x86_ok (JMovi r v) \<longleftrightarrow> r < 7"
| "x86_ok (JMovr d r) \<longleftrightarrow> d < 7 \<and> r < 7"
| "x86_ok (JMovneg d r) \<longleftrightarrow> d < 7 \<and> r < 7"
| "x86_ok (JMovne d r) \<longleftrightarrow> d < 7 \<and> r < 7"
| "x86_ok (JMoveq d r) \<longleftrightarrow> d < 7 \<and> r < 7"
| "x86_ok (JLea r v) \<longleftrightarrow> r < 7"
| "x86_ok (JLdr r) \<longleftrightarrow> r < 6"
| "x86_ok (JLdr_stack r i) \<longleftrightarrow> r < 7 \<and> - 128 \<le> i \<and> i < 128"
| "x86_ok (JStr_stack r i) \<longleftrightarrow> r < 7 \<and> - 128 \<le> i \<and> i < 128"
| "x86_ok (JLdrb r) \<longleftrightarrow> r < 6"
| "x86_ok (JLdrs r) \<longleftrightarrow> r < 6"
| "x86_ok (JLdrw r) \<longleftrightarrow> r < 6"
| "x86_ok (JStrb r) \<longleftrightarrow> r < 6"
| "x86_ok (JStrs r) \<longleftrightarrow> r < 6"
| "x86_ok (JStrw r) \<longleftrightarrow> r < 6"
| "x86_ok (JStra r) \<longleftrightarrow> r < 6"
| "x86_ok (JAddr d r) \<longleftrightarrow> d < 7 \<and> r < 7"
| "x86_ok (JAddi d i) \<longleftrightarrow> d < 7"
| "x86_ok (JAndr d r) \<longleftrightarrow> d < 7 \<and> r < 7"
| "x86_ok (JNotr d) \<longleftrightarrow> d < 7"
| "x86_ok (JOrr d r) \<longleftrightarrow> d < 7 \<and> r < 7"
| "x86_ok (JXorr d r) \<longleftrightarrow> d < 7 \<and> r < 7"
| "x86_ok (JShrr d r) \<longleftrightarrow> d < 7 \<and> r < 7"
| "x86_ok (JShlr d r) \<longleftrightarrow> d < 7 \<and> r < 7"
| "x86_ok (JSubr d r) \<longleftrightarrow> d < 7 \<and> r < 7"
| "x86_ok (JMulr d r) \<longleftrightarrow> d < 7 \<and> r < 7"
| "x86_ok (JDivr d r) \<longleftrightarrow> d < 7 \<and> r < 7"
| "x86_ok (JModr d r) \<longleftrightarrow> d < 7 \<and> r < 7"
| "x86_ok (JCallr r) \<longleftrightarrow> r < 7"
| "x86_ok (JCmpi r i) \<longleftrightarrow> r < 7"
| "x86_ok (JCmpr r d) \<longleftrightarrow> r < 7 \<and> d < 7"
| "x86_ok (JPush a b) \<longleftrightarrow> b < 7"
| "x86_ok (JPop a b) \<longleftrightarrow> b < 7"
| "x86_ok (JJge l) \<longleftrightarrow> False"
| "x86_ok _ \<longleftrightarrow> True"

fun branch_x86 :: "jit \<Rightarrow> (byte list \<times> (int \<Rightarrow> x86_insn) \<times> label) option" where
  "branch_x86 (JJe l) = Some ([0x0f, 0x84], Xjcc XE, l)"
| "branch_x86 (JJne l) = Some ([0x0f, 0x85], Xjcc XNE, l)"
| "branch_x86 (JJneg l) = Some ([0x0f, 0x88], Xjcc XS, l)"
| "branch_x86 (JJmp l) = Some ([0xe9], Xjmp, l)"
| "branch_x86 _ = None"

fun insn_size :: "x86_insn \<Rightarrow> nat" where
  "insn_size (Xmov_imm r w) = 5"
| "insn_size (Xcmov c d r) = 3"
| "insn_size (Xalu_imm f d w) = (if d = 0 then 5 else 6)"
| "insn_size (Xadd_imm8 d k) = 3"
| "insn_size (Ximul d r) = 3"
| "insn_size Xcdq = 1"
| "insn_size (Xload n d b) = (if n = B2 then 3 else 2)"
| "insn_size (Xstore n b r) = (if n = B2 then 3 else 2)"
| "insn_size (Xload_stack d k) = 4"
| "insn_size (Xstore_stack r k) = 4"
| "insn_size (Xpush r) = 1"
| "insn_size (Xpop r) = 1"
| "insn_size (Xjcc c k) = 6"
| "insn_size (Xjmp k) = 5"
| "insn_size Xret = 1"
| "insn_size _ = 2"

section \<open>One operation\<close>

lemma regi_hw [simp]: "r < 7 \<Longrightarrow> regi_x86 r = Some (hw r)"
  by (simp add: regi_x86_def hw_def)

lemma hw_cases: "r < 7 \<Longrightarrow> r \<in> {0, 1, 2, 3, 4, 5, 6 :: nat}"
  by auto

lemma hw_less [simp]: "hw r < 8"
proof (cases "r < 8")
  case True
  then have "r \<in> set [0..<8]" by simp
  then show ?thesis by (auto simp: hw_def upt_rec)
qed (simp add: hw_def)

lemma hw_num [simp]: "hw 0 = 0" "hw (Suc 0) = 7" "hw 2 = 6" "hw 3 = 2" "hw 4 = 1" "hw 6 = 4"
  by (simp_all add: hw_def)

lemma hw_base [simp]: "r < 6 \<Longrightarrow> hw r \<noteq> 4" "r < 6 \<Longrightarrow> hw r \<noteq> 5"
proof -
  assume "r < 6"
  then have "r \<in> set [0..<6]" by simp
  then show "hw r \<noteq> 4" "hw r \<noteq> 5" by (auto simp: hw_def upt_rec)
qed

lemma hw_zero [simp]: "r < 7 \<Longrightarrow> hw r = 0 \<longleftrightarrow> r = 0"
proof -
  assume "r < 7"
  then have "r \<in> set [0..<7]" by simp
  then show "hw r = 0 \<longleftrightarrow> r = 0" by (auto simp: hw_def upt_rec)
qed

lemma jit_imm_length [simp]: "length (jit_imm w) = 4"
  by (simp add: jit_imm_def)

lemma decode_esp [simp]: "decode_rm (0xc4 # ys) = Some (0, Direct 4, ys)" "decode_rm (0xec # ys) = Some (5, Direct 4, ys)"
    "decode_rm (0xd0 # ys) = Some (2, Direct 0, ys)"
  by simp_all

declare decode_rm.simps(2) [simp del] put_bytes.simps(2) [simp del]

lemma decode_opcode [simp]:
  "decode_x86 (0x0f # ys) = decode_0f ys" "decode_x86 (0x89 # ys) = decode_store B4 ys" "decode_x86 (0x88 # ys) = decode_store B1 ys"
  "decode_x86 (0x8b # ys) = decode_load B4 ys" "decode_x86 (0x8a # ys) = decode_load B1 ys"
  "decode_x86 (0x66 # 0x8b # ys) = decode_load B2 ys" "decode_x86 (0x66 # 0x89 # ys) = decode_store B2 ys"
  "decode_x86 (0x99 # ys) = Some (Xcdq, ys)" "decode_x86 (0xc3 # ys) = Some (Xret, ys)"
  by (simp_all add: decode_x86_def)

lemma decode_group [simp]:
  "decode_x86 (0x81 # ys) = (case decode_rm ys of Some (r, Direct i, ys) \<Rightarrow>
     do { f \<leftarrow> alu_digit r; (w, ys) \<leftarrow> decode_imm_x86 ys; Some (Xalu_imm f i w, ys) } | _ \<Rightarrow> None)"
  "decode_x86 (0x83 # ys) = (case decode_rm ys of Some (r, Direct i, d # ys) \<Rightarrow>
     if r = 0 then Some (Xadd_imm8 i (sint d), ys) else None | _ \<Rightarrow> None)"
  "decode_x86 (0xd3 # ys) = direct (\<lambda>r i. if r = 5 then Some (Xshr_cl i) else if r = 4 then Some (Xshl_cl i) else None) ys"
  "decode_x86 (0xe9 # ys) = map_option (\<lambda>(d, ys). (Xjmp (sint d), ys)) (decode_imm_x86 ys)"
  "decode_x86 (0xf7 # ys) = direct (\<lambda>r i. if r = 2 then Some (Xnot i) else if r = 7 then Some (Xidiv i) else None) ys"
  "decode_x86 (0xff # ys) = direct (\<lambda>r i. if r = 2 then Some (Xcall i) else None) ys"
  by (simp_all add: decode_x86_def)

lemma decode_alu [simp]:
  "decode_x86 (0x01 # ys) = direct (\<lambda>r i. Some (Xalu Xadd i r)) ys" "decode_x86 (0x09 # ys) = direct (\<lambda>r i. Some (Xalu Xor i r)) ys"
  "decode_x86 (0x21 # ys) = direct (\<lambda>r i. Some (Xalu Xand i r)) ys" "decode_x86 (0x29 # ys) = direct (\<lambda>r i. Some (Xalu Xsub i r)) ys"
  "decode_x86 (0x31 # ys) = direct (\<lambda>r i. Some (Xalu Xxor i r)) ys" "decode_x86 (0x39 # ys) = direct (\<lambda>r i. Some (Xalu Xcmp i r)) ys"
  by (simp_all add: decode_x86_def alu_op_def)

lemma decode_alu_imm [simp]:
  "decode_x86 (0x05 # jit_imm w @ ys) = Some (Xalu_imm Xadd 0 w, ys)" "decode_x86 (0x2d # jit_imm w @ ys) = Some (Xalu_imm Xsub 0 w, ys)"
  "decode_x86 (0x25 # jit_imm w @ ys) = Some (Xalu_imm Xand 0 w, ys)" "decode_x86 (0x3d # jit_imm w @ ys) = Some (Xalu_imm Xcmp 0 w, ys)"
  by (simp_all add: decode_x86_def alu_op_def)

lemma decode_reg [simp]:
  "i < 8 \<Longrightarrow> decode_x86 ((0xb8 OR i) # jit_imm w @ ys) = Some (Xmov_imm i w, ys)"
  "i < 8 \<Longrightarrow> decode_x86 ((0x50 OR i) # ys) = Some (Xpush i, ys)" "i < 8 \<Longrightarrow> decode_x86 ((0x58 OR i) # ys) = Some (Xpop i, ys)"
  by (simp_all add: decode_x86_def)

lemma decode_two_bytes [simp]:
  "decode_0f (0xaf # ys) = direct (\<lambda>r i. Some (Ximul r i)) ys" "decode_0f (0x44 # ys) = direct (\<lambda>r i. Some (Xcmov XE r i)) ys"
  "decode_0f (0x45 # ys) = direct (\<lambda>r i. Some (Xcmov XNE r i)) ys" "decode_0f (0x48 # ys) = direct (\<lambda>r i. Some (Xcmov XS r i)) ys"
  "decode_0f (0x84 # jit_imm w @ ys) = Some (Xjcc XE (sint w), ys)" "decode_0f (0x85 # jit_imm w @ ys) = Some (Xjcc XNE (sint w), ys)"
  "decode_0f (0x88 # jit_imm w @ ys) = Some (Xjcc XS (sint w), ys)"
  by (simp_all add: decode_0f_def decode_cc_def)

lemmas x86_decode = direct_def decode_load_def decode_store_def alu_digit_def

lemma x86_movr: "d < 7 \<Longrightarrow> r < 7 \<Longrightarrow> writes_insns decode_x86 insn_size (jit_movr_x86 d r) (mov_x86 d r)"
proof (cases "d = r")
  case True
  then have "jit_movr_x86 d r = Some" by (simp add: jit_movr_x86_def fun_eq_iff)
  then show ?thesis using True by (simp add: mov_x86_def put_none)
next
  case False
  assume "d < 7" "r < 7"
  with False have "jit_movr_x86 d r = put_bytes [0x89, two_regs (hw r) (hw d)]" by (simp add: jit_movr_x86_def fun_eq_iff)
  then show ?thesis using False by (auto simp: mov_x86_def x86_decode intro!: put_one)
qed

lemma x86_movi: "r < 7 \<Longrightarrow> writes_insns decode_x86 insn_size (jit_movi_x86 r w) [Xmov_imm (hw r) w]"
proof -
  assume "r < 7"
  then have "jit_movi_x86 r w = put_bytes ((0xb8 OR hw r) # jit_imm w)" by (simp add: jit_movi_x86_def fun_eq_iff)
  then show ?thesis by (auto simp: x86_decode intro!: put_one)
qed

fun simple_x86 :: "jit \<Rightarrow> bool" where
  "simple_x86 (JMovr d r) = False"
| "simple_x86 (JMovi d r) = False"
| "simple_x86 (JLea d r) = False"
| "simple_x86 (JLdrb r) = False"
| "simple_x86 (JLdrs r) = False"
| "simple_x86 (JShrr d r) = False"
| "simple_x86 (JShlr d r) = False"
| "simple_x86 (JDivr d r) = False"
| "simple_x86 (JModr d r) = False"
| "simple_x86 (JCall f n) = False"
| "simple_x86 (JPush a b) = False"
| "simple_x86 (JPop a b) = False"
| "simple_x86 (JLabel l) = False"
| "simple_x86 j \<longleftrightarrow> branch_x86 j = None"

lemma sint_stack: "- 128 \<le> i \<Longrightarrow> i < 128 \<Longrightarrow> sint (word_of_int i :: byte) = i"
  by (simp add: signed_of_int signed_take_bit_int_eq_self)

lemmas one_x86_defs = jit_movneg_x86_def [abs_def] jit_movne_x86_def [abs_def] jit_moveq_x86_def [abs_def] jit_ldr_x86_def [abs_def] jit_ldr_stack_x86_def [abs_def] jit_str_stack_x86_def [abs_def]
  jit_inc_stack_x86_def [abs_def] jit_dec_stack_x86_def [abs_def] jit_ldrw_x86_def [abs_def] jit_strb_x86_def [abs_def] jit_strs_x86_def [abs_def] jit_strw_x86_def [abs_def] jit_stra_x86_def [abs_def]
  jit_addr_x86_def [abs_def] jit_addi_x86_def [abs_def] jit_subi_x86_def [abs_def] jit_andr_x86_def [abs_def] jit_notr_x86_def [abs_def] jit_orr_x86_def [abs_def] jit_xorr_x86_def [abs_def] jit_subr_x86_def [abs_def]
  jit_mulr_x86_def [abs_def] jit_callr_x86_def [abs_def] jit_cmpi_x86_def [abs_def] jit_cmpr_x86_def [abs_def] jit_ret_x86_def [abs_def] jit_nothing_x86_def [abs_def] RSP_x86_def R0_def

lemma x86_simple:
  "x86_ok j \<Longrightarrow> simple_x86 j \<Longrightarrow> writes_insns decode_x86 insn_size (emit_x86 addr fn j) (insns_x86 addr fn j)"
  by (cases j; simp add: one_x86_defs put_none; (intro conjI impI put_one; simp add: x86_decode sint_stack)?)

text \<open>Operations of several instructions.\<close>

lemma x86_part:
  "writes_insns decode_x86 insn_size (put_bytes [0xd3, 0xe8 OR hw r]) [Xshr_cl (hw r)]" "writes_insns decode_x86 insn_size (put_bytes [0xd3, 0xe0 OR hw r]) [Xshl_cl (hw r)]"
  "writes_insns decode_x86 insn_size (put_bytes [0xf7, 0xf8 OR hw r]) [Xidiv (hw r)]" "writes_insns decode_x86 insn_size (put_bytes [0x99]) [Xcdq]"
  "writes_insns decode_x86 insn_size (put_bytes [0xff, 0xd0]) [Xcall 0]"
  by (intro put_one; simp add: x86_decode)+

lemma x86_pushes: "\<forall>i\<in>set is. i < 8 \<Longrightarrow> writes_insns decode_x86 insn_size (put_bytes (map ((OR) 0x50) is)) (map Xpush is)"
proof (induction "is")
  case (Cons i "is")
  then have "writes_insns decode_x86 insn_size (put_bytes [0x50 OR i]) [Xpush i]" by (intro put_one) simp_all
  from put_bind [OF this Cons.IH] Cons.prems show ?case by (simp add: put_bytes_append [symmetric])
qed (simp add: put_none)

lemma x86_pops: "\<forall>i\<in>set is. i < 8 \<Longrightarrow> writes_insns decode_x86 insn_size (put_bytes (map ((OR) 0x58) is)) (map Xpop is)"
proof (induction "is")
  case (Cons i "is")
  then have "writes_insns decode_x86 insn_size (put_bytes [0x58 OR i]) [Xpop i]" by (intro put_one) simp_all
  from put_bind [OF this Cons.IH] Cons.prems show ?case by (simp add: put_bytes_append [symmetric])
qed (simp add: put_none)

lemma put_regs_eq: "\<forall>r\<in>set rs. r < 7 \<Longrightarrow> put_regs_x86 b rs = put_bytes (map (\<lambda>r. b OR hw r) rs)"
proof (induction rs)
  case (Cons r rs)
  then have "put_regs_x86 b rs = put_bytes (map (\<lambda>r. b OR hw r) rs)" by simp
  then show ?case using Cons.prems by (intro ext) (simp add: put_bytes.simps)
qed (simp add: fun_eq_iff)

lemma x86_stack_regs:
  assumes "b < 7"
  shows "writes_insns decode_x86 insn_size (jit_push_x86 a b) (map (Xpush \<circ> hw) [a..<Suc b])" "writes_insns decode_x86 insn_size (jit_pop_x86 a b) (map (Xpop \<circ> hw) (rev [a..<Suc b]))"
  using assms x86_pushes [of "map hw [a..<Suc b]"] x86_pops [of "map hw (rev [a..<Suc b])"]
  by (simp_all add: jit_push_x86_def jit_pop_x86_def put_regs_eq comp_def del: upt_Suc)

lemma x86_shift:
  assumes "d < 7" "r < 7"
  shows "writes_insns decode_x86 insn_size (jit_shrr_x86 d r) (mov_x86 3 4 @ mov_x86 4 r @ [Xshr_cl (hw d)] @ mov_x86 4 3)"
    "writes_insns decode_x86 insn_size (jit_shlr_x86 d r) (mov_x86 3 4 @ mov_x86 4 r @ [Xshl_cl (hw d)] @ mov_x86 4 3)"
  using put_bind [OF x86_movr [of 3 4] put_bind [OF x86_movr [of 4 r] put_bind [OF x86_part(1) [of d] x86_movr [of 4 3]]]]
    put_bind [OF x86_movr [of 3 4] put_bind [OF x86_movr [of 4 r] put_bind [OF x86_part(2) [of d] x86_movr [of 4 3]]]] assms
  by (simp_all add: jit_shrr_x86_def [abs_def] jit_shlr_x86_def [abs_def] R3_def R4_def)

lemma x86_div:
  assumes "d < 7" "r < 7"
  shows "writes_insns decode_x86 insn_size (jit_divr_x86 d r) (mov_x86 0 d @ [Xcdq, Xidiv (hw r)] @ mov_x86 d 0)"
  using put_bind [OF x86_movr [of 0 d] put_bind [OF put_bind [OF x86_part(4) x86_part(3) [of r]] x86_movr [of d 0]]] assms
  by (simp add: jit_divr_x86_def [abs_def] R0_def put_bytes_append [symmetric])

lemma x86_load:
  assumes "r < 6"
  shows "writes_insns decode_x86 insn_size (jit_ldrb_x86 r) ([Xload B1 2 (hw r), Xalu_imm Xand 2 0xff] @ mov_x86 r 3)"
    "writes_insns decode_x86 insn_size (jit_ldrs_x86 r) ([Xload B2 2 (hw r), Xalu_imm Xand 2 0xffff] @ mov_x86 r 3)"
proof -
  have load: "writes_insns decode_x86 insn_size (put_bytes [0x8a, 0x10 OR hw r]) [Xload B1 2 (hw r)]" "writes_insns decode_x86 insn_size (put_bytes [0x66, 0x8b, 0x10 OR hw r]) [Xload B2 2 (hw r)]"
    using assms by (intro put_one; simp add: x86_decode)+
  have "writes_insns decode_x86 insn_size (put_bytes ([0x81, 0xe2] @ jit_imm w)) [Xalu_imm Xand 2 w]" for w
    using decode_one_reg(3) [of 2] by (intro put_one) (simp_all add: x86_decode)
  then have masked: "writes_insns decode_x86 insn_size (jit_andi_x86 3 k) [Xalu_imm Xand 2 (word_of_int k)]" for k
    by (simp add: jit_andi_x86_def [abs_def] R0_def)
  show "writes_insns decode_x86 insn_size (jit_ldrb_x86 r) ([Xload B1 2 (hw r), Xalu_imm Xand 2 0xff] @ mov_x86 r 3)"
    "writes_insns decode_x86 insn_size (jit_ldrs_x86 r) ([Xload B2 2 (hw r), Xalu_imm Xand 2 0xffff] @ mov_x86 r 3)"
    using put_bind [OF load(1) put_bind [OF masked [of "0xff"] x86_movr [of r 3]]] put_bind [OF load(2) put_bind [OF masked [of "0xffff"] x86_movr [of r 3]]] assms
    by (simp_all add: jit_ldrb_x86_def [abs_def] jit_ldrs_x86_def [abs_def] R3_def)
qed

lemma x86_call:
  "writes_insns decode_x86 insn_size (jit_call_x86 f) (call_x86 [7] f)" "writes_insns decode_x86 insn_size (jit_call2_x86 f) (call_x86 [6, 7] f)" "writes_insns decode_x86 insn_size (jit_call3_x86 f) (call_x86 [2, 6, 7] f)"
proof -
  have adj: "writes_insns decode_x86 insn_size (put_bytes [0x83, 0xc4, k]) [Xadd_imm8 4 (sint k)]" for k
    by (intro put_one) (simp_all add: x86_decode)
  have "writes_insns decode_x86 insn_size (put_bytes (map ((OR) 0x50) is @ [0xff, 0xd0] @ [0x83, 0xc4, k])) (map Xpush is @ [Xcall 0] @ [Xadd_imm8 4 (sint k)])"
    if "\<forall>i\<in>set is. i < 8" for "is" k
    using put_bind [OF x86_pushes [OF that] put_bind [OF x86_part(5) adj]] by (simp add: put_bytes_append [abs_def, symmetric])
  from put_bind [OF x86_movi [of 0 f] this [of "[7]" 4]] put_bind [OF x86_movi [of 0 f] this [of "[6, 7]" 8]]
    put_bind [OF x86_movi [of 0 f] this [of "[2, 6, 7]" 12]]
  show "writes_insns decode_x86 insn_size (jit_call_x86 f) (call_x86 [7] f)" "writes_insns decode_x86 insn_size (jit_call2_x86 f) (call_x86 [6, 7] f)" "writes_insns decode_x86 insn_size (jit_call3_x86 f) (call_x86 [2, 6, 7] f)"
    by (simp_all add: jit_call_x86_def [abs_def] jit_call2_x86_def [abs_def] jit_call3_x86_def [abs_def] jit_lea_x86_def R0_def call_x86_def)
qed

lemma x86_mod:
  assumes "d < 7" "r < 7"
  shows "writes_insns decode_x86 insn_size (jit_modr_x86 f d r) (mov_x86 1 d @ mov_x86 2 r @ call_x86 [6, 7] f @ mov_x86 d 0)"
proof -
  have "jit_movr_x86 d 0 = (\<lambda>s. if d \<noteq> 0 then jit_movr_x86 d 0 s else Some s)" by (simp add: fun_eq_iff jit_movr_x86_def)
  then show ?thesis
    using put_bind [OF x86_movr [of 1 d] put_bind [OF x86_movr [of 2 r] put_bind [OF x86_call(2) x86_movr [of d 0]]]] assms
    by (simp add: jit_modr_x86_def [abs_def] ARGR0_def ARGR1_def)
qed

lemma emit_x86_writes:
  assumes "x86_ok j" "branch_x86 j = None" "\<And>l. j \<noteq> JLabel l"
  shows "writes_insns decode_x86 insn_size (emit_x86 addr fn j) (insns_x86 addr fn j)"
proof (cases "simple_x86 j")
  case False
  then show ?thesis using assms
    by (cases j) (auto simp add: x86_movr x86_movi x86_load [simplified] x86_shift [simplified] x86_div [simplified]
      x86_mod [simplified] x86_call x86_stack_regs jit_lea_x86_def simp del: upt_Suc)
qed (use assms x86_simple in blast)

section \<open>Programs\<close>

definition rel32 :: "int \<Rightarrow> byte list" where
  "rel32 k = jit_imm (word_of_int (k - 4))"

lemma sint_word32: "- 2147483648 \<le> k \<Longrightarrow> k < 2147483648 \<Longrightarrow> sint (word_of_int k :: u32) = k"
  by (simp add: signed_of_int signed_take_bit_int_eq_self)

interpretation x86_branches: branch_fixups 4 rel32 jit_emit_branch_x86 jit_label_x86
proof
  show "jit_label_x86 l s = Some (s\<lparr>g_labels := g_labels s @ [(l, g_idx s)],
      g_unres := fst (resolve_slots (\<lambda>i. rel32 (int (g_idx s) - int i)) l (g_unres s) (g_code s)),
      g_code := snd (resolve_slots (\<lambda>i. rel32 (int (g_idx s) - int i)) l (g_unres s) (g_code s))\<rparr>)"
    if "length (g_labels s) < MAX_LABELS" for l s
    using that by (simp add: jit_label_x86_def rel32_def case_prod_unfold Let_def of_int_diff)
  show "jit_emit_branch_x86 l s = put_bytes (rel32 (int t - int (g_idx s))) s"
    if "map_of (g_labels s) l = Some t" "t < g_idx s" for l s t
  proof -
    have "(0xfffffffc :: u32) = - 4" by simp
    then have wrap: "(0xfffffffc + (a - b) :: u32) = a - b - 4" for a b by (metis add.commute uminus_add_conv_diff add_uminus_conv_diff)
    then show ?thesis using that by (simp add: jit_emit_branch_x86_def find_label_x86_def find_map_of rel32_def wrap)
  qed
qed (simp_all add: rel32_def jit_emit_branch_x86_def find_label_x86_def find_map_of jit_imm_def numeral_eq_Suc)

interpretation x86: assembler 4 rel32 jit_emit_branch_x86 jit_label_x86 decode_x86 insn_size 4 "emit_x86 addr fn" "insns_x86 addr fn" branch_x86 x86_ok
  for addr fn
proof
  show "writes_insns decode_x86 insn_size (emit_x86 addr fn j) (insns_x86 addr fn j)"
    if "x86_ok j" "branch_x86 j = None" "\<And>l. j \<noteq> JLabel l" for j using that by (rule emit_x86_writes)
  show "emit_x86 addr fn j s = Option.bind (put_bytes op s) (jit_emit_branch_x86 l) \<and> op \<noteq> []" if "branch_x86 j = Some (op, f, l)" for j op f l s
    using that by (cases j) (auto simp: jit_je_x86_def jit_jne_x86_def jit_jneg_x86_def jit_jmp_x86_def)
  show "decode_x86 (op @ rel32 k @ ys) = Some (f (k - int 4), ys)"
    if "branch_x86 j = Some (op, f, l)" "- 10000 \<le> k" "k \<le> 10000" for j op f l k ys
    using that sint_word32 [of "k - 4"] by (cases j) (auto simp: rel32_def)
  show "length op + 4 \<le> 8" if "branch_x86 j = Some (op, f, l)" for j op f l
    using that by (cases j) auto
qed simp_all

definition size_x86 :: "jit \<Rightarrow> nat" where
  "size_x86 = op_size 4 insn_size (insns_x86 (\<lambda>_. 0) (\<lambda>_. 0)) branch_x86"

definition assemble_x86 :: "(val \<Rightarrow> u32) \<Rightarrow> (hostfn \<Rightarrow> u32) \<Rightarrow> jit list \<Rightarrow> x86_insn list" where
  "assemble_x86 addr fn js = assemble 4 size_x86 (insns_x86 addr fn) branch_x86 (map_of (labels_of size_x86 0 js)) 0 js"

lemma size_x86_eq: "op_size 4 insn_size (insns_x86 addr fn) branch_x86 = size_x86"
proof
  fix j
  show "op_size 4 insn_size (insns_x86 addr fn) branch_x86 j = size_x86 j"
    by (cases j) (simp_all add: op_size_def size_x86_def call_x86_def)
qed

text \<open>
  C11. For every program that fits into the array and the tables of labels, uses the registers and stack offsets the encodings have room for, and
  defines the labels it branches to, the generator for x86 succeeds, and the bytes it leaves disassemble, from the first to the last, to the
  instructions the operations mean, each branch with the displacement that leads to its label, forwards or backwards.
\<close>

theorem x86_code_is_assembly:
  assumes "fits size_x86 branch_x86 x86_ok js"
  shows "\<exists>s. emit_all (emit_x86 addr fn) js gen_init = Some s \<and> g_idx s = sum_list (map size_x86 js) \<and>
    disasm decode_x86 (map (g_code s) [0..<g_idx s]) = Some (assemble_x86 addr fn js)"
  using x86.code_is_assembly [of addr fn js] assms unfolding size_x86_eq assemble_x86_def by blast

definition loop_x86 :: "jit list" where
  "loop_x86 = [JMovi 1 (W 10), JLabel [76], JCmpi 1 0, JJe [77], JAddi 1 (- 1), JJmp [76], JLabel [77], JRet]"

theorem x86_code_is_assembly_witness:
  "\<exists>s. emit_all (emit_x86 (\<lambda>_. 10) (\<lambda>_. 0)) loop_x86 gen_init = Some s \<and> g_idx s = 29 \<and>
    disasm decode_x86 (map (g_code s) [0..<g_idx s]) =
      Some [Xmov_imm 7 10, Xalu_imm Xcmp 7 0, Xjcc XE 11, Xalu_imm Xadd 7 (- 1), Xjmp (- 23), Xret]"
proof -
  have "fits size_x86 branch_x86 x86_ok loop_x86"
    by (simp add: fits_def loop_x86_def size_x86_def op_size_def codesz_def MAX_LABELS_def hw_def map_filter_simps)
  from x86_code_is_assembly [OF this, of "\<lambda>_. 10" "\<lambda>_. 0"] show ?thesis
    by (simp add: loop_x86_def assemble_x86_def size_x86_def op_size_def hw_def)
qed

end
