(* ===== verification/Jit_M68k.thy ===== *)
theory Jit_M68k
  imports Bytegen
begin

unbundle bit_operations_syntax

text \<open>
  The code generator for m68k (\<^verbatim>\<open>src/sledge/jit_m68k.c\<close>): each function appends machine code to the array \<open>code\<close>, numbers with the high byte
  first.
\<close>

section \<open>Immediates, labels and branches\<close>

text \<open>The array \<open>regi\<close> has sixteen elements; the element \<open>r\<close> is \<open>r\<close>.\<close>

definition regi_m68k :: "nat \<Rightarrow> byte option" where
  "regi_m68k r = (if r < 16 then Some (of_nat r) else None)"

text \<open>The statements that store an immediate: four bytes, or two for offsets of the stack and displacements;
  the masks of the source select the bytes.\<close>

definition imm32_m68k :: "u32 \<Rightarrow> byte list" where
  "imm32_m68k imm = [ucast (drop_bit 24 imm), ucast (drop_bit 16 imm), ucast (drop_bit 8 imm), ucast imm]"

definition imm16_m68k :: "int \<Rightarrow> byte list" where
  "imm16_m68k offset = (let w = word_of_int offset :: 16 word in [ucast (drop_bit 8 w), ucast w])"

definition find_label_m68k :: "cstr \<Rightarrow> gen \<Rightarrow> nat option" where
  "find_label_m68k l s = map_option snd (find (\<lambda>x. fst x = l) (g_labels s))"

definition jit_emit_branch_m68k :: "cstr \<Rightarrow> gen \<Rightarrow> gen option" where
  "jit_emit_branch_m68k l s =
     (case find_label_m68k l s of
        Some t \<Rightarrow>
          (let offset = int t - int (g_idx s) in
           if offset < 0 then put_bytes (imm16_m68k (0x10000 - (- offset))) s else Some s)
      | None \<Rightarrow>
          if length (g_unres s) < MAX_LABELS
          then put_bytes [0, 0] (s\<lparr>g_unres := g_unres s @ [(Some l, g_idx s)]\<rparr>)
          else None)"

definition jit_label_m68k :: "cstr \<Rightarrow> gen \<Rightarrow> gen option" where
  "jit_label_m68k l s =
     (if length (g_labels s) < MAX_LABELS
      then let (us, code) = resolve_slots (\<lambda>i. imm16_m68k (int (g_idx s) - int i)) l (g_unres s) (g_code s) in
           Some (s\<lparr>g_labels := g_labels s @ [(l, g_idx s)], g_unres := us, g_code := code\<rparr>)
      else None)"

section \<open>Moves, loads and stores\<close>

definition jit_movi_m68k :: "nat \<Rightarrow> u32 \<Rightarrow> gen \<Rightarrow> gen option" where
  "jit_movi_m68k r imm s = do { i \<leftarrow> regi_m68k r; put_bytes ([0x20 OR push_bit 1 i, 0x3c] @ imm32_m68k imm) s }"

definition jit_movr_m68k :: "nat \<Rightarrow> nat \<Rightarrow> gen \<Rightarrow> gen option" where
  "jit_movr_m68k d r s = do { i \<leftarrow> regi_m68k d; j \<leftarrow> regi_m68k r; put_bytes [0x20 OR push_bit 1 i, 0x00 OR j] s }"

definition jit_movneg_m68k :: "nat \<Rightarrow> nat \<Rightarrow> gen \<Rightarrow> gen option" where
  "jit_movneg_m68k d r s = do { s \<leftarrow> put_bytes [0x6a, 0x00, 0x00, 0x04] s; jit_movr_m68k d r s }"

definition jit_movne_m68k :: "nat \<Rightarrow> nat \<Rightarrow> gen \<Rightarrow> gen option" where
  "jit_movne_m68k d r s = do { s \<leftarrow> put_bytes [0x67, 0x00, 0x00, 0x04] s; jit_movr_m68k d r s }"

definition jit_moveq_m68k :: "nat \<Rightarrow> nat \<Rightarrow> gen \<Rightarrow> gen option" where
  "jit_moveq_m68k d r s = do { s \<leftarrow> put_bytes [0x66, 0x00, 0x00, 0x04] s; jit_movr_m68k d r s }"

definition jit_lea_m68k :: "nat \<Rightarrow> u32 \<Rightarrow> gen \<Rightarrow> gen option" where
  "jit_lea_m68k = jit_movi_m68k"

definition jit_ldr_m68k :: "nat \<Rightarrow> gen \<Rightarrow> gen option" where
  "jit_ldr_m68k r s = do { i \<leftarrow> regi_m68k r; put_bytes [0x20, 0x40 OR i, 0x20 OR push_bit 1 i, 0x10] s }"

definition jit_ldr_stack_m68k :: "nat \<Rightarrow> int \<Rightarrow> gen \<Rightarrow> gen option" where
  "jit_ldr_stack_m68k d offset s = do { i \<leftarrow> regi_m68k d; put_bytes ([0x20 OR push_bit 1 i, 0x2f] @ imm16_m68k offset) s }"

definition jit_str_stack_m68k :: "nat \<Rightarrow> int \<Rightarrow> gen \<Rightarrow> gen option" where
  "jit_str_stack_m68k r offset s = do { i \<leftarrow> regi_m68k r; put_bytes ([0x2f, 0x40 OR i] @ imm16_m68k offset) s }"

definition jit_inc_stack_m68k :: "int \<Rightarrow> gen \<Rightarrow> gen option" where
  "jit_inc_stack_m68k imm s = put_bytes ([0xdf, 0xfc] @ imm32_m68k (word_of_int imm)) s"

definition jit_dec_stack_m68k :: "int \<Rightarrow> gen \<Rightarrow> gen option" where
  "jit_dec_stack_m68k imm s = put_bytes ([0x9f, 0xfc] @ imm32_m68k (word_of_int imm)) s"

definition jit_ldrb_m68k :: "nat \<Rightarrow> gen \<Rightarrow> gen option" where
  "jit_ldrb_m68k r s = do { i \<leftarrow> regi_m68k r; put_bytes [0x16, 0x30, 0x09 OR push_bit 4 i, 0x90] s }"

text \<open>\<open>jit_ldrw\<close> and \<open>jit_strw\<close> have empty bodies.\<close>

definition jit_ldrw_m68k :: "nat \<Rightarrow> gen \<Rightarrow> gen option" where
  "jit_ldrw_m68k r s = Some s"

definition jit_strb_m68k :: "nat \<Rightarrow> gen \<Rightarrow> gen option" where
  "jit_strb_m68k d s = do { i \<leftarrow> regi_m68k d; put_bytes [0x11, 0x83, 0x09 OR push_bit 4 i, 0x90] s }"

definition jit_strw_m68k :: "nat \<Rightarrow> gen \<Rightarrow> gen option" where
  "jit_strw_m68k r s = Some s"

section \<open>Arithmetic\<close>

definition jit_addr_m68k :: "nat \<Rightarrow> nat \<Rightarrow> gen \<Rightarrow> gen option" where
  "jit_addr_m68k d r s = do { i \<leftarrow> regi_m68k d; j \<leftarrow> regi_m68k r; put_bytes [0xd0 OR push_bit 1 i, 0x80 OR j] s }"

definition jit_andr_m68k :: "nat \<Rightarrow> nat \<Rightarrow> gen \<Rightarrow> gen option" where
  "jit_andr_m68k d r s = do { i \<leftarrow> regi_m68k d; j \<leftarrow> regi_m68k r; put_bytes [0xc0 OR push_bit 1 i, 0x80 OR j] s }"

definition jit_orr_m68k :: "nat \<Rightarrow> nat \<Rightarrow> gen \<Rightarrow> gen option" where
  "jit_orr_m68k d r s = do { i \<leftarrow> regi_m68k d; j \<leftarrow> regi_m68k r; put_bytes [0x80 OR push_bit 1 i, 0x80 OR j] s }"

definition jit_subr_m68k :: "nat \<Rightarrow> nat \<Rightarrow> gen \<Rightarrow> gen option" where
  "jit_subr_m68k d r s = do { i \<leftarrow> regi_m68k d; j \<leftarrow> regi_m68k r; put_bytes [0x90 OR push_bit 1 i, 0x80 OR j] s }"

definition jit_addi_m68k :: "nat \<Rightarrow> int \<Rightarrow> gen \<Rightarrow> gen option" where
  "jit_addi_m68k d imm s = do { i \<leftarrow> regi_m68k d; put_bytes ([0x06, 0x80 OR i] @ imm32_m68k (word_of_int imm)) s }"

definition jit_notr_m68k :: "nat \<Rightarrow> gen \<Rightarrow> gen option" where
  "jit_notr_m68k d s = do { i \<leftarrow> regi_m68k d; put_bytes [0x46, 0x80 OR i] s }"

definition jit_xorr_m68k :: "nat \<Rightarrow> nat \<Rightarrow> gen \<Rightarrow> gen option" where
  "jit_xorr_m68k d r s = do { i \<leftarrow> regi_m68k d; j \<leftarrow> regi_m68k r; put_bytes [0xb1 OR push_bit 1 j, 0x80 OR i] s }"

definition jit_shrr_m68k :: "nat \<Rightarrow> nat \<Rightarrow> gen \<Rightarrow> gen option" where
  "jit_shrr_m68k d r s = do { i \<leftarrow> regi_m68k d; j \<leftarrow> regi_m68k r; put_bytes [0xe0 OR push_bit 1 j, 0xa8 OR i] s }"

definition jit_shlr_m68k :: "nat \<Rightarrow> nat \<Rightarrow> gen \<Rightarrow> gen option" where
  "jit_shlr_m68k d r s = do { i \<leftarrow> regi_m68k d; j \<leftarrow> regi_m68k r; put_bytes [0xe1 OR push_bit 1 j, 0xa8 OR i] s }"

definition jit_mulr_m68k :: "nat \<Rightarrow> nat \<Rightarrow> gen \<Rightarrow> gen option" where
  "jit_mulr_m68k d r s = do { i \<leftarrow> regi_m68k d; j \<leftarrow> regi_m68k r; put_bytes [0x4c, 0x00 OR j, 0x08 OR push_bit 4 i, 0x00] s }"

definition jit_divr_m68k :: "nat \<Rightarrow> nat \<Rightarrow> gen \<Rightarrow> gen option" where
  "jit_divr_m68k d r s = do { i \<leftarrow> regi_m68k d; j \<leftarrow> regi_m68k r; put_bytes [0x4c, 0x40 OR j, 0x08 OR push_bit 4 i, 0x00 OR i] s }"

section \<open>Calls, comparisons and jumps\<close>

text \<open>\<open>func\<close> is the address of the C function.\<close>

definition jit_call_m68k :: "u32 \<Rightarrow> gen \<Rightarrow> gen option" where
  "jit_call_m68k func s = put_bytes ([0x2f, 0x00, 0x20, 0x7c] @ imm32_m68k func @ [0x4e, 0x90, 0x58, 0x8f]) s"

definition jit_call2_m68k :: "u32 \<Rightarrow> gen \<Rightarrow> gen option" where
  "jit_call2_m68k func s = put_bytes ([0x2f, 0x01, 0x2f, 0x00, 0x20, 0x7c] @ imm32_m68k func @ [0x4e, 0x90, 0x50, 0x8f]) s"

definition jit_call3_m68k :: "u32 \<Rightarrow> gen \<Rightarrow> gen option" where
  "jit_call3_m68k func s = put_bytes ([0x2f, 0x02, 0x2f, 0x01, 0x2f, 0x00, 0x20, 0x7c] @ imm32_m68k func @ [0x4e, 0x90, 0x50, 0x8f, 0x58, 0x8f]) s"

definition jit_callr_m68k :: "nat \<Rightarrow> gen \<Rightarrow> gen option" where
  "jit_callr_m68k d s = do { i \<leftarrow> regi_m68k d; put_bytes [0x20 OR i, 0x40, 0x4e, 0x90] s }"

text \<open>The remainder is a call of the C function \<open>inline_mod\<close>; on m68k \<open>ARGR0\<close> and \<open>ARGR1\<close> are 0 and 1.\<close>

definition jit_modr_m68k :: "u32 \<Rightarrow> nat \<Rightarrow> nat \<Rightarrow> gen \<Rightarrow> gen option" where
  "jit_modr_m68k func d r s = do { s \<leftarrow> jit_movr_m68k 0 d s; s \<leftarrow> jit_movr_m68k 1 r s; s \<leftarrow> jit_call2_m68k func s;
       if d \<noteq> 0 then jit_movr_m68k d 0 s else Some s }"

definition jit_cmpi_m68k :: "nat \<Rightarrow> int \<Rightarrow> gen \<Rightarrow> gen option" where
  "jit_cmpi_m68k r imm s = do { i \<leftarrow> regi_m68k r; put_bytes ([0x0c, 0x80 OR i] @ imm32_m68k (word_of_int imm)) s }"

definition jit_cmpr_m68k :: "nat \<Rightarrow> nat \<Rightarrow> gen \<Rightarrow> gen option" where
  "jit_cmpr_m68k r d s = do { i \<leftarrow> regi_m68k d; j \<leftarrow> regi_m68k r; put_bytes [0xb0 OR push_bit 1 i, 0x80 OR j] s }"

definition jit_je_m68k :: "cstr \<Rightarrow> gen \<Rightarrow> gen option" where
  "jit_je_m68k l s = do { s \<leftarrow> put_bytes [0x67, 0x00] s; jit_emit_branch_m68k l s }"

definition jit_jne_m68k :: "cstr \<Rightarrow> gen \<Rightarrow> gen option" where
  "jit_jne_m68k l s = do { s \<leftarrow> put_bytes [0x66, 0x00] s; jit_emit_branch_m68k l s }"

definition jit_jneg_m68k :: "cstr \<Rightarrow> gen \<Rightarrow> gen option" where
  "jit_jneg_m68k l s = do { s \<leftarrow> put_bytes [0x6b, 0x00] s; jit_emit_branch_m68k l s }"

definition jit_jmp_m68k :: "cstr \<Rightarrow> gen \<Rightarrow> gen option" where
  "jit_jmp_m68k l s = do { s \<leftarrow> put_bytes [0x60, 0x00] s; jit_emit_branch_m68k l s }"

definition jit_ret_m68k :: "gen \<Rightarrow> gen option" where
  "jit_ret_m68k s = put_bytes [0x4e, 0x75] s"

text \<open>The loops over the registers \<open>a\<close> to \<open>b\<close>; the list holds them in the order of the loop.\<close>

fun put_regs_m68k :: "(byte \<Rightarrow> byte list) \<Rightarrow> nat list \<Rightarrow> gen \<Rightarrow> gen option" where
  "put_regs_m68k f [] s = Some s"
| "put_regs_m68k f (r # rs) s = do { i \<leftarrow> regi_m68k r; s \<leftarrow> put_bytes (f i) s; put_regs_m68k f rs s }"

definition jit_push_m68k :: "nat \<Rightarrow> nat \<Rightarrow> gen \<Rightarrow> gen option" where
  "jit_push_m68k a b = put_regs_m68k (\<lambda>i. [0x2f, i]) [a..<Suc b]"

definition jit_pop_m68k :: "nat \<Rightarrow> nat \<Rightarrow> gen \<Rightarrow> gen option" where
  "jit_pop_m68k a b = put_regs_m68k (\<lambda>i. [0x20 OR push_bit 1 i, 0x1f]) (rev [a..<Suc b])"

text \<open>\<open>jit_host_call_enter\<close> and \<open>jit_host_call_exit\<close> have empty bodies.\<close>

definition jit_nothing_m68k :: "gen \<Rightarrow> gen option" where
  "jit_nothing_m68k = Some"

section \<open>All operations\<close>

text \<open>
  \<open>addr\<close> and \<open>fn\<close> are the addresses of objects and of C functions. The file has no \<open>jit_ldrs\<close>, \<open>jit_strs\<close>, \<open>jit_stra\<close>, \<open>jit_jge\<close> and
  \<open>jit_comment\<close>: a program that calls one of them cannot be built.
\<close>

fun emit_m68k :: "(val \<Rightarrow> u32) \<Rightarrow> (hostfn \<Rightarrow> u32) \<Rightarrow> jit \<Rightarrow> gen \<Rightarrow> gen option" where
  "emit_m68k addr fn (JMovi r v) = jit_movi_m68k r (addr v)"
| "emit_m68k addr fn (JMovr d r) = jit_movr_m68k d r"
| "emit_m68k addr fn (JMovneg d r) = jit_movneg_m68k d r"
| "emit_m68k addr fn (JMovne d r) = jit_movne_m68k d r"
| "emit_m68k addr fn (JMoveq d r) = jit_moveq_m68k d r"
| "emit_m68k addr fn (JLea r v) = jit_lea_m68k r (addr v)"
| "emit_m68k addr fn (JLdr r) = jit_ldr_m68k r"
| "emit_m68k addr fn (JLdr_stack r i) = jit_ldr_stack_m68k r i"
| "emit_m68k addr fn (JStr_stack r i) = jit_str_stack_m68k r i"
| "emit_m68k addr fn (JInc_stack i) = jit_inc_stack_m68k i"
| "emit_m68k addr fn (JDec_stack i) = jit_dec_stack_m68k i"
| "emit_m68k addr fn (JLdrb r) = jit_ldrb_m68k r"
| "emit_m68k addr fn (JLdrs r) = (\<lambda>_. None)"
| "emit_m68k addr fn (JLdrw r) = jit_ldrw_m68k r"
| "emit_m68k addr fn (JStrb r) = jit_strb_m68k r"
| "emit_m68k addr fn (JStrs r) = (\<lambda>_. None)"
| "emit_m68k addr fn (JStrw r) = jit_strw_m68k r"
| "emit_m68k addr fn (JStra r) = (\<lambda>_. None)"
| "emit_m68k addr fn (JAddr d r) = jit_addr_m68k d r"
| "emit_m68k addr fn (JAddi d i) = jit_addi_m68k d i"
| "emit_m68k addr fn (JAndr d r) = jit_andr_m68k d r"
| "emit_m68k addr fn (JNotr d) = jit_notr_m68k d"
| "emit_m68k addr fn (JOrr d r) = jit_orr_m68k d r"
| "emit_m68k addr fn (JXorr d r) = jit_xorr_m68k d r"
| "emit_m68k addr fn (JShrr d r) = jit_shrr_m68k d r"
| "emit_m68k addr fn (JShlr d r) = jit_shlr_m68k d r"
| "emit_m68k addr fn (JSubr d r) = jit_subr_m68k d r"
| "emit_m68k addr fn (JMulr d r) = jit_mulr_m68k d r"
| "emit_m68k addr fn (JDivr d r) = jit_divr_m68k d r"
| "emit_m68k addr fn (JModr d r) = jit_modr_m68k (fn Host_inline_mod) d r"
| "emit_m68k addr fn JHost_call_enter = jit_nothing_m68k"
| "emit_m68k addr fn JHost_call_exit = jit_nothing_m68k"
| "emit_m68k addr fn (JCall f note) =
     (if host_arity f = 3 then jit_call3_m68k (fn f) else if host_arity f = 2 then jit_call2_m68k (fn f) else jit_call_m68k (fn f))"
| "emit_m68k addr fn (JCallr r) = jit_callr_m68k r"
| "emit_m68k addr fn (JCmpi r i) = jit_cmpi_m68k r i"
| "emit_m68k addr fn (JCmpr r d) = jit_cmpr_m68k r d"
| "emit_m68k addr fn (JJe l) = jit_je_m68k l"
| "emit_m68k addr fn (JJne l) = jit_jne_m68k l"
| "emit_m68k addr fn (JJge l) = (\<lambda>_. None)"
| "emit_m68k addr fn (JJneg l) = jit_jneg_m68k l"
| "emit_m68k addr fn (JJmp l) = jit_jmp_m68k l"
| "emit_m68k addr fn (JLabel l) = jit_label_m68k l"
| "emit_m68k addr fn JRet = jit_ret_m68k"
| "emit_m68k addr fn (JPush a b) = jit_push_m68k a b"
| "emit_m68k addr fn (JPop a b) = jit_pop_m68k a b"
| "emit_m68k addr fn (JComment c) = (\<lambda>_. None)"

end
