(* ===== verification/M68k.thy ===== *)
theory M68k
  imports Jit_M68k
begin

unbundle bit_operations_syntax

text \<open>
  The bytes that \<^verbatim>\<open>src/sledge/jit_m68k.c\<close> writes, read back as instructions. \<open>decode_m68k\<close> is the encoding of the 68020 for the instructions
  the generator uses; registers are the data registers \<open>d0\<close> to \<open>d7\<close>, and \<open>a0\<close> and the stack pointer \<open>a7\<close> appear in the names of the instructions.
\<close>

section \<open>Decoding of instructions\<close>

datatype mcond = MT | MNE | MEQ | MPL | MMI
datatype mop = Mor | Msub | Mcmp | Mand | Madd

text \<open>
  The destination comes first. \<open>Mmovea\<close> and \<open>Mmovea_imm\<close> load \<open>a0\<close>, \<open>Mload\<close> reads from its address; \<open>Mload_byte\<close> and \<open>Mstore_byte\<close> take
  the address from a data register; \<open>Mbcc c k\<close> continues \<open>k\<close> bytes after the second byte of the instruction.
\<close>

datatype m68k_insn =
  Mmove_imm byte u32 | Mmove byte byte | Mload byte | Mpop byte | Mload_stack byte int | Mmovea byte | Mmovea_imm u32
  | Mpush byte | Mstore_stack byte int | Mload_byte byte byte | Mstore_byte byte byte
  | Malu mop byte byte | Meor byte byte | Maddi byte u32 | Mcmpi byte u32 | Mnot byte | Mlsr byte byte | Mlsl byte byte
  | Mmuls byte byte | Mdivs byte byte | Madd_stack u32 | Msub_stack u32 | Maddq_stack nat | Mjsr | Mrts | Mbcc mcond int

fun decode_imm32 :: "byte list \<Rightarrow> (u32 \<times> byte list) option" where
  "decode_imm32 (a # b # c # d # ys) = Some (push_bit 24 (ucast a) OR push_bit 16 (ucast b) OR push_bit 8 (ucast c) OR ucast d, ys)"
| "decode_imm32 _ = None"

fun decode_imm16 :: "byte list \<Rightarrow> (int \<times> byte list) option" where
  "decode_imm16 (a # b # ys) = Some (sint (push_bit 8 (ucast a) OR ucast b :: 16 word), ys)"
| "decode_imm16 _ = None"

text \<open>The fields of the operation word: register \<open>d\<close> and bits 8 to 6 as \<open>k\<close>, mode \<open>m\<close> and register \<open>r\<close>.\<close>

definition decode_move :: "byte \<Rightarrow> byte \<Rightarrow> byte \<Rightarrow> byte \<Rightarrow> byte list \<Rightarrow> (m68k_insn \<times> byte list) option" where
  "decode_move d k m r ys =
     (if k = 0 then
        if m = 0 then Some (Mmove d r, ys)
        else if m = 2 \<and> r = 0 then Some (Mload d, ys)
        else if m = 3 \<and> r = 7 then Some (Mpop d, ys)
        else if m = 5 \<and> r = 7 then map_option (\<lambda>(i, ys). (Mload_stack d i, ys)) (decode_imm16 ys)
        else if m = 7 \<and> r = 4 then map_option (\<lambda>(w, ys). (Mmove_imm d w, ys)) (decode_imm32 ys)
        else None
      else if k = 1 \<and> d = 0 then
        if m = 0 then Some (Mmovea r, ys)
        else if m = 7 \<and> r = 4 then map_option (\<lambda>(w, ys). (Mmovea_imm w, ys)) (decode_imm32 ys)
        else None
      else if k = 4 \<and> d = 7 \<and> m = 0 then Some (Mpush r, ys)
      else if k = 5 \<and> d = 7 \<and> m = 0 then map_option (\<lambda>(i, ys). (Mstore_stack r i, ys)) (decode_imm16 ys)
      else None)"

text \<open>The extension word of an address in a data register, and that of a long multiplication or division.\<close>

fun decode_index :: "byte list \<Rightarrow> (byte \<times> byte list) option" where
  "decode_index (a # b # ys) = (if take_bit 4 a = 9 \<and> drop_bit 7 a = 0 \<and> b = 0x90 then Some (drop_bit 4 a, ys) else None)"
| "decode_index _ = None"

fun decode_long :: "byte list \<Rightarrow> (byte \<times> byte \<times> byte list) option" where
  "decode_long (a # b # ys) = (if take_bit 4 a = 8 \<and> drop_bit 7 a = 0 \<and> drop_bit 3 b = 0 then Some (drop_bit 4 a, b, ys) else None)"
| "decode_long _ = None"

definition decode_mcond :: "byte \<Rightarrow> mcond option" where
  "decode_mcond c = (if c = 0 then Some MT else if c = 6 then Some MNE else if c = 7 then Some MEQ else if c = 10 then Some MPL
     else if c = 11 then Some MMI else None)"

definition decode_mop :: "byte \<Rightarrow> mop option" where
  "decode_mop n = (if n = 8 then Some Mor else if n = 9 then Some Msub else if n = 11 then Some Mcmp else if n = 12 then Some Mand
     else if n = 13 then Some Madd else None)"

definition decode_fixed :: "byte \<Rightarrow> byte \<Rightarrow> byte list \<Rightarrow> (m68k_insn \<times> byte list) option" where
  "decode_fixed h l ys =
     (if h = 0x16 \<and> l = 0x30 then map_option (\<lambda>(r, ys). (Mload_byte 3 r, ys)) (decode_index ys)
      else if h = 0x11 \<and> l = 0x83 then map_option (\<lambda>(r, ys). (Mstore_byte r 3, ys)) (decode_index ys)
      else if h = 0xdf \<and> l = 0xfc then map_option (\<lambda>(w, ys). (Madd_stack w, ys)) (decode_imm32 ys)
      else if h = 0x9f \<and> l = 0xfc then map_option (\<lambda>(w, ys). (Msub_stack w, ys)) (decode_imm32 ys)
      else if h = 0x58 \<and> l = 0x8f then Some (Maddq_stack 4, ys)
      else if h = 0x50 \<and> l = 0x8f then Some (Maddq_stack 8, ys)
      else if h = 0x4e \<and> l = 0x90 then Some (Mjsr, ys)
      else if h = 0x4e \<and> l = 0x75 then Some (Mrts, ys)
      else None)"

definition decode_m68k :: "byte list \<Rightarrow> (m68k_insn \<times> byte list) option" where
  "decode_m68k xs =
     (case xs of h # l # ys \<Rightarrow>
        let n = drop_bit 4 h; d = take_bit 3 (drop_bit 1 h); k = 4 * take_bit 1 h + drop_bit 6 l; m = take_bit 3 (drop_bit 3 l); r = take_bit 3 l in
        if n = 2 then decode_move d k m r ys
        else if n = 6 \<and> l = 0 then do { c \<leftarrow> decode_mcond (take_bit 4 h); (i, ys) \<leftarrow> decode_imm16 ys; Some (Mbcc c i, ys) }
        else if 8 \<le> n \<and> k = 2 \<and> m = 0 then do { f \<leftarrow> decode_mop n; Some (Malu f d r, ys) }
        else if n = 11 \<and> k = 6 \<and> m = 0 then Some (Meor r d, ys)
        else if n = 14 \<and> k = 2 \<and> m = 5 then Some (Mlsr r d, ys)
        else if n = 14 \<and> k = 6 \<and> m = 5 then Some (Mlsl r d, ys)
        else if h = 0x06 \<and> k = 2 \<and> m = 0 then do { (w, ys) \<leftarrow> decode_imm32 ys; Some (Maddi r w, ys) }
        else if h = 0x0c \<and> k = 2 \<and> m = 0 then do { (w, ys) \<leftarrow> decode_imm32 ys; Some (Mcmpi r w, ys) }
        else if h = 0x46 \<and> k = 2 \<and> m = 0 then Some (Mnot r, ys)
        else if h = 0x4c \<and> k = 0 \<and> m = 0 then do { (d, q, ys) \<leftarrow> decode_long ys; if q = 0 then Some (Mmuls d r, ys) else None }
        else if h = 0x4c \<and> k = 1 \<and> m = 0 then do { (d, q, ys) \<leftarrow> decode_long ys; if q = d then Some (Mdivs d r, ys) else None }
        else decode_fixed h l ys
      | _ \<Rightarrow> None)"

lemma decode_imm32_jit [simp]: "decode_imm32 (imm32_m68k w @ ys) = Some (w, ys)"
proof -
  have "push_bit 24 (ucast (ucast (drop_bit 24 w) :: byte)) OR push_bit 16 (ucast (ucast (drop_bit 16 w) :: byte)) OR
    push_bit 8 (ucast (ucast (drop_bit 8 w) :: byte)) OR ucast (ucast w :: byte) = (w :: u32)"
  proof (rule bit_word_eqI)
    fix n :: nat assume "n < LENGTH(32)"
    then consider "n < 8" | "8 \<le> n" "n < 16" | "16 \<le> n" "n < 24" | "24 \<le> n" "n < 32" by fastforce
    then show "bit (push_bit 24 (ucast (ucast (drop_bit 24 w) :: byte)) OR push_bit 16 (ucast (ucast (drop_bit 16 w) :: byte)) OR
      push_bit 8 (ucast (ucast (drop_bit 8 w) :: byte)) OR ucast (ucast w :: byte) :: u32) n = bit w n"
      by cases (auto simp: bit_simps)
  qed
  then show ?thesis by (simp add: imm32_m68k_def)
qed

lemma decode_imm16_jit: "- 32768 \<le> k \<Longrightarrow> k < 32768 \<Longrightarrow> decode_imm16 (imm16_m68k k @ ys) = Some (k, ys)"
proof -
  assume k: "- 32768 \<le> k" "k < 32768"
  let ?w = "word_of_int k :: 16 word"
  have "push_bit 8 (ucast (ucast (drop_bit 8 w) :: byte)) OR ucast (ucast w :: byte) = w" for w :: "16 word"
  proof (rule bit_word_eqI)
    fix n :: nat assume "n < LENGTH(16)"
    then consider "n < 8" | "8 \<le> n" "n < 16" by fastforce
    then show "bit (push_bit 8 (ucast (ucast (drop_bit 8 w) :: byte)) OR ucast (ucast w :: byte) :: 16 word) n = bit w n"
      by cases (auto simp: bit_simps)
  qed
  moreover have "sint ?w = k" using k by (simp add: signed_of_int signed_take_bit_int_eq_self)
  ultimately show ?thesis by (simp add: imm16_m68k_def Let_def del: of_int_numeral)
qed

lemma m68k_bits [simp]:
  assumes "(i :: byte) < 8"
  shows "drop_bit 4 (i * 2) = 0" "take_bit 3 (drop_bit (Suc 0) (i * 2)) = i" "i * 2 mod 2 = 0"
    "drop_bit 6 i = 0" "take_bit 4 (push_bit 4 i) = 0" "drop_bit 4 (push_bit 4 i) = i" "drop_bit 7 (push_bit 4 i) = 0"
  using reg_cases [OF assms] by (elim disjE; simp)+

section \<open>What the operations are to mean\<close>

definition call_m68k :: "byte list \<Rightarrow> u32 \<Rightarrow> m68k_insn list" where
  "call_m68k args f = map Mpush args @ [Mmovea_imm f, Mjsr] @
     (if length args = 3 then [Maddq_stack 8, Maddq_stack 4] else [Maddq_stack (4 * length args)])"

fun insns_m68k :: "(val \<Rightarrow> u32) \<Rightarrow> (hostfn \<Rightarrow> u32) \<Rightarrow> jit \<Rightarrow> m68k_insn list" where
  "insns_m68k addr fn (JMovi r v) = [Mmove_imm (of_nat r) (addr v)]"
| "insns_m68k addr fn (JMovr d r) = [Mmove (of_nat d) (of_nat r)]"
| "insns_m68k addr fn (JMovneg d r) = [Mbcc MPL 4, Mmove (of_nat d) (of_nat r)]"
| "insns_m68k addr fn (JMovne d r) = [Mbcc MEQ 4, Mmove (of_nat d) (of_nat r)]"
| "insns_m68k addr fn (JMoveq d r) = [Mbcc MNE 4, Mmove (of_nat d) (of_nat r)]"
| "insns_m68k addr fn (JLea r v) = [Mmove_imm (of_nat r) (addr v)]"
| "insns_m68k addr fn (JLdr r) = [Mmovea (of_nat r), Mload (of_nat r)]"
| "insns_m68k addr fn (JLdr_stack r i) = [Mload_stack (of_nat r) i]"
| "insns_m68k addr fn (JStr_stack r i) = [Mstore_stack (of_nat r) i]"
| "insns_m68k addr fn (JInc_stack i) = [Madd_stack (word_of_int i)]"
| "insns_m68k addr fn (JDec_stack i) = [Msub_stack (word_of_int i)]"
| "insns_m68k addr fn (JLdrb r) = [Mload_byte 3 (of_nat r)]"
| "insns_m68k addr fn (JStrb r) = [Mstore_byte (of_nat r) 3]"
| "insns_m68k addr fn (JAddr d r) = [Malu Madd (of_nat d) (of_nat r)]"
| "insns_m68k addr fn (JAndr d r) = [Malu Mand (of_nat d) (of_nat r)]"
| "insns_m68k addr fn (JOrr d r) = [Malu Mor (of_nat d) (of_nat r)]"
| "insns_m68k addr fn (JSubr d r) = [Malu Msub (of_nat d) (of_nat r)]"
| "insns_m68k addr fn (JXorr d r) = [Meor (of_nat d) (of_nat r)]"
| "insns_m68k addr fn (JShrr d r) = [Mlsr (of_nat d) (of_nat r)]"
| "insns_m68k addr fn (JShlr d r) = [Mlsl (of_nat d) (of_nat r)]"
| "insns_m68k addr fn (JMulr d r) = [Mmuls (of_nat d) (of_nat r)]"
| "insns_m68k addr fn (JDivr d r) = [Mdivs (of_nat d) (of_nat r)]"
| "insns_m68k addr fn (JAddi d i) = [Maddi (of_nat d) (word_of_int i)]"
| "insns_m68k addr fn (JNotr d) = [Mnot (of_nat d)]"
| "insns_m68k addr fn (JModr d r) = [Mmove 0 (of_nat d), Mmove 1 (of_nat r)] @ call_m68k [1, 0] (fn Host_inline_mod) @ (if d \<noteq> 0 then [Mmove (of_nat d) 0] else [])"
| "insns_m68k addr fn (JCall f note) = 
     call_m68k (if host_arity f = 3 then [2, 1, 0] else if host_arity f = 2 then [1, 0] else [0]) (fn f)"
| "insns_m68k addr fn (JCallr r) = [Mmovea (of_nat r), Mjsr]"
| "insns_m68k addr fn (JCmpi r i) = [Mcmpi (of_nat r) (word_of_int i)]"
| "insns_m68k addr fn (JCmpr r d) = [Malu Mcmp (of_nat d) (of_nat r)]"
| "insns_m68k addr fn JRet = [Mrts]"
| "insns_m68k addr fn (JPush a b) = map (Mpush \<circ> of_nat) [a..<Suc b]"
| "insns_m68k addr fn (JPop a b) = map (Mpop \<circ> of_nat) (rev [a..<Suc b])"
| "insns_m68k addr fn _ = []"

text \<open>
  Data registers; offsets of the stack that fit into 16 bits; \<open>jit_callr\<close>, which puts the number of its register into the wrong byte, with
  \<open>d0\<close> only, as the compiler calls it. \<open>jit_ldrw\<close> and \<open>jit_strw\<close> are empty, and the functions that do not exist are left out.
\<close>

fun m68k_ok :: "jit \<Rightarrow> bool" where
  "m68k_ok (JMovi r v) \<longleftrightarrow> r < 8"
| "m68k_ok (JMovr d r) \<longleftrightarrow> d < 8 \<and> r < 8"
| "m68k_ok (JMovneg d r) \<longleftrightarrow> d < 8 \<and> r < 8"
| "m68k_ok (JMovne d r) \<longleftrightarrow> d < 8 \<and> r < 8"
| "m68k_ok (JMoveq d r) \<longleftrightarrow> d < 8 \<and> r < 8"
| "m68k_ok (JLea r v) \<longleftrightarrow> r < 8"
| "m68k_ok (JLdr r) \<longleftrightarrow> r < 8"
| "m68k_ok (JLdr_stack r i) \<longleftrightarrow> r < 8 \<and> - 32768 \<le> i \<and> i < 32768"
| "m68k_ok (JStr_stack r i) \<longleftrightarrow> r < 8 \<and> - 32768 \<le> i \<and> i < 32768"
| "m68k_ok (JLdrb r) \<longleftrightarrow> r < 8"
| "m68k_ok (JStrb r) \<longleftrightarrow> r < 8"
| "m68k_ok (JAddr d r) \<longleftrightarrow> d < 8 \<and> r < 8"
| "m68k_ok (JAndr d r) \<longleftrightarrow> d < 8 \<and> r < 8"
| "m68k_ok (JOrr d r) \<longleftrightarrow> d < 8 \<and> r < 8"
| "m68k_ok (JSubr d r) \<longleftrightarrow> d < 8 \<and> r < 8"
| "m68k_ok (JXorr d r) \<longleftrightarrow> d < 8 \<and> r < 8"
| "m68k_ok (JShrr d r) \<longleftrightarrow> d < 8 \<and> r < 8"
| "m68k_ok (JShlr d r) \<longleftrightarrow> d < 8 \<and> r < 8"
| "m68k_ok (JMulr d r) \<longleftrightarrow> d < 8 \<and> r < 8"
| "m68k_ok (JDivr d r) \<longleftrightarrow> d < 8 \<and> r < 8"
| "m68k_ok (JAddi d i) \<longleftrightarrow> d < 8"
| "m68k_ok (JNotr d) \<longleftrightarrow> d < 8"
| "m68k_ok (JModr d r) \<longleftrightarrow> d < 8 \<and> r < 8"
| "m68k_ok (JCallr r) \<longleftrightarrow> r = 0"
| "m68k_ok (JCmpi r i) \<longleftrightarrow> r < 8"
| "m68k_ok (JCmpr r d) \<longleftrightarrow> r < 8 \<and> d < 8"
| "m68k_ok (JPush a b) \<longleftrightarrow> b < 8"
| "m68k_ok (JPop a b) \<longleftrightarrow> b < 8"
| "m68k_ok (JLdrw r) \<longleftrightarrow> False"
| "m68k_ok (JStrw r) \<longleftrightarrow> False"
| "m68k_ok (JLdrs r) \<longleftrightarrow> False"
| "m68k_ok (JStrs r) \<longleftrightarrow> False"
| "m68k_ok (JStra r) \<longleftrightarrow> False"
| "m68k_ok (JJge l) \<longleftrightarrow> False"
| "m68k_ok (JComment c) \<longleftrightarrow> False"
| "m68k_ok _ \<longleftrightarrow> True"

fun branch_m68k :: "jit \<Rightarrow> (byte list \<times> (int \<Rightarrow> m68k_insn) \<times> label) option" where
  "branch_m68k (JJe l) = Some ([0x67, 0x00], Mbcc MEQ, l)"
| "branch_m68k (JJne l) = Some ([0x66, 0x00], Mbcc MNE, l)"
| "branch_m68k (JJneg l) = Some ([0x6b, 0x00], Mbcc MMI, l)"
| "branch_m68k (JJmp l) = Some ([0x60, 0x00], Mbcc MT, l)"
| "branch_m68k _ = None"

fun msize :: "m68k_insn \<Rightarrow> nat" where
  "msize (Mmove_imm d w) = 6"
| "msize (Mload_stack d i) = 4"
| "msize (Mmovea_imm w) = 6"
| "msize (Mstore_stack r i) = 4"
| "msize (Mload_byte d r) = 4"
| "msize (Mstore_byte d r) = 4"
| "msize (Maddi d w) = 6"
| "msize (Mcmpi d w) = 6"
| "msize (Mmuls d r) = 4"
| "msize (Mdivs d r) = 4"
| "msize (Madd_stack w) = 6"
| "msize (Msub_stack w) = 6"
| "msize (Mbcc c i) = 4"
| "msize _ = 2"

section \<open>One operation\<close>

lemma reg_m68k [simp]: "r < 8 \<Longrightarrow> regi_m68k r = Some (of_nat r)" "r < 8 \<Longrightarrow> (of_nat r :: byte) < 8"
  by (simp_all add: regi_m68k_def word_less_nat_alt unat_of_nat)

lemma imm_m68k_length [simp]: "length (imm32_m68k w) = 4" "length (imm16_m68k k) = 2"
  by (simp_all add: imm32_m68k_def imm16_m68k_def Let_def)

lemma decode_m68k_move [simp]:
  "i < 8 \<Longrightarrow> j < 8 \<Longrightarrow> decode_m68k ((0x20 OR i * 2) # j # ys) = Some (Mmove i j, ys)"
  "i < 8 \<Longrightarrow> decode_m68k ((0x20 OR i * 2) # 0x10 # ys) = Some (Mload i, ys)"
  "i < 8 \<Longrightarrow> decode_m68k ((0x20 OR i * 2) # 0x1f # ys) = Some (Mpop i, ys)"
  "i < 8 \<Longrightarrow> decode_m68k ((0x20 OR i * 2) # 0x3c # imm32_m68k w @ ys) = Some (Mmove_imm i w, ys)"
  "i < 8 \<Longrightarrow> - 32768 \<le> k \<Longrightarrow> k < 32768 \<Longrightarrow> decode_m68k ((0x20 OR i * 2) # 0x2f # imm16_m68k k @ ys) = Some (Mload_stack i k, ys)"
  "j < 8 \<Longrightarrow> decode_m68k (0x20 # (0x40 OR j) # ys) = Some (Mmovea j, ys)"
  "decode_m68k (0x20 # 0x7c # imm32_m68k w @ ys) = Some (Mmovea_imm w, ys)"
  "j < 8 \<Longrightarrow> decode_m68k (0x2f # j # ys) = Some (Mpush j, ys)"
  "j < 8 \<Longrightarrow> - 32768 \<le> k \<Longrightarrow> k < 32768 \<Longrightarrow> decode_m68k (0x2f # (0x40 OR j) # imm16_m68k k @ ys) = Some (Mstore_stack j k, ys)"
  by (simp_all add: decode_m68k_def decode_move_def decode_imm16_jit)

lemma decode_m68k_alu [simp]:
  assumes "i < 8" "j < 8"
  shows "decode_m68k ((0xd0 OR i * 2) # (0x80 OR j) # ys) = Some (Malu Madd i j, ys)"
    "decode_m68k ((0xc0 OR i * 2) # (0x80 OR j) # ys) = Some (Malu Mand i j, ys)"
    "decode_m68k ((0x80 OR i * 2) # (0x80 OR j) # ys) = Some (Malu Mor i j, ys)"
    "decode_m68k ((0x90 OR i * 2) # (0x80 OR j) # ys) = Some (Malu Msub i j, ys)"
    "decode_m68k ((0xb0 OR i * 2) # (0x80 OR j) # ys) = Some (Malu Mcmp i j, ys)"
    "decode_m68k ((0xb1 OR i * 2) # (0x80 OR j) # ys) = Some (Meor j i, ys)"
    "decode_m68k ((0xe0 OR i * 2) # (0xa8 OR j) # ys) = Some (Mlsr j i, ys)"
    "decode_m68k ((0xe1 OR i * 2) # (0xa8 OR j) # ys) = Some (Mlsl j i, ys)"
  using assms by (simp_all add: decode_m68k_def decode_mop_def)

lemma decode_m68k_other [simp]:
  "i < 8 \<Longrightarrow> decode_m68k (0x06 # (0x80 OR i) # imm32_m68k w @ ys) = Some (Maddi i w, ys)"
  "i < 8 \<Longrightarrow> decode_m68k (0x0c # (0x80 OR i) # imm32_m68k w @ ys) = Some (Mcmpi i w, ys)"
  "i < 8 \<Longrightarrow> decode_m68k (0x46 # (0x80 OR i) # ys) = Some (Mnot i, ys)"
  "i < 8 \<Longrightarrow> j < 8 \<Longrightarrow> decode_m68k (0x4c # j # (0x08 OR push_bit 4 i) # 0 # ys) = Some (Mmuls i j, ys)"
  "i < 8 \<Longrightarrow> j < 8 \<Longrightarrow> decode_m68k (0x4c # (0x40 OR j) # (0x08 OR push_bit 4 i) # i # ys) = Some (Mdivs i j, ys)"
  "i < 8 \<Longrightarrow> decode_m68k (0x16 # 0x30 # (0x09 OR push_bit 4 i) # 0x90 # ys) = Some (Mload_byte 3 i, ys)"
  "i < 8 \<Longrightarrow> decode_m68k (0x11 # 0x83 # (0x09 OR push_bit 4 i) # 0x90 # ys) = Some (Mstore_byte i 3, ys)"
  by (simp_all add: decode_m68k_def decode_fixed_def)

lemma decode_m68k_fixed [simp]:
  "decode_m68k (0xdf # 0xfc # imm32_m68k w @ ys) = Some (Madd_stack w, ys)" "decode_m68k (0x9f # 0xfc # imm32_m68k w @ ys) = Some (Msub_stack w, ys)"
  "decode_m68k (0x58 # 0x8f # ys) = Some (Maddq_stack 4, ys)" "decode_m68k (0x50 # 0x8f # ys) = Some (Maddq_stack 8, ys)"
  "decode_m68k (0x4e # 0x90 # ys) = Some (Mjsr, ys)" "decode_m68k (0x4e # 0x75 # ys) = Some (Mrts, ys)"
  by (simp_all add: decode_m68k_def decode_fixed_def)

lemma decode_m68k_branch [simp]:
  assumes "- 32768 \<le> k" "k < 32768"
  shows "decode_m68k (0x67 # 0 # imm16_m68k k @ ys) = Some (Mbcc MEQ k, ys)" "decode_m68k (0x66 # 0 # imm16_m68k k @ ys) = Some (Mbcc MNE k, ys)"
    "decode_m68k (0x6b # 0 # imm16_m68k k @ ys) = Some (Mbcc MMI k, ys)" "decode_m68k (0x60 # 0 # imm16_m68k k @ ys) = Some (Mbcc MT k, ys)"
    "decode_m68k (0x6a # 0 # imm16_m68k k @ ys) = Some (Mbcc MPL k, ys)"
  using assms by (simp_all add: decode_m68k_def decode_mcond_def decode_imm16_jit)

declare put_bytes.simps(2) [simp del]

text \<open>Operations of one instruction.\<close>

fun simple_m68k :: "jit \<Rightarrow> bool" where
  "simple_m68k (JMovneg d r) = False"
| "simple_m68k (JMovne d r) = False"
| "simple_m68k (JMoveq d r) = False"
| "simple_m68k (JLdr r) = False"
| "simple_m68k (JModr d r) = False"
| "simple_m68k (JCall f n) = False"
| "simple_m68k (JCallr r) = False"
| "simple_m68k (JPush a b) = False"
| "simple_m68k (JPop a b) = False"
| "simple_m68k (JLabel l) = False"
| "simple_m68k j \<longleftrightarrow> branch_m68k j = None"

lemmas one_m68k_defs = jit_movi_m68k_def [abs_def] jit_movr_m68k_def [abs_def] jit_lea_m68k_def [abs_def] jit_ldr_stack_m68k_def [abs_def]
  jit_str_stack_m68k_def [abs_def] jit_inc_stack_m68k_def [abs_def] jit_dec_stack_m68k_def [abs_def] jit_ldrb_m68k_def [abs_def]
  jit_strb_m68k_def [abs_def] jit_addr_m68k_def [abs_def] jit_andr_m68k_def [abs_def] jit_orr_m68k_def [abs_def] jit_subr_m68k_def [abs_def]
  jit_addi_m68k_def [abs_def] jit_notr_m68k_def [abs_def] jit_xorr_m68k_def [abs_def] jit_shrr_m68k_def [abs_def] jit_shlr_m68k_def [abs_def]
  jit_mulr_m68k_def [abs_def] jit_divr_m68k_def [abs_def] jit_cmpi_m68k_def [abs_def] jit_cmpr_m68k_def [abs_def] jit_ret_m68k_def [abs_def]
  jit_nothing_m68k_def

lemma m68k_simple:
  "m68k_ok j \<Longrightarrow> simple_m68k j \<Longrightarrow> writes_insns decode_m68k msize (emit_m68k addr fn j) (insns_m68k addr fn j)"
  by (cases j; simp add: one_m68k_defs put_none; (rule put_one; simp)?)

text \<open>Operations of several instructions.\<close>

lemma m68k_parts:
  "r < 8 \<Longrightarrow> d < 8 \<Longrightarrow> writes_insns decode_m68k msize (jit_movr_m68k d r) [Mmove (of_nat d) (of_nat r)]"
  "writes_insns decode_m68k msize (put_bytes [0x6a, 0, 0, 4]) [Mbcc MPL 4]" "writes_insns decode_m68k msize (put_bytes [0x67, 0, 0, 4]) [Mbcc MEQ 4]"
  "writes_insns decode_m68k msize (put_bytes [0x66, 0, 0, 4]) [Mbcc MNE 4]"
proof -
  have four: "imm16_m68k 4 = [0, 4]" by (simp add: imm16_m68k_def Let_def)
  show "r < 8 \<Longrightarrow> d < 8 \<Longrightarrow> writes_insns decode_m68k msize (jit_movr_m68k d r) [Mmove (of_nat d) (of_nat r)]"
    by (simp add: jit_movr_m68k_def [abs_def], rule put_one) simp_all
  show "writes_insns decode_m68k msize (put_bytes [0x6a, 0, 0, 4]) [Mbcc MPL 4]" "writes_insns decode_m68k msize (put_bytes [0x67, 0, 0, 4]) [Mbcc MEQ 4]"
    "writes_insns decode_m68k msize (put_bytes [0x66, 0, 0, 4]) [Mbcc MNE 4]"
    using decode_m68k_branch [of 4] by (intro put_one; simp add: four)+
qed

lemma m68k_moves:
  assumes "d < 8" "r < 8"
  shows "writes_insns decode_m68k msize (jit_movneg_m68k d r) [Mbcc MPL 4, Mmove (of_nat d) (of_nat r)]"
    "writes_insns decode_m68k msize (jit_movne_m68k d r) [Mbcc MEQ 4, Mmove (of_nat d) (of_nat r)]"
    "writes_insns decode_m68k msize (jit_moveq_m68k d r) [Mbcc MNE 4, Mmove (of_nat d) (of_nat r)]"
  using put_bind [OF m68k_parts(2) m68k_parts(1) [of r d]] put_bind [OF m68k_parts(3) m68k_parts(1) [of r d]]
    put_bind [OF m68k_parts(4) m68k_parts(1) [of r d]] assms
  by (simp_all add: jit_movneg_m68k_def [abs_def] jit_movne_m68k_def [abs_def] jit_moveq_m68k_def [abs_def])

lemma put_append:
  "writes_insns decode sz (put_bytes a) is \<Longrightarrow> writes_insns decode sz (put_bytes b) js \<Longrightarrow> writes_insns decode sz (put_bytes (a @ b)) (is @ js)"
  using put_bind [of decode sz "put_bytes a" "is" "put_bytes b" js] by (simp add: put_bytes_append [abs_def])

lemma m68k_ldr: "r < 8 \<Longrightarrow> writes_insns decode_m68k msize (jit_ldr_m68k r) [Mmovea (of_nat r), Mload (of_nat r)]"
proof -
  assume "r < 8"
  then have "writes_insns decode_m68k msize (put_bytes [0x20, 0x40 OR of_nat r]) [Mmovea (of_nat r)]"
    "writes_insns decode_m68k msize (put_bytes [0x20 OR of_nat r * 2, 0x10]) [Mload (of_nat r)]"
    by (auto intro!: put_one)
  from put_append [OF this] \<open>r < 8\<close> show ?thesis by (simp add: jit_ldr_m68k_def [abs_def])
qed

lemma m68k_callr: "writes_insns decode_m68k msize (jit_callr_m68k 0) [Mmovea 0, Mjsr]"
proof -
  have "writes_insns decode_m68k msize (put_bytes [0x20, 0x40]) [Mmovea 0]" using decode_m68k_move(6) [of 0] by (intro put_one) auto
  moreover have "writes_insns decode_m68k msize (put_bytes [0x4e, 0x90]) [Mjsr]" by (intro put_one) simp_all
  ultimately show ?thesis using put_append by (fastforce simp: jit_callr_m68k_def [abs_def])
qed

lemma m68k_pushes: "\<forall>i\<in>set is. i < 8 \<Longrightarrow> writes_insns decode_m68k msize (put_bytes (concat (map (\<lambda>i. [0x2f, i]) is))) (map Mpush is)"
proof (induction "is")
  case (Cons i "is")
  then have "writes_insns decode_m68k msize (put_bytes [0x2f, i]) [Mpush i]" by (intro put_one) simp_all
  from put_append [OF this Cons.IH] Cons.prems show ?case by simp
qed (simp add: put_none)

lemma m68k_pops: "\<forall>i\<in>set is. i < 8 \<Longrightarrow> writes_insns decode_m68k msize (put_bytes (concat (map (\<lambda>i. [0x20 OR i * 2, 0x1f]) is))) (map Mpop is)"
proof (induction "is")
  case (Cons i "is")
  then have "writes_insns decode_m68k msize (put_bytes [0x20 OR i * 2, 0x1f]) [Mpop i]" by (intro put_one) simp_all
  from put_append [OF this Cons.IH] Cons.prems show ?case by simp
qed (simp add: put_none)

lemma put_regs_m68k_eq: "\<forall>r\<in>set rs. r < 8 \<Longrightarrow> put_regs_m68k f rs = put_bytes (concat (map (\<lambda>r. f (of_nat r)) rs))"
proof (induction rs)
  case (Cons r rs)
  then have "put_regs_m68k f rs = put_bytes (concat (map (\<lambda>r. f (of_nat r)) rs))" by simp
  then show ?case using Cons.prems by (intro ext) (simp add: put_bytes_append)
qed (simp add: fun_eq_iff)

lemma m68k_stack_regs:
  assumes "b < 8"
  shows "writes_insns decode_m68k msize (jit_push_m68k a b) (map (Mpush \<circ> of_nat) [a..<Suc b])"
    "writes_insns decode_m68k msize (jit_pop_m68k a b) (map (Mpop \<circ> of_nat) (rev [a..<Suc b]))"
  using assms m68k_pushes [of "map of_nat [a..<Suc b]"] m68k_pops [of "map of_nat (rev [a..<Suc b])"]
  by (simp_all add: jit_push_m68k_def jit_pop_m68k_def put_regs_m68k_eq comp_def del: upt_Suc)

lemma m68k_call:
  "writes_insns decode_m68k msize (jit_call_m68k f) (call_m68k [0] f)" "writes_insns decode_m68k msize (jit_call2_m68k f) (call_m68k [1, 0] f)"
  "writes_insns decode_m68k msize (jit_call3_m68k f) (call_m68k [2, 1, 0] f)"
proof -
  have pc: "writes_insns decode_m68k msize (put_bytes ([0x20, 0x7c] @ imm32_m68k f)) [Mmovea_imm f]"
    "writes_insns decode_m68k msize (put_bytes [0x4e, 0x90]) [Mjsr]" "writes_insns decode_m68k msize (put_bytes [0x58, 0x8f]) [Maddq_stack 4]"
    "writes_insns decode_m68k msize (put_bytes [0x50, 0x8f]) [Maddq_stack 8]"
    using decode_m68k_move(7) by (intro put_one; simp)+
  note body = put_append [OF put_append [OF pc(1,2)]]
  show "writes_insns decode_m68k msize (jit_call_m68k f) (call_m68k [0] f)" "writes_insns decode_m68k msize (jit_call2_m68k f) (call_m68k [1, 0] f)"
    "writes_insns decode_m68k msize (jit_call3_m68k f) (call_m68k [2, 1, 0] f)"
    using put_append [OF m68k_pushes [of "[0]"] body [OF pc(3)]] put_append [OF m68k_pushes [of "[1, 0]"] body [OF pc(4)]]
      put_append [OF m68k_pushes [of "[2, 1, 0]"] body [OF put_append [OF pc(4,3)]]]
    by (simp_all add: jit_call_m68k_def [abs_def] jit_call2_m68k_def [abs_def] jit_call3_m68k_def [abs_def] call_m68k_def)
qed

lemma m68k_mod:
  assumes "d < 8" "r < 8"
  shows "writes_insns decode_m68k msize (jit_modr_m68k f d r)
    ([Mmove 0 (of_nat d), Mmove 1 (of_nat r)] @ call_m68k [1, 0] f @ (if d \<noteq> 0 then [Mmove (of_nat d) 0] else []))"
proof -
  have "writes_insns decode_m68k msize (\<lambda>s. if d \<noteq> 0 then jit_movr_m68k d 0 s else Some s) (if d \<noteq> 0 then [Mmove (of_nat d) 0] else [])"
    using m68k_parts(1) [of 0 d] assms put_none by (cases "d = 0") simp_all
  from put_bind [OF m68k_parts(1) [of d 0] put_bind [OF m68k_parts(1) [of r 1] put_bind [OF m68k_call(2) this]]] assms
  show ?thesis by (simp add: jit_modr_m68k_def [abs_def])
qed

lemma emit_m68k_writes:
  assumes "m68k_ok j" "branch_m68k j = None" "\<And>l. j \<noteq> JLabel l"
  shows "writes_insns decode_m68k msize (emit_m68k addr fn j) (insns_m68k addr fn j)"
proof (cases "simple_m68k j")
  case False
  then show ?thesis using assms
    by (cases j) (auto simp: m68k_moves m68k_ldr m68k_callr m68k_mod [simplified] m68k_call m68k_stack_regs simp del: upt_Suc)
qed (use assms m68k_simple in blast)

section \<open>Programs\<close>

interpretation m68k_branches: branch_fixups 2 imm16_m68k jit_emit_branch_m68k jit_label_m68k
proof
  show "jit_label_m68k l s = Some (s\<lparr>g_labels := g_labels s @ [(l, g_idx s)],
      g_unres := fst (resolve_slots (\<lambda>i. imm16_m68k (int (g_idx s) - int i)) l (g_unres s) (g_code s)),
      g_code := snd (resolve_slots (\<lambda>i. imm16_m68k (int (g_idx s) - int i)) l (g_unres s) (g_code s))\<rparr>)"
    if "length (g_labels s) < MAX_LABELS" for l s
    using that by (simp add: jit_label_m68k_def case_prod_unfold Let_def)
  show "jit_emit_branch_m68k l s = put_bytes (imm16_m68k (int t - int (g_idx s))) s"
    if "map_of (g_labels s) l = Some t" "t < g_idx s" for l s t
  proof -
    have "(0x10000 :: 16 word) = 0" by simp
    then have "imm16_m68k (0x10000 - k) = imm16_m68k (- k)" for k
      unfolding imm16_m68k_def of_int_diff of_int_numeral by (simp only: diff_0 of_int_minus)
    from this [of "int (g_idx s) - int t"] show ?thesis using that
      by (simp add: jit_emit_branch_m68k_def find_label_m68k_def find_map_of)
  qed
qed (simp_all add: jit_emit_branch_m68k_def find_label_m68k_def find_map_of imm16_m68k_def Let_def numeral_eq_Suc)

interpretation m68k: assembler 2 imm16_m68k jit_emit_branch_m68k jit_label_m68k decode_m68k msize 0 "emit_m68k addr fn" "insns_m68k addr fn" branch_m68k m68k_ok
  for addr fn
proof
  show "writes_insns decode_m68k msize (emit_m68k addr fn j) (insns_m68k addr fn j)"
    if "m68k_ok j" "branch_m68k j = None" "\<And>l. j \<noteq> JLabel l" for j using that by (rule emit_m68k_writes)
  show "emit_m68k addr fn j s = Option.bind (put_bytes op s) (jit_emit_branch_m68k l) \<and> op \<noteq> []" if "branch_m68k j = Some (op, f, l)" for j op f l s
    using that by (cases j) (auto simp: jit_je_m68k_def jit_jne_m68k_def jit_jneg_m68k_def jit_jmp_m68k_def)
  show "decode_m68k (op @ imm16_m68k k @ ys) = Some (f (k - int 0), ys)"
    if "branch_m68k j = Some (op, f, l)" "- 10000 \<le> k" "k \<le> 10000" for j op f l k ys
    using that by (cases j) auto
  show "length op + 2 \<le> 8" if "branch_m68k j = Some (op, f, l)" for j op f l
    using that by (cases j) auto
qed simp_all

definition size_m68k :: "jit \<Rightarrow> nat" where
  "size_m68k = op_size 2 msize (insns_m68k (\<lambda>_. 0) (\<lambda>_. 0)) branch_m68k"

definition assemble_m68k :: "(val \<Rightarrow> u32) \<Rightarrow> (hostfn \<Rightarrow> u32) \<Rightarrow> jit list \<Rightarrow> m68k_insn list" where
  "assemble_m68k addr fn js = assemble 0 size_m68k (insns_m68k addr fn) branch_m68k (map_of (labels_of size_m68k 0 js)) 0 js"

lemma size_m68k_eq: "op_size 2 msize (insns_m68k addr fn) branch_m68k = size_m68k"
proof
  fix j
  show "op_size 2 msize (insns_m68k addr fn) branch_m68k j = size_m68k j"
    by (cases j) (simp_all add: op_size_def size_m68k_def call_m68k_def)
qed

text \<open>
  C16. The same for m68k: the generator succeeds on every program that fits, and its bytes disassemble to the instructions of the operations with
  all branches resolved to 16-bit displacements.
\<close>

theorem m68k_code_is_assembly:
  assumes "fits size_m68k branch_m68k m68k_ok js"
  shows "\<exists>s. emit_all (emit_m68k addr fn) js gen_init = Some s \<and> g_idx s = sum_list (map size_m68k js) \<and>
    disasm decode_m68k (map (g_code s) [0..<g_idx s]) = Some (assemble_m68k addr fn js)"
  using m68k.code_is_assembly [of addr fn js] assms unfolding size_m68k_eq assemble_m68k_def by blast

definition loop_m68k :: "jit list" where
  "loop_m68k = [JMovi 1 (W 10), JLabel [76], JCmpi 1 0, JJe [77], JAddi 1 (- 1), JJmp [76], JLabel [77], JRet]"

theorem m68k_code_is_assembly_witness:
  "\<exists>s. emit_all (emit_m68k (\<lambda>_. 10) (\<lambda>_. 0)) loop_m68k gen_init = Some s \<and> g_idx s = 28 \<and>
    disasm decode_m68k (map (g_code s) [0..<g_idx s]) =
      Some [Mmove_imm 1 10, Mcmpi 1 0, Mbcc MEQ 12, Maddi 1 (- 1), Mbcc MT (- 18), Mrts]"
proof -
  have "fits size_m68k branch_m68k m68k_ok loop_m68k"
    by (simp add: fits_def loop_m68k_def size_m68k_def op_size_def codesz_def MAX_LABELS_def map_filter_simps)
  from m68k_code_is_assembly [OF this, of "\<lambda>_. 10" "\<lambda>_. 0"] show ?thesis
    by (simp add: loop_m68k_def assemble_m68k_def size_m68k_def op_size_def)
qed

end
