(* ===== verification/HostFs.thy ===== *)
theory HostFs
  imports FileStream Frames
begin

text \<open>
  The filesystems that the program mounts for the files of the host and for the screen and keyboard:
  \<^verbatim>\<open>src/devices/posixfs.c\<close>, \<^verbatim>\<open>src/devices/fbfs.c\<close>,
  \<^verbatim>\<open>src/devices/linux/dev_linuxfb.c\<close> and \<^verbatim>\<open>src/devices/linux/dev_consolekeys.c\<close>. What the operating system and
  the devices answer are parameters. The addresses of the handlers are parameters too; \<open>posix_call\<close> is the call through such an
  address. The theorem puts the handlers of posixfs.c under the operations of stream.c.
\<close>

section \<open>Files of a POSIX host\<close>

text \<open>
  \<open>h_stat\<close> gives the size of a file, \<open>h_dir\<close> the names \<open>readdir\<close> returns when the path is a directory, \<open>h_file\<close> the bytes of a file that can be
  opened.
\<close>

record posix_host =
  h_stat :: "cstr \<Rightarrow> u64 option"
  h_dir :: "cstr \<Rightarrow> cstr list option"
  h_file :: "cstr \<Rightarrow> byte list option"

text \<open>The loop over \<open>readdir\<close>: each name and a newline are appended to the string in \<open>_file_cell\<close>.\<close>

fun posixfs_list :: "val \<Rightarrow> cstr list \<Rightarrow> mem \<Rightarrow> mem option" where
  "posixfs_list nl [] m = Some m"
| "posixfs_list nl (d_name # ds) m =
     do {
       (n, m) \<leftarrow> alloc_string_copy d_name m;
       (l, m) \<leftarrow> alloc_concat n nl m;
       (f, m) \<leftarrow> alloc_concat (file_cell m) l m;
       posixfs_list nl ds (m\<lparr>file_cell := f\<rparr>)
     }"

definition posixfs_string :: "string \<Rightarrow> mem \<Rightarrow> (val \<times> mem) option" where
  "posixfs_string msg m = do { (f, m) \<leftarrow> alloc_string_copy (bs msg) m; Some (f, m\<lparr>file_cell := f\<rparr>) }"

definition posixfs_open :: "posix_host \<Rightarrow> val \<Rightarrow> mem \<Rightarrow> (val \<times> mem) option" where
  "posixfs_open h cpath m =
     do {
       (nil, m) \<leftarrow> alloc_nil m;
       let m = m\<lparr>file_cell := nil\<rparr>;
       bad \<leftarrow> not_string m cpath;
       if bad then Some (nil, m)
       else do {
         c \<leftarrow> get_cell m cpath;
         path \<leftarrow> read_cstr m (c_ar c);
         if take 4 path = bs ''/sd/'' then do {
           let filename = (if length path > 4 then drop 4 path else bs ''.'');
           (case h_stat h filename of
              None \<Rightarrow> posixfs_string ''<file not found>'' m
            | Some len \<Rightarrow>
                (case h_dir h filename of
                   Some names \<Rightarrow>
                     do {
                       (nl, m) \<leftarrow> alloc_string_copy [10] m;
                       (f, m) \<leftarrow> alloc_string_copy [] m;
                       m \<leftarrow> posixfs_list nl names (m\<lparr>file_cell := f\<rparr>);
                       Some (file_cell m, m)
                     }
                 | None \<Rightarrow>
                     (case h_file h filename of
                        Some content \<Rightarrow>
                          do {
                            (res, m) \<leftarrow> alloc_num_bytes (ucast len) m;
                            c \<leftarrow> get_cell m res;
                            m \<leftarrow> write_bytes (c_ar c) (take (unat len) content) m;
                            Some (res, m\<lparr>file_cell := res\<rparr>)
                          }
                      | None \<Rightarrow> posixfs_string ''<error: couldn't open file.>'' m)))
         }
         else Some (file_cell m, m)
       }
     }"

definition posixfs_read :: "val \<Rightarrow> mem \<Rightarrow> (val \<times> mem) option" where
  "posixfs_read stream m = Some (file_cell m, m)"

definition posixfs_write :: "val \<Rightarrow> mem \<Rightarrow> (val \<times> mem) option" where
  "posixfs_write arg m = Some (NULL, m)"

definition posixfs_mmap :: "val \<Rightarrow> mem \<Rightarrow> (val \<times> mem) option" where
  "posixfs_mmap arg m = alloc_nil m"

definition mount_posixfs :: "val \<Rightarrow> val \<Rightarrow> val \<Rightarrow> val \<Rightarrow> mem \<Rightarrow> mem option" where
  "mount_posixfs fo fr fw fm m = fs_mount_builtin (bs ''/sd'') fo fr fw NULL fm m"

definition posix_call :: "posix_host \<Rightarrow> val \<Rightarrow> val \<Rightarrow> val \<Rightarrow> val \<Rightarrow> val \<Rightarrow> val \<Rightarrow> val \<Rightarrow> mem \<Rightarrow> (val \<times> mem) option" where
  "posix_call h fo fr fw fm f a1 a2 m =
     (if f = fo then posixfs_open h a1 m else if f = fr then posixfs_read a1 m
      else if f = fw then posixfs_write a1 m else if f = fm then posixfs_mmap a1 m else None)"

section \<open>Screen and keyboard\<close>

definition WIDTH :: u32 where "WIDTH = 1920"
definition HEIGHT :: u32 where "HEIGHT = 1080"
definition BPP :: u32 where "BPP = 2"

definition fbfs_open :: "mem \<Rightarrow> (val \<times> mem) option" where
  "fbfs_open m = alloc_int 1 m"

definition fbfs_read :: "mem \<Rightarrow> (val \<times> mem) option" where
  "fbfs_read m = alloc_int 0 m"

definition fbfs_delete :: "mem \<Rightarrow> (val \<times> mem) option" where
  "fbfs_delete m = alloc_int 0 m"

definition fbfs_write :: "val \<Rightarrow> mem \<Rightarrow> (val \<times> mem) option" where
  "fbfs_write arg m = Some (NULL, m)"

text \<open>The cell that stands for the memory of the screen at \<open>a\<close>.\<close>

definition screen_cell :: "val \<Rightarrow> mem \<Rightarrow> (val \<times> mem) option" where
  "screen_cell a m =
     do {
       (buffer_cell, m) \<leftarrow> alloc_int 0 m;
       m \<leftarrow> upd_cell buffer_cell (\<lambda>c. c\<lparr>c_ar := a, c_dr := W (ucast (WIDTH * HEIGHT * BPP)), c_tag := TAG_BYTES\<rparr>) m;
       Some (buffer_cell, m)
     }"

definition fbfs_mmap :: "val \<Rightarrow> mem \<Rightarrow> (val \<times> mem) option" where
  "fbfs_mmap fb m = (if fb \<noteq> NULL then screen_cell fb m else alloc_nil m)"

text \<open>One of the global variables that \<open>mount_fbfs\<close> defines.\<close>

definition define_int :: "string \<Rightarrow> u32 \<Rightarrow> comp \<Rightarrow> comp option" where
  "define_int name i s =
     do {
       (sym, m) \<leftarrow> alloc_sym (Some (bs name)) (c_mem s);
       (n, m) \<leftarrow> alloc_int i m;
       (_, s) \<leftarrow> insert_global_symbol sym n (s\<lparr>c_mem := m\<rparr>);
       Some s
     }"

definition mount_fbfs :: "val \<Rightarrow> val \<Rightarrow> val \<Rightarrow> val \<Rightarrow> val \<Rightarrow> comp \<Rightarrow> comp option" where
  "mount_fbfs fo fr fw fd fm s =
     do {
       m \<leftarrow> fs_mount_builtin (bs ''/framebuffer'') fo fr fw fd fm (c_mem s);
       s \<leftarrow> define_int ''screen-width'' WIDTH (s\<lparr>c_mem := m\<rparr>);
       s \<leftarrow> define_int ''screen-height'' HEIGHT s;
       define_int ''screen-bpp'' BPP s
     }"

text \<open>The Linux framebuffer: \<open>fb\<close> is what \<open>mmap\<close> returns when \<open>/dev/fb0\<close> could be opened.\<close>

definition linux_fbfs_open :: "mem \<Rightarrow> (val \<times> mem) option" where
  "linux_fbfs_open m = alloc_int 1 m"

definition linux_fbfs_read :: "mem \<Rightarrow> (val \<times> mem) option" where
  "linux_fbfs_read m = alloc_int 0 m"

definition linux_fbfs_write :: "val \<Rightarrow> mem \<Rightarrow> (val \<times> mem) option" where
  "linux_fbfs_write arg m = Some (NULL, m)"

definition linux_fbfs_mmap :: "val option \<Rightarrow> mem \<Rightarrow> (val \<times> mem) option" where
  "linux_fbfs_mmap fb m = (case fb of Some a \<Rightarrow> screen_cell a m | None \<Rightarrow> alloc_nil m)"

definition mount_linux_fbfs :: "val \<Rightarrow> val \<Rightarrow> val \<Rightarrow> val \<Rightarrow> mem \<Rightarrow> mem option" where
  "mount_linux_fbfs fo fr fw fm m = fs_mount_builtin (bs ''/framebuffer'') fo fr fw NULL fm m"

text \<open>The keyboard of the terminal: \<open>c\<close> is what \<open>fgetc\<close> returns, the byte in the result of a write goes to \<open>stdout\<close>.\<close>

definition consolefs_open :: "mem \<Rightarrow> (val \<times> mem) option" where
  "consolefs_open m = alloc_int 1 m"

definition consolefs_read :: "u32 \<Rightarrow> mem \<Rightarrow> (val \<times> mem) option" where
  "consolefs_read c m =
     do {
       let c = (if c = 13 then 10 else c);
       (str, m) \<leftarrow> alloc_string_copy (bs '' '') m;
       x \<leftarrow> get_cell m str;
       m \<leftarrow> write_bytes (c_ar x) [ucast c] m;
       Some (str, m)
     }"

definition consolefs_write :: "val \<Rightarrow> val \<Rightarrow> mem \<Rightarrow> (val \<times> byte) option" where
  "consolefs_write a1 arg m = do { c \<leftarrow> get_cell m arg; v \<leftarrow> as_word (c_ar c); Some (arg, ucast v) }"

definition mount_consolekeys :: "val \<Rightarrow> val \<Rightarrow> val \<Rightarrow> mem \<Rightarrow> mem option" where
  "mount_consolekeys fo fr fw m = fs_mount_builtin (bs ''/keyboard'') fo fr fw NULL NULL m"

section \<open>Reading files through streams\<close>

text \<open>A cell of bytes that holds \<open>ds\<close>.\<close>

definition bytes_at :: "mem \<Rightarrow> val \<Rightarrow> byte list \<Rightarrow> bool" where
  "bytes_at m p ds \<longleftrightarrow> p \<in> live m \<and>
     (\<exists>a. get_cell m p = Some \<lparr>c_ar = a, c_dr = W (of_nat (length ds)), c_tag = TAG_BYTES\<rparr> \<and> read_bytes m a (length ds) = Some ds)"

lemma file_cell_irrelevant [simp]:
  "block_at (m\<lparr>file_cell := q\<rparr>) a = block_at m a" "as_stream (m\<lparr>file_cell := q\<rparr>) a = as_stream m a" "as_fs (m\<lparr>file_cell := q\<rparr>) a = as_fs m a"
  "read_cstr (m\<lparr>file_cell := q\<rparr>) a = read_cstr m a" "not_string (m\<lparr>file_cell := q\<rparr>) a = not_string m a"
  "read_bytes (m\<lparr>file_cell := q\<rparr>) a n = read_bytes m a n"
proof -
  show b: "block_at (m\<lparr>file_cell := q\<rparr>) a = block_at m a" by (cases "(m, a)" rule: block_at.cases) simp_all
  show "as_stream (m\<lparr>file_cell := q\<rparr>) a = as_stream m a" by (cases "(m, a)" rule: as_stream.cases) simp_all
  show "as_fs (m\<lparr>file_cell := q\<rparr>) a = as_fs m a" by (cases "(m, a)" rule: as_fs.cases) simp_all
  show "read_cstr (m\<lparr>file_cell := q\<rparr>) a = read_cstr m a" "not_string (m\<lparr>file_cell := q\<rparr>) a = not_string m a"
    "read_bytes (m\<lparr>file_cell := q\<rparr>) a n = read_bytes m a n" by (simp_all add: b read_cstr_def not_string_def read_bytes_def)
qed

text \<open>A new byte cell whose first bytes are then written.\<close>

lemma fill_bytes:
  assumes "alloc_inv m" "0 < cells_left m" "length ds + k + 1 < 2 ^ 31"
  shows "\<exists>res m1 m2. alloc_num_bytes (of_nat (length ds + k)) m = Some (res, m1)
    \<and> get_cell m1 res = Some \<lparr>c_ar = bytesp (length (blocks m)), c_dr = W (of_nat (length ds + k)), c_tag = TAG_BYTES\<rparr>
    \<and> write_bytes (bytesp (length (blocks m))) ds m1 = Some m2
    \<and> fresh_bytes m res \<lparr>c_ar = bytesp (length (blocks m)), c_dr = W (of_nat (length ds + k)), c_tag = TAG_BYTES\<rparr> (ds @ replicate (k + 1) 0) m2"
proof -
  let ?n = "length ds + k" let ?k = "of_nat ?n :: u32" let ?b = "bytesp (length (blocks m))"
  let ?c = "\<lparr>c_ar = ?b, c_dr = W (of_nat ?n), c_tag = TAG_BYTES\<rparr>"
  have len: "?n < 2 ^ 32" using assms(3) by simp
  then have k: "unat ?k = ?n" by (simp add: unat_of_nat del: of_nat_add)
  then have k1: "unat (?k + 1) = ?n + 1" using assms(3) by (simp add: unat_word_ariths del: of_nat_add)
  have kw: "ucast ?k = (of_nat ?n :: u64)" using len by (simp add: unsigned_of_nat take_bit_nat_eq_self del: of_nat_add)
  obtain res m1 where r: "alloc_num_bytes ?k m = Some (res, m1)" "fresh_bytes m res ?c (replicate (?n + 1) 0) m1"
    using alloc_num_bytes_ok(1) [OF assms(1,2), of ?k] assms(3) unfolding k1 kw by blast
  define m2 where "m2 = m1\<lparr>blocks := blocks m @ [ds @ replicate (k + 1) 0]\<rparr>"
  have "write_bytes ?b ds m1 = Some m2" using r(2) by (simp add: fresh_bytes_def overlay_def m2_def del: replicate_Suc)
  moreover have "fresh_bytes m res ?c (ds @ replicate (k + 1) 0) m2" using r(2) by (simp add: fresh_bytes_def m2_def)
  moreover have "get_cell m1 res = Some ?c" using r(2) by (simp add: fresh_bytes_def fresh_cell_def)
  ultimately show ?thesis using r(1) by blast
qed

lemma fresh_bytes_at:
  "fresh_bytes m p \<lparr>c_ar = bytesp (length (blocks m)), c_dr = W (of_nat (length ds + k)), c_tag = TAG_BYTES\<rparr> (ds @ replicate (k + 1) 0) m' \<Longrightarrow>
    bytes_at m' p (ds @ replicate k 0)"
  by (auto simp: fresh_bytes_def fresh_cell_def bytes_at_def read_bytes_def simp del: replicate_Suc)

lemma posixfs_open_file:
  assumes "alloc_inv m" "2 \<le> cells_left m" "text_at m p TAG_STR w (bs ''/sd/'' @ name)" "name \<noteq> []"
    "h_stat h name = Some (of_nat (length ds))" "h_dir h name = None" "h_file h name = Some ds" "length ds + 1 < 2 ^ 31"
  shows "\<exists>res m'. posixfs_open h p m = Some (res, m') \<and> file_cell m' = res \<and> bytes_at m' res ds \<and> res \<notin> live m \<and> mem_grows m m' \<and> alloc_inv m'
    \<and> streams m' = streams m \<and> fss m' = fss m"
proof -
  obtain n m1 where n: "alloc_nil m = Some (n, m1)" "fresh_cell m n \<lparr>c_ar = NULL, c_dr = NULL, c_tag = TAG_CONS\<rparr> m1"
    using alloc_nil_ok [OF assms(1)] assms(2) by fastforce
  define m2 where "m2 = m1\<lparr>file_cell := n\<rparr>"
  have m2: "alloc_inv m2" "0 < cells_left m2" "mem_grows m m2" "streams m2 = streams m" "fss m2 = fss m" "live m \<subseteq> live m2"
    using n(2) assms(2) fresh_cell_ext [OF n(2)] by (auto simp: m2_def fresh_cell_def same_rest_def mem_grows_def)
  obtain c where c: "get_cell m2 p = Some c" "c_tag c = TAG_STR" "read_cstr m2 (c_ar c) = Some (bs ''/sd/'' @ name)" "p \<noteq> NULL"
    using read_cstr_text [OF text_at_ext [OF m2(3) assms(3)]] by auto
  have str: "not_string m2 p = Some False" using c by (simp add: not_string_def)
  have k: "unat (of_nat (length ds) :: u64) = length ds" "ucast (of_nat (length ds) :: u64) = (of_nat (length ds) :: u32)"
    using assms(8) by (simp_all add: unsigned_of_nat take_bit_nat_eq_self)
  obtain res m3 m4 where r: "alloc_num_bytes (of_nat (length ds)) m2 = Some (res, m3)"
    "get_cell m3 res = Some \<lparr>c_ar = bytesp (length (blocks m2)), c_dr = W (of_nat (length ds)), c_tag = TAG_BYTES\<rparr>"
    "write_bytes (bytesp (length (blocks m2))) ds m3 = Some m4"
    "fresh_bytes m2 res \<lparr>c_ar = bytesp (length (blocks m2)), c_dr = W (of_nat (length ds)), c_tag = TAG_BYTES\<rparr> (ds @ [0]) m4"
    using fill_bytes [OF m2(1,2), of ds 0] assms(8) by auto
  have path: "take 4 (bs ''/sd/'' @ name) = bs ''/sd/''" "drop 4 (bs ''/sd/'' @ name) = name" "4 < length (bs ''/sd/'' @ name)"
    using assms(4) by simp_all
  have "posixfs_open h p m = Some (res, m4\<lparr>file_cell := res\<rparr>)"
    unfolding posixfs_open_def n(1) bind.bind_lunit prod.case Let_def m2_def [symmetric] str if_False c(1,3) path
    using path(3) r(1-3) assms(5-7) k by (simp del: write_bytes.simps)
  moreover have "bytes_at (m4\<lparr>file_cell := res\<rparr>) res ds" using fresh_bytes_at [of m2 res ds 0 m4] r(4) by (simp add: bytes_at_def)
  moreover have "mem_grows m (m4\<lparr>file_cell := res\<rparr>)"
    using mem_grows_trans [OF m2(3) fresh_bytes_ext [OF r(4)]] by (simp add: mem_grows_def)
  moreover have "alloc_inv m4" "streams m4 = streams m" "fss m4 = fss m" "res \<notin> live m"
    using r(4) m2 by (auto simp: fresh_bytes_def fresh_cell_def same_rest_def)
  ultimately show ?thesis by (intro exI [of _ res] exI [of _ "m4\<lparr>file_cell := res\<rparr>"]) simp
qed

text \<open>A stream cell of the filesystem \<open>f\<close>.\<close>

definition stream_at :: "mem \<Rightarrow> val \<Rightarrow> val \<Rightarrow> bool" where
  "stream_at m p f \<longleftrightarrow> p \<in> live m \<and> (\<exists>i d. get_cell m p = Some \<lparr>c_ar = P (OStream i) 0, c_dr = d, c_tag = TAG_STREAM\<rparr> \<and>
     i < length (streams m) \<and> s_fs (streams m ! i) = f)"

lemma stream_at_grows: "mem_grows m m' \<Longrightarrow> prefix (streams m) (streams m') \<Longrightarrow> stream_at m p f \<Longrightarrow> stream_at m' p f"
  by (fastforce simp: stream_at_def mem_grows_def nth_append elim!: prefixE)

lemma stream_read_handler:
  assumes "stream_at m p f" "as_fs m f = Some fs" "handler_at m (read_fn fs) h"
  shows "stream_read call2 p m = call2 h p NULL m"
  using assms by (auto simp: stream_at_def handler_at_def stream_read_def not_stream_def)

text \<open>
  C17. When posixfs is the filesystem that serves a path \<open>/sd/name\<close> and the host has a regular file \<open>name\<close> with the bytes \<open>ds\<close>, opening the path
  gives a stream, and reading the stream returns a new byte cell with exactly these bytes. The handlers keep one cell for all streams: every stream
  of the filesystem that was opened before now returns the same cell, not its own file.
\<close>

theorem posixfs_reads_last_opened:
  assumes "alloc_inv m" "3 \<le> cells_left m" "mounts_at m (fs_list m) ms" "text_at m p TAG_STR w (bs ''/sd/'' @ name)" "name \<noteq> []" "length ms < fuel"
    and "find (\<lambda>(mp, f). prefix mp (bs ''/sd/'' @ name)) ms = Some (bs ''/sd'', f)" "as_fs m f = Some fs"
      "handler_at m (open_fn fs) fo" "handler_at m (read_fn fs) fr" "fo \<noteq> NULL" "fr \<noteq> fo"
    and "h_stat h name = Some (of_nat (length ds))" "h_dir h name = None" "h_file h name = Some ds" "length ds + 1 < 2 ^ 31"
  shows "\<exists>sc m' res. fs_open (posix_call h fo fr fw fm) fuel p m = Some (sc, m') \<and> stream_at m' sc f \<and> bytes_at m' res ds \<and> res \<notin> live m
    \<and> (\<forall>x. x = sc \<or> stream_at m x f \<longrightarrow> stream_read (posix_call h fo fr fw fm) x m' = Some (res, m'))"
proof -
  let ?call = "posix_call h fo fr fw fm"
  have c: "0 < cells_left m" using assms(2) by simp
  obtain sc m1 d where s: "fs_open ?call fuel p m = map_option (\<lambda>(r, m2). (sc, m2)) (posixfs_open h p m1)"
    "get_cell m1 sc = Some \<lparr>c_ar = P (OStream (length (streams m))) 0, c_dr = d, c_tag = TAG_STREAM\<rparr>"
    "streams m1 = streams m @ [\<lparr>s_id = stream_id m, s_path = p, s_fs = f\<rparr>]" "alloc_inv m1" "mem_grows m m1" "fss m1 = fss m"
    "cells_left m1 = cells_left m - 1" "sc \<in> live m1"
    using fs_open_matched [OF assms(1) c assms(3,4,6,7,8,9), of ?call] assms(11) by (auto simp: posix_call_def)
  have c1: "2 \<le> cells_left m1" using s(7) assms(2) by simp
  obtain res m2 where r: "posixfs_open h p m1 = Some (res, m2)" "file_cell m2 = res" "bytes_at m2 res ds" "res \<notin> live m1" "mem_grows m1 m2"
    "streams m2 = streams m1" "fss m2 = fss m1"
    using posixfs_open_file [OF s(4) c1 text_at_ext [OF s(5) assms(4)] assms(5,13-16)] by blast
  have g: "mem_grows m m2" using mem_grows_trans [OF s(5) r(5)] .
  have "stream_at m1 sc f" using s(2,3,8) by (simp add: stream_at_def)
  then have sc: "stream_at m2 sc f" using stream_at_grows [OF r(5)] r(6) by simp
  have old: "stream_at m2 x f" if "stream_at m x f" for x using stream_at_grows [OF g _ that] r(6) s(3) by simp
  have "as_fs m2 f = Some fs" using as_fs_mono [OF _ assms(8)] r(7) s(6) by simp
  then have "stream_read ?call x m2 = Some (res, m2)" if "stream_at m2 x f" for x
    using stream_read_handler [OF that _ handler_at_grows [OF g assms(10)]] r(2) assms(12) by (simp add: posix_call_def posixfs_read_def)
  then show ?thesis using s(1,5) r(1,3,4) sc old by (intro exI [of _ sc] exI [of _ m2] exI [of _ res]) (auto simp: mem_grows_def)
qed

section \<open>Witnesses\<close>

text \<open>A host with the file \<open>a\<close>, which holds \<open>hi\<close>.\<close>

definition sample_posix :: posix_host where
  "sample_posix = \<lparr>h_stat = (\<lambda>n. if n = bs ''a'' then Some 2 else None), h_dir = (\<lambda>_. None),
     h_file = (\<lambda>n. if n = bs ''a'' then Some (bs ''hi'') else None)\<rparr>"

text \<open>A memory with a string for the path \<open>/sd/a\<close> and a filesystem mounted at \<open>/sd\<close>.\<close>

lemma mounted_sample:
  "\<exists>p m0 m1 f fs w. alloc_string_copy (bs ''/sd/a'') mount_sample = Some (p, m0) \<and> mount_posixfs (W 1) (W 2) (W 3) (W 4) m0 = Some m1
    \<and> alloc_inv m1 \<and> 90000 \<le> cells_left m1 \<and> mounts_at m1 (fs_list m1) [(bs ''/sd'', f)] \<and> as_fs m1 f = Some fs
    \<and> handler_at m1 (open_fn fs) (W 1) \<and> handler_at m1 (read_fn fs) (W 2) \<and> text_at m1 p TAG_STR w (bs ''/sd/'' @ bs ''a'')"
proof -
  note ms = mount_sample_facts
  have "0 < cells_left mount_sample" "length (bs ''/sd/a'') + 1 < 2 ^ 31" using ms(2) by simp_all
  from alloc_string_copy_ok [OF ms(1) this] obtain p m0 where p: "alloc_string_copy (bs ''/sd/a'') mount_sample = Some (p, m0)"
    "fresh_bytes mount_sample p \<lparr>c_ar = bytesp (length (blocks mount_sample)), c_dr = W (of_nat (length (bs ''/sd/a'')) + 1), c_tag = TAG_STR\<rparr>
      (bs ''/sd/a'' @ [0]) m0" by blast
  have t0: "text_at m0 p TAG_STR (of_nat (length (bs ''/sd/a'')) + 1) (bs ''/sd/a'')"
    by (rule fresh_bytes_text [OF p(2)]) simp_all
  have g0: "mem_grows mount_sample m0" "alloc_inv m0" "cells_left m0 = 99996" "fss m0 = fss mount_sample" "fs_list m0 = fs_list mount_sample"
    using p(2) ms(2) fresh_bytes_ext [OF p(2)] by (auto simp: fresh_bytes_def fresh_cell_def same_rest_def)
  have mt: "mounts_at m0 (fs_list m0) []" using mounts_at_grows [OF g0(1) _ ms(4)] g0(4,5) by simp
  have "19 \<le> cells_left m0" "0 \<notin> set (bs ''/sd'')" "length (bs ''/sd'') + 2 < 2 ^ 31" using g0(3) by simp_all
  from fs_mount_builtin_ok [OF g0(2) this(1) mt this(2,3), of "W 1" "W 2" "W 3" NULL "W 4"]
  obtain m1 f fs where m1: "mount_posixfs (W 1) (W 2) (W 3) (W 4) m0 = Some m1" "alloc_inv m1" "mem_grows m0 m1" "cells_left m1 = cells_left m0 - 19"
    "mounts_at m1 (fs_list m1) [(bs ''/sd'', f)]" "as_fs m1 f = Some fs" "handler_at m1 (open_fn fs) (W 1)" "handler_at m1 (read_fn fs) (W 2)"
    unfolding mount_posixfs_def by blast
  have "90000 \<le> cells_left m1" using m1(4) g0(3) by simp
  moreover have "text_at m1 p TAG_STR (of_nat (length (bs ''/sd/a'')) + 1) (bs ''/sd/'' @ bs ''a'')" using text_at_ext [OF m1(3) t0] by simp
  ultimately show ?thesis using p(1) m1 by blast
qed

theorem posixfs_reads_last_opened_witness:
  "\<exists>p m0 m1 sc m2 res. alloc_string_copy (bs ''/sd/a'') mount_sample = Some (p, m0) \<and> mount_posixfs (W 1) (W 2) (W 3) (W 4) m0 = Some m1
    \<and> fs_open (posix_call sample_posix (W 1) (W 2) (W 3) (W 4)) 9 p m1 = Some (sc, m2)
    \<and> stream_read (posix_call sample_posix (W 1) (W 2) (W 3) (W 4)) sc m2 = Some (res, m2) \<and> bytes_at m2 res (bs ''hi'')"
proof -
  obtain p m0 m1 f fs w where m1: "alloc_string_copy (bs ''/sd/a'') mount_sample = Some (p, m0)" "mount_posixfs (W 1) (W 2) (W 3) (W 4) m0 = Some m1"
    "alloc_inv m1" "90000 \<le> cells_left m1" "mounts_at m1 (fs_list m1) [(bs ''/sd'', f)]" "as_fs m1 f = Some fs"
    "handler_at m1 (open_fn fs) (W 1)" "handler_at m1 (read_fn fs) (W 2)" "text_at m1 p TAG_STR w (bs ''/sd/'' @ bs ''a'')"
    using mounted_sample by blast
  have side: "3 \<le> cells_left m1" "bs ''a'' \<noteq> []" "length [(bs ''/sd'', f)] < 9"
    "find (\<lambda>(mp, f). prefix mp (bs ''/sd/'' @ bs ''a'')) [(bs ''/sd'', f)] = Some (bs ''/sd'', f)" "W 1 \<noteq> NULL" "W 2 \<noteq> W 1"
    "h_stat sample_posix (bs ''a'') = Some (of_nat (length (bs ''hi'')))" "h_dir sample_posix (bs ''a'') = None" "h_file sample_posix (bs ''a'') = Some (bs ''hi'')"
    "length (bs ''hi'') + 1 < 2 ^ 31"
    using m1(4) by (simp_all add: sample_posix_def)
  from posixfs_reads_last_opened [OF m1(3) side(1) m1(5,9) side(2,3,4) m1(6,7,8) side(5-10), of "W 3" "W 4"]
  show ?thesis using m1(1,2) by blast
qed

end
