(* ===== verification/MiniIp.thy ===== *)
theory MiniIp
  imports FileStream
begin

unbundle bit_operations_syntax

text \<open>
  The network stack of \<^verbatim>\<open>src/devices/mini-ip.c\<close> and the filesystem that
  \<^verbatim>\<open>src/devices/rpi2/dev_ethernet.c\<close> mounts for it: ARP, IPv4, UDP and TCP over frames in two fixed buffers. The
  machine is little-endian, so a 16-bit member assigned \<open>swap16 x\<close> holds \<open>x\<close> in network order.
\<close>

section \<open>Constants and state\<close>

definition ETH_TYPE_ARP :: u16 where "ETH_TYPE_ARP = 0x0806"
definition ETH_TYPE_IP :: u16 where "ETH_TYPE_IP = 0x0800"
definition PROTO_IP :: u16 where "PROTO_IP = 0x800"
definition ARP_REQUEST :: u16 where "ARP_REQUEST = 1"
definition ARP_REPLY :: u16 where "ARP_REPLY = 2"
definition PROTO_IP_UDP :: byte where "PROTO_IP_UDP = 0x11"
definition PROTO_IP_TCP :: byte where "PROTO_IP_TCP = 0x6"
definition PROTO_IP_ICMP :: byte where "PROTO_IP_ICMP = 0x1"
definition TCP_ACK :: byte where "TCP_ACK = 16"
definition TCP_PSH :: byte where "TCP_PSH = 8"
definition TCP_RST :: byte where "TCP_RST = 4"
definition TCP_SYN :: byte where "TCP_SYN = 2"
definition TCP_FIN :: byte where "TCP_FIN = 1"

definition PACKET_SIZE :: nat where "PACKET_SIZE = 64 * 1024"

definition my_mac :: "byte list" where "my_mac = [0xde, 0xad, 0xbe, 0xef, 0x02, 0x42]"
definition my_ip :: "byte list" where "my_ip = [192, 168, 1, 242]"

text \<open>
  The global variables. \<open>sent\<close> lists the frames handed to \<open>ethernet_tx\<close>; the Ethernet driver is outside of the model, and a received
  frame is an argument of \<open>eth_task\<close>.
\<close>

record net =
  their_mac :: "byte list"
  their_ip :: "byte list"
  my_seqnum :: u32
  their_seqnum :: u32
  my_tcp_port :: u32
  their_tcp_port :: u32
  tx_packet :: "byte list"
  rx_packet :: "byte list"
  sent :: "byte list list"

definition init_mini_ip :: "byte list \<Rightarrow> byte list \<Rightarrow> net" where
  "init_mini_ip rx tx =
     \<lparr>their_mac = replicate 6 0xff, their_ip = [192, 168, 1, 1], my_seqnum = 23, their_seqnum = 0, my_tcp_port = 5000,
      their_tcp_port = 8000, tx_packet = tx, rx_packet = rx, sent = []\<rparr>"

section \<open>Words\<close>

definition swap16 :: "u16 \<Rightarrow> u16" where
  "swap16 x = push_bit 8 x OR drop_bit 8 (x AND 0xff00)"

definition swap32 :: "u32 \<Rightarrow> u32" where
  "swap32 x = push_bit 24 x OR push_bit 8 (x AND 0xff00) OR drop_bit 8 (x AND 0xff0000) OR drop_bit 24 (x AND 0xff000000)"

text \<open>
  The packet buffers have 64 KiB; the members of the C structures are bytes at fixed offsets. A read or a write beyond the buffer is stuck.
\<close>

definition bytes_at :: "nat \<Rightarrow> nat \<Rightarrow> byte list \<Rightarrow> byte list option" where
  "bytes_at i n buf = (if i + n \<le> length buf then Some (take n (drop i buf)) else None)"

definition poke :: "nat \<Rightarrow> byte list \<Rightarrow> byte list \<Rightarrow> byte list option" where
  "poke i ds buf = (if i + length ds \<le> length buf then Some (overlay i ds buf) else None)"

fun pokes :: "(nat \<times> byte list) list \<Rightarrow> byte list \<Rightarrow> byte list option" where
  "pokes [] buf = Some buf"
| "pokes ((i, ds) # ws) buf = Option.bind (poke i ds buf) (pokes ws)"

fun word16 :: "byte list \<Rightarrow> u16" where
  "word16 (a # b # _) = ucast a OR push_bit 8 (ucast b)"
| "word16 _ = 0"

fun word32 :: "byte list \<Rightarrow> u32" where
  "word32 (a # b # c # d # _) = ucast a OR push_bit 8 (ucast b) OR push_bit 16 (ucast c) OR push_bit 24 (ucast d)"
| "word32 _ = 0"

definition read_word16 :: "nat \<Rightarrow> byte list \<Rightarrow> u16 option" where
  "read_word16 i buf = map_option word16 (bytes_at i 2 buf)"

definition read_word32 :: "nat \<Rightarrow> byte list \<Rightarrow> u32 option" where
  "read_word32 i buf = map_option word32 (bytes_at i 4 buf)"

definition write_word16 :: "u16 \<Rightarrow> byte list" where
  "write_word16 v = [ucast (v AND 0xff), ucast (drop_bit 8 (v AND 0xff00))]"

definition write_word32 :: "u32 \<Rightarrow> byte list" where
  "write_word32 v = [ucast (v AND 0xff), ucast (drop_bit 8 (v AND 0xff00)), ucast (drop_bit 16 (v AND 0xffff00)),
     ucast (drop_bit 24 (v AND 0xffffff00))]"

section \<open>Checksums\<close>

text \<open>
  \<open>long\<close> has 32 bits, as the comment in the source says: \<open>sum >> 16\<close> shifts the sign in.
\<close>

definition fold_sum :: "u32 \<Rightarrow> u32" where
  "fold_sum s = (s AND 0xffff) + signed_drop_bit 16 s"

definition fold_if_high :: "u32 \<Rightarrow> u32" where
  "fold_if_high s = (if s AND 0x80000000 \<noteq> 0 then fold_sum s else s)"

fun sum_words :: "u32 \<Rightarrow> byte list \<Rightarrow> u32" where
  "sum_words s (a # b # ds) = sum_words (fold_if_high (s + ucast (swap16 (word16 [a, b])))) ds"
| "sum_words s [a] = s + ucast (swap16 (ucast a))"
| "sum_words s [] = s"

text \<open>The loop \<open>while (sum>>16)\<close>. It ends for every sum, the negative ones included.\<close>

function fold_loop :: "u32 \<Rightarrow> u32" where
  "fold_loop s = (if signed_drop_bit 16 s \<noteq> 0 then fold_loop (fold_sum s) else s)"
  by auto


lemma signed_drop_bit_eq_int: "signed_drop_bit n (w :: 'a::len word) = word_of_int (sint w div 2 ^ n)"
proof -
  have "signed_drop_bit n w = word_of_int (sint (signed_drop_bit n w))" by simp
  also have "\<dots> = word_of_int (sint w div 2 ^ n)" by (simp only: sint_signed_drop_bit_eq drop_bit_eq_div)
  finally show ?thesis .
qed

lemma take_bit_eq_int: "take_bit n (w :: 'a::len word) = word_of_int (sint w mod 2 ^ n)"
proof -
  have "take_bit n w = take_bit n (word_of_int (sint w))" by simp
  also have "\<dots> = word_of_int (sint w mod 2 ^ n)" unfolding take_bit_of_int take_bit_eq_mod [of n "sint w"] ..
  finally show ?thesis .
qed

lemma sint_halves:
  fixes s :: u32
  obtains q r where "sint s = 65536 * q + r" "sint s div 65536 = q" "sint s mod 65536 = r" "0 \<le> r" "r < 65536" "- 32768 \<le> q" "q < 32768"
proof
  show "sint s = 65536 * (sint s div 65536) + sint s mod 65536" by simp
  have "- 2147483648 \<le> sint s" "sint s < 2147483648" using sint_range_size [of s] by (simp_all add: word_size)
  then show "- 32768 \<le> sint s div 65536" "sint s div 65536 < 32768" by linarith+
qed auto

lemma sint_word_of_int_u32: "- 2147483648 \<le> k \<Longrightarrow> k < 2147483648 \<Longrightarrow> sint (word_of_int k :: u32) = k"
  by (simp add: signed_of_int signed_take_bit_int_eq_self)

lemma sint_fold_sum: "sint (fold_sum s) = sint s mod 65536 + sint s div 65536"
proof -
  obtain q r where h: "sint s = 65536 * q + r" "sint s div 65536 = q" "sint s mod 65536 = r" "0 \<le> r" "r < 65536" "- 32768 \<le> q" "q < 32768"
    by (rule sint_halves)
  have m: "(0xffff :: u32) = mask 16" by (simp add: mask_eq_exp_minus_1)
  have "s AND 0xffff = take_bit 16 s" by (simp only: m take_bit_eq_mask)
  then have "fold_sum s = word_of_int (sint s mod 65536 + sint s div 65536)"
    by (simp add: fold_sum_def signed_drop_bit_eq_int take_bit_eq_int)
  moreover have "- 2147483648 \<le> sint s mod 65536 + sint s div 65536" "sint s mod 65536 + sint s div 65536 < 2147483648"
    using h by linarith+
  ultimately show ?thesis by (simp only: sint_word_of_int_u32)
qed

definition fold_measure :: "u32 \<Rightarrow> nat" where
  "fold_measure s = (if 0 \<le> sint s then nat (sint s) else if - 32768 \<le> sint s then 2 ^ 33 else 2 ^ 34)"

lemma fold_measure_less: "signed_drop_bit 16 s \<noteq> 0 \<Longrightarrow> fold_measure (fold_sum s) < fold_measure s"
proof -
  assume "signed_drop_bit 16 s \<noteq> 0"
  then have "sint s div 65536 \<noteq> 0" by (auto simp: signed_drop_bit_eq_int)
  moreover obtain q r where h: "sint s = 65536 * q + r" "sint s div 65536 = q" "sint s mod 65536 = r" "0 \<le> r" "r < 65536" "- 32768 \<le> q" "q < 32768"
    by (rule sint_halves)
  ultimately have "q \<noteq> 0" by simp
  consider "q < - 1" | "q = - 1" | "0 < q" using \<open>q \<noteq> 0\<close> by linarith
  then show ?thesis
    unfolding fold_measure_def sint_fold_sum h(2, 3) unfolding h(1) using h(4-7) by cases (auto simp: nat_less_iff)
qed

termination fold_loop
  by (relation "measure fold_measure") (auto intro: fold_measure_less)

declare fold_loop.simps [simp del]

definition cksum :: "byte list \<Rightarrow> u16" where
  "cksum ds = NOT (ucast (fold_loop (sum_words 0 ds)))"

definition transport_cksum :: "byte list \<Rightarrow> u16 \<Rightarrow> byte list \<Rightarrow> byte list \<Rightarrow> u16 \<Rightarrow> u16" where
  "transport_cksum packet protocol src dest len =
     (let s = sum_words 0 packet;
          s = s + ucast (swap16 (word16 src));
          s = s + ucast (swap16 (word16 (drop 2 src)));
          s = s + ucast (swap16 (word16 dest));
          s = s + ucast (swap16 (word16 (drop 2 dest)));
          s = s + ucast protocol;
          s = s + ucast len
      in NOT (ucast (fold_loop s)))"

section \<open>Sending\<close>

definition ethernet_tx :: "nat \<Rightarrow> net \<Rightarrow> net option" where
  "ethernet_tx len n = do { ds \<leftarrow> bytes_at 0 len (tx_packet n); Some (n\<lparr>sent := sent n @ [ds]\<rparr>) }"

text \<open>The Ethernet and IP headers with the checksum; \<open>sz\<close> is the length of the IP packet.\<close>

definition put_headers :: "u16 \<Rightarrow> byte \<Rightarrow> net \<Rightarrow> byte list \<Rightarrow> byte list option" where
  "put_headers sz proto n tx =
     do {
       tx \<leftarrow> pokes [(0, their_mac n), (6, my_mac), (12, write_word16 (swap16 ETH_TYPE_IP)),
         (14, [0x45]), (15, [0]), (16, write_word16 (swap16 sz)), (18, write_word16 (swap16 0xbeef)),
         (20, [0x40]), (21, [0]), (22, [64]), (23, [proto]), (24, write_word16 0), (26, my_ip), (30, their_ip n)] tx;
       header \<leftarrow> bytes_at 14 20 tx;
       poke 24 (write_word16 (swap16 (cksum header))) tx
     }"

definition machine_send_udp :: "val \<Rightarrow> net \<Rightarrow> mem \<Rightarrow> (val \<times> net \<times> mem) option" where
  "machine_send_udp data_cell n m =
     (if data_cell = NULL then do { (e, m) \<leftarrow> alloc_error ERR_INVALID_PARAM_TYPE m; Some (e, n, m) }
      else do {
        c \<leftarrow> get_cell m data_cell;
        if c_tag c \<noteq> TAG_BYTES \<and> c_tag c \<noteq> TAG_STR
        then do { (e, m) \<leftarrow> alloc_error ERR_INVALID_PARAM_TYPE m; Some (e, n, m) }
        else do {
          sz \<leftarrow> as_word (c_dr c);
          let len = unat (ucast sz :: u32);
          tx \<leftarrow> put_headers (of_nat (20 + 8 + len)) PROTO_IP_UDP n (tx_packet n);
          tx \<leftarrow> pokes [(36, write_word16 (swap16 4001)), (34, write_word16 (swap16 4000)),
            (38, write_word16 (swap16 (of_nat (len + 8)))), (40, write_word16 0)] tx;
          tx \<leftarrow> (if c_ar c \<noteq> NULL \<and> len \<noteq> 0 then do { ds \<leftarrow> read_bytes m (c_ar c) len; poke 42 ds tx } else Some tx);
          ds \<leftarrow> bytes_at 34 (unat (of_nat (len + 8) :: u16)) tx;
          tx \<leftarrow> poke 40 (write_word16 (swap16 (transport_cksum ds (ucast PROTO_IP_UDP) my_ip (their_ip n) (of_nat (len + 8))))) tx;
          n \<leftarrow> ethernet_tx (len + 8 + 20 + 14) (n\<lparr>tx_packet := tx\<rparr>);
          (r, m) \<leftarrow> alloc_int 1 m;
          Some (r, n, m)
        }
      })"

text \<open>The address of the router is written into \<open>their_mac\<close>; \<open>data\<close> has \<open>size\<close> bytes.\<close>

definition router_mac :: "byte list" where
  "router_mac = [0x84, 0xa8, 0xe4, 0x67, 0x08, 0x12]"

definition send_tcp_packet :: "u16 \<Rightarrow> u16 \<Rightarrow> byte \<Rightarrow> u32 \<Rightarrow> u32 \<Rightarrow> byte list \<Rightarrow> net \<Rightarrow> net option" where
  "send_tcp_packet srcport port flags seqnum acknum ds n =
     do {
       let n = n\<lparr>tx_packet := replicate PACKET_SIZE 0, their_mac := router_mac\<rparr>;
       let len = length ds;
       tx \<leftarrow> put_headers (of_nat (20 + 20 + len)) PROTO_IP_TCP n (tx_packet n);
       tx \<leftarrow> pokes [(36, write_word16 (swap16 port)), (34, write_word16 (swap16 srcport)),
         (38, write_word32 (swap32 seqnum)), (42, write_word32 (swap32 acknum)), (46, [push_bit 4 5]), (47, [flags]),
         (48, write_word16 (swap16 0x7210)), (52, write_word16 0), (50, write_word16 0), (54, ds)] tx;
       segment \<leftarrow> bytes_at 34 (unat (of_nat (len + 20) :: u16)) tx;
       tx \<leftarrow> poke 50 (write_word16 (swap16 (transport_cksum segment (ucast PROTO_IP_TCP) my_ip (their_ip n) (of_nat (len + 20))))) tx;
       ethernet_tx (len + 20 + 20 + 14) (n\<lparr>tx_packet := tx\<rparr>)
     }"

definition connect_tcp :: "byte list \<Rightarrow> u32 \<Rightarrow> net \<Rightarrow> net option" where
  "connect_tcp host_ip port n =
     do {
       let n = n\<lparr>their_tcp_port := port, their_ip := host_ip, my_seqnum := my_seqnum n + 1\<rparr>;
       n \<leftarrow> send_tcp_packet (ucast (my_tcp_port n)) (ucast port) TCP_RST (my_seqnum n) 0 [] n;
       let n = n\<lparr>my_tcp_port := my_tcp_port n + 1, my_seqnum := my_seqnum n + 10\<rparr>;
       send_tcp_packet (ucast (my_tcp_port n)) (ucast port) TCP_SYN (my_seqnum n) 0 [] n
     }"

text \<open>The parameter \<open>size\<close> of \<open>send_tcp_packet\<close> is a \<open>uint16_t\<close>; the sequence number advances by the whole size.\<close>

definition send_tcp :: "val \<Rightarrow> net \<Rightarrow> mem \<Rightarrow> (val \<times> net \<times> mem) option" where
  "send_tcp data_cell n m =
     (if data_cell = NULL then do { (e, m) \<leftarrow> alloc_error ERR_INVALID_PARAM_TYPE m; Some (e, n, m) }
      else do {
        c \<leftarrow> get_cell m data_cell;
        if c_tag c \<noteq> TAG_BYTES \<and> c_tag c \<noteq> TAG_STR
        then do { (e, m) \<leftarrow> alloc_error ERR_INVALID_PARAM_TYPE m; Some (e, n, m) }
        else do {
          sz \<leftarrow> as_word (c_dr c);
          ds \<leftarrow> read_bytes m (c_ar c) (unat (ucast sz :: u16));
          n \<leftarrow> send_tcp_packet (ucast (my_tcp_port n)) (ucast (their_tcp_port n)) (TCP_PSH OR TCP_ACK) (my_seqnum n) (their_seqnum n) ds n;
          let n = n\<lparr>my_seqnum := my_seqnum n + ucast sz\<rparr>;
          (r, m) \<leftarrow> alloc_int 1 m;
          Some (r, n, m)
        }
      })"

section \<open>Receiving\<close>

definition nothing_received :: "net \<Rightarrow> mem \<Rightarrow> (val \<times> net \<times> mem) option" where
  "nothing_received n m = do { (c, m) \<leftarrow> alloc_num_bytes 0 m; Some (c, n, m) }"

definition eth_arp :: "net \<Rightarrow> mem \<Rightarrow> (val \<times> net \<times> mem) option" where
  "eth_arp n m =
     do {
       let rx = rx_packet n;
       opcode \<leftarrow> read_word16 20 rx;
       if swap16 opcode = ARP_REQUEST
       then do {
         tip \<leftarrow> bytes_at 38 4 rx;
         if word32 tip = word32 my_ip
         then do {
           sender_mac \<leftarrow> bytes_at 22 6 rx;
           sender_ip \<leftarrow> bytes_at 28 4 rx;
           tx \<leftarrow> pokes [(0, sender_mac), (6, my_mac), (12, write_word16 (swap16 ETH_TYPE_ARP)),
             (14, write_word16 (swap16 1)), (16, write_word16 (swap16 PROTO_IP)), (18, [6]), (19, [4]),
             (20, write_word16 (swap16 ARP_REPLY)), (22, my_mac), (28, tip), (32, sender_mac), (38, sender_ip)] (tx_packet n);
           n \<leftarrow> ethernet_tx (14 + 28) (n\<lparr>tx_packet := tx\<rparr>);
           src_mac \<leftarrow> bytes_at 6 6 rx;
           nothing_received (n\<lparr>their_mac := src_mac\<rparr>) m
         }
         else nothing_received n m
       }
       else nothing_received n m
     }"

definition eth_udp :: "net \<Rightarrow> mem \<Rightarrow> (val \<times> net \<times> mem) option" where
  "eth_udp n m =
     do {
       src_mac \<leftarrow> bytes_at 6 6 (rx_packet n);
       w \<leftarrow> read_word16 38 (rx_packet n);
       let len = uint (swap16 w) - 8;
       rx \<leftarrow> poke (nat (42 + len)) [0] (rx_packet n);
       let n = n\<lparr>their_mac := src_mac, rx_packet := rx\<rparr>;
       (packet, m) \<leftarrow> alloc_num_bytes (word_of_int len) m;
       c \<leftarrow> get_cell m packet;
       ds \<leftarrow> bytes_at 42 (unat (word_of_int len :: u32)) rx;
       m \<leftarrow> write_bytes (c_ar c) ds m;
       Some (packet, n, m)
     }"

definition eth_tcp :: "net \<Rightarrow> mem \<Rightarrow> (val \<times> net \<times> mem) option" where
  "eth_tcp n m =
     do {
       let rx = rx_packet n;
       w \<leftarrow> read_word16 16 rx;
       let payload_size = uint (swap16 w) - 20 - 20;
       flags \<leftarrow> bytes_at 47 1 rx;
       dest_port \<leftarrow> map_option swap16 (read_word16 36 rx);
       src_port \<leftarrow> map_option swap16 (read_word16 34 rx);
       seqnum \<leftarrow> map_option swap32 (read_word32 38 rx);
       if flags = [TCP_SYN OR TCP_ACK]
       then do {
         let n = n\<lparr>my_seqnum := my_seqnum n + 1, their_seqnum := seqnum + 1\<rparr>;
         n \<leftarrow> send_tcp_packet dest_port src_port TCP_ACK (my_seqnum n) (their_seqnum n) [] n;
         nothing_received n m
       }
       else if hd flags AND TCP_FIN = TCP_FIN
       then do {
         n \<leftarrow> send_tcp_packet dest_port src_port TCP_RST (my_seqnum n) (their_seqnum n) [] n;
         nothing_received (n\<lparr>my_seqnum := my_seqnum n + 1\<rparr>) m
       }
       else if payload_size > 0
       then do {
         let old_seqnum = their_seqnum n;
         let n = n\<lparr>their_seqnum := seqnum + word_of_int payload_size\<rparr>;
         n \<leftarrow> send_tcp_packet dest_port src_port TCP_ACK (my_seqnum n) (their_seqnum n) [] n;
         (packet, m) \<leftarrow> alloc_num_bytes (word_of_int (payload_size + 1)) m;
         c \<leftarrow> get_cell m packet;
         ds \<leftarrow> bytes_at 54 (nat payload_size) rx;
         m \<leftarrow> write_bytes (c_ar c) (ds @ [0]) m;
         if old_seqnum \<noteq> their_seqnum n then Some (packet, n, m) else nothing_received n m
       }
       else nothing_received n m
     }"

definition eth_task :: "byte list \<Rightarrow> net \<Rightarrow> mem \<Rightarrow> (val \<times> net \<times> mem) option" where
  "eth_task frame n m =
     do {
       rx \<leftarrow> poke 0 frame (rx_packet n);
       let n = n\<lparr>rx_packet := rx\<rparr>;
       if frame = [] then nothing_received n m
       else do {
         typ \<leftarrow> read_word16 12 rx;
         if swap16 typ = ETH_TYPE_ARP then eth_arp n m
         else if swap16 typ = ETH_TYPE_IP
         then do {
           proto \<leftarrow> bytes_at 23 1 rx;
           if proto = [PROTO_IP_UDP] then eth_udp n m
           else if proto = [PROTO_IP_ICMP] then nothing_received n m
           else if proto = [PROTO_IP_TCP] then eth_tcp n m
           else nothing_received n m
         }
         else nothing_received n m
       }
     }"

section \<open>The filesystem of connections\<close>

text \<open>The digits of an address from \<open>path[i]\<close> on: the address, and the index where the loop stops.\<close>

fun parse_ip :: "nat \<Rightarrow> nat \<Rightarrow> byte list \<Rightarrow> cstr \<Rightarrow> byte list \<times> nat" where
  "parse_ip i j ip [] = (ip, i)"
| "parse_ip i j ip (c # cs) =
     (if j < 4
      then if c = 47 then (ip, i)
           else if c = 46 then parse_ip (i + 1) (j + 1) ip cs
           else parse_ip (i + 1) j (ip[j := ip ! j * 10 + (c - 48)]) cs
      else (ip, i))"

fun parse_port :: "u32 \<Rightarrow> cstr \<Rightarrow> u32" where
  "parse_port port [] = port"
| "parse_port port (c # cs) = (if c = 47 then port else parse_port (port * 10 + (ucast c - 48)) cs)"

definition ethfs_open :: "val \<Rightarrow> net \<Rightarrow> mem \<Rightarrow> (val \<times> net \<times> mem) option" where
  "ethfs_open path_cell n m =
     do {
       c \<leftarrow> get_cell m path_cell;
       path \<leftarrow> read_cstr m (c_ar c);
       n \<leftarrow> (if length path < 4 then None
             else if take 5 (drop 4 path) = bs ''/tcp/''
             then let (ip, i) = parse_ip 9 0 [0, 0, 0, 0] (drop 9 path) in connect_tcp ip (parse_port 0 (drop (i + 1) path)) n
             else Some n);
       (r, m) \<leftarrow> alloc_int 1 m;
       Some (r, n, m)
     }"

definition ethfs_read :: "byte list \<Rightarrow> net \<Rightarrow> mem \<Rightarrow> (val \<times> net \<times> mem) option" where
  "ethfs_read = eth_task"

definition ethfs_write :: "val \<Rightarrow> val \<Rightarrow> net \<Rightarrow> mem \<Rightarrow> (val \<times> net \<times> mem) option" where
  "ethfs_write strm packet = send_tcp packet"

text \<open>\<open>fo\<close>, \<open>fr\<close> and \<open>fw\<close> are the addresses of the handlers; the buffers that \<open>malloc\<close> returns are not initialised.\<close>

definition mount_ethernet :: "val \<Rightarrow> val \<Rightarrow> val \<Rightarrow> byte list \<Rightarrow> byte list \<Rightarrow> mem \<Rightarrow> (net \<times> mem) option" where
  "mount_ethernet fo fr fw rx tx m =
     do {
       let n = init_mini_ip rx tx;
       m \<leftarrow> fs_mount_builtin (bs ''/net'') fo fr fw NULL NULL m;
       Some (n, m)
     }"

end
