(* ===== verification/Network.thy ===== *)
theory Network
  imports MiniIp
begin

unbundle bit_operations_syntax

text \<open>
  What the network stack puts on the wire and what it does with the frames it receives: checksums against the one's complement sum, the
  frames of \<open>send_tcp_packet\<close> as byte lists, and the handling of ARP requests, data segments and the opening of a connection.
\<close>

section \<open>The checksum\<close>

fun wsum :: "byte list \<Rightarrow> nat" where
  "wsum (a # b # ds) = 256 * unat a + unat b + wsum ds"
| "wsum [a] = 256 * unat a"
| "wsum [] = 0"

definition ones_complement_sum :: "nat \<Rightarrow> nat" where
  "ones_complement_sum s = (if s = 0 then 0 else (s - 1) mod 65535 + 1)"

definition be16 :: "u16 \<Rightarrow> byte list" where
  "be16 w = [ucast (drop_bit 8 w), ucast w]"

definition be32 :: "u32 \<Rightarrow> byte list" where
  "be32 w = [ucast (drop_bit 24 w), ucast (drop_bit 16 w), ucast (drop_bit 8 w), ucast w]"

lemma word16_eqI: "(\<forall>n < 16. bit (a :: 16 word) n = bit b n) \<Longrightarrow> a = b"
  by (rule bit_word_eqI) simp

lemma byte_high_bit [simp]: "8 \<le> n \<Longrightarrow> \<not> bit (a :: byte) n"
  using bit_imp_le_length [of a n] by auto

lemma swap16_word16: "swap16 (ucast a OR push_bit 8 (ucast b)) = push_bit 8 (ucast (a :: byte)) OR ucast (b :: byte)"
  by (rule word16_eqI) (simp add: swap16_def all_less_numeral bit_simps)

lemma swap16_byte: "swap16 (ucast (a :: byte)) = push_bit 8 (ucast a)"
  by (rule word16_eqI) (simp add: swap16_def all_less_numeral bit_simps)

lemma write_swap16: "write_word16 (swap16 w) = be16 w"
  unfolding write_word16_def be16_def list.inject
  by (intro conjI; (rule word8_eqI)?) (simp_all add: swap16_def all_less_numeral bit_simps)

lemma write_swap32: "write_word32 (swap32 w) = be32 w"
  unfolding write_word32_def be32_def list.inject
  by (intro conjI; (rule word8_eqI)?) (simp_all add: swap32_def all_less_numeral bit_simps)

lemma read_be16: "swap16 (word16 (be16 w)) = w"
  by (rule word16_eqI) (simp add: swap16_def be16_def all_less_numeral bit_simps)

lemma read_be32: "swap32 (word32 (be32 w)) = w"
  by (rule word32_eqI) (simp add: swap32_def be32_def all_less_numeral bit_simps)


lemma unat_be: "unat (push_bit 8 (ucast a) OR ucast (b :: byte) :: u16) = 256 * unat (a :: byte) + unat b"
proof -
  have "push_bit 8 (ucast a) OR ucast b = (push_bit 8 (ucast a) + ucast b :: u16)"
    by (rule disjunctive_add_eq_or [symmetric]) (auto simp: bit_eq_iff bit_simps)
  moreover have "unat a < 256" "unat b < 256" using unsigned_less [of a, where 'a = nat] unsigned_less [of b, where 'a = nat] by simp_all
  ultimately show ?thesis by (simp add: push_bit_eq_mult unat_word_ariths unsigned_ucast_eq take_bit_nat_eq_self)
qed

lemma unat_be1: "unat (push_bit 8 (ucast a) :: u16) = 256 * unat (a :: byte)"
  using unat_be [of a 0] by simp

lemma byte_less: "unat (a :: byte) < 256" 
  using unsigned_less [of a, where 'a = nat] by simp

lemma wsum_le: "wsum ds \<le> 65535 * ((length ds + 1) div 2)"
proof (induction ds rule: wsum.induct)
  case (1 a b ds)
  then show ?case using byte_less [of a] byte_less [of b] by simp
next
  case (2 a)
  then show ?case using byte_less [of a] by simp
qed simp

lemma high_bit_clear: "unat (s :: u32) < 2 ^ 31 \<Longrightarrow> s AND 0x80000000 = 0"
  using unat_less_not_bit [of s 31 31] by (intro word32_eqI) (simp add: all_less_numeral bit_simps)

lemma sum_words_eq: "unat s + wsum ds < 2 ^ 31 \<Longrightarrow> unat (sum_words s ds) = unat s + wsum ds"
proof (induction s ds rule: sum_words.induct)
  case (1 s a b ds)
  let ?t = "s + ucast (swap16 (word16 [a, b]))"
  have u: "unat (ucast (swap16 (word16 [a, b])) :: u32) = 256 * unat a + unat b"
    using byte_less [of a] byte_less [of b] by (simp add: swap16_word16 unsigned_ucast_eq unat_be take_bit_nat_eq_self)
  then have t: "unat ?t = unat s + (256 * unat a + unat b)" using 1 by (simp add: unat_plus_small)
  then have "fold_if_high ?t = ?t" using 1 by (simp add: fold_if_high_def high_bit_clear)
  then show ?case using 1 t by simp
next
  case (2 s a)
  have "unat (ucast (swap16 (ucast a)) :: u32) = 256 * unat a"
    using byte_less [of a] by (simp add: swap16_byte unsigned_ucast_eq unat_be1 take_bit_nat_eq_self)
  then show ?case using 2 by (simp add: unat_plus_small)
qed simp

lemma ones_complement_fold:
  "65536 \<le> s \<Longrightarrow> ones_complement_sum (s mod 65536 + s div 65536) = ones_complement_sum s"
proof -
  assume s: "65536 \<le> s"
  define q where "q = s div 65536"
  have eq: "s = 65536 * q + s mod 65536" "0 < q" using s by (simp_all add: q_def div_greater_zero_iff)
  then have "s - 1 = (s mod 65536 + q - 1) + 65535 * q" by simp
  then have "(s - 1) mod 65535 = (s mod 65536 + q - 1) mod 65535" by (simp only: mod_mult_self2)
  with eq(2) s show ?thesis by (simp add: ones_complement_sum_def q_def)
qed

lemma fold_loop_eq: "unat s < 2 ^ 31 \<Longrightarrow> unat (fold_loop s) = ones_complement_sum (unat s)"
proof (induction s rule: fold_loop.induct)
  case (1 s)
  define n where "n = unat s"
  have n: "n < 2 ^ 31" using 1(2) by (simp add: n_def)
  have i: "sint s = int n" unfolding n_def using 1(2) by (intro sint_small) simp
  have d: "n div 65536 < 32768" using n by (simp add: less_mult_imp_div_less)
  have "signed_drop_bit 16 s = word_of_int (int (n div 65536))" unfolding signed_drop_bit_eq_int i by (simp add: zdiv_int)
  then have h: "unat (signed_drop_bit 16 s) = n div 65536" using d by simp
  show ?case
  proof (cases "n < 65536")
    case True
    then have "signed_drop_bit 16 s = 0" using h by (simp add: unat_eq_0)
    moreover have "ones_complement_sum n = n" using True by (simp add: ones_complement_sum_def)
    ultimately show ?thesis by (simp add: fold_loop.simps [of s] n_def)
  next
    case False
    let ?v = "n mod 65536 + n div 65536"
    have nz: "signed_drop_bit 16 s \<noteq> 0" using False h by (auto simp: div_eq_0_iff)
    have "fold_sum s = word_of_int (sint (fold_sum s))" by simp
    also have "\<dots> = word_of_int (int ?v)" unfolding sint_fold_sum i by (simp add: zdiv_int zmod_int)
    finally have "fold_sum s = of_nat ?v" unfolding of_int_of_nat_eq .
    moreover have "n mod 65536 < 65536" by simp
    then have "?v < 65536 + 32768" using d by (rule add_strict_mono)
    then have "?v < 2 ^ 32" by simp
    ultimately have f: "unat (fold_sum s) = ?v" by (simp only: unat_of_nat_u32)
    have "unat (fold_loop s) = unat (fold_loop (fold_sum s))" using nz by (simp add: fold_loop.simps [of s])
    also have "\<dots> = ones_complement_sum ?v" using 1(1) [OF nz] f d by simp
    finally show ?thesis using ones_complement_fold [of n] False by (simp add: n_def)
  qed
qed

lemma sum_fold: "wsum ds < 2 ^ 31 \<Longrightarrow> unat (fold_loop (sum_words 0 ds)) = ones_complement_sum (wsum ds)"
  by (simp add: fold_loop_eq sum_words_eq)


lemma unat_not16: "unat (NOT w) = 65535 - unat (w :: u16)"
proof -
  have "NOT w = - 1 - w" by (simp add: not_eq_complement)
  then have "unat (NOT w) = unat (- 1 :: u16) - unat w" using unat_sub [of w "- 1"] word_order.extremum [of w] by simp
  then show ?thesis by (simp add: unsigned_minus_1_eq_mask mask_eq_exp_minus_1)
qed

lemma cksum_value: "wsum ds < 2 ^ 31 \<Longrightarrow> unat (cksum ds) = 65535 - ones_complement_sum (wsum ds)"
proof -
  assume "wsum ds < 2 ^ 31"
  from sum_fold [OF this] have u: "unat (fold_loop (sum_words 0 ds)) = ones_complement_sum (wsum ds)" .
  have "ones_complement_sum (wsum ds) < 65536" by (simp add: ones_complement_sum_def)
  with u have "unat (ucast (fold_loop (sum_words 0 ds)) :: u16) = ones_complement_sum (wsum ds)"
    by (simp add: unsigned_ucast_eq take_bit_nat_eq_self)
  then show ?thesis by (simp add: cksum_def unat_not16)
qed


lemma wsum_append: "even (length xs) \<Longrightarrow> wsum (xs @ ys) = wsum xs + wsum ys"
  by (induction xs rule: wsum.induct) auto

lemma unat_halves: "256 * unat (ucast (drop_bit 8 w) :: byte) + unat (ucast w :: byte) = unat (w :: u16)"
proof -
  have "push_bit 8 (ucast (ucast (drop_bit 8 w) :: byte)) OR ucast (ucast w :: byte) = w"
    by (rule word16_eqI) (simp add: all_less_numeral bit_simps)
  then show ?thesis using unat_be [of "ucast (drop_bit 8 w)" "ucast w"] by simp
qed

lemma wsum_be16 [simp]: "wsum (be16 w @ ds) = unat w + wsum ds"
  using unat_halves [of w] by (simp add: be16_def)

lemma ones_complement_cancel: "ones_complement_sum (s + (65535 - ones_complement_sum s)) = 65535"
proof (cases "s = 0")
  case False
  define r where "r = (s - 1) mod 65535"
  have "s - 1 = 65535 * ((s - 1) div 65535) + r" by (simp add: r_def)
  then have "s + (65535 - (r + 1)) - 1 = 65534 + 65535 * ((s - 1) div 65535)"
    using False mod_less_divisor [of 65535 "s - 1"] unfolding r_def [symmetric] by linarith
  then have "(s + (65535 - (r + 1)) - 1) mod 65535 = 65534 mod 65535" by (simp only: mod_mult_self2)
  then show ?thesis using False by (simp add: ones_complement_sum_def r_def)
qed (simp add: ones_complement_sum_def)

text \<open>
  How a receiver checks data that hold their checksum (RFC 1071): the one's complement sum of all words is all ones. For TCP (RFC 793)
  the data are preceded by a pseudo header of the addresses, the protocol and the length of the segment.
\<close>

definition verifies :: "byte list \<Rightarrow> bool" where
  "verifies ds \<longleftrightarrow> ones_complement_sum (wsum ds) = 0xffff"

definition pseudo_header :: "byte list \<Rightarrow> byte list \<Rightarrow> byte \<Rightarrow> u16 \<Rightarrow> byte list" where
  "pseudo_header src dest protocol len = src @ dest @ [0, protocol] @ be16 len"

text \<open>A checksum field in the middle of the data: filled with the checksum, the whole verifies.\<close>

lemma cksum_verifies:
  assumes "even (length xs)" "length xs + length ys < 65000"
  shows "verifies (xs @ be16 (cksum (xs @ [0, 0] @ ys)) @ ys)"
proof -
  let ?s = "wsum (xs @ [0, 0] @ ys)" and ?c = "cksum (xs @ [0, 0] @ ys)"
  have s: "?s = wsum xs + wsum ys" using assms by (simp add: wsum_append)
  have small: "wsum (zs :: byte list) < 2 ^ 31" if "length zs < 65003" for zs
    using wsum_le [of zs] that by (simp add: less_eq_div_iff_mult_less_eq)
  have c: "unat ?c = 65535 - ones_complement_sum ?s" by (rule cksum_value, rule small) (use assms in simp)
  have "wsum (xs @ be16 ?c @ ys) = ?s + (65535 - ones_complement_sum ?s)" using assms c s by (simp add: wsum_append)
  then show ?thesis by (simp add: verifies_def ones_complement_cancel)
qed

definition tsum :: "byte list \<Rightarrow> u16 \<Rightarrow> byte list \<Rightarrow> byte list \<Rightarrow> u16 \<Rightarrow> nat" where
  "tsum packet protocol src dest len = wsum packet + wsum src + wsum dest + unat protocol + unat len"

lemma tsum_pseudo_header:
  assumes "length src = 4" "length dest = 4"
  shows "wsum (pseudo_header src dest protocol len @ packet) = tsum packet (ucast protocol) src dest len"
proof -
  have "unat (ucast protocol :: u16) = unat protocol" using unsigned_less [of protocol, where 'a = nat] by (simp add: unsigned_ucast_eq take_bit_nat_eq_self)
  then show ?thesis using assms by (simp add: pseudo_header_def tsum_def wsum_append)
qed

lemma transport_cksum_value:
  assumes "length src = 4" "length dest = 4" "tsum packet protocol src dest len < 2 ^ 31"
  shows "unat (transport_cksum packet protocol src dest len) = 65535 - ones_complement_sum (tsum packet protocol src dest len)"
proof -
  obtain a b c d where src: "src = [a, b, c, d]" using assms(1) by (auto simp: length_Suc_conv eval_nat_numeral)
  obtain e f g h where dest: "dest = [e, f, g, h]" using assms(2) by (auto simp: length_Suc_conv eval_nat_numeral)
  have u: "unat (ucast w :: u32) = unat w" for w :: u16
    using unsigned_less [of w, where 'a = nat] by (simp add: unsigned_ucast_eq take_bit_nat_eq_self)
  let ?s = "sum_words 0 packet + ucast (swap16 (word16 src)) + ucast (swap16 (word16 (drop 2 src))) +
    ucast (swap16 (word16 dest)) + ucast (swap16 (word16 (drop 2 dest))) + ucast protocol + ucast len"
  have p: "unat (sum_words 0 packet) = wsum packet" using assms(3) sum_words_eq [of 0 packet] by (simp add: tsum_def)
  have "unat ?s = tsum packet protocol src dest len"
    using assms(3) by (simp add: src dest tsum_def swap16_word16 p u unat_be unat_plus_small)
  then have "unat (fold_loop ?s) = ones_complement_sum (tsum packet protocol src dest len)" using fold_loop_eq [of ?s] assms(3) by simp
  moreover have "ones_complement_sum (tsum packet protocol src dest len) < 65536" by (simp add: ones_complement_sum_def)
  ultimately have "unat (ucast (fold_loop ?s) :: u16) = ones_complement_sum (tsum packet protocol src dest len)"
    by (simp add: unsigned_ucast_eq take_bit_nat_eq_self)
  then show ?thesis by (simp add: transport_cksum_def Let_def unat_not16)
qed


lemma transport_verifies:
  assumes "even (length xs)" "length xs + length ys < 65510" "length src = 4" "length dest = 4"
  shows "verifies (pseudo_header src dest protocol len @ xs @ be16 (transport_cksum (xs @ [0, 0] @ ys) (ucast protocol) src dest len) @ ys)"
proof -
  let ?p = "ucast protocol :: u16"
  let ?s = "tsum (xs @ [0, 0] @ ys) ?p src dest len" and ?c = "transport_cksum (xs @ [0, 0] @ ys) ?p src dest len"
  have small: "tsum zs ?p src dest len < 2 ^ 31" if "length zs < 65512" for zs
  proof -
    have "wsum src \<le> 131070" "wsum dest \<le> 131070" using wsum_le [of src] wsum_le [of dest] assms by simp_all
    moreover have "unat ?p < 65536" "unat len < 65536"
      using unsigned_less [of ?p, where 'a = nat] unsigned_less [of len, where 'a = nat] by simp_all
    moreover have "wsum zs \<le> 65535 * 32756" using that by (intro order_trans [OF wsum_le] mult_le_mono) auto
    ultimately show ?thesis unfolding tsum_def by simp
  qed
  have c: "unat ?c = 65535 - ones_complement_sum ?s" by (rule transport_cksum_value) (use assms small in simp_all)
  have "tsum (xs @ be16 ?c @ ys) ?p src dest len = ?s + (65535 - ones_complement_sum ?s)"
    using assms c by (simp add: tsum_def wsum_append)
  then show ?thesis using assms by (simp add: verifies_def tsum_pseudo_header ones_complement_cancel)
qed

text \<open>
  C37. Equivalence with a reference: the checksum of at most 64 KiB is the complement of the one's complement sum of its 16-bit words in
  network order, a last odd byte counting as the high byte of a word. In particular the folding of the sum, done in signed 32-bit
  arithmetic, loses nothing.
\<close>

theorem cksum_is_internet_checksum:
  "length ds \<le> 65536 \<Longrightarrow> unat (cksum ds) = 65535 - ones_complement_sum (wsum ds)"
  by (rule cksum_value, rule le_less_trans [OF wsum_le], rule le_less_trans [of _ "65535 * 32768"]) (auto intro: mult_le_mono)

theorem cksum_is_internet_checksum_witness: "unat (cksum [0x45, 0, 0, 0x28, 1]) = 47575" 
  using cksum_is_internet_checksum [of "[0x45, 0, 0, 0x28, 1]"] by (simp add: ones_complement_sum_def)

section \<open>Frames\<close>

definition ip_header :: "u16 \<Rightarrow> byte \<Rightarrow> u16 \<Rightarrow> byte list \<Rightarrow> byte list \<Rightarrow> byte list" where
  "ip_header sz proto ck src dest = [0x45, 0] @ be16 sz @ [0xbe, 0xef, 0x40, 0, 64, proto] @ be16 ck @ src @ dest"

definition tcp_segment :: "u16 \<Rightarrow> u16 \<Rightarrow> u32 \<Rightarrow> u32 \<Rightarrow> byte \<Rightarrow> u16 \<Rightarrow> byte list \<Rightarrow> byte list" where
  "tcp_segment srcport port seqnum acknum flags ck ds =
     be16 srcport @ be16 port @ be32 seqnum @ be32 acknum @ [0x50, flags, 0x72, 0x10] @ be16 ck @ [0, 0] @ ds"

definition ip_frame :: "byte list \<Rightarrow> byte list \<Rightarrow> byte list \<Rightarrow> byte list" where
  "ip_frame mac header body = mac @ my_mac @ be16 ETH_TYPE_IP @ header @ body"

text \<open>Writes that follow one another, and their order.\<close>

fun contiguous :: "nat \<Rightarrow> (nat \<times> byte list) list \<Rightarrow> bool" where
  "contiguous i [] \<longleftrightarrow> True"
| "contiguous i ((j, ds) # ws) \<longleftrightarrow> j = i \<and> contiguous (i + length ds) ws"

lemma overlay_overlay:
  "i + length ds + length es \<le> length buf \<Longrightarrow> overlay (i + length ds) es (overlay i ds buf) = overlay i (ds @ es) buf"
  by (simp add: overlay_def ac_simps)

lemma overlay_nil [simp]: "i \<le> length buf \<Longrightarrow> overlay i [] buf = buf"
  by (simp add: overlay_def)

lemma pokes_contiguous:
  "contiguous i ws \<Longrightarrow> i + length (concat (map snd ws)) \<le> length buf \<Longrightarrow> pokes ws buf = Some (overlay i (concat (map snd ws)) buf)"
proof (induction i ws arbitrary: buf rule: contiguous.induct)
  case (2 i j ds ws)
  then have "pokes ws (overlay i ds buf) = Some (overlay (i + length ds) (concat (map snd ws)) (overlay i ds buf))" by simp
  then show ?case using 2(2, 3) by (simp add: poke_def overlay_overlay)
qed simp

lemma overlay_commute:
  "i + length ds \<le> j \<Longrightarrow> j + length es \<le> length buf \<Longrightarrow> overlay i ds (overlay j es buf) = overlay j es (overlay i ds buf)"
  by (rule nth_equalityI) (auto simp: nth_overlay)

lemma pokes_swap:
  "i + length ds \<le> j \<Longrightarrow> pokes ((j, es) # (i, ds) # ws) buf = pokes ((i, ds) # (j, es) # ws) buf"
  using overlay_commute [of i ds j es buf] by (auto simp: poke_def)

lemma pokes_swap_after:
  "i + length ds \<le> j \<Longrightarrow> pokes (us @ (j, es) # (i, ds) # ws) buf = pokes (us @ (i, ds) # (j, es) # ws) buf"
proof (induction us arbitrary: buf)
  case Nil
  then show ?case using pokes_swap by simp
next
  case (Cons u us)
  then show ?case by (cases u) (simp cong: Option.bind_cong)
qed

lemma overlay_inside:
  "i \<le> j \<Longrightarrow> j + length es \<le> i + length ds \<Longrightarrow> i + length ds \<le> length buf \<Longrightarrow>
   overlay j es (overlay i ds buf) = overlay i (overlay (j - i) es ds) buf"
  by (rule nth_equalityI) (auto simp: nth_overlay)

lemma bytes_at_overlay:
  "i + k \<le> length ds \<Longrightarrow> length ds \<le> length buf \<Longrightarrow> bytes_at i k (overlay 0 ds buf) = Some (take k (drop i ds))"
  by (simp add: bytes_at_def)

lemma unat_of_nat_u16: "k < 65536 \<Longrightarrow> unat (of_nat k :: u16) = k"
  by (simp add: unat_of_nat take_bit_nat_eq_self)

lemma length_be16 [simp]: "length (be16 w) = 2"
  by (simp add: be16_def)

lemma length_be32 [simp]: "length (be32 w) = 4"
  by (simp add: be32_def)

lemma overlay_at: "i = length xs \<Longrightarrow> length ds = length ys \<Longrightarrow> overlay i ds (xs @ ys @ zs) = xs @ ds @ zs"
  by (simp add: overlay_def)

lemma length_4: "length xs = 4 \<longleftrightarrow> (\<exists>a b c d. xs = [a, b, c, d])"
  by (auto simp: length_Suc_conv eval_nat_numeral)

definition headers :: "u16 \<Rightarrow> byte \<Rightarrow> net \<Rightarrow> u16 \<Rightarrow> byte list" where
  "headers sz proto n ck = their_mac n @ my_mac @ be16 ETH_TYPE_IP @ ip_header sz proto ck my_ip (their_ip n)"

lemma length_headers: "length (their_mac n) = 6 \<Longrightarrow> length (their_ip n) = 4 \<Longrightarrow> length (headers sz proto n ck) = 34"
  by (simp add: headers_def ip_header_def my_mac_def my_ip_def)

lemma put_headers_eq:
  assumes n: "length (their_mac n) = 6" "length (their_ip n) = 4" and buf: "34 \<le> length buf"
  shows "put_headers sz proto n buf = Some (overlay 0 (headers sz proto n (cksum (ip_header sz proto 0 my_ip (their_ip n)))) buf)"
proof -
  let ?ws = "[(0, their_mac n), (6, my_mac), (12, write_word16 (swap16 ETH_TYPE_IP)),
         (14, [0x45]), (15, [0]), (16, write_word16 (swap16 sz)), (18, write_word16 (swap16 0xbeef)),
         (20, [0x40]), (21, [0]), (22, [64]), (23, [proto]), (24, write_word16 0), (26, my_ip), (30, their_ip n)]"
  have w0: "write_word16 0 = be16 0" using write_swap16 [of 0] by (simp add: swap16_def)
  have c: "concat (map snd ?ws) = headers sz proto n 0"
    by (simp add: headers_def ip_header_def write_swap16 w0) (simp add: be16_def)
  have "pokes ?ws buf = Some (overlay 0 (headers sz proto n 0) buf)"
    using pokes_contiguous [of 0 ?ws buf] n buf length_headers [OF n] unfolding c by (simp add: write_swap16 w0 my_mac_def my_ip_def)
  moreover have "bytes_at 14 20 (overlay 0 (headers sz proto n 0) buf) = Some (ip_header sz proto 0 my_ip (their_ip n))"
    using n buf by (subst bytes_at_overlay) (simp_all add: length_headers, simp_all add: headers_def ip_header_def my_mac_def my_ip_def)
  moreover have "poke 24 (be16 ck) (overlay 0 (headers sz proto n 0) buf) = Some (overlay 0 (headers sz proto n ck) buf)" for ck
  proof -
    have "overlay 24 (be16 ck) (headers sz proto n 0) = headers sz proto n ck"
      using n overlay_at [of 24 "their_mac n @ my_mac @ be16 ETH_TYPE_IP @ [0x45, 0] @ be16 sz @ [0xbe, 0xef, 0x40, 0, 64, proto]"
        "be16 ck" "be16 0" "my_ip @ their_ip n"] by (simp add: headers_def ip_header_def my_mac_def)
    then show ?thesis using n buf by (simp add: poke_def overlay_inside length_headers del: overlay_0)
  qed
  ultimately show ?thesis by (simp add: put_headers_def write_swap16 del: pokes.simps overlay_0)
qed


definition net_ok :: "net \<Rightarrow> bool" where
  "net_ok n \<longleftrightarrow> length (their_mac n) = 6 \<and> length (their_ip n) = 4 \<and> length (tx_packet n) = PACKET_SIZE \<and> length (rx_packet n) = PACKET_SIZE"

definition tcp_cksum :: "u16 \<Rightarrow> u16 \<Rightarrow> u32 \<Rightarrow> u32 \<Rightarrow> byte \<Rightarrow> byte list \<Rightarrow> byte list \<Rightarrow> u16" where
  "tcp_cksum srcport port seqnum acknum flags ds dest =
     transport_cksum (tcp_segment srcport port seqnum acknum flags 0 ds) (ucast PROTO_IP_TCP) my_ip dest (of_nat (length ds + 20))"

text \<open>The frame of a TCP segment: what \<open>send_tcp_packet\<close> is to send.\<close>

definition tcp_frame :: "u16 \<Rightarrow> u16 \<Rightarrow> byte \<Rightarrow> u32 \<Rightarrow> u32 \<Rightarrow> byte list \<Rightarrow> byte list \<Rightarrow> byte list" where
  "tcp_frame srcport port flags seqnum acknum dest ds =
     router_mac @ my_mac @ be16 ETH_TYPE_IP @
     ip_header (of_nat (40 + length ds)) PROTO_IP_TCP (cksum (ip_header (of_nat (40 + length ds)) PROTO_IP_TCP 0 my_ip dest)) my_ip dest @
     tcp_segment srcport port seqnum acknum flags (tcp_cksum srcport port seqnum acknum flags ds dest) ds"

lemma length_tcp_segment: "length (tcp_segment srcport port seqnum acknum flags ck ds) = 20 + length ds"
  by (simp add: tcp_segment_def)

lemma send_tcp_packet_eq:
  assumes ip: "length (their_ip n) = 4" and len: "length ds \<le> 65482"
  shows "\<exists>tx. send_tcp_packet srcport port flags seqnum acknum ds n =
    Some (n\<lparr>their_mac := router_mac, tx_packet := tx, sent := sent n @ [tcp_frame srcport port flags seqnum acknum (their_ip n) ds]\<rparr>) \<and>
    length tx = PACKET_SIZE"
proof -
  let ?n = "n\<lparr>tx_packet := replicate PACKET_SIZE 0, their_mac := router_mac\<rparr>"
  let ?sz = "of_nat (20 + 20 + length ds) :: u16" and ?seg = "tcp_segment srcport port seqnum acknum flags"
  define h where "h = headers ?sz PROTO_IP_TCP ?n (cksum (ip_header ?sz PROTO_IP_TCP 0 my_ip (their_ip n)))"
  define buf :: "byte list" where "buf = replicate PACKET_SIZE 0"
  have buf: "length buf = 65536" by (simp add: buf_def PACKET_SIZE_def)
  have h: "length h = 34" using ip by (simp add: h_def length_headers router_mac_def)
  have 1: "put_headers ?sz PROTO_IP_TCP ?n buf = Some (overlay 0 h buf)"
    using put_headers_eq [of ?n buf ?sz PROTO_IP_TCP] ip buf by (simp add: h_def router_mac_def)
  have w0: "write_word16 0 = be16 0" using write_swap16 [of 0] by (simp add: swap16_def)
  let ?ws = "[(36, be16 port), (34, be16 srcport), (38, be32 seqnum), (42, be32 acknum), (46, [push_bit 4 5]), (47, [flags]),
         (48, be16 0x7210), (52, be16 0), (50, be16 0), (54, ds)]"
  let ?vs = "[(34, be16 srcport), (36, be16 port), (38, be32 seqnum), (42, be32 acknum), (46, [push_bit 4 5]), (47, [flags]),
         (48, be16 0x7210), (50, be16 0), (52, be16 0), (54, ds)]"
  have "pokes ?ws tx = pokes ?vs tx" for tx
    using pokes_swap_after [of 34 "be16 srcport" 36 "[]" "be16 port" "drop 2 ?ws" tx]
      pokes_swap_after [of 50 "be16 0" 52 "take 7 ?vs" "be16 0" "[(54, ds)]" tx] by (simp del: pokes.simps)
  moreover have "concat (map snd ?vs) = ?seg 0 ds" by (simp add: tcp_segment_def be16_def)
  then have "pokes ?vs (overlay 0 h buf) = Some (overlay 34 (?seg 0 ds) (overlay 0 h buf))"
    using pokes_contiguous [of 34 ?vs "overlay 0 h buf"] buf h len by (simp add: length_tcp_segment del: overlay_0)
  moreover have "overlay 34 (?seg 0 ds) (overlay 0 h buf) = overlay 0 (h @ ?seg 0 ds) buf"
    using overlay_overlay [of 0 h "?seg 0 ds" buf] buf h len by (simp add: length_tcp_segment del: overlay_0)
  ultimately have 2: "pokes ?ws (overlay 0 h buf) = Some (overlay 0 (h @ ?seg 0 ds) buf)" by simp
  have u: "unat (of_nat (length ds + 20) :: u16) = length ds + 20" by (rule unat_of_nat_u16) (use len in simp)
  have 3: "bytes_at 34 (length ds + 20) (overlay 0 (h @ ?seg 0 ds) buf) = Some (?seg 0 ds)"
    using h buf len by (subst bytes_at_overlay) (simp_all add: length_tcp_segment)
  have 4: "poke 50 (be16 ck) (overlay 0 (h @ ?seg 0 ds) buf) = Some (overlay 0 (h @ ?seg ck ds) buf)" for ck
  proof -
    have "overlay 50 (be16 ck) (h @ ?seg 0 ds) = h @ ?seg ck ds"
      using overlay_at [of 50 "h @ be16 srcport @ be16 port @ be32 seqnum @ be32 acknum @ [0x50, flags, 0x72, 0x10]" "be16 ck" "be16 0" "[0, 0] @ ds"] h
      by (simp add: tcp_segment_def)
    then show ?thesis using h buf len by (simp add: poke_def overlay_inside length_tcp_segment del: overlay_0)
  qed
  let ?tx = "overlay 0 (h @ ?seg (tcp_cksum srcport port seqnum acknum flags ds (their_ip n)) ds) buf"
  have 5: "h @ ?seg (tcp_cksum srcport port seqnum acknum flags ds (their_ip n)) ds = tcp_frame srcport port flags seqnum acknum (their_ip n) ds"
    by (simp add: tcp_frame_def h_def headers_def)
  have "bytes_at 0 (length ds + 20 + 20 + 14) ?tx = Some (tcp_frame srcport port flags seqnum acknum (their_ip n) ds)"
    unfolding 5 [symmetric] using h buf len by (subst bytes_at_overlay) (simp_all add: length_tcp_segment)
  then have "send_tcp_packet srcport port flags seqnum acknum ds n =
      Some (n\<lparr>their_mac := router_mac, tx_packet := ?tx, sent := sent n @ [tcp_frame srcport port flags seqnum acknum (their_ip n) ds]\<rparr>)"
    using 1 2 3 4 u
    by (simp add: send_tcp_packet_def buf_def [symmetric] write_swap16 write_swap32 w0 tcp_cksum_def [symmetric] ethernet_tx_def Let_def
      del: pokes.simps overlay_0 of_nat_add)
  moreover have "length ?tx = PACKET_SIZE" using h buf len by (simp add: length_tcp_segment PACKET_SIZE_def)
  ultimately show ?thesis by blast
qed

lemma addr_lengths [simp]: "length router_mac = 6" "length my_mac = 6" "length my_ip = 4"
  by (simp_all add: router_mac_def my_mac_def my_ip_def)

lemma tcp_frame_fields:
  assumes "length dest = 4"
  assumes f: "f = tcp_frame srcport port flags seqnum acknum dest ds"
  shows "length f = 54 + length ds" "take 2 (drop 12 f) = be16 ETH_TYPE_IP" "take 2 (drop 16 f) = be16 (of_nat (40 + length ds))"
    "take 1 (drop 23 f) = [PROTO_IP_TCP]" "take 2 (drop 34 f) = be16 srcport" "take 2 (drop 36 f) = be16 port"
    "take 4 (drop 38 f) = be32 seqnum" "take 1 (drop 47 f) = [flags]" "take (length ds) (drop 54 f) = ds"
    "take 20 (drop 14 f) = ip_header (of_nat (40 + length ds)) PROTO_IP_TCP
       (cksum (ip_header (of_nat (40 + length ds)) PROTO_IP_TCP 0 my_ip dest)) my_ip dest"
    "drop 34 f = tcp_segment srcport port seqnum acknum flags (tcp_cksum srcport port seqnum acknum flags ds dest) ds"
    "take 6 (drop 6 f) = my_mac" "take 4 (drop 42 f) = be32 acknum"
  using assms(1) by (simp_all add: f tcp_frame_def ip_header_def tcp_segment_def)

lemma ip_header_verifies: "length src = 4 \<Longrightarrow> length dest = 4 \<Longrightarrow> verifies (ip_header sz proto (cksum (ip_header sz proto 0 src dest)) src dest)"
  using cksum_verifies [of "[0x45, 0] @ be16 sz @ [0xbe, 0xef, 0x40, 0, 64, proto]" "src @ dest"] by (simp add: ip_header_def be16_def)

lemma tcp_segment_verifies:
  assumes "length dest = 4" "length ds \<le> 65482"
  shows "verifies (pseudo_header my_ip dest PROTO_IP_TCP (of_nat (length ds + 20)) @
    tcp_segment srcport port seqnum acknum flags (tcp_cksum srcport port seqnum acknum flags ds dest) ds)"
  using transport_verifies [of "be16 srcport @ be16 port @ be32 seqnum @ be32 acknum @ [0x50, flags, 0x72, 0x10]" "[0, 0] @ ds" my_ip dest
    PROTO_IP_TCP "of_nat (length ds + 20)"] assms
  by (simp add: tcp_segment_def tcp_cksum_def be16_def del: of_nat_add)

lemma net0_ok: "net_ok (init_mini_ip (replicate PACKET_SIZE 0) (replicate PACKET_SIZE 0))"
  by (simp add: net_ok_def init_mini_ip_def)

lemmas mem_start = alloc_inv_mem0 [of mem0]

text \<open>
  C14. Every TCP packet that is sent is well formed: with at most 65482 bytes of data \<open>send_tcp_packet\<close> succeeds and sends one frame, an IPv4
  packet of protocol 6 from the own address to the peer. A receiver accepts both checksums: the one's complement sum of the 16-bit words of
  the IP header is all ones, and so is the sum over the pseudo header (addresses, protocol, length) and the TCP segment. The segment carries
  the given ports, numbers and flags in network order, and the data.
\<close>

theorem tcp_packets_valid:
  assumes "net_ok n" "length ds \<le> 65482"
  shows "\<exists>n' f. send_tcp_packet srcport port flags seqnum acknum ds n = Some n' \<and> net_ok n' \<and> sent n' = sent n @ [f] \<and>
    length f = 54 + length ds \<and> take 2 (drop 12 f) = [0x08, 0x00] \<and>
    verifies (take 20 (drop 14 f)) \<and> f ! 23 = 6 \<and> take 2 (drop 16 f) = be16 (of_nat (40 + length ds)) \<and>
    take 4 (drop 26 f) = my_ip \<and> take 4 (drop 30 f) = their_ip n \<and>
    verifies (pseudo_header my_ip (their_ip n) 6 (of_nat (length ds + 20)) @ drop 34 f) \<and>
    take 2 (drop 34 f) = be16 srcport \<and> take 2 (drop 36 f) = be16 port \<and> take 4 (drop 38 f) = be32 seqnum \<and> take 4 (drop 42 f) = be32 acknum \<and>
    f ! 47 = flags \<and> drop 54 f = ds"
proof -
  let ?f = "tcp_frame srcport port flags seqnum acknum (their_ip n) ds"
  have ip: "length (their_ip n) = 4" using assms(1) by (simp add: net_ok_def)
  obtain tx where tx: "send_tcp_packet srcport port flags seqnum acknum ds n = Some (n\<lparr>their_mac := router_mac, tx_packet := tx, sent := sent n @ [?f]\<rparr>)"
    "length tx = PACKET_SIZE" using send_tcp_packet_eq [OF ip assms(2)] by blast
  note fields = tcp_frame_fields [OF ip, of ?f srcport port flags seqnum acknum ds, OF refl]
  have "take 4 (drop 30 ?f) = their_ip n" "drop 54 ?f = ds" "?f ! 47 = flags" "take 4 (drop 26 ?f) = my_ip" "?f ! 23 = PROTO_IP_TCP"
    using ip by (simp_all add: tcp_frame_def ip_header_def tcp_segment_def nth_append)
  moreover have "be16 ETH_TYPE_IP = [0x08, 0x00]" by (simp add: be16_def ETH_TYPE_IP_def)
  moreover have "PROTO_IP_TCP = 6" by (simp add: PROTO_IP_TCP_def)
  ultimately show ?thesis using tx assms(1) fields ip_header_verifies [of my_ip "their_ip n"] ip
      tcp_segment_verifies [OF ip assms(2), of srcport port seqnum acknum flags]
    by (simp add: net_ok_def)
qed

theorem tcp_packets_valid_witness:
  "\<exists>n' f. send_tcp_packet 5000 80 TCP_SYN 24 0 [] (init_mini_ip (replicate PACKET_SIZE 0) (replicate PACKET_SIZE 0)) = Some n' \<and> sent n' = [f] \<and>
    length f = 54 \<and> verifies (take 20 (drop 14 f)) \<and> verifies (my_ip @ [192, 168, 1, 1] @ [0, 6, 0, 20] @ drop 34 f)"
  using tcp_packets_valid [OF net0_ok, of "[]" 5000 80 TCP_SYN 24 0] by (auto simp: init_mini_ip_def pseudo_header_def be16_def)


section \<open>Receiving\<close>

lemma fresh_bytes_write:
  assumes "fresh_bytes m p c blk m1" "length ds \<le> length blk"
  shows "\<exists>m2. write_bytes (bytesp (length (blocks m))) ds m1 = Some m2 \<and> fresh_bytes m p c (overlay 0 ds blk) m2"
  using assms by (auto simp: fresh_bytes_def)

text \<open>A cell that holds the bytes \<open>ds\<close> in new memory.\<close>

definition received :: "mem \<Rightarrow> val \<Rightarrow> byte list \<Rightarrow> mem \<Rightarrow> bool" where
  "received m p ds m' \<longleftrightarrow> (\<exists>blk. prefix ds blk \<and>
     fresh_bytes m p \<lparr>c_ar = bytesp (length (blocks m)), c_dr = W (of_nat (length ds)), c_tag = TAG_BYTES\<rparr> blk m')"

lemma alloc_num_bytes_received:
  assumes "alloc_inv m" "0 < cells_left m" "length ds < 2 ^ 30"
  shows "\<exists>p m1 m2 c. alloc_num_bytes (of_nat (length ds)) m = Some (p, m1) \<and> get_cell m1 p = Some c \<and>
    write_bytes (c_ar c) ds m1 = Some m2 \<and> received m p ds m2"
proof -
  let ?k = "of_nat (length ds) :: u32"
  have k: "unat (?k + 1) = length ds + 1" using assms(3) by (simp add: unat_plus_small)
  obtain p m1 where a: "alloc_num_bytes ?k m = Some (p, m1)"
    "fresh_bytes m p \<lparr>c_ar = bytesp (length (blocks m)), c_dr = W (ucast ?k), c_tag = TAG_BYTES\<rparr> (replicate (unat (?k + 1)) 0) m1"
    using alloc_num_bytes_ok(1) [OF assms(1, 2), of ?k] k assms(3) by auto
  then obtain m2 where w: "write_bytes (bytesp (length (blocks m))) ds m1 = Some m2"
    "fresh_bytes m p \<lparr>c_ar = bytesp (length (blocks m)), c_dr = W (ucast ?k), c_tag = TAG_BYTES\<rparr> (overlay 0 ds (replicate (unat (?k + 1)) 0)) m2"
    using fresh_bytes_write [OF a(2), of ds] k by auto
  have "get_cell m1 p = Some \<lparr>c_ar = bytesp (length (blocks m)), c_dr = W (ucast ?k), c_tag = TAG_BYTES\<rparr>"
    using a(2) by (simp add: fresh_bytes_def fresh_cell_def)
  moreover have "received m p ds m2" unfolding received_def
    using w(2) ucast_of_nat [of "length ds"] assms(3) by (intro exI [of _ "overlay 0 ds (replicate (unat (?k + 1)) 0)"]) simp
  ultimately show ?thesis using a(1) w(1) by fastforce
qed

lemma nothing_received_ok:
  assumes "alloc_inv m" "0 < cells_left m"
  shows "\<exists>p m'. nothing_received n m = Some (p, n, m') \<and> received m p [] m'"
  using alloc_num_bytes_ok(1) [OF assms, of 0] by (fastforce simp: nothing_received_def received_def)

lemma read_words:
  assumes "take 2 (drop i f) = be16 w" "i + 2 \<le> length f" "length f \<le> length buf"
  shows "map_option swap16 (read_word16 i (overlay 0 f buf)) = Some w"
  using assms by (simp add: read_word16_def bytes_at_overlay read_be16 del: overlay_0)

lemma read_words32:
  assumes "take 4 (drop i f) = be32 w" "i + 4 \<le> length f" "length f \<le> length buf"
  shows "map_option swap32 (read_word32 i (overlay 0 f buf)) = Some w"
  using assms by (simp add: read_word32_def bytes_at_overlay read_be32 del: overlay_0)

lemma eth_tcp_data:
  assumes n: "net_ok n" and f: "f = tcp_frame srcport port (TCP_PSH OR TCP_ACK) seqnum acknum dest ds" "length dest = 4"
    and ds: "ds \<noteq> []" "length ds \<le> 65482" and rx: "rx_packet n = overlay 0 f buf" "length buf = PACKET_SIZE"
    and new: "seqnum + of_nat (length ds) \<noteq> their_seqnum n" and m: "alloc_inv m" "0 < cells_left m"
  shows "\<exists>p tx m'. eth_tcp n m = Some (p, n\<lparr>their_seqnum := seqnum + of_nat (length ds), their_mac := router_mac, tx_packet := tx,
      sent := sent n @ [tcp_frame port srcport TCP_ACK (my_seqnum n) (seqnum + of_nat (length ds)) (their_ip n) []]\<rparr>, m') \<and>
    length tx = PACKET_SIZE \<and> received m p (ds @ [0]) m'"
proof -
  note fields = tcp_frame_fields [OF f(2, 1)]
  have len: "length f \<le> length buf" using fields(1) ds rx(2) by (simp add: PACKET_SIZE_def)
  have r: "map_option swap16 (read_word16 16 (overlay 0 f buf)) = Some (of_nat (40 + length ds))"
    "map_option swap16 (read_word16 36 (overlay 0 f buf)) = Some port"
    "map_option swap16 (read_word16 34 (overlay 0 f buf)) = Some srcport"
    "map_option swap32 (read_word32 38 (overlay 0 f buf)) = Some seqnum"
    by (rule read_words read_words32; use fields len in simp)+
  have b: "bytes_at 47 1 (overlay 0 f buf) = Some [TCP_PSH OR TCP_ACK]" "bytes_at 54 (length ds) (overlay 0 f buf) = Some ds"
    using fields len by (simp_all add: bytes_at_overlay del: overlay_0)
  obtain w x y z where w: "read_word16 16 (overlay 0 f buf) = Some w" "swap16 w = of_nat (40 + length ds)"
    and xyz: "read_word16 36 (overlay 0 f buf) = Some x" "swap16 x = port" "read_word16 34 (overlay 0 f buf) = Some y" "swap16 y = srcport"
      "read_word32 38 (overlay 0 f buf) = Some z" "swap32 z = seqnum" using r by auto
  have u: "uint (swap16 w) = int (length ds) + 40"
    using unat_of_nat_u16 [of "40 + length ds"] ds unfolding w(2) by (simp only: uint_nat)
  let ?n = "n\<lparr>their_seqnum := seqnum + of_nat (length ds)\<rparr>"
  obtain tx where tx: "send_tcp_packet port srcport TCP_ACK (my_seqnum n) (seqnum + of_nat (length ds)) [] ?n =
      Some (?n\<lparr>their_mac := router_mac, tx_packet := tx,
        sent := sent n @ [tcp_frame port srcport TCP_ACK (my_seqnum n) (seqnum + of_nat (length ds)) (their_ip n) []]\<rparr>)" "length tx = PACKET_SIZE"
    using send_tcp_packet_eq [of ?n "[]" port srcport TCP_ACK "my_seqnum n" "seqnum + of_nat (length ds)"] n by (auto simp: net_ok_def)
  obtain p m1 m2 c where a: "alloc_num_bytes (of_nat (length (ds @ [0]))) m = Some (p, m1)" "get_cell m1 p = Some c"
    "write_bytes (c_ar c) (ds @ [0]) m1 = Some m2" "received m p (ds @ [0]) m2"
    using alloc_num_bytes_received [OF m, of "ds @ [0]"] ds by auto
  have fl: "[TCP_PSH OR TCP_ACK] \<noteq> [TCP_SYN OR TCP_ACK]" "(TCP_PSH OR TCP_ACK) AND TCP_FIN \<noteq> TCP_FIN"
    by (simp_all add: TCP_PSH_def TCP_ACK_def TCP_SYN_def TCP_FIN_def)
  have "eth_tcp n m = Some (p, ?n\<lparr>their_mac := router_mac, tx_packet := tx,
      sent := sent n @ [tcp_frame port srcport TCP_ACK (my_seqnum n) (seqnum + of_nat (length ds)) (their_ip n) []]\<rparr>, m2)"
    using w(1) xyz b fl u tx(1) a ds(1) new
    by (simp add: eth_tcp_def rx(1) Let_def add.commute del: overlay_0)
  then show ?thesis using tx(2) a(4) by blast
qed


lemma eth_task_tcp:
  assumes f: "f = tcp_frame srcport port flags seqnum acknum dest ds" "length dest = 4" "length ds \<le> 65482" and n: "net_ok n"
  shows "eth_task f n m = eth_tcp (n\<lparr>rx_packet := overlay 0 f (rx_packet n)\<rparr>) m"
proof -
  note fields = tcp_frame_fields [OF f(2, 1)]
  have len: "length f \<le> length (rx_packet n)" using fields(1) f(3) n by (simp add: PACKET_SIZE_def net_ok_def)
  obtain w where "read_word16 12 (overlay 0 f (rx_packet n)) = Some w" "swap16 w = ETH_TYPE_IP"
    using read_words [OF fields(2) _ len] fields(1) by auto
  moreover have "bytes_at 23 1 (overlay 0 f (rx_packet n)) = Some [PROTO_IP_TCP]"
    using fields len by (simp add: bytes_at_overlay del: overlay_0)
  moreover have "f \<noteq> []" using fields(1) by auto
  ultimately show ?thesis using len
    by (simp add: eth_task_def poke_def ETH_TYPE_IP_def ETH_TYPE_ARP_def PROTO_IP_TCP_def PROTO_IP_UDP_def PROTO_IP_ICMP_def del: overlay_0)
qed

text \<open>
  C13. Round trip over the wire: data that one station sends with \<open>send_tcp_packet\<close> is what another station's \<open>eth_task\<close> returns when it
  receives the frame, followed by a NUL byte, in a new cell. The receiver acknowledges with the sequence number after the data, provided the
  segment is not the one it acknowledged last.
\<close>

theorem tcp_delivery:
  assumes "net_ok n" "net_ok r" "ds \<noteq> []" "length ds \<le> 65482" "seqnum + of_nat (length ds) \<noteq> their_seqnum r" "alloc_inv m" "0 < cells_left m"
  shows "\<exists>n' f p r' m'. send_tcp_packet srcport port (TCP_PSH OR TCP_ACK) seqnum acknum ds n = Some n' \<and> sent n' = sent n @ [f] \<and>
    eth_task f r m = Some (p, r', m') \<and> received m p (ds @ [0]) m' \<and> net_ok r' \<and>
    their_seqnum r' = seqnum + of_nat (length ds) \<and> my_seqnum r' = my_seqnum r \<and>
    sent r' = sent r @ [tcp_frame port srcport TCP_ACK (my_seqnum r) (seqnum + of_nat (length ds)) (their_ip r) []]"
proof -
  let ?f = "tcp_frame srcport port (TCP_PSH OR TCP_ACK) seqnum acknum (their_ip n) ds"
  have ip: "length (their_ip n) = 4" using assms(1) by (simp add: net_ok_def)
  obtain tx where tx: "send_tcp_packet srcport port (TCP_PSH OR TCP_ACK) seqnum acknum ds n = Some (n\<lparr>their_mac := router_mac, tx_packet := tx, sent := sent n @ [?f]\<rparr>)"
    using send_tcp_packet_eq [OF ip assms(4)] by blast
  have len: "length ?f \<le> length (rx_packet r)" using tcp_frame_fields(1) [OF ip refl] assms(2, 4) by (simp add: PACKET_SIZE_def net_ok_def)
  let ?r = "r\<lparr>rx_packet := overlay 0 ?f (rx_packet r)\<rparr>"
  have "net_ok ?r" using assms(2) len by (simp add: net_ok_def del: overlay_0)
  then obtain p tx' m' where "eth_tcp ?r m = Some (p, ?r\<lparr>their_seqnum := seqnum + of_nat (length ds), their_mac := router_mac, tx_packet := tx',
      sent := sent ?r @ [tcp_frame port srcport TCP_ACK (my_seqnum ?r) (seqnum + of_nat (length ds)) (their_ip ?r) []]\<rparr>, m')"
    "length tx' = PACKET_SIZE" "received m p (ds @ [0]) m'"
    using eth_tcp_data [OF _ refl ip assms(3, 4), of ?r srcport port seqnum acknum "rx_packet r" m] assms(2, 5-7) by (auto simp: net_ok_def)
  then show ?thesis using tx eth_task_tcp [OF refl ip assms(4, 2)] \<open>net_ok ?r\<close> by (simp add: net_ok_def)
qed

theorem tcp_delivery_witness:
  "\<exists>n' f p r' m'. send_tcp_packet 80 5000 (TCP_PSH OR TCP_ACK) 7 0 (bs ''hi'') (init_mini_ip (replicate PACKET_SIZE 0) (replicate PACKET_SIZE 0)) = Some n' \<and>
    sent n' = [f] \<and> eth_task f (init_mini_ip (replicate PACKET_SIZE 0) (replicate PACKET_SIZE 0)) (init_allocator mem0) = Some (p, r', m') \<and>
    received (init_allocator mem0) p (bs ''hi'' @ [0]) m' \<and> their_seqnum r' = 9"
  using tcp_delivery [OF net0_ok net0_ok, of "bs ''hi''" 7 "init_allocator mem0" 80 5000 0] mem_start
  by (fastforce simp: init_mini_ip_def MAX_CELLS_def)

definition arp_frame :: "byte list \<Rightarrow> byte list \<Rightarrow> u16 \<Rightarrow> byte list \<Rightarrow> byte list \<Rightarrow> byte list \<Rightarrow> byte list \<Rightarrow> byte list" where
  "arp_frame dest src opcode sha spa tha tpa =
     dest @ src @ [0x08, 0x06] @ [0, 1, 8, 0, 6, 4] @ be16 opcode @ sha @ spa @ tha @ tpa"

lemma write_word32_word32: "write_word32 (word32 [a, b, c, d]) = [a, b, c, d]"
  unfolding write_word32_def list.inject
  by (intro conjI; (rule word8_eqI)?) (simp_all add: all_less_numeral bit_simps)

lemma word32_inj: "length xs = 4 \<Longrightarrow> length ys = 4 \<Longrightarrow> word32 xs = word32 ys \<longleftrightarrow> xs = ys"
  by (metis write_word32_word32 length_4)

lemma arp_fields:
  assumes "length dest = 6" "length src = 6" "length sha = 6" "length spa = 4" "length tha = 6" "length tpa = 4"
    and f: "f = arp_frame dest src opcode sha spa tha tpa @ pad"
  shows "length f = 42 + length pad" "take 2 (drop 12 f) = be16 ETH_TYPE_ARP" "take 2 (drop 20 f) = be16 opcode" "take 4 (drop 38 f) = tpa"
    "take 6 (drop 22 f) = sha" "take 4 (drop 28 f) = spa" "take 6 (drop 6 f) = src"
  using assms(1-6) by (simp_all add: f arp_frame_def be16_def ETH_TYPE_ARP_def)

text \<open>
  C39. An ARP request for the own address is answered with exactly one reply, to the sender, with the own hardware address, and the source
  of the frame is remembered; a request for another address is ignored.
\<close>

theorem arp_request_answered:
  assumes n: "net_ok n" and m: "alloc_inv m" "0 < cells_left m"
    and l: "length dest = 6" "length src = 6" "length sha = 6" "length spa = 4" "length tha = 6" "length tpa = 4" "42 + length pad \<le> PACKET_SIZE"
  shows "\<exists>p n' m'. eth_task (arp_frame dest src ARP_REQUEST sha spa tha tpa @ pad) n m = Some (p, n', m') \<and> received m p [] m' \<and>
    sent n' = sent n @ (if tpa = my_ip then [arp_frame sha my_mac ARP_REPLY my_mac my_ip sha spa] else []) \<and>
    their_mac n' = (if tpa = my_ip then src else their_mac n) \<and> net_ok n'"
proof -
  define f where "f = arp_frame dest src ARP_REQUEST sha spa tha tpa @ pad"
  note fields = arp_fields [OF l(1-6) f_def]
  define rx where "rx = overlay 0 f (rx_packet n)"
  have len: "length f \<le> length (rx_packet n)" using fields(1) l(7) n by (simp add: net_ok_def)
  obtain w x where w: "read_word16 12 rx = Some w" "swap16 w = ETH_TYPE_ARP" "read_word16 20 rx = Some x" "swap16 x = ARP_REQUEST"
    using read_words [OF fields(2) _ len] read_words [OF fields(3) _ len] fields(1) unfolding rx_def by auto
  have b: "bytes_at 38 4 rx = Some tpa" "bytes_at 22 6 rx = Some sha" "bytes_at 28 4 rx = Some spa" "bytes_at 6 6 rx = Some src"
    unfolding rx_def using fields len by (simp_all add: bytes_at_overlay del: overlay_0)
  let ?n = "n\<lparr>rx_packet := rx\<rparr>"
  have rx: "length rx = PACKET_SIZE" using len n by (simp add: rx_def net_ok_def del: overlay_0)
  have "f \<noteq> []" using fields(1) by auto
  then have task: "eth_task f n m = eth_arp ?n m"
    using len w by (simp add: eth_task_def poke_def rx_def [symmetric] del: overlay_0)
  show ?thesis
  proof (cases "tpa = my_ip")
    case True
    let ?ws = "[(0, sha), (6, my_mac), (12, write_word16 (swap16 ETH_TYPE_ARP)),
             (14, write_word16 (swap16 1)), (16, write_word16 (swap16 PROTO_IP)), (18, [6]), (19, [4]),
             (20, write_word16 (swap16 ARP_REPLY)), (22, my_mac), (28, tpa), (32, sha), (38, spa)]"
    let ?g = "arp_frame sha my_mac ARP_REPLY my_mac my_ip sha spa"
    have g: "length ?g = 42" using l by (simp add: arp_frame_def)
    have "concat (map snd ?ws) = ?g" using True by (simp add: arp_frame_def write_swap16) (simp add: be16_def ETH_TYPE_ARP_def PROTO_IP_def)
    then have ws: "pokes ?ws (tx_packet n) = Some (overlay 0 ?g (tx_packet n))"
      using pokes_contiguous [of 0 ?ws "tx_packet n"] l n g True by (simp add: write_swap16 net_ok_def PACKET_SIZE_def del: overlay_0)
    have "ethernet_tx 42 (?n\<lparr>tx_packet := overlay 0 ?g (tx_packet n)\<rparr>) = Some (?n\<lparr>tx_packet := overlay 0 ?g (tx_packet n), sent := sent n @ [?g]\<rparr>)"
      using g n by (simp add: ethernet_tx_def bytes_at_overlay net_ok_def PACKET_SIZE_def del: overlay_0)
    then have "eth_arp ?n m = nothing_received (?n\<lparr>tx_packet := overlay 0 ?g (tx_packet n), sent := sent n @ [?g], their_mac := src\<rparr>) m"
      using w b ws True by (simp add: eth_arp_def del: overlay_0 pokes.simps)
    moreover have "net_ok (?n\<lparr>tx_packet := overlay 0 ?g (tx_packet n), sent := sent n @ [?g], their_mac := src\<rparr>)"
      using n l rx g by (simp add: net_ok_def PACKET_SIZE_def del: overlay_0)
    ultimately show ?thesis using nothing_received_ok [OF m] task True by (fastforce simp: f_def)
  next
    case False
    then have "eth_arp ?n m = nothing_received ?n m" using w b l by (simp add: eth_arp_def word32_inj)
    moreover have "net_ok ?n" using n rx by (simp add: net_ok_def)
    ultimately show ?thesis using nothing_received_ok [OF m] task False by (fastforce simp: f_def)
  qed
qed

theorem arp_request_answered_witness:
  "\<exists>p n' m'. eth_task (arp_frame (replicate 6 0xff) (replicate 6 1) ARP_REQUEST (replicate 6 1) [192, 168, 1, 7] (replicate 6 0) my_ip @ [])
      (init_mini_ip (replicate PACKET_SIZE 0) (replicate PACKET_SIZE 0)) (init_allocator mem0) = Some (p, n', m') \<and>
    sent n' = [arp_frame (replicate 6 1) my_mac ARP_REPLY my_mac my_ip (replicate 6 1) [192, 168, 1, 7]] \<and> their_mac n' = replicate 6 1"
  using arp_request_answered [OF net0_ok, of "init_allocator mem0" "replicate 6 0xff" "replicate 6 1" "replicate 6 1" "[192, 168, 1, 7]" "replicate 6 0" my_ip "[]"]
    mem_start by (fastforce simp: init_mini_ip_def MAX_CELLS_def PACKET_SIZE_def)

text \<open>
  C40. Receiving UDP: a frame whose data lie inside it is returned as a new cell with exactly the data that the length field announces, the
  sender's hardware address is remembered, and nothing is sent. (The length field must be at least 8, which the code does not check.)
\<close>

theorem udp_delivery:
  assumes n: "net_ok n" and f: "length f \<le> PACKET_SIZE" "42 + k \<le> length f" "42 + k < PACKET_SIZE" "take 2 (drop 12 f) = be16 ETH_TYPE_IP"
      "f ! 23 = PROTO_IP_UDP" "take 2 (drop 38 f) = be16 (of_nat (k + 8))"
    and m: "alloc_inv m" "0 < cells_left m"
  shows "\<exists>p n' m'. eth_task f n m = Some (p, n', m') \<and> received m p (take k (drop 42 f)) m' \<and> net_ok n' \<and>
    their_mac n' = take 6 (drop 6 f) \<and> their_ip n' = their_ip n \<and> sent n' = sent n \<and>
    my_seqnum n' = my_seqnum n \<and> their_seqnum n' = their_seqnum n"
proof -
  define rx where "rx = overlay 0 f (rx_packet n)"
  let ?ds = "take k (drop 42 f)"
  have len: "length f \<le> length (rx_packet n)" "length rx = PACKET_SIZE" "length ?ds = k"
    using n f by (simp_all add: net_ok_def rx_def del: overlay_0)
  have k: "unat (of_nat (k + 8) :: u16) = k + 8" by (rule unat_of_nat_u16) (use f(3) in \<open>simp add: PACKET_SIZE_def\<close>)
  obtain w x where w: "read_word16 12 rx = Some w" "swap16 w = ETH_TYPE_IP" "read_word16 38 rx = Some x" "swap16 x = of_nat (k + 8)"
    using read_words [OF f(4) _ len(1)] read_words [OF f(6) _ len(1)] f(2) unfolding rx_def by auto
  have ux: "unat (swap16 x) = k + 8" using k w(4) by simp
  have "(ucast (swap16 x) :: u32) = of_nat (unat (swap16 x))" by simp
  then have uc: "ucast (swap16 x) - 8 = (of_nat k :: u32)" unfolding ux by simp
  have ui: "nat (uint (swap16 x) + 34) = k + 42" using ux by (simp add: uint_nat nat_add_distrib del: of_nat_add)
  have "take 1 (drop 23 f) = [PROTO_IP_UDP]" using f(2,5) by (simp add: take_Suc_conv_app_nth Cons_nth_drop_Suc [symmetric])
  then have b: "bytes_at 23 1 rx = Some [PROTO_IP_UDP]" "bytes_at 6 6 rx = Some (take 6 (drop 6 f))" "bytes_at 42 k rx = Some ?ds"
    unfolding rx_def using f(2) len(1) by (simp_all add: bytes_at_overlay del: overlay_0)
  have e: "eth_task f n m = eth_udp (n\<lparr>rx_packet := rx\<rparr>) m"
  proof -
    have "f \<noteq> []" using f(2) by auto
    then show ?thesis using len(1) w(1,2) b(1) by (simp add: eth_task_def poke_def rx_def [symmetric] ETH_TYPE_IP_def ETH_TYPE_ARP_def del: overlay_0)
  qed
  have pk: "poke (42 + k) [0] rx = Some (overlay (42 + k) [0] rx)" using f(3) len(2) by (simp add: poke_def)
  have "bytes_at 42 k (overlay (42 + k) [0] rx) = Some ?ds" using b(3) f(2,3) len(2) by (simp add: bytes_at_def overlay_def drop_take split: if_splits)
  moreover obtain p m1 m2 c where "alloc_num_bytes (of_nat k) m = Some (p, m1)" "get_cell m1 p = Some c"
    "write_bytes (c_ar c) ?ds m1 = Some m2" "received m p ?ds m2"
    using alloc_num_bytes_received [OF m, of ?ds] f(3) len(3) by (auto simp: PACKET_SIZE_def)
  moreover have "unat (of_nat k :: u32) = k" using f(3) by (simp add: PACKET_SIZE_def)
  ultimately have "eth_udp (n\<lparr>rx_packet := rx\<rparr>) m = Some (p, n\<lparr>rx_packet := overlay (42 + k) [0] rx, their_mac := take 6 (drop 6 f)\<rparr>, m2)"
    using w(3) ux uc ui b(2) pk by (simp add: eth_udp_def Let_def add.commute)
  moreover have "length (overlay (42 + k) [0] rx) = PACKET_SIZE" using f(3) len(2) by (simp add: overlay_def)
  ultimately show ?thesis using e n f(2) \<open>received m p ?ds m2\<close> by (simp add: net_ok_def)
qed

text \<open>A datagram with the data \<open>hi\<close>.\<close>

definition sample_udp :: "byte list" where
  "sample_udp = replicate 6 0xff @ [1, 2, 3, 4, 5, 6] @ [8, 0] @ replicate 9 0 @ [0x11] @ replicate 14 0 @ [0, 10, 0, 0] @ [104, 105]"

theorem udp_delivery_witness:
  "\<exists>p n' m'. eth_task sample_udp (init_mini_ip (replicate PACKET_SIZE 0) (replicate PACKET_SIZE 0)) (init_allocator mem0) = Some (p, n', m') \<and>
    received (init_allocator mem0) p [104, 105] m' \<and> their_mac n' = [1, 2, 3, 4, 5, 6] \<and> sent n' = []"
proof -
  have "length sample_udp \<le> PACKET_SIZE" "42 + 2 \<le> length sample_udp" "42 + 2 < PACKET_SIZE" "take 2 (drop 12 sample_udp) = be16 ETH_TYPE_IP"
    "sample_udp ! 23 = PROTO_IP_UDP" "take 2 (drop 38 sample_udp) = be16 (of_nat (2 + 8))"
    "take 2 (drop 42 sample_udp) = [104, 105]" "take 6 (drop 6 sample_udp) = [1, 2, 3, 4, 5, 6]"
    by (simp_all add: sample_udp_def PACKET_SIZE_def be16_def ETH_TYPE_IP_def PROTO_IP_UDP_def nth_append)
  from udp_delivery [OF net0_ok this(1-6), of "init_allocator mem0"] this(7,8) mem_start show ?thesis
    by (fastforce simp: init_mini_ip_def MAX_CELLS_def)
qed

lemma eth_tcp_syn_ack:
  assumes n: "net_ok n" and f: "f = tcp_frame srcport port (TCP_SYN OR TCP_ACK) seqnum acknum dest ds" "length dest = 4" "length ds \<le> 65482"
    and rx: "rx_packet n = overlay 0 f buf" "length buf = PACKET_SIZE" and m: "alloc_inv m" "0 < cells_left m"
  shows "\<exists>p tx m'. eth_tcp n m = Some (p, n\<lparr>my_seqnum := my_seqnum n + 1, their_seqnum := seqnum + 1, their_mac := router_mac, tx_packet := tx,
      sent := sent n @ [tcp_frame port srcport TCP_ACK (my_seqnum n + 1) (seqnum + 1) (their_ip n) []]\<rparr>, m') \<and>
    length tx = PACKET_SIZE \<and> received m p [] m'"
proof -
  note fields = tcp_frame_fields [OF f(2, 1)]
  have len: "length f \<le> length buf" using fields(1) f(3) rx(2) by (simp add: PACKET_SIZE_def)
  have r: "map_option swap16 (read_word16 16 (overlay 0 f buf)) = Some (of_nat (40 + length ds))"
    "map_option swap16 (read_word16 36 (overlay 0 f buf)) = Some port"
    "map_option swap16 (read_word16 34 (overlay 0 f buf)) = Some srcport"
    "map_option swap32 (read_word32 38 (overlay 0 f buf)) = Some seqnum"
    by (rule read_words read_words32; use fields len in simp)+
  obtain w x y z where w: "read_word16 16 (overlay 0 f buf) = Some w" "read_word16 36 (overlay 0 f buf) = Some x" "swap16 x = port"
    "read_word16 34 (overlay 0 f buf) = Some y" "swap16 y = srcport" "read_word32 38 (overlay 0 f buf) = Some z" "swap32 z = seqnum" using r by auto
  have b: "bytes_at 47 1 (overlay 0 f buf) = Some [TCP_SYN OR TCP_ACK]"
    using fields len by (simp add: bytes_at_overlay del: overlay_0)
  let ?n = "n\<lparr>my_seqnum := my_seqnum n + 1, their_seqnum := seqnum + 1\<rparr>"
  obtain tx where tx: "send_tcp_packet port srcport TCP_ACK (my_seqnum n + 1) (seqnum + 1) [] ?n =
      Some (?n\<lparr>their_mac := router_mac, tx_packet := tx,
        sent := sent n @ [tcp_frame port srcport TCP_ACK (my_seqnum n + 1) (seqnum + 1) (their_ip n) []]\<rparr>)" "length tx = PACKET_SIZE"
    using send_tcp_packet_eq [of ?n "[]" port srcport TCP_ACK "my_seqnum n + 1" "seqnum + 1"] n by (auto simp: net_ok_def)
  let ?n' = "?n\<lparr>their_mac := router_mac, tx_packet := tx,
        sent := sent n @ [tcp_frame port srcport TCP_ACK (my_seqnum n + 1) (seqnum + 1) (their_ip n) []]\<rparr>"
  obtain p m' where "nothing_received ?n' m = Some (p, ?n', m')" "received m p [] m'" using nothing_received_ok [OF m] by blast
  moreover have "eth_tcp n m = nothing_received ?n' m" using w b tx(1) by (simp add: eth_tcp_def rx(1) Let_def del: overlay_0)
  ultimately show ?thesis using tx(2) by (metis (no_types, lifting))
qed

text \<open>
  C38. Opening a connection: \<open>connect_tcp\<close> sends a reset from the old port and a SYN from the next port to the given host; when the answer
  SYN-ACK arrives, \<open>eth_task\<close> sends the ACK that acknowledges its sequence number, from the same port and to the same host.
\<close>

theorem tcp_handshake:
  assumes n: "net_ok n" and host: "length host = 4" and m: "alloc_inv m" "0 < cells_left m"
    and peer: "length dest = 4" "length ds \<le> 65482" "srv = ucast port" "cli = ucast (my_tcp_port n + 1)"
  shows "\<exists>n1 p n2 m'. connect_tcp host port n = Some n1 \<and>
    sent n1 = sent n @ [tcp_frame (ucast (my_tcp_port n)) srv TCP_RST (my_seqnum n + 1) 0 host [], tcp_frame cli srv TCP_SYN (11 + my_seqnum n) 0 host []] \<and>
    eth_task (tcp_frame srv cli (TCP_SYN OR TCP_ACK) seqnum acknum dest ds) n1 m = Some (p, n2, m') \<and>
    sent n2 = sent n1 @ [tcp_frame cli srv TCP_ACK (12 + my_seqnum n) (seqnum + 1) host []] \<and>
    their_seqnum n2 = seqnum + 1 \<and> my_seqnum n2 = 12 + my_seqnum n \<and> my_tcp_port n2 = my_tcp_port n + 1 \<and> their_tcp_port n2 = port \<and> their_ip n2 = host \<and>
    net_ok n2 \<and> received m p [] m'"
proof -
  let ?a = "n\<lparr>their_tcp_port := port, their_ip := host, my_seqnum := my_seqnum n + 1\<rparr>"
  obtain tx where 1: "send_tcp_packet (ucast (my_tcp_port n)) srv TCP_RST (my_seqnum n + 1) 0 [] ?a =
    Some (?a\<lparr>their_mac := router_mac, tx_packet := tx, sent := sent n @ [tcp_frame (ucast (my_tcp_port n)) srv TCP_RST (my_seqnum n + 1) 0 host []]\<rparr>)"
    using send_tcp_packet_eq [of ?a "[]" "ucast (my_tcp_port n)" srv TCP_RST "my_seqnum n + 1" 0] host by auto
  define b where "b = n\<lparr>their_tcp_port := port, their_ip := host, their_mac := router_mac, tx_packet := tx,
    sent := sent n @ [tcp_frame (ucast (my_tcp_port n)) srv TCP_RST (my_seqnum n + 1) 0 host []], my_tcp_port := my_tcp_port n + 1, my_seqnum := 11 + my_seqnum n\<rparr>"
  obtain tx' where 2: "send_tcp_packet cli srv TCP_SYN (11 + my_seqnum n) 0 [] b =
    Some (b\<lparr>their_mac := router_mac, tx_packet := tx', sent := sent b @ [tcp_frame cli srv TCP_SYN (11 + my_seqnum n) 0 host []]\<rparr>)" "length tx' = PACKET_SIZE"
    using send_tcp_packet_eq [of b "[]" cli srv TCP_SYN "11 + my_seqnum n" 0] host by (auto simp: b_def)
  define n1 where "n1 = b\<lparr>their_mac := router_mac, tx_packet := tx', sent := sent b @ [tcp_frame cli srv TCP_SYN (11 + my_seqnum n) 0 host []]\<rparr>"
  have c: "connect_tcp host port n = Some n1"
    using 1 2(1) peer(3, 4) by (simp add: connect_tcp_def Let_def b_def n1_def)
  have ok: "net_ok n1" using n host 2(2) by (simp add: n1_def b_def net_ok_def)
  let ?f = "tcp_frame srv cli (TCP_SYN OR TCP_ACK) seqnum acknum dest ds"
  have len: "length ?f \<le> length (rx_packet n1)" using tcp_frame_fields(1) [OF peer(1) refl] ok peer(2) by (simp add: PACKET_SIZE_def net_ok_def)
  let ?r = "n1\<lparr>rx_packet := overlay 0 ?f (rx_packet n1)\<rparr>"
  have okr: "net_ok ?r" using ok len by (simp add: net_ok_def del: overlay_0)
  then obtain p tx'' m' where "eth_tcp ?r m = Some (p, ?r\<lparr>my_seqnum := my_seqnum ?r + 1, their_seqnum := seqnum + 1, their_mac := router_mac, tx_packet := tx'',
      sent := sent ?r @ [tcp_frame cli srv TCP_ACK (my_seqnum ?r + 1) (seqnum + 1) (their_ip ?r) []]\<rparr>, m')"
    "length tx'' = PACKET_SIZE" "received m p [] m'"
    using eth_tcp_syn_ack [OF okr refl peer(1, 2), of srv cli seqnum acknum "rx_packet n1" m] ok m by (auto simp: net_ok_def)
  then show ?thesis using c eth_task_tcp [OF refl peer(1, 2) ok] okr by (simp add: n1_def b_def net_ok_def add.assoc)
qed

theorem tcp_handshake_witness:
  "\<exists>n1 p n2 m'. connect_tcp [10, 0, 0, 1] 80 (init_mini_ip (replicate PACKET_SIZE 0) (replicate PACKET_SIZE 0)) = Some n1 \<and>
    eth_task (tcp_frame 80 5001 (TCP_SYN OR TCP_ACK) 1000 35 my_ip []) n1 (init_allocator mem0) = Some (p, n2, m') \<and>
    sent n2 = sent n1 @ [tcp_frame 5001 80 TCP_ACK 35 1001 [10, 0, 0, 1] []]"
  using tcp_handshake [OF net0_ok, of "[10, 0, 0, 1]" "init_allocator mem0" my_ip "[]" 80 80 5001 1000 35] mem_start
  by (fastforce simp: init_mini_ip_def MAX_CELLS_def)


end
