(* ===== verification/Spec2Isabelle.thy ===== *)
theory Spec2Isabelle
  imports Repl GC Utf8 StrMap Arm X86 M68k HostFs Network
begin

text \<open>
  A verification library for interim, a Lisp operating environment whose native-code compiler is written in C
  (\<^verbatim>\<open>src/sledge\<close>).

  \<^bold>\<open>The program.\<close> A line of text is turned into cells by the reader; \<open>compile_expr\<close> turns the cells into a list of calls of a
  code generator (\<open>jit_\<close> functions); the generator for x64 prints assembler text; the driver assembles, loads and runs it; the
  printer turns the resulting cell into text. The generators for ARM, x86 and m68k write machine code. All of them share the cell heap with its allocator and mark-and-sweep collector, and
  the global environment, a hash table from names to entries. Streams and filesystems are reached through handlers mounted under
  path prefixes: files of the host, the screen, the keyboard, and TCP connections over a small network stack.

  \<^bold>\<open>Theories.\<close>
  \<^item> \<open>Prelude\<close>: machine integers, C strings as byte lists, the option monad (\<open>None\<close> is an execution without a defined
    continuation), generic lemmas.
  \<^item> \<open>StrMap\<close> (\<^verbatim>\<open>strmap.c\<close>): the hash table, its invariant, that it implements a finite map and that deleting it frees each block once; the locale
    \<open>symbol_table\<close> states what the compiler relies on.
  \<^item> \<open>Utf8\<close> (\<^verbatim>\<open>utf8.c\<close>): encoding and decoding of runes, and the round trip.
  \<^item> \<open>Memory\<close> (\<^verbatim>\<open>minilisp.h\<close>, \<^verbatim>\<open>alloc.h\<close>, \<^verbatim>\<open>stream.h\<close>): words, cells and objects;
    every access is checked.
  \<^item> \<open>Alloc\<close> and \<open>GC\<close> (\<^verbatim>\<open>alloc.c\<close>): constructors, copying, concatenation, substrings; marking, scanning of the
    stack, sweeping. The locale \<open>cell_store\<close> is the contract of a store of cells. What a cell refers to is a relation of its own (\<open>refers\<close>), independent of the
    marking code, and the collector is proved to free exactly what the roots do not reach by it, lambdas apart.
  \<^item> \<open>FileStream\<close> (\<^verbatim>\<open>stream.c\<close>): mounting, opening, reading, writing; handlers are parameters.
  \<^item> \<open>Reader\<close>, \<open>Reading\<close> (\<^verbatim>\<open>reader.c\<close>): the character state machine, and a grammar of the texts it accepts
    with a proof that it builds the structure the grammar assigns. The reader leaves its field \<open>valuestate\<close> uninitialised: it is an argument, and the
    theorems say for which texts its contents matter.
  \<^item> \<open>Writer\<close>, \<open>Roundtrip\<close> (\<^verbatim>\<open>writer.c\<close>): the printer with the capacity of its buffers; reading what was printed.
  \<^item> \<open>Jit\<close>, \<open>Jit_X64\<close>, \<open>X64\<close> (\<^verbatim>\<open>jit_x64.c\<close>): the interface of the code generators, the text each \<open>jit_\<close> function
    prints, the instructions of that text and a machine that executes them.
  \<^item> \<open>Frames\<close>, \<open>Compiler\<close>, \<open>Environment\<close> (\<^verbatim>\<open>compiler_new.c\<close>): frames and argument descriptors; the whole of
    \<open>compile_expr\<close> and \<open>init_compiler\<close>; the global environment as a map and what the initialisation establishes.
  \<^item> \<open>Arith\<close>: correctness of the compiled code for integer expressions with respect to the documented meaning \<open>eval\<close>. The comparisons \<open>gt\<close> and
    \<open>lt\<close> are documented to return 1 or 0 but return a difference: they are left out of the theorems about values, and one theorem states what
    they compute.
  \<^item> \<open>Repl\<close> (\<^verbatim>\<open>sledge.c\<close>, \<^verbatim>\<open>compiler_x64_hosted.c\<close>): the driver, the loop of \<open>main\<close> over the bytes of its input and \<open>platform_eval\<close>, with
    what they print, and the theorems about the whole system, among them that the static type of an expression describes the value at run time.
  \<^item> \<open>Jit_Arm\<close>, \<open>Arm\<close> (\<^verbatim>\<open>jit_arm_raw.c\<close>): the words the ARM generator writes, a decoder for them, and the
    proof that the one pass with patched branches leaves the program of a two-pass assembler.
  \<^item> \<open>Bytegen\<close>, \<open>Jit_X86\<close>, \<open>X86\<close>, \<open>Jit_M68k\<close>, \<open>M68k\<close> (\<^verbatim>\<open>jit_x86.c\<close>, \<^verbatim>\<open>jit_m68k.c\<close>): the
    same for the two generators that write bytes. The locales \<open>branch_fixups\<close> and \<open>assembler\<close> hold the argument, and each generator is an interpretation
    with its decoder.
  \<^item> \<open>HostFs\<close> (\<^verbatim>\<open>posixfs.c\<close>, \<^verbatim>\<open>fbfs.c\<close>, \<^verbatim>\<open>dev_linuxfb.c\<close>, \<^verbatim>\<open>dev_consolekeys.c\<close>): the handlers of these
    filesystems, and what reading files through streams returns.
  \<^item> \<open>MiniIp\<close>, \<open>Network\<close> (\<^verbatim>\<open>mini-ip.c\<close>, \<^verbatim>\<open>dev_ethernet.c\<close>): ARP, UDP and TCP on frames as byte lists; checksums,
    packets that are valid by the rules of IP and TCP (\<open>verifies\<close> and \<open>pseudo_header\<close> are independent of the code), the handshake and the delivery of data.

  \<^bold>\<open>State.\<close> Global variables of the C code are fields of the record \<open>mem\<close> (heap, free list, blocks, streams, mounts) or of the records \<open>comp\<close>
  (a compilation: memory, environment, emitted code, label counter, frame), \<open>mach\<close> (the processor), \<open>sys\<close> and \<open>repl\<close>, \<open>arm\<close> and \<open>gen\<close>
  (code generators), and \<open>net\<close> (the network stack). A function that
  changes them returns the new record.

  \<^bold>\<open>Fuel.\<close> Functions that recurse over cells (\<open>alloc_clone\<close>, \<open>mark_tree\<close>, \<open>write_cell\<close>, \<open>analyze_fn\<close>, \<open>compile_expr\<close>) take fuel
  for the depth, since cells may form cycles; the theorems show that the depth of the structure is enough. \<open>run\<close> takes the number of
  machine steps; the theorems prove that some number is enough and more changes nothing.

  \<^bold>\<open>Parameters.\<close> The handlers a filesystem calls (\<open>call2\<close>), the files of the host (\<open>posix_host\<close>), the addresses of
  C functions and objects that code generators embed, received network frames, the host of the processor, and what the driver and the loop take from their platform (the
  text of a pointer, the size of an assembled listing, the success of \<open>mprotect\<close>, the uninitialised state of the reader) are arguments of the definitions.
  \<open>malloc\<close> succeeds for a size that is not negative, except in \<open>StrMap\<close>, where its failure is modelled; when the cells are used up the
  program prints a message and exits, and the model has no result.

  \<^bold>\<open>Output.\<close> What is printed is followed in the loop, the driver, \<open>platform_eval\<close> and \<open>insert_symbol\<close>; messages of other functions (greetings, the diagnostics of
  \<open>compile_expr\<close>, the traces of the network stack) are not.

  \<^bold>\<open>Not modelled.\<close> The external assembler (\<open>as\<close>, \<open>objcopy\<close>, \<open>nm\<close>): the instructions are what the listing says. The execution of ARM, x86 and m68k
  code: the decoders say which instructions the bytes are. The other device drivers and boards under \<^verbatim>\<open>src/devices\<close>, which are input and output on
  hardware, \<^verbatim>\<open>fatfs.c\<close>, which passes requests on to FatFs, the third-party code there (FatFs, rpi-boot, USPi) and under \<^verbatim>\<open>src/codecs\<close>, and \<^verbatim>\<open>src/sledge/legacy\<close>, which is not built.
\<close>

end
